(* ===== verification/Prelude.thy ===== *)
theory Prelude
  imports
    "HOL-Library.Word"
    "HOL-Library.Char_ord"
    "HOL-Library.List_Lexorder"
    "HOL-Library.Product_Lexorder"
begin

text \<open>
  Shared vocabulary of the development: the machine integer types of the Rust
  code, sequencing of fallible and of stateful computations (\<open>?\<close> in the source),
  big-endian byte encodings (\<open>to_be_bytes\<close>, \<open>from_be_bytes\<close>), decimal printing and
  parsing (\<open>to_string\<close>, \<open>str::parse\<close>), and checked arithmetic.  The lemma
  collections \<open>codec_simps\<close>, \<open>res_simps\<close> and \<open>width_simps\<close> carry the component proofs.
\<close>

named_theorems codec_simps \<open>round trips of encoders and decoders\<close>
named_theorems res_simps \<open>unfolding of the result and io combinators\<close>
named_theorems width_simps \<open>unsigned readings of machine integers\<close>

section \<open>Machine integers\<close>

type_synonym u8 = "8 word"
type_synonym u32 = "32 word"
type_synonym u64 = "64 word"
type_synonym bytes = "u8 list"
type_synonym address = "160 word"
type_synonym b256 = "256 word"

text \<open>Rust's \<open>checked_add\<close> and \<open>checked_sub\<close>.\<close>

definition checked_add :: "'a::len word \<Rightarrow> 'a word \<Rightarrow> 'a word option" where
  "checked_add a b = (if unat a + unat b < 2 ^ LENGTH('a) then Some (a + b) else None)"

definition checked_sub :: "'a::len word \<Rightarrow> 'a word \<Rightarrow> 'a word option" where
  "checked_sub a b = (if b \<le> a then Some (a - b) else None)"

definition saturating_add :: "'a::len word \<Rightarrow> 'a word \<Rightarrow> 'a word" where
  "saturating_add a b = (if unat a + unat b < 2 ^ LENGTH('a) then a + b else - 1)"

definition saturating_sub :: "'a::len word \<Rightarrow> 'a word \<Rightarrow> 'a word" where
  "saturating_sub a b = (if b \<le> a then a - b else 0)"

lemma checked_add_SomeD:
  "checked_add a b = Some c \<Longrightarrow> unat c = unat a + unat b \<and> c = a + b"
  by (auto simp: checked_add_def unat_word_ariths split: if_splits)

lemma checked_sub_one:
  "checked_sub (a::'a::len word) 1 = (if a = 0 then None else Some (a - 1))"
  by (simp add: checked_sub_def not_less [symmetric])

lemma unat_sub_one: "(a::'a::len word) \<noteq> 0 \<Longrightarrow> unat (a - 1) = unat a - 1"
  by (simp add: unat_minus_one)

lemma unat_add_nat:
  "unat (a::'a::len word) + i < 2 ^ LENGTH('a) \<Longrightarrow> unat (a + of_nat i) = unat a + i"
  by (simp add: unat_word_ariths unat_of_nat)

lemma unat_of_nat_small [width_simps]:
  "n < 2 ^ LENGTH('a) \<Longrightarrow> unat (of_nat n :: 'a::len word) = n"
  by (simp add: unat_of_nat)

section \<open>Results and stateful computations\<close>

text \<open>\<open>Result<T, E>\<close> is \<open>'e + 'a\<close> with the error on the left; \<open>?\<close> is \<open>res_bind\<close>.\<close>

definition res_bind :: "'e + 'a \<Rightarrow> ('a \<Rightarrow> 'e + 'b) \<Rightarrow> 'e + 'b" where
  "res_bind r k = (case r of Inl e \<Rightarrow> Inl e | Inr a \<Rightarrow> k a)"

definition ok_or :: "'a option \<Rightarrow> 'e \<Rightarrow> 'e + 'a" where
  "ok_or x e = (case x of None \<Rightarrow> Inl e | Some a \<Rightarrow> Inr a)"

definition map_err :: "('e \<Rightarrow> 'f) \<Rightarrow> 'e + 'a \<Rightarrow> 'f + 'a" where
  "map_err f r = (case r of Inl e \<Rightarrow> Inl (f e) | Inr a \<Rightarrow> Inr a)"

text \<open>\<open>Option<Result>::transpose\<close> after a \<open>map\<close>.\<close>

definition map_transpose :: "('a \<Rightarrow> 'e + 'b) \<Rightarrow> 'a option \<Rightarrow> 'e + 'b option" where
  "map_transpose f x =
     (case x of None \<Rightarrow> Inr None | Some a \<Rightarrow> res_bind (f a) (\<lambda>b. Inr (Some b)))"

text \<open>\<open>iter().map(f).collect::<Result<_, _>>()\<close>: the first error wins.\<close>

fun map_res :: "('a \<Rightarrow> 'e + 'b) \<Rightarrow> 'a list \<Rightarrow> 'e + 'b list" where
  "map_res f [] = Inr []"
| "map_res f (x # xs) = res_bind (f x) (\<lambda>y. res_bind (map_res f xs) (\<lambda>ys. Inr (y # ys)))"

fun fold_res :: "('s \<Rightarrow> 'a \<Rightarrow> 'e + 's) \<Rightarrow> 's \<Rightarrow> 'a list \<Rightarrow> 'e + 's" where
  "fold_res f s [] = Inr s"
| "fold_res f s (x # xs) = res_bind (f s x) (\<lambda>s'. fold_res f s' xs)"

lemma res_bind_simps [simp, res_simps]:
  "res_bind (Inl e) k = Inl e"
  "res_bind (Inr a) k = k a"
  by (simp_all add: res_bind_def)

lemma res_bind_Inr_iff:
  "res_bind r k = Inr b \<longleftrightarrow> (\<exists>a. r = Inr a \<and> k a = Inr b)"
  by (cases r) auto

lemma res_bind_Inl_iff:
  "res_bind r k = Inl e \<longleftrightarrow> r = Inl e \<or> (\<exists>a. r = Inr a \<and> k a = Inl e)"
  by (cases r) auto

lemma ok_or_simps [simp, res_simps]:
  "ok_or None e = Inl e" "ok_or (Some a) e = Inr a"
  by (simp_all add: ok_or_def)

lemma ok_or_Inr_iff [simp]: "ok_or x e = Inr a \<longleftrightarrow> x = Some a"
  by (cases x) auto

lemma map_err_simps [simp, res_simps]:
  "map_err f (Inl e) = Inl (f e)" "map_err f (Inr a) = Inr a"
  by (simp_all add: map_err_def)

lemma map_transpose_simps [simp, res_simps]:
  "map_transpose f None = Inr None"
  "map_transpose f (Some a) = res_bind (f a) (\<lambda>b. Inr (Some b))"
  by (simp_all add: map_transpose_def)

lemma map_res_Inr_iff:
  "map_res f xs = Inr ys \<longleftrightarrow> list_all2 (\<lambda>x y. f x = Inr y) xs ys"
  by (induction xs arbitrary: ys)
     (auto simp: res_bind_Inr_iff list_all2_Cons1)

lemma map_res_total:
  "(\<And>x. x \<in> set xs \<Longrightarrow> f x = Inr (g x)) \<Longrightarrow> map_res f xs = Inr (map g xs)"
  by (induction xs) auto

lemma map_res_cong [fundef_cong]:
  "xs = ys \<Longrightarrow> (\<And>x. x \<in> set ys \<Longrightarrow> f x = g x) \<Longrightarrow> map_res f xs = map_res g ys"
  by (induction ys arbitrary: xs) auto

lemma map_res_length: "map_res f xs = Inr ys \<Longrightarrow> length ys = length xs"
  by (auto simp: map_res_Inr_iff dest: list_all2_lengthD)

lemma fold_res_append:
  "fold_res f s (xs @ ys) = res_bind (fold_res f s xs) (\<lambda>s'. fold_res f s' ys)"
proof (induction xs arbitrary: s)
  case (Cons x xs)
  then show ?case by (cases "f s x") auto
qed simp

text \<open>
  A call that reads or writes the outside world \<open>'w\<close> (a store) is a function from the
  world to a result and the world after it; the world is returned on errors too.
\<close>

type_synonym ('w, 'e, 'a) io = "'w \<Rightarrow> ('e + 'a) \<times> 'w"

definition io_lift :: "'e + 'a \<Rightarrow> ('w, 'e, 'a) io" where
  "io_lift r w = (r, w)"

definition io_bind :: "('w, 'e, 'a) io \<Rightarrow> ('a \<Rightarrow> ('w, 'e, 'b) io) \<Rightarrow> ('w, 'e, 'b) io" where
  "io_bind m k w = (case m w of (Inl e, w') \<Rightarrow> (Inl e, w') | (Inr a, w') \<Rightarrow> k a w')"

fun io_map :: "('a \<Rightarrow> ('w, 'e, 'b) io) \<Rightarrow> 'a list \<Rightarrow> ('w, 'e, 'b list) io" where
  "io_map f [] = io_lift (Inr [])"
| "io_map f (x # xs) = io_bind (f x) (\<lambda>y. io_bind (io_map f xs) (\<lambda>ys. io_lift (Inr (y # ys))))"

fun io_each :: "('a \<Rightarrow> ('w, 'e, unit) io) \<Rightarrow> 'a list \<Rightarrow> ('w, 'e, unit) io" where
  "io_each f [] = io_lift (Inr ())"
| "io_each f (x # xs) = io_bind (f x) (\<lambda>_. io_each f xs)"

lemma io_lift_apply [simp, res_simps]: "io_lift r w = (r, w)"
  by (simp add: io_lift_def)

lemma io_bind_eqs [res_simps]:
  "m w = (Inl e, w') \<Longrightarrow> io_bind m k w = (Inl e, w')"
  "m w = (Inr a, w') \<Longrightarrow> io_bind m k w = k a w'"
  by (simp_all add: io_bind_def)

lemma io_bind_lift [simp, res_simps]:
  "io_bind (io_lift (Inr a)) k = k a"
  "io_bind (io_lift (Inl e)) k = io_lift (Inl e)"
  by (simp_all add: io_bind_def fun_eq_iff)

lemma io_bind_Inr_iff:
  "io_bind m k w = (Inr b, w'') \<longleftrightarrow> (\<exists>a w'. m w = (Inr a, w') \<and> k a w' = (Inr b, w''))"
  by (auto simp: io_bind_def split: prod.splits sum.splits)

lemma io_bind_Inl_iff:
  "io_bind m k w = (Inl e, w'') \<longleftrightarrow>
     m w = (Inl e, w'') \<or> (\<exists>a w'. m w = (Inr a, w') \<and> k a w' = (Inl e, w''))"
  by (auto simp: io_bind_def split: prod.splits sum.splits)

lemma io_bind_cases:
  assumes "io_bind m k w = (r, w')"
  obtains (fail) e where "m w = (Inl e, w')" "r = Inl e"
  | (ok) a w1 where "m w = (Inr a, w1)" "k a w1 = (r, w')"
  using assms by (auto simp: io_bind_def split: prod.splits sum.splits)

text \<open>A loop of calls: each keeps \<open>P\<close> and relates its argument to its result by \<open>Q\<close>.\<close>

lemma io_map_inv:
  assumes "\<And>x w r w'. \<lbrakk>x \<in> set xs; P w; f x w = (r, w')\<rbrakk> \<Longrightarrow> P w' \<and> (\<forall>y. r = Inr y \<longrightarrow> Q x y)"
    and "P w" "io_map f xs w = (r, w')"
  shows "P w' \<and> (\<forall>ys. r = Inr ys \<longrightarrow> list_all2 Q xs ys)"
  using assms
proof (induction xs arbitrary: w r w')
  case (Cons x xs)
  obtain r1 w1 where 1: "f x w = (r1, w1)" by (meson surj_pair)
  have p1: "P w1" "\<forall>y. r1 = Inr y \<longrightarrow> Q x y"
    using Cons.prems(1) [OF _ Cons.prems(2) 1] by auto
  show ?case
  proof (cases r1)
    case (Inl e)
    with 1 Cons.prems(3) p1 show ?thesis by (auto simp: io_bind_def)
  next
    case (Inr y)
    obtain r2 w2 where 2: "io_map f xs w1 = (r2, w2)" by (meson surj_pair)
    have "P w2 \<and> (\<forall>ys. r2 = Inr ys \<longrightarrow> list_all2 Q xs ys)"
      using Cons.IH [OF _ p1(1) 2] Cons.prems(1) by auto
    with 1 2 Inr p1 Cons.prems(3) show ?thesis by (cases r2) (auto simp: io_bind_def)
  qed
qed auto

text \<open>The same with results that later calls do not undo: \<open>L\<close> relates the worlds.\<close>

lemma io_map_rel:
  assumes "\<And>x w r w'. \<lbrakk>x \<in> set xs; P w; f x w = (r, w')\<rbrakk> \<Longrightarrow>
      P w' \<and> L w w' \<and> (\<forall>y. r = Inr y \<longrightarrow> Q x y w')"
    and refl: "\<And>w. L w w" and trans: "\<And>a b c. L a b \<Longrightarrow> L b c \<Longrightarrow> L a c"
    and stable: "\<And>x y a b. Q x y a \<Longrightarrow> L a b \<Longrightarrow> Q x y b"
    and "P w" "io_map f xs w = (r, w')"
  shows "P w' \<and> L w w' \<and> (\<forall>ys. r = Inr ys \<longrightarrow> list_all2 (\<lambda>x y. Q x y w') xs ys)"
  using assms(1,5,6)
proof (induction xs arbitrary: w r w')
  case Nil
  then show ?case using refl by auto
next
  case (Cons x xs)
  from Cons.prems(3) [unfolded io_map.simps] show ?case
  proof (cases rule: io_bind_cases)
    case (fail e)
    with Cons.prems(1) [OF _ Cons.prems(2) fail(1)] show ?thesis by auto
  next
    case (ok y w1)
    have 1: "P w1" "L w w1" "Q x y w1" using Cons.prems(1) [OF _ Cons.prems(2) ok(1)] by auto
    obtain r2 w2 where 2: "io_map f xs w1 = (r2, w2)" by (meson surj_pair)
    have 3: "P w2 \<and> L w1 w2 \<and> (\<forall>ys. r2 = Inr ys \<longrightarrow> list_all2 (\<lambda>x y. Q x y w2) xs ys)"
      using Cons.IH [OF _ 1(1) 2] Cons.prems(1) by auto
    then have "L w w2" "Q x y w2" using 1 trans stable by blast+
    with 2 3 ok(2) show ?thesis by (cases r2) (auto simp: io_bind_def)
  qed
qed

text \<open>A loop of calls that all succeed.\<close>

lemma io_map_ok:
  assumes "\<And>x w r w'. \<lbrakk>x \<in> set xs; P w; f x w = (r, w')\<rbrakk> \<Longrightarrow> P w' \<and> (\<exists>y. r = Inr y)"
    and "P w" "io_map f xs w = (r, w')"
  shows "\<exists>ys. r = Inr ys"
  using assms
proof (induction xs arbitrary: w r w')
  case (Cons x xs)
  from Cons.prems(3) [unfolded io_map.simps] show ?case
  proof (cases rule: io_bind_cases)
    case (fail e)
    with Cons.prems(1) [OF _ Cons.prems(2) fail(1)] show ?thesis by simp
  next
    case (ok y w1)
    have "P w1" using Cons.prems(1) [OF _ Cons.prems(2) ok(1)] by simp
    then have "\<exists>ys. r1 = Inr ys" if "io_map f xs w1 = (r1, w2)" for r1 w2
      using Cons.IH [OF _ _ that] Cons.prems(1) by (meson list.set_intros(2))
    with ok(2) show ?thesis by (cases rule: io_bind_cases) auto
  qed
qed auto

lemma io_map_map: "io_map f (map g xs) = io_map (\<lambda>x. f (g x)) xs"
  by (induction xs) (simp_all add: comp_def)

lemma list_all2_choose:
  "list_all2 (\<lambda>x y. \<exists>p. P p x \<and> Q p y) xs ys \<Longrightarrow> \<exists>ps. list_all2 P ps xs \<and> list_all2 Q ps ys"
proof (induction rule: list_all2_induct)
  case (Cons x xs y ys)
  then obtain p ps where "P p x" "Q p y" "list_all2 P ps xs" "list_all2 Q ps ys" by blast
  then have "list_all2 P (p # ps) (x # xs)" "list_all2 Q (p # ps) (y # ys)" by simp_all
  then show ?case by blast
qed simp

lemma list_all2_eq_map: "list_all2 (\<lambda>x y. y = f x \<and> R x) xs ys \<longleftrightarrow> ys = map f xs \<and> list_all R xs"
  by (induction xs arbitrary: ys) (auto simp: list_all2_Cons1)

section \<open>Big-endian byte encodings\<close>

fun be_bytes :: "nat \<Rightarrow> nat \<Rightarrow> bytes" where
  "be_bytes 0 n = []"
| "be_bytes (Suc k) n = be_bytes k (n div 256) @ [of_nat n]"

definition from_be :: "bytes \<Rightarrow> nat" where
  "from_be bs = foldl (\<lambda>a b. a * 256 + unat b) 0 bs"

lemma length_be_bytes [simp]: "length (be_bytes k n) = k"
  by (induction k arbitrary: n) auto

lemma from_be_Nil [simp]: "from_be [] = 0"
  by (simp add: from_be_def)

lemma from_be_snoc [simp]: "from_be (bs @ [b]) = from_be bs * 256 + unat b"
  by (simp add: from_be_def)

lemma from_be_be_bytes [codec_simps]: "from_be (be_bytes k n) = n mod 256 ^ k"
proof (induction k arbitrary: n)
  case (Suc k)
  have "unat (of_nat n :: u8) = n mod 256"
    by (simp add: unat_of_nat)
  then have "from_be (be_bytes (Suc k) n) = (n div 256) mod 256 ^ k * 256 + n mod 256"
    using Suc by simp
  also have "\<dots> = n mod (256 * 256 ^ k)"
    by (simp add: mod_mult2_eq algebra_simps)
  finally show ?case by simp
qed simp

lemma be_bytes_from_be [codec_simps]: "be_bytes (length bs) (from_be bs) = bs"
proof (induction bs rule: rev_induct)
  case (snoc b bs)
  have "(from_be bs * 256 + unat b) div 256 = from_be bs"
    using unsigned_less [of b, where ?'a = nat] by simp
  moreover have "(of_nat (from_be bs * 256 + unat b) :: u8) = b"
  proof -
    have "(256 :: u8) = 0" by simp
    then have "(of_nat (from_be bs * 256) :: u8) = 0"
      by (simp only: of_nat_mult of_nat_numeral mult_zero_right)
    then show ?thesis by simp
  qed
  ultimately show ?case using snoc by simp
qed simp

lemma from_be_less: "from_be bs < 256 ^ length bs"
proof -
  have "from_be bs = from_be bs mod 256 ^ length bs"
    using from_be_be_bytes [of "length bs" "from_be bs"] by (simp add: be_bytes_from_be)
  then show ?thesis
    by (metis mod_less_divisor zero_less_numeral zero_less_power)
qed

text \<open>\<open>to_be_bytes\<close> and \<open>from_be_bytes\<close> at the widths the code uses.\<close>

definition word_to_be :: "'a::len word \<Rightarrow> bytes" where
  "word_to_be w = be_bytes (LENGTH('a) div 8) (unat w)"

definition word_from_be :: "bytes \<Rightarrow> 'a::len word" where
  "word_from_be bs = of_nat (from_be bs)"

lemma length_word_to_be [simp]: "length (word_to_be (w :: 'a::len word)) = LENGTH('a) div 8"
  by (simp add: word_to_be_def)

lemma pow_256_bytes:
  assumes "8 dvd LENGTH('a::len)"
  shows "(256 :: nat) ^ (LENGTH('a) div 8) = 2 ^ LENGTH('a)"
proof -
  have "(256 :: nat) ^ (LENGTH('a) div 8) = (2 ^ 8) ^ (LENGTH('a) div 8)"
    by simp
  also have "\<dots> = 2 ^ LENGTH('a)"
    using assms by (simp only: power_mult [symmetric] dvd_mult_div_cancel)
  finally show ?thesis .
qed

lemma word_from_to_be [simp, codec_simps]:
  assumes "8 dvd LENGTH('a::len)"
  shows "word_from_be (word_to_be (w :: 'a word)) = w"
proof -
  have "(256 :: nat) ^ (LENGTH('a) div 8) = 2 ^ LENGTH('a)"
    using assms by (rule pow_256_bytes)
  then show ?thesis
    by (simp add: word_from_be_def word_to_be_def from_be_be_bytes unsigned_less)
qed


lemma word_to_from_be [codec_simps]:
  assumes "8 dvd LENGTH('a::len)" "length bs = LENGTH('a) div 8"
  shows "word_to_be (word_from_be bs :: 'a word) = bs"
proof -
  have "(256 :: nat) ^ length bs = 2 ^ LENGTH('a)"
    using assms pow_256_bytes by metis
  then have "from_be bs < 2 ^ LENGTH('a)"
    using from_be_less [of bs] by simp
  then show ?thesis
    using assms(2) be_bytes_from_be [of bs]
    by (simp add: word_to_be_def word_from_be_def unat_of_nat_small)
qed

lemma word_to_be_inject [simp]:
  "8 dvd LENGTH('a::len) \<Longrightarrow> word_to_be (v :: 'a word) = word_to_be w \<longleftrightarrow> v = w"
  by (metis word_from_to_be)

section \<open>Decimal strings\<close>

definition digit_char :: "nat \<Rightarrow> char" where
  "digit_char d = char_of (48 + d)"

definition char_digit :: "char \<Rightarrow> nat option" where
  "char_digit c = (let n = of_char c in if 48 \<le> n \<and> n \<le> 57 then Some (n - 48) else None)"

fun to_decimal :: "nat \<Rightarrow> string" where
  "to_decimal n =
     (if n < 10 then [digit_char n] else to_decimal (n div 10) @ [digit_char (n mod 10)])"

declare to_decimal.simps [simp del]

fun digits_value :: "nat \<Rightarrow> string \<Rightarrow> nat option" where
  "digits_value acc [] = Some acc"
| "digits_value acc (c # cs) =
     (case char_digit c of None \<Rightarrow> None | Some d \<Rightarrow> digits_value (acc * 10 + d) cs)"

text \<open>
  \<open>str::parse\<close> for an unsigned type with values below \<open>bound\<close>: an optional plus sign, at
  least one digit, no overflow.
\<close>

definition parse_unsigned :: "nat \<Rightarrow> string \<Rightarrow> nat option" where
  "parse_unsigned bound s =
     (let ds = (case s of [] \<Rightarrow> [] | c # cs \<Rightarrow> if c = CHR ''+'' then cs else s)
      in if ds = [] then None
         else case digits_value 0 ds of
                None \<Rightarrow> None
              | Some n \<Rightarrow> if n < bound then Some n else None)"

definition parse_word :: "string \<Rightarrow> 'a::len word option" where
  "parse_word s = map_option of_nat (parse_unsigned (2 ^ LENGTH('a)) s)"

text \<open>\<open>str::parse::<i128>\<close>: a sign is optional, the value lies in the signed range.\<close>

definition parse_i128 :: "string \<Rightarrow> int option" where
  "parse_i128 s =
     (let neg = (case s of [] \<Rightarrow> False | c # cs \<Rightarrow> c = CHR ''-'');
          ds = (case s of [] \<Rightarrow> [] | c # cs \<Rightarrow>
                  if c = CHR ''+'' \<or> c = CHR ''-'' then cs else s)
      in if ds = [] then None
         else case digits_value 0 ds of
                None \<Rightarrow> None
              | Some n \<Rightarrow>
                  if neg then (if n \<le> 2 ^ 127 then Some (- int n) else None)
                  else if n < 2 ^ 127 then Some (int n) else None)"

definition word_to_string :: "'a::len word \<Rightarrow> string" where
  "word_to_string w = to_decimal (unat w)"

lemma char_digit_digit_char [simp]: "d < 10 \<Longrightarrow> char_digit (digit_char d) = Some d"
  by (simp add: char_digit_def digit_char_def Let_def)

lemma char_digit_plus: "char_digit CHR ''+'' = None"
  and char_digit_minus: "char_digit CHR ''-'' = None"
  by (simp_all add: char_digit_def Let_def)

lemma digits_value_append:
  "digits_value acc (xs @ ys) =
     (case digits_value acc xs of None \<Rightarrow> None | Some n \<Rightarrow> digits_value n ys)"
  by (induction xs arbitrary: acc) (auto split: option.splits)

lemma digits_value_to_decimal [codec_simps]: "digits_value 0 (to_decimal n) = Some n"
proof (induction n rule: to_decimal.induct)
  case (1 n)
  show ?case
  proof (cases "n < 10")
    case True
    then show ?thesis by (simp add: to_decimal.simps [of n])
  next
    case False
    with 1 show ?thesis
      by (simp add: to_decimal.simps [of n] digits_value_append)
  qed
qed

lemma to_decimal_nonempty [simp]: "to_decimal n \<noteq> []"
  by (subst to_decimal.simps) simp

lemma digit_char_not_sign:
  "d < 10 \<Longrightarrow> digit_char d \<noteq> CHR ''+'' \<and> digit_char d \<noteq> CHR ''-''"
  by (metis char_digit_digit_char char_digit_plus char_digit_minus option.distinct(1))

lemma to_decimal_hd:
  "\<exists>d cs. to_decimal n = digit_char d # cs \<and> d < 10"
proof (induction n rule: to_decimal.induct)
  case (1 n)
  then show ?case
    by (cases "n < 10") (auto simp: to_decimal.simps [of n])
qed

lemma parse_unsigned_to_decimal [codec_simps]:
  "parse_unsigned bound (to_decimal n) = (if n < bound then Some n else None)"
proof -
  obtain d cs where "to_decimal n = digit_char d # cs" "d < 10"
    using to_decimal_hd by blast
  then show ?thesis
    using digits_value_to_decimal [of n] digit_char_not_sign [of d]
    by (simp add: parse_unsigned_def Let_def del: digits_value.simps)
qed

lemma parse_i128_to_decimal [codec_simps]:
  "n < 2 ^ 127 \<Longrightarrow> parse_i128 (to_decimal n) = Some (int n)"
proof -
  assume n: "n < 2 ^ 127"
  obtain d cs where "to_decimal n = digit_char d # cs" "d < 10"
    using to_decimal_hd by blast
  then show ?thesis
    using n digits_value_to_decimal [of n] digit_char_not_sign [of d]
    by (simp add: parse_i128_def Let_def del: digits_value.simps)
qed

lemma to_decimal_inject [simp]: "to_decimal m = to_decimal n \<longleftrightarrow> m = n"
  by (metis digits_value_to_decimal option.inject)

lemma parse_word_to_string [simp, codec_simps]:
  "parse_word (word_to_string (w :: 'a::len word)) = Some w"
  by (simp add: parse_word_def word_to_string_def parse_unsigned_to_decimal unsigned_less)

lemma parse_word_to_decimal [codec_simps]:
  "parse_word (to_decimal n) =
     (if n < 2 ^ LENGTH('a) then Some (of_nat n :: 'a::len word) else None)"
  by (simp add: parse_word_def parse_unsigned_to_decimal)

lemma word_to_string_inject [simp]:
  "word_to_string (v :: 'a::len word) = word_to_string w \<longleftrightarrow> v = w"
  by (simp add: word_to_string_def word_unat_eq_iff)

lemma parse_i128_u64 [simp, codec_simps]:
  "parse_i128 (word_to_string (w :: u64)) = Some (int (unat w))"
proof -
  have "unat w < 2 ^ 64" using unsigned_less [of w, where ?'a = nat] by simp
  also have "\<dots> < (2 :: nat) ^ 127" by simp
  finally show ?thesis by (simp add: word_to_string_def parse_i128_to_decimal)
qed

end
