(* ===== verification/Btree_Map.thy ===== *)
theory Btree_Map
  imports Prelude
begin

text \<open>
  Rust's \<open>Ord\<close> and \<open>BTreeMap\<close>, as the in-memory stores and the writer use them.  A
  \<open>BTreeMap\<close> with a comparison \<open>cmp\<close> is its in-order list of entries; insertion keeps
  the place of an equal key and replaces its value.  The locale \<open>comparator\<close> is what
  \<open>Ord\<close> promises on a set of keys (a \<open>cmp\<close> of \<open>Equal\<close> is equality, the order is
  antisymmetric and transitive); the laws of the map operations are proved in it once.
\<close>

section \<open>Comparisons\<close>

datatype ordering = Less | Equal | Greater

definition cmp_lin :: "'a::linorder \<Rightarrow> 'a \<Rightarrow> ordering" where
  "cmp_lin a b = (if a < b then Less else if a = b then Equal else Greater)"

fun then_with :: "ordering \<Rightarrow> ordering \<Rightarrow> ordering" where
  "then_with Equal o' = o'"
| "then_with Less o' = Less"
| "then_with Greater o' = Greater"

text \<open>The lexicographic comparison of slices.\<close>

fun cmp_list :: "('a \<Rightarrow> 'a \<Rightarrow> ordering) \<Rightarrow> 'a list \<Rightarrow> 'a list \<Rightarrow> ordering" where
  "cmp_list c [] [] = Equal"
| "cmp_list c [] (y # ys) = Less"
| "cmp_list c (x # xs) [] = Greater"
| "cmp_list c (x # xs) (y # ys) = then_with (c x y) (cmp_list c xs ys)"

definition cmp_pair ::
  "('a \<Rightarrow> 'a \<Rightarrow> ordering) \<Rightarrow> ('b \<Rightarrow> 'b \<Rightarrow> ordering) \<Rightarrow> 'a \<times> 'b \<Rightarrow> 'a \<times> 'b \<Rightarrow> ordering" where
  "cmp_pair c d p q = then_with (c (fst p) (fst q)) (d (snd p) (snd q))"

lemma then_with_eq [simp]:
  "then_with a b = Equal \<longleftrightarrow> a = Equal \<and> b = Equal"
  "then_with a b = Less \<longleftrightarrow> a = Less \<or> a = Equal \<and> b = Less"
  "then_with a b = Greater \<longleftrightarrow> a = Greater \<or> a = Equal \<and> b = Greater"
  by (cases a; simp)+

lemma cmp_lin_iff [simp]:
  "cmp_lin a b = Equal \<longleftrightarrow> a = b"
  "cmp_lin a b = Less \<longleftrightarrow> a < b"
  "cmp_lin a b = Greater \<longleftrightarrow> b < a"
  by (auto simp: cmp_lin_def)

section \<open>The map operations\<close>

type_synonym ('k, 'v) btree = "('k \<times> 'v) list"

fun bt_get :: "('k \<Rightarrow> 'k \<Rightarrow> ordering) \<Rightarrow> 'k \<Rightarrow> ('k, 'v) btree \<Rightarrow> 'v option" where
  "bt_get cmp k [] = None"
| "bt_get cmp k ((k', v) # m) =
     (case cmp k k' of Less \<Rightarrow> None | Equal \<Rightarrow> Some v | Greater \<Rightarrow> bt_get cmp k m)"

fun bt_insert :: "('k \<Rightarrow> 'k \<Rightarrow> ordering) \<Rightarrow> 'k \<Rightarrow> 'v \<Rightarrow> ('k, 'v) btree \<Rightarrow> ('k, 'v) btree" where
  "bt_insert cmp k v [] = [(k, v)]"
| "bt_insert cmp k v ((k', v') # m) =
     (case cmp k k' of
        Less \<Rightarrow> (k, v) # (k', v') # m
      | Equal \<Rightarrow> (k', v) # m
      | Greater \<Rightarrow> (k', v') # bt_insert cmp k v m)"

text \<open>\<open>range(lo..=hi)\<close>: the entries between the bounds, in ascending order.\<close>

definition bt_range ::
  "('k \<Rightarrow> 'k \<Rightarrow> ordering) \<Rightarrow> 'k \<Rightarrow> 'k \<Rightarrow> ('k, 'v) btree \<Rightarrow> ('k, 'v) btree" where
  "bt_range cmp lo hi m = filter (\<lambda>(k, v). cmp lo k \<noteq> Greater \<and> cmp k hi \<noteq> Greater) m"

section \<open>What an order promises\<close>

locale comparator =
  fixes cmp :: "'k \<Rightarrow> 'k \<Rightarrow> ordering"
    and K :: "'k set"
  assumes eq_iff: "\<lbrakk>x \<in> K; y \<in> K\<rbrakk> \<Longrightarrow> cmp x y = Equal \<longleftrightarrow> x = y"
    and flip: "\<lbrakk>x \<in> K; y \<in> K\<rbrakk> \<Longrightarrow> cmp x y = Less \<longleftrightarrow> cmp y x = Greater"
    and less_trans: "\<lbrakk>x \<in> K; y \<in> K; z \<in> K; cmp x y = Less; cmp y z = Less\<rbrakk> \<Longrightarrow> cmp x z = Less"
begin

definition bt_inv :: "('k, 'v) btree \<Rightarrow> bool" where
  "bt_inv m \<longleftrightarrow> fst ` set m \<subseteq> K \<and> sorted_wrt (\<lambda>x y. cmp (fst x) (fst y) = Less) m"

lemma irrefl: "x \<in> K \<Longrightarrow> cmp x x = Equal"
  by (simp add: eq_iff)

lemma inv_Nil [simp]: "bt_inv []"
  by (simp add: bt_inv_def)

lemma inv_Cons:
  "bt_inv ((k, v) # m) \<longleftrightarrow>
     k \<in> K \<and> bt_inv m \<and> (\<forall>k' \<in> fst ` set m. cmp k k' = Less)"
  by (auto simp: bt_inv_def)

lemma set_insert_keys:
  "fst ` set (bt_insert cmp k v m) \<subseteq> insert k (fst ` set m)"
proof (induction m)
  case (Cons p m)
  then show ?case by (cases p; cases "cmp k (fst p)") auto
qed simp

lemma inv_insert:
  assumes "k \<in> K" "bt_inv m"
  shows "bt_inv (bt_insert cmp k v m)"
  using assms(2)
proof (induction m)
  case (Cons p m)
  obtain k' v' where p: "p = (k', v')" by force
  from Cons.prems have k': "k' \<in> K" "bt_inv m" and lt: "\<forall>x \<in> fst ` set m. cmp k' x = Less"
    by (auto simp: p inv_Cons)
  have mK: "fst ` set m \<subseteq> K" using k'(2) by (simp add: bt_inv_def)
  show ?case
  proof (cases "cmp k k'")
    case Less
    have "cmp k x = Less" if "x \<in> fst ` set m" for x
      using less_trans [OF assms(1) k'(1) _ Less] lt that mK by auto
    with Less k' lt assms(1) show ?thesis by (simp add: p inv_Cons)
  next
    case Equal
    with k' lt show ?thesis by (simp add: p inv_Cons)
  next
    case Greater
    then have "cmp k' k = Less" using flip [OF k'(1) assms(1)] by simp
    then have "\<forall>x \<in> fst ` set (bt_insert cmp k v m). cmp k' x = Less"
      using set_insert_keys [of k v m] lt by blast
    with Greater Cons.IH k' show ?thesis by (simp add: p inv_Cons)
  qed
qed (simp add: bt_inv_def assms(1))

lemma get_below:
  "\<lbrakk>k \<in> K; bt_inv m; \<forall>k' \<in> fst ` set m. cmp k k' = Less\<rbrakk> \<Longrightarrow> bt_get cmp k m = None"
  by (cases m) auto

lemma get_insert:
  assumes "k \<in> K" "k' \<in> K" "bt_inv m"
  shows "bt_get cmp k' (bt_insert cmp k v m) = (if k' = k then Some v else bt_get cmp k' m)"
  using assms(3)
proof (induction m)
  case Nil
  have "cmp k' k \<noteq> Equal" if "k' \<noteq> k"
    using eq_iff [OF assms(2,1)] that by simp
  then show ?case using irrefl [OF assms(1)] by (auto split: ordering.splits)
next
  case (Cons p m)
  obtain q w where p: "p = (q, w)" by force
  from Cons.prems have q: "q \<in> K" "bt_inv m" by (auto simp: p inv_Cons)
  note cmps = eq_iff [OF assms(1) q(1)] eq_iff [OF assms(2) q(1)] eq_iff [OF assms(2) assms(1)]
    flip [OF assms(1) q(1)] flip [OF assms(2) q(1)] flip [OF assms(2) assms(1)]
    flip [OF q(1) assms(1)] flip [OF q(1) assms(2)] flip [OF assms(1) assms(2)]
  show ?case
  proof (cases "cmp k q")
    case Less
    have "cmp k' q = Less" if "cmp k' k = Less"
      using less_trans [OF assms(2,1) q(1) that Less] .
    with Less cmps show ?thesis by (auto simp: p split: ordering.splits)
  next
    case Equal
    with cmps show ?thesis by (auto simp: p split: ordering.splits)
  next
    case Greater
    with cmps Cons.IH q show ?thesis by (auto simp: p split: ordering.splits)
  qed
qed

lemma get_iff:
  assumes "bt_inv m" "k \<in> K"
  shows "bt_get cmp k m = Some v \<longleftrightarrow> (k, v) \<in> set m"
  using assms(1)
proof (induction m)
  case (Cons p m)
  obtain q w where p: "p = (q, w)" by force
  from Cons.prems have q: "q \<in> K" "bt_inv m" and lt: "\<forall>x \<in> fst ` set m. cmp q x = Less"
    by (auto simp: p inv_Cons)
  have mK: "fst ` set m \<subseteq> K" using q(2) by (simp add: bt_inv_def)
  show ?case
  proof (cases "cmp k q")
    case Less
    have "(k, v) \<notin> set m"
    proof
      assume "(k, v) \<in> set m"
      then have "cmp q k = Less" using lt by force
      with Less flip [OF assms(2) q(1)] show False by simp
    qed
    with Less eq_iff [OF assms(2) q(1)] show ?thesis by (auto simp: p)
  next
    case Equal
    then have "k = q" using eq_iff [OF assms(2) q(1)] by simp
    with lt irrefl [OF q(1)] show ?thesis by (force simp: p Equal)
  next
    case Greater
    with eq_iff [OF assms(2) q(1)] Cons.IH q show ?thesis by (auto simp: p)
  qed
qed simp

lemma range_inv: "bt_inv m \<Longrightarrow> bt_inv (bt_range cmp lo hi m)"
  by (auto simp: bt_inv_def bt_range_def sorted_wrt_filter)

end

lemma comparator_subset: "comparator cmp K \<Longrightarrow> L \<subseteq> K \<Longrightarrow> comparator cmp L"
  by (rule comparator.intro)
     (meson comparator.eq_iff comparator.flip comparator.less_trans subsetD)+

section \<open>Comparisons that are orders\<close>

interpretation lin: comparator cmp_lin UNIV
  by unfold_locales auto

lemma comparator_pair:
  assumes "comparator c A" "comparator d B"
  shows "comparator (cmp_pair c d) (A \<times> B)"
proof -
  note c = comparator.eq_iff [OF assms(1)] comparator.flip [OF assms(1)]
    comparator.less_trans [OF assms(1)]
  note d = comparator.eq_iff [OF assms(2)] comparator.flip [OF assms(2)]
    comparator.less_trans [OF assms(2)]
  show ?thesis
  proof (unfold_locales, goal_cases)
    case (1 x y)
    then show ?case using c(1) d(1) by (auto simp: cmp_pair_def prod_eq_iff)
  next
    case (2 x y)
    then show ?case
      using c(1) [of "fst x" "fst y"] c(1) [of "fst y" "fst x"] c(2) [of "fst x" "fst y"]
        d(2) [of "snd x" "snd y"]
      by (auto simp: cmp_pair_def mem_Times_iff)
  next
    case (3 x y z)
    then have m: "fst x \<in> A" "fst y \<in> A" "fst z \<in> A" "snd x \<in> B" "snd y \<in> B" "snd z \<in> B"
      by auto
    from 3(4,5) m show ?case
      using c(1) c(3) [of "fst x" "fst y" "fst z"] d(3) [of "snd x" "snd y" "snd z"]
      by (auto simp: cmp_pair_def)
  qed
qed

lemma cmp_list_laws:
  assumes "comparator c A"
  shows "\<lbrakk>set xs \<subseteq> A; set ys \<subseteq> A\<rbrakk> \<Longrightarrow> cmp_list c xs ys = Equal \<longleftrightarrow> xs = ys"
    and "\<lbrakk>set xs \<subseteq> A; set ys \<subseteq> A\<rbrakk> \<Longrightarrow> cmp_list c xs ys = Less \<longleftrightarrow> cmp_list c ys xs = Greater"
proof -
  note c = comparator.eq_iff [OF assms] comparator.flip [OF assms]
  show "\<lbrakk>set xs \<subseteq> A; set ys \<subseteq> A\<rbrakk> \<Longrightarrow> cmp_list c xs ys = Equal \<longleftrightarrow> xs = ys"
  proof (induction xs arbitrary: ys)
    case Nil
    then show ?case by (cases ys) auto
  next
    case (Cons x xs)
    then show ?case by (cases ys) (auto simp: c)
  qed
  show "\<lbrakk>set xs \<subseteq> A; set ys \<subseteq> A\<rbrakk> \<Longrightarrow> cmp_list c xs ys = Less \<longleftrightarrow> cmp_list c ys xs = Greater"
  proof (induction xs arbitrary: ys)
    case Nil
    then show ?case by (cases ys) auto
  next
    case (Cons x xs)
    show ?case
    proof (cases ys)
      case (Cons y ys')
      with Cons.prems Cons.IH [of ys'] c [of x y] c(1) [of y x] show ?thesis by auto
    qed simp
  qed
qed

lemma cmp_list_trans:
  assumes "comparator c A"
  shows "\<lbrakk>set xs \<subseteq> A; set ys \<subseteq> A; set zs \<subseteq> A; cmp_list c xs ys = Less; cmp_list c ys zs = Less\<rbrakk>
    \<Longrightarrow> cmp_list c xs zs = Less"
proof (induction xs arbitrary: ys zs)
  case Nil
  then show ?case by (cases ys; cases zs) auto
next
  case (Cons x xs)
  note c = comparator.eq_iff [OF assms] comparator.less_trans [OF assms]
  from Cons.prems obtain y ys' z zs' where yz: "ys = y # ys'" "zs = z # zs'"
    by (cases ys; cases zs) auto
  then show ?case
    using Cons.prems Cons.IH [of ys' zs'] c(1) [of x y] c(1) [of y z] c(1) [of x z] c(2) [of x y z]
    by auto
qed

lemma comparator_list:
  assumes "comparator c A"
  shows "comparator (cmp_list c) {xs. set xs \<subseteq> A}"
proof (unfold_locales, goal_cases)
  case (1 xs ys)
  then show ?case using cmp_list_laws(1) [OF assms, of xs ys] by simp
next
  case (2 xs ys)
  then show ?case using cmp_list_laws(2) [OF assms, of xs ys] by simp
next
  case (3 xs ys zs)
  then show ?case using cmp_list_trans [OF assms, of xs ys zs] by simp
qed

end
