(* ===== verification/Query_Types.thy ===== *)
theory Query_Types
  imports Btree_Map
begin

text \<open>
  The types every query crate shares (\<open>monad-query-types\<close>): errors, primary ids and call
  kinds.  A Rust panic is kept apart from a returned \<open>QueryError\<close>: the release profile
  aborts on panic, so no handler of the program ever sees it.
\<close>

section \<open>Errors (error.rs)\<close>

datatype query_error =
    Backend string
  | Decode string
  | InvalidRequest string
  | Internal string
  | InvalidBlock string
  | MissingData string

datatype fault = Err query_error | Panic string

type_synonym 'a query_result = "fault + 'a"
type_synonym ('w, 'a) query_io = "('w, fault, 'a) io"

abbreviation decode_err :: "string \<Rightarrow> 'a query_result" where
  "decode_err m \<equiv> Inl (Err (Decode m))"

abbreviation panic :: "string \<Rightarrow> 'a query_result" where
  "panic m \<equiv> Inl (Panic m)"

section \<open>Primary ids (id.rs)\<close>

datatype primary_id = PrimaryId (as_u64: u64)

definition PrimaryId_checked_add :: "primary_id \<Rightarrow> u64 \<Rightarrow> primary_id query_result" where
  "PrimaryId_checked_add self rhs =
     ok_or (map_option PrimaryId (checked_add (as_u64 self) rhs))
           (Err (Decode ''primary id overflow''))"

lemma PrimaryId_checked_add_spec:
  "PrimaryId_checked_add i n =
     (if unat (as_u64 i) + unat n < 2 ^ 64 then Inr (PrimaryId (as_u64 i + n))
      else decode_err ''primary id overflow'')"
  by (simp add: PrimaryId_checked_add_def checked_add_def)

section \<open>Call kinds (call\_kind.rs)\<close>

datatype call_kind =
    Call | StaticCall | DelegateCall | CallCode | Create | Create2 | SelfDestruct

fun call_kind_into :: "call_kind \<Rightarrow> u8" where
  "call_kind_into Call = 0"
| "call_kind_into StaticCall = 1"
| "call_kind_into DelegateCall = 2"
| "call_kind_into CallCode = 3"
| "call_kind_into Create = 4"
| "call_kind_into Create2 = 5"
| "call_kind_into SelfDestruct = 6"

text \<open>\<open>TryFromPrimitive\<close>: the variant with the discriminant, if there is one.\<close>

definition call_kind_try_from :: "u8 \<Rightarrow> call_kind option" where
  "call_kind_try_from b =
     find (\<lambda>k. call_kind_into k = b)
       [Call, StaticCall, DelegateCall, CallCode, Create, Create2, SelfDestruct]"

lemma call_kind_try_from_into [simp, codec_simps]:
  "call_kind_try_from (call_kind_into k) = Some k"
  by (cases k) (simp_all add: call_kind_try_from_def)

lemma call_kind_try_from_None: "call_kind_try_from b = None \<longleftrightarrow> 7 \<le> b"
proof -
  have "(7 \<le> b) = (\<not> b < 7)" by auto
  also have "b < 7 \<longleftrightarrow> b \<in> {0, 1, 2, 3, 4, 5, 6}"
    by (auto simp: word_less_nat_alt word_unat_eq_iff)
  finally show ?thesis
    by (auto simp: call_kind_try_from_def)
qed

end
