(* ===== verification/Families.thy ===== *)
theory Families
  imports Query_Types "HOL-Library.Sublist" "HOL-Library.Multiset"
begin

text \<open>
  The record families of the query index (\<open>monad-query-schema/src/family\<close> and
  \<open>bitmap.rs\<close>): what is stored for a block header, a transaction, a log and a call trace,
  and the bitmap filters each is indexed under.  Third-party code (header fields and
  hashes, RLP, EIP-2718 decoding, zstd, RoaringBitmap, hash-map iteration order) is the
  parameter record \<open>externals\<close>; the predicate \<open>externals_ok\<close> states what is relied on.
\<close>

section \<open>Families (family/mod.rs)\<close>

datatype family = BlockHeader | Transaction | Log | Trace

fun family_into :: "family \<Rightarrow> u8" where
  "family_into BlockHeader = 0"
| "family_into Transaction = 1"
| "family_into Log = 2"
| "family_into Trace = 3"

text \<open>\<open>Family::iter\<close>.\<close>

definition family_iter :: "family list" where
  "family_iter = [BlockHeader, Transaction, Log, Trace]"

definition family_try_from :: "u8 \<Rightarrow> family option" where
  "family_try_from b = find (\<lambda>f. family_into f = b) family_iter"

lemma family_try_from_into [simp, codec_simps]: "family_try_from (family_into f) = Some f"
  by (cases f) (simp_all add: family_try_from_def family_iter_def)

lemma family_into_inject [simp]: "family_into f = family_into g \<longleftrightarrow> f = g"
  by (cases f; cases g) simp_all

lemma set_family_iter [simp]: "set family_iter = UNIV"
  using family.exhaust by (auto simp: family_iter_def)

lemma distinct_family_iter [simp]: "distinct family_iter"
  by (simp add: family_iter_def)

instantiation family :: linorder
begin

definition less_eq_family :: "family \<Rightarrow> family \<Rightarrow> bool" where
  "less_eq_family f g \<longleftrightarrow> family_into f \<le> family_into g"

definition less_family :: "family \<Rightarrow> family \<Rightarrow> bool" where
  "less_family f g \<longleftrightarrow> family_into f < family_into g"

instance
  by standard (auto simp: less_eq_family_def less_family_def order.strict_iff_order)

end

record family_metadata =
  first_primary_id :: primary_id
  fm_count :: u32

section \<open>Bitmap filters (bitmap.rs)\<close>

datatype bitmap_filter_value =
    F_Address address
  | F_From address
  | F_HasTransfer
  | F_Selector u32
  | F_To address
  | F_TopLevel
  | F_Topic0 b256
  | F_Topic1 b256
  | F_Topic2 b256
  | F_Topic3 b256
  | F_Miner address

fun filter_tag :: "bitmap_filter_value \<Rightarrow> u8" where
  "filter_tag (F_Address _) = 0"
| "filter_tag (F_From _) = 1"
| "filter_tag F_HasTransfer = 2"
| "filter_tag (F_Selector _) = 3"
| "filter_tag (F_To _) = 4"
| "filter_tag F_TopLevel = 5"
| "filter_tag (F_Topic0 _) = 6"
| "filter_tag (F_Topic1 _) = 7"
| "filter_tag (F_Topic2 _) = 8"
| "filter_tag (F_Topic3 _) = 9"
| "filter_tag (F_Miner _) = 10"

fun filter_body :: "bitmap_filter_value \<Rightarrow> bytes" where
  "filter_body (F_Address v) = word_to_be v"
| "filter_body (F_From v) = word_to_be v"
| "filter_body F_HasTransfer = []"
| "filter_body (F_Selector v) = word_to_be v"
| "filter_body (F_To v) = word_to_be v"
| "filter_body F_TopLevel = []"
| "filter_body (F_Topic0 v) = word_to_be v"
| "filter_body (F_Topic1 v) = word_to_be v"
| "filter_body (F_Topic2 v) = word_to_be v"
| "filter_body (F_Topic3 v) = word_to_be v"
| "filter_body (F_Miner v) = word_to_be v"

definition BitmapFilterValue_encode :: "bitmap_filter_value \<Rightarrow> bytes" where
  "BitmapFilterValue_encode v = filter_tag v # filter_body v"

definition decode_topic :: "bytes \<Rightarrow> b256 query_result" where
  "decode_topic bs =
     (if length bs = 32 then Inr (word_from_be bs) else decode_err ''invalid topic bitmap value'')"

definition decode_flag :: "bytes \<Rightarrow> 'a \<Rightarrow> 'a query_result" where
  "decode_flag bs v = (if bs = [] then Inr v else decode_err ''invalid flag bitmap value'')"

definition BitmapFilterValue_decode :: "bytes \<Rightarrow> bitmap_filter_value query_result" where
  "BitmapFilterValue_decode bs =
     (case bs of
        [] \<Rightarrow> decode_err ''empty bitmap filter value''
      | tag # body \<Rightarrow>
          if tag = 0 then
            (if length body \<noteq> 20 then decode_err ''invalid address bitmap value''
             else Inr (F_Address (word_from_be body)))
          else if tag = 1 then
            (if length body \<noteq> 20 then decode_err ''invalid from bitmap value''
             else Inr (F_From (word_from_be body)))
          else if tag = 2 then decode_flag body F_HasTransfer
          else if tag = 3 then
            (if length body \<noteq> 4 then decode_err ''invalid selector bitmap value''
             else Inr (F_Selector (word_from_be body)))
          else if tag = 4 then
            (if length body \<noteq> 20 then decode_err ''invalid to bitmap value''
             else Inr (F_To (word_from_be body)))
          else if tag = 5 then decode_flag body F_TopLevel
          else if tag = 6 then res_bind (decode_topic body) (\<lambda>t. Inr (F_Topic0 t))
          else if tag = 7 then res_bind (decode_topic body) (\<lambda>t. Inr (F_Topic1 t))
          else if tag = 8 then res_bind (decode_topic body) (\<lambda>t. Inr (F_Topic2 t))
          else if tag = 9 then res_bind (decode_topic body) (\<lambda>t. Inr (F_Topic3 t))
          else if tag = 10 then
            (if length body \<noteq> 20 then decode_err ''invalid miner bitmap value''
             else Inr (F_Miner (word_from_be body)))
          else decode_err ''invalid bitmap filter value kind'')"

lemma BitmapFilterValue_decode_encode [simp, codec_simps]:
  "BitmapFilterValue_decode (BitmapFilterValue_encode v) = Inr v"
  by (cases v)
     (simp_all add: BitmapFilterValue_encode_def BitmapFilterValue_decode_def decode_flag_def
        decode_topic_def)

lemma BitmapFilterValue_encode_inject [simp]:
  "BitmapFilterValue_encode v = BitmapFilterValue_encode v' \<longleftrightarrow> v = v'"
  by (metis BitmapFilterValue_decode_encode sum.inject(2))

lemma BitmapFilterValue_encode_decode:
  "BitmapFilterValue_decode bs = Inr v \<Longrightarrow> BitmapFilterValue_encode v = bs"
  by (auto simp: BitmapFilterValue_decode_def BitmapFilterValue_encode_def decode_flag_def
        decode_topic_def word_to_from_be split: list.splits if_splits)

text \<open>The derived order: by variant, then by value (byte-wise, which the encoding keeps).\<close>

instantiation bitmap_filter_value :: linorder
begin

definition less_eq_bitmap_filter_value :: "bitmap_filter_value \<Rightarrow> bitmap_filter_value \<Rightarrow> bool" where
  "less_eq_bitmap_filter_value a b \<longleftrightarrow> BitmapFilterValue_encode a \<le> BitmapFilterValue_encode b"

definition less_bitmap_filter_value :: "bitmap_filter_value \<Rightarrow> bitmap_filter_value \<Rightarrow> bool" where
  "less_bitmap_filter_value a b \<longleftrightarrow> BitmapFilterValue_encode a < BitmapFilterValue_encode b"

instance
  by standard
     (auto simp: less_eq_bitmap_filter_value_def less_bitmap_filter_value_def order.strict_iff_order)

end

section \<open>Stored items (family/transaction.rs, log.rs, trace.rs, block.rs)\<close>

record stored_tx =
  tx_hash :: b256
  sender :: address
  signed_tx_bytes :: bytes

record stored_log =
  log_tx_index :: u32
  log_index :: u32
  log_address :: address
  log_topics :: "b256 list"
  log_data :: bytes

record stored_trace =
  tr_type :: call_kind
  tr_from :: address
  tr_to :: "address option"
  tr_value :: b256
  tr_gas :: u64
  tr_gas_used :: u64
  tr_input :: bytes
  tr_output :: bytes
  tr_status :: u8
  tr_depth :: u32
  tr_tx_index :: u32
  tr_trace_address :: "u32 list"
  tr_tx_status :: bool

text \<open>\<open>StoredTraceQueryItemRlp\<close>: the call kind as a byte, the callee as bytes.\<close>

record stored_trace_rlp =
  type_bytes :: u8
  rlp_from :: address
  to_bytes :: bytes
  rlp_value :: b256
  rlp_gas :: u64
  rlp_gas_used :: u64
  rlp_input :: bytes
  rlp_output :: bytes
  rlp_status :: u8
  rlp_depth :: u32
  rlp_tx_index :: u32
  rlp_trace_address :: "u32 list"
  rlp_tx_status :: bool

definition trace_to_rlp :: "stored_trace \<Rightarrow> stored_trace_rlp" where
  "trace_to_rlp t =
     \<lparr>type_bytes = call_kind_into (tr_type t), rlp_from = tr_from t,
      to_bytes = (case tr_to t of None \<Rightarrow> [] | Some a \<Rightarrow> word_to_be a),
      rlp_value = tr_value t, rlp_gas = tr_gas t, rlp_gas_used = tr_gas_used t,
      rlp_input = tr_input t, rlp_output = tr_output t, rlp_status = tr_status t,
      rlp_depth = tr_depth t, rlp_tx_index = tr_tx_index t,
      rlp_trace_address = tr_trace_address t, rlp_tx_status = tr_tx_status t\<rparr>"

definition trace_of_rlp :: "stored_trace_rlp \<Rightarrow> string + stored_trace" where
  "trace_of_rlp r =
     res_bind (ok_or (call_kind_try_from (type_bytes r)) ''invalid trace call kind byte'') (\<lambda>ty.
     res_bind (if to_bytes r = [] then Inr None
               else if length (to_bytes r) = 20 then Inr (Some (word_from_be (to_bytes r)))
               else Inl ''invalid trace `to` byte length'') (\<lambda>to.
     Inr \<lparr>tr_type = ty, tr_from = rlp_from r, tr_to = to, tr_value = rlp_value r,
          tr_gas = rlp_gas r, tr_gas_used = rlp_gas_used r, tr_input = rlp_input r,
          tr_output = rlp_output r, tr_status = rlp_status r, tr_depth = rlp_depth r,
          tr_tx_index = rlp_tx_index r, tr_trace_address = rlp_trace_address r,
          tr_tx_status = rlp_tx_status r\<rparr>))"

lemma trace_of_to_rlp [simp, codec_simps]: "trace_of_rlp (trace_to_rlp t) = Inr t"
proof -
  have "word_to_be (a :: address) \<noteq> []" for a
  proof -
    have "length (word_to_be a) = 20" by simp
    then show ?thesis by (metis length_0_conv zero_neq_numeral)
  qed
  then show ?thesis
    by (cases "tr_to t") (simp_all add: trace_of_rlp_def trace_to_rlp_def)
qed

lemma trace_to_of_rlp: "trace_of_rlp r = Inr t \<Longrightarrow> trace_to_rlp t = r"
proof -
  assume "trace_of_rlp r = Inr t"
  moreover have "call_kind_into k = b" if "call_kind_try_from b = Some k" for b k
    using that unfolding call_kind_try_from_def find_Some_iff by auto
  ultimately show ?thesis
    by (auto simp: trace_of_rlp_def trace_to_rlp_def res_bind_Inr_iff word_to_from_be
        split: if_splits)
qed

section \<open>Third-party code\<close>

text \<open>
  \<open>'h\<close> is alloy's \<open>Header\<close> and \<open>'b\<close> is \<open>RoaringBitmap\<close>.  \<open>decode_2718\<close> gives the
  envelope's \<open>to()\<close> and \<open>function_selector()\<close>; \<open>rlp_*\<close> are \<open>alloy_rlp::encode\<close> and
  \<open>decode\<close> at the stored types; \<open>rb_deserialize\<close> returns the bitmap and the number of
  bytes it consumed; \<open>hash_order\<close> is the order in which a \<open>HashMap\<close> yields its entries.
\<close>

record ('h, 'b) externals =
  hdr_number :: "'h \<Rightarrow> u64"
  hdr_parent_hash :: "'h \<Rightarrow> b256"
  hdr_beneficiary :: "'h \<Rightarrow> address"
  hash_slow :: "'h \<Rightarrow> b256"
  decode_2718 :: "bytes \<Rightarrow> (address option \<times> u32 option) option"
  rlp_encode_header :: "'h \<Rightarrow> bytes"
  rlp_encode_tx :: "stored_tx \<Rightarrow> bytes"
  rlp_encode_log :: "stored_log \<Rightarrow> bytes"
  rlp_encode_trace :: "stored_trace_rlp \<Rightarrow> bytes"
  rlp_decode_header :: "bytes \<Rightarrow> 'h option"
  rlp_decode_tx :: "bytes \<Rightarrow> stored_tx option"
  rlp_decode_log :: "bytes \<Rightarrow> stored_log option"
  rlp_decode_trace :: "bytes \<Rightarrow> stored_trace_rlp option"
  zstd_compress :: "bytes \<Rightarrow> bytes"
  zstd_decompress :: "bytes \<Rightarrow> nat \<Rightarrow> bytes option"
  rb_new :: 'b
  rb_insert :: "u32 \<Rightarrow> 'b \<Rightarrow> 'b"
  rb_remove_from :: "u32 \<Rightarrow> 'b \<Rightarrow> 'b"
  rb_union :: "'b \<Rightarrow> 'b \<Rightarrow> 'b"
  rb_is_empty :: "'b \<Rightarrow> bool"
  rb_len :: "'b \<Rightarrow> u64"
  rb_contains :: "'b \<Rightarrow> u32 \<Rightarrow> bool"
  rb_serialize :: "'b \<Rightarrow> bytes"
  rb_deserialize :: "bytes \<Rightarrow> ('b \<times> nat) option"
  hash_order :: "nat list \<Rightarrow> nat list"

text \<open>The set a bitmap stands for.\<close>

definition rb_set :: "('h, 'b) externals \<Rightarrow> 'b \<Rightarrow> u32 set" where
  "rb_set X b = {i. rb_contains X b i}"

text \<open>
  Documented behaviour: RLP and zstd round trips (a zstd frame is never empty), RoaringBitmap as a set with an exact
  serialised form, and hash-map iteration as a permutation of the entries (\<open>hash_order\<close>
  permutes their positions).
\<close>

definition bitmap_laws :: "('h, 'b) externals \<Rightarrow> bool" where
  "bitmap_laws X \<longleftrightarrow>
     rb_set X (rb_new X) = {} \<and>
     (\<forall>i b. rb_set X (rb_insert X i b) = insert i (rb_set X b)) \<and>
     (\<forall>i b. rb_set X (rb_remove_from X i b) = {j \<in> rb_set X b. j < i}) \<and>
     (\<forall>a b. rb_set X (rb_union X a b) = rb_set X a \<union> rb_set X b) \<and>
     (\<forall>b. rb_is_empty X b \<longleftrightarrow> rb_set X b = {}) \<and>
     (\<forall>b. unat (rb_len X b) = card (rb_set X b)) \<and>
     (\<forall>b. rb_deserialize X (rb_serialize X b) = Some (b, length (rb_serialize X b)))"

definition codec_laws :: "('h, 'b) externals \<Rightarrow> bool" where
  "codec_laws X \<longleftrightarrow>
     (\<forall>h. rlp_decode_header X (rlp_encode_header X h) = Some h) \<and>
     (\<forall>t. rlp_decode_tx X (rlp_encode_tx X t) = Some t) \<and>
     (\<forall>l. rlp_decode_log X (rlp_encode_log X l) = Some l) \<and>
     (\<forall>r. rlp_decode_trace X (rlp_encode_trace X r) = Some r) \<and>
     (\<forall>bs n. length bs \<le> n \<longrightarrow> zstd_decompress X (zstd_compress X bs) n = Some bs) \<and>
     (\<forall>bs. zstd_compress X bs \<noteq> [])"

definition externals_ok :: "('h, 'b) externals \<Rightarrow> bool" where
  "externals_ok X \<longleftrightarrow> bitmap_laws X \<and> codec_laws X \<and> (\<forall>is. mset (hash_order X is) = mset is)"

text \<open>The entries of a hash map, given in some order, in its iteration order.\<close>

definition hash_iter :: "('h, 'b) externals \<Rightarrow> 'a list \<Rightarrow> 'a list" where
  "hash_iter X xs = map (\<lambda>i. xs ! i) (hash_order X [0..<length xs])"

lemma mset_hash_iter:
  assumes "externals_ok X"
  shows "mset (hash_iter X xs) = mset xs"
proof -
  have "mset (hash_iter X xs) = image_mset (\<lambda>i. xs ! i) (mset (hash_order X [0..<length xs]))"
    by (simp add: hash_iter_def)
  also have "\<dots> = image_mset (\<lambda>i. xs ! i) (mset [0..<length xs])"
    using assms by (simp add: externals_ok_def)
  also have "\<dots> = mset xs"
    by (metis map_nth mset_map)
  finally show ?thesis .
qed

section \<open>Codecs of the stored items\<close>

definition StoredTrace_encode :: "('h, 'b) externals \<Rightarrow> stored_trace \<Rightarrow> bytes" where
  "StoredTrace_encode X t = rlp_encode_trace X (trace_to_rlp t)"

definition StoredTrace_decode :: "('h, 'b) externals \<Rightarrow> bytes \<Rightarrow> stored_trace option" where
  "StoredTrace_decode X bs =
     (case rlp_decode_trace X bs of
        None \<Rightarrow> None
      | Some r \<Rightarrow> (case trace_of_rlp r of Inl _ \<Rightarrow> None | Inr t \<Rightarrow> Some t))"

lemma StoredTrace_decode_encode:
  "codec_laws X \<Longrightarrow> StoredTrace_decode X (StoredTrace_encode X t) = Some t"
  by (simp add: StoredTrace_decode_def StoredTrace_encode_def codec_laws_def)

section \<open>Filters of each family\<close>

definition Block_bitmap_filters :: "('h, 'b) externals \<Rightarrow> 'h \<Rightarrow> bitmap_filter_value list query_result" where
  "Block_bitmap_filters X h = Inr [F_Miner (hdr_beneficiary X h)]"

definition Tx_bitmap_filters ::
  "('h, 'b) externals \<Rightarrow> stored_tx \<Rightarrow> bitmap_filter_value list query_result" where
  "Tx_bitmap_filters X tx =
     (case decode_2718 X (signed_tx_bytes tx) of
        None \<Rightarrow> decode_err ''invalid signed tx envelope''
      | Some (to, sel) \<Rightarrow>
          Inr ([F_From (sender tx)]
               @ (case to of None \<Rightarrow> [] | Some a \<Rightarrow> [F_To a])
               @ (case sel of None \<Rightarrow> [] | Some s \<Rightarrow> [F_Selector s])))"

fun topic_filter :: "nat \<Rightarrow> b256 \<Rightarrow> bitmap_filter_value" where
  "topic_filter i t =
     (if i = 0 then F_Topic0 t else if i = 1 then F_Topic1 t
      else if i = 2 then F_Topic2 t else F_Topic3 t)"

definition Log_bitmap_filters :: "stored_log \<Rightarrow> bitmap_filter_value list query_result" where
  "Log_bitmap_filters l =
     Inr (F_Address (log_address l)
          # map (\<lambda>(i, t). topic_filter i t) (List.enumerate 0 (take 4 (log_topics l))))"

text \<open>\<open>StoredTraceQueryItemWithAncestorStatus::from_traces\<close>: one depth stack per transaction.\<close>

definition ancestor_flag :: "bool list \<Rightarrow> nat \<Rightarrow> bool" where
  "ancestor_flag stack depth =
     (if depth = 0 then False
      else if depth - 1 < length stack then stack ! (depth - 1) else False)"

definition push_frame :: "bool list \<Rightarrow> nat \<Rightarrow> bool \<Rightarrow> bool list" where
  "push_frame stack depth flag =
     (let s = take depth stack in
      (if length s < depth then s @ replicate (depth - length s) False else s) @ [flag])"

fun from_traces_loop :: "(u32 \<Rightarrow> bool list) \<Rightarrow> stored_trace list \<Rightarrow> (stored_trace \<times> bool) list" where
  "from_traces_loop stacks [] = []"
| "from_traces_loop stacks (t # ts) =
     (let stack = stacks (tr_tx_index t);
          depth = length (tr_trace_address t);
          ancestor_reverted = ancestor_flag stack depth;
          stack' = push_frame stack depth (ancestor_reverted \<or> tr_status t \<noteq> 0)
      in (t, ancestor_reverted) # from_traces_loop (stacks(tr_tx_index t := stack')) ts)"

definition from_traces :: "stored_trace list \<Rightarrow> (stored_trace \<times> bool) list" where
  "from_traces traces = from_traces_loop (\<lambda>_. []) traces"

lemma length_from_traces: "length (from_traces ts) = length ts"
proof -
  have "length (from_traces_loop s ts) = length ts" for s
    by (induction ts arbitrary: s) (auto simp: Let_def)
  then show ?thesis by (simp add: from_traces_def)
qed

definition Trace_bitmap_filters :: "stored_trace \<times> bool \<Rightarrow> bitmap_filter_value list query_result" where
  "Trace_bitmap_filters tr =
     (let t = fst tr; ancestor_reverted = snd tr in
      Inr ([F_From (tr_from t)]
           @ (case tr_to t of None \<Rightarrow> [] | Some a \<Rightarrow> [F_To a])
           @ (if length (tr_input t) < 4 then [] else [F_Selector (word_from_be (take 4 (tr_input t)))])
           @ (if tr_trace_address t = [] then [F_TopLevel] else [])
           @ (if \<not> ancestor_reverted \<and> tr_tx_status t \<and> tr_status t = 0
                 \<and> tr_type t \<in> {Call, Create, Create2, SelfDestruct}
              then [F_HasTransfer] else [])))"

end
