(* ===== verification/Trace_Tree.thy ===== *)
theory Trace_Tree
  imports Families
begin

text \<open>
  Call traces as a tree.  The indexer receives the frames of a transaction in pre-order
  with their depths; \<open>compute_trace_addresses\<close> (\<open>monad-query-cli/src/index/mod.rs\<close>) turns
  depths into child paths, and \<open>from_traces\<close> (\<open>family/trace.rs\<close>) decides with one stack
  per transaction whether an enclosing frame failed.  Both are compared with what they
  mean on the tree: the ancestor of a frame at depth \<open>d\<close> is the latest earlier frame of
  its transaction at depth \<open>d\<close>.
\<close>

section \<open>Addresses from depths\<close>

record addr_state =
  as_path :: "u32 list"
  as_counters :: "u32 list"
  as_addresses :: "u32 list list"
  as_seen_root :: bool

text \<open>\<open>Vec::truncate\<close> followed by \<open>Vec::resize\<close> with zero when too short.\<close>

definition fit_counters :: "nat \<Rightarrow> u32 list \<Rightarrow> u32 list" where
  "fit_counters n cs = (let c = take n cs in c @ replicate (n - length c) 0)"

definition address_step :: "addr_state \<Rightarrow> u32 \<Rightarrow> addr_state query_result" where
  "address_step st depth32 =
     (let depth = unat depth32 in
      if depth = 0 then
        Inr \<lparr>as_path = [], as_counters = [], as_addresses = as_addresses st @ [[]],
             as_seen_root = True\<rparr>
      else if \<not> as_seen_root st then
        Inl (Err (InvalidBlock ''trace_address: first frame must have depth 0''))
      else if depth > length (as_path st) + 1 then
        Inl (Err (InvalidBlock ''trace_address: depth skipped a level''))
      else
        let cs = fit_counters depth (as_counters st);
            path = take (depth - 1) (as_path st) @ [cs ! (depth - 1)]
        in Inr \<lparr>as_path = path, as_counters = cs[depth - 1 := cs ! (depth - 1) + 1],
                as_addresses = as_addresses st @ [path], as_seen_root = True\<rparr>)"

definition addr_init :: addr_state where
  "addr_init = \<lparr>as_path = [], as_counters = [], as_addresses = [], as_seen_root = False\<rparr>"

definition compute_trace_addresses :: "u32 list \<Rightarrow> u32 list list query_result" where
  "compute_trace_addresses depths =
     res_bind (fold_res address_step addr_init depths) (\<lambda>st. Inr (as_addresses st))"

text \<open>Depths of a pre-order walk: the first is a root, each next at most one deeper.\<close>

fun walk_from :: "nat \<Rightarrow> nat list \<Rightarrow> bool" where
  "walk_from d [] = True"
| "walk_from d (x # xs) = (x \<le> d \<and> walk_from (x + 1) xs)"

abbreviation preorder_walk :: "nat list \<Rightarrow> bool" where
  "preorder_walk ds \<equiv> walk_from 0 ds"

definition addr_room :: "addr_state \<Rightarrow> nat" where
  "addr_room st = (if as_seen_root st then length (as_path st) + 1 else 0)"

lemma length_fit_counters [simp]: "length (fit_counters n cs) = n"
  by (simp add: fit_counters_def Let_def)

lemma fit_counters_nth:
  "i < n \<Longrightarrow> fit_counters n cs ! i = (if i < length cs then cs ! i else 0)"
  by (auto simp: fit_counters_def Let_def nth_append)

lemma address_step_ok:
  "(\<exists>st'. address_step st d = Inr st') \<longleftrightarrow> unat d \<le> addr_room st"
  by (auto simp: address_step_def addr_room_def Let_def unat_eq_0)

lemma address_step_room:
  "address_step st d = Inr st' \<Longrightarrow> addr_room st' = unat d + 1"
  by (auto simp: address_step_def addr_room_def Let_def split: if_splits)

lemma fold_addresses_ok:
  "(\<exists>st'. fold_res address_step st ds = Inr st') \<longleftrightarrow> walk_from (addr_room st) (map unat ds)"
proof (induction ds arbitrary: st)
  case (Cons d ds)
  show ?case
  proof (cases "address_step st d")
    case (Inl e)
    then show ?thesis using address_step_ok [of st d] by auto
  next
    case (Inr st')
    then show ?thesis
      using Cons [of st'] address_step_ok [of st d] address_step_room [of st d st'] by auto
  qed
qed simp

definition counter_at :: "u32 list \<Rightarrow> nat \<Rightarrow> u32" where
  "counter_at cs i = (if i < length cs then cs ! i else 0)"

lemma address_step_root [simp]:
  "address_step st 0 = Inr \<lparr>as_path = [], as_counters = [], as_addresses = as_addresses st @ [[]], as_seen_root = True\<rparr>"
  by (simp add: address_step_def)

lemma address_step_child:
  assumes "unat d = Suc k" "as_seen_root st" "k \<le> length (as_path st)"
  shows "address_step st d = Inr
      \<lparr>as_path = take k (as_path st) @ [counter_at (as_counters st) k],
       as_counters = (fit_counters (Suc k) (as_counters st)) [k := counter_at (as_counters st) k + 1],
       as_addresses = as_addresses st @ [take k (as_path st) @ [counter_at (as_counters st) k]],
       as_seen_root = True\<rparr>"
proof -
  have "fit_counters (Suc k) (as_counters st) ! k = counter_at (as_counters st) k"
    by (simp add: fit_counters_nth counter_at_def)
  with assms show ?thesis by (simp add: address_step_def Let_def)
qed

subsection \<open>The call tree\<close>

text \<open>
  What the addresses mean, without paths or counters of a walk: a frame is a node with the frames it called,
  in order; the frame called \<open>i\<close>-th (from zero) by the frame at path \<open>p\<close> is at \<open>p @ [i]\<close>.  A trace is a list
  of roots, each listed with its callees in pre-order.
\<close>

datatype call_node = CallNode "call_node list"

fun callee_depths :: "nat \<Rightarrow> call_node list \<Rightarrow> nat list" where
  "callee_depths d [] = []"
| "callee_depths d (CallNode cs # ts) = d # callee_depths (Suc d) cs @ callee_depths d ts"

fun callee_paths :: "nat list \<Rightarrow> nat \<Rightarrow> call_node list \<Rightarrow> nat list list" where
  "callee_paths p i [] = []"
| "callee_paths p i (CallNode cs # ts) = (p @ [i]) # callee_paths (p @ [i]) 0 cs @ callee_paths p (Suc i) ts"

fun root_paths :: "call_node list \<Rightarrow> nat list list" where
  "root_paths [] = []"
| "root_paths (CallNode cs # ts) = [] # callee_paths [] 0 cs @ root_paths ts"

text \<open>Every pre-order walk of depths is the walk of some trees.\<close>

lemma walk_has_tree:
  "walk_from k ds \<Longrightarrow> \<forall>x \<in> set ds. k \<le> x \<Longrightarrow> \<exists>ts. ds = callee_depths k ts"
proof (induction ds arbitrary: k rule: length_induct)
  case (1 ds)
  show ?case
  proof (cases ds)
    case Nil
    then have "ds = callee_depths k []" by simp
    then show ?thesis ..
  next
    case (Cons x xs)
    with 1 have x: "x = k" "walk_from (Suc k) xs" by auto
    let ?ys = "takeWhile (\<lambda>y. k < y) xs" and ?zs = "dropWhile (\<lambda>y. k < y) xs"
    have pre: "walk_from d us" and post: "vs \<noteq> [] \<Longrightarrow> hd vs = k \<Longrightarrow> walk_from k vs"
      if "walk_from d (us @ vs)" for d us vs
      using that by (induction us arbitrary: d) (auto simp: neq_Nil_conv)
    have split: "walk_from (Suc k) (?ys @ ?zs)" using x(2) by simp
    have "walk_from k ?zs"
    proof (cases "?zs = []")
      case False
      then have "\<not> k < hd ?zs" by (rule hd_dropWhile)
      moreover have "hd ?zs \<in> set xs" using hd_in_set [OF False] by (rule set_dropWhileD)
      ultimately have "hd ?zs = k" using 1(3) Cons by (metis list.set_intros(2) not_less le_antisym)
      with post [OF split False] show ?thesis .
    next
      case True
      then show ?thesis by (simp only: walk_from.simps)
    qed
    moreover have "walk_from (Suc k) ?ys" by (rule pre [OF split])
    moreover have "\<forall>y \<in> set ?ys. Suc k \<le> y" by (auto dest: set_takeWhileD)
    moreover have "\<forall>z \<in> set ?zs. k \<le> z" using 1(3) Cons by (auto dest: set_dropWhileD)
    moreover have "length ?ys < length ds" "length ?zs < length ds"
      using Cons by (simp_all add: le_imp_less_Suc length_takeWhile_le length_dropWhile_le)
    ultimately obtain cs ts where "?ys = callee_depths (Suc k) cs" "?zs = callee_depths k ts"
      using 1(1) by meson
    then have "ds = callee_depths k (CallNode cs # ts)"
      using Cons x(1) takeWhile_dropWhile_id [of "\<lambda>y. k < y" xs] by simp
    then show ?thesis ..
  qed
qed

text \<open>
  The walk below one frame: at path \<open>p\<close>, with \<open>i\<close> callees already numbered, the next trees get the paths
  of the callees from \<open>i\<close> on, and the counters above are as before.
\<close>

lemma callee_addresses:
  assumes "as_seen_root st" "map of_nat p = take (length p) (as_path st)" "length p \<le> length (as_path st)"
    and "counter_at (as_counters st) (length p) = of_nat i" "map unat ds = callee_depths (Suc (length p)) ts"
  shows "\<exists>st'. fold_res address_step st ds = Inr st' \<and> as_seen_root st' \<and>
     take (length p) (as_path st') = take (length p) (as_path st) \<and> length p \<le> length (as_path st') \<and>
     (\<forall>j < length p. counter_at (as_counters st') j = counter_at (as_counters st) j) \<and>
     as_addresses st' = as_addresses st @ map (map of_nat) (callee_paths p i ts)"
  using assms
proof (induction p i ts arbitrary: st ds rule: callee_paths.induct)
  case (2 p i cs ts)
  let ?k = "length p"
  from 2(7) obtain d xs ys where ds: "ds = d # xs @ ys" "unat d = Suc ?k"
      "map unat xs = callee_depths (Suc (length (p @ [i]))) cs" "map unat ys = callee_depths (Suc ?k) ts"
    by (auto simp: map_eq_Cons_conv map_eq_append_conv)
  define st1 where "st1 = \<lparr>as_path = map of_nat (p @ [i]), as_counters = (fit_counters (Suc ?k) (as_counters st)) [?k := of_nat i + 1],
       as_addresses = as_addresses st @ [map of_nat (p @ [i])], as_seen_root = True\<rparr>"
  have 1: "address_step st d = Inr st1"
    using address_step_child [OF ds(2) 2(3,5)] 2(4,6) by (simp add: st1_def)
  have c1: "counter_at (as_counters st1) (Suc ?k) = 0" "counter_at (as_counters st1) ?k = of_nat (Suc i)"
    "\<And>j. j < ?k \<Longrightarrow> counter_at (as_counters st1) j = counter_at (as_counters st) j"
    by (simp_all add: st1_def counter_at_def fit_counters_nth)
  have "\<exists>st'. fold_res address_step st1 xs = Inr st' \<and> as_seen_root st' \<and>
     take (length (p @ [i])) (as_path st') = take (length (p @ [i])) (as_path st1) \<and> length (p @ [i]) \<le> length (as_path st') \<and>
     (\<forall>j < length (p @ [i]). counter_at (as_counters st') j = counter_at (as_counters st1) j) \<and>
     as_addresses st' = as_addresses st1 @ map (map of_nat) (callee_paths (p @ [i]) 0 cs)"
    by (rule 2(1)) (use c1 ds(3) in \<open>simp_all add: st1_def\<close>)
  then obtain st2 where st2: "fold_res address_step st1 xs = Inr st2" "as_seen_root st2"
     "take (Suc ?k) (as_path st2) = map of_nat (p @ [i])" "Suc ?k \<le> length (as_path st2)"
     "\<And>j. j < Suc ?k \<Longrightarrow> counter_at (as_counters st2) j = counter_at (as_counters st1) j"
     "as_addresses st2 = as_addresses st1 @ map (map of_nat) (callee_paths (p @ [i]) 0 cs)"
    by (auto simp: st1_def)
  have p2: "take ?k (as_path st2) = map of_nat p"
    using arg_cong [OF st2(3), of "take ?k"] by (simp add: min_def)
  have "\<exists>st'. fold_res address_step st2 ys = Inr st' \<and> as_seen_root st' \<and>
     take ?k (as_path st') = take ?k (as_path st2) \<and> ?k \<le> length (as_path st') \<and>
     (\<forall>j < ?k. counter_at (as_counters st') j = counter_at (as_counters st2) j) \<and>
     as_addresses st' = as_addresses st2 @ map (map of_nat) (callee_paths p (Suc i) ts)"
    by (rule 2(2)) (use st2 c1 p2 ds(4) in simp_all)
  then show ?case using 1 st2 c1(3) p2 2(4) by (auto simp: ds(1) fold_res_append st1_def)
qed auto

lemma root_addresses:
  assumes "map unat ds = callee_depths 0 ts"
  shows "\<exists>st'. fold_res address_step st ds = Inr st' \<and>
     as_addresses st' = as_addresses st @ map (map of_nat) (root_paths ts)"
  using assms
proof (induction ts arbitrary: st ds rule: root_paths.induct)
  case (2 cs ts)
  then obtain d xs ys where ds: "ds = d # xs @ ys" "unat d = 0"
      "map unat xs = callee_depths (Suc 0) cs" "map unat ys = callee_depths 0 ts"
    by (auto simp: map_eq_Cons_conv map_eq_append_conv)
  let ?st = "\<lparr>as_path = [], as_counters = [], as_addresses = as_addresses st @ [[]], as_seen_root = True\<rparr>"
  from callee_addresses [of ?st "[]" 0 xs cs] ds(3) obtain st1 where st1: "fold_res address_step ?st xs = Inr st1"
    "as_addresses st1 = as_addresses ?st @ map (map of_nat) (callee_paths [] 0 cs)" by (auto simp: counter_at_def)
  from 2(1) [OF ds(4), of st1] st1 ds(1,2) show ?case
    by (auto simp: fold_res_append unat_eq_0)
qed simp

lemma trace_addresses_accepted:
  "(\<exists>A. compute_trace_addresses depths = Inr A) \<longleftrightarrow> preorder_walk (map unat depths)"
  using fold_addresses_ok [of addr_init depths]
  by (auto simp: compute_trace_addresses_def res_bind_Inr_iff addr_room_def addr_init_def)

text \<open>
  C19: The addresses of a list of frames are those of its call trees: the depths are accepted exactly when
  they are the depths of the frames of some call trees in pre-order, and the addresses are then the paths of
  these frames, the root's empty and the \<open>i\<close>-th callee's that of its caller followed by \<open>i\<close> (as a \<open>u32\<close>).
\<close>

theorem compute_trace_addresses_correct:
  "compute_trace_addresses depths = Inr addresses \<longleftrightarrow>
     (\<exists>roots. map unat depths = callee_depths 0 roots \<and> addresses = map (map of_nat) (root_paths roots))"
proof -
  have answer: "compute_trace_addresses depths = Inr (map (map of_nat) (root_paths roots))"
    if "map unat depths = callee_depths 0 roots" for roots
    using root_addresses [OF that, of addr_init] by (auto simp: compute_trace_addresses_def addr_init_def)
  moreover have "\<exists>roots. map unat depths = callee_depths 0 roots" if "compute_trace_addresses depths = Inr addresses"
    using that trace_addresses_accepted [of depths] walk_has_tree [of 0 "map unat depths"] by auto
  ultimately show ?thesis by force
qed

theorem compute_trace_addresses_witness:
  "compute_trace_addresses [0, 1, 2, 1] = Inr [[], [0], [0, 0], [1]]"
proof -
  have "map unat [0, 1, 2, 1 :: u32] = callee_depths 0 [CallNode [CallNode [CallNode []], CallNode []]]"
    "[[], [0], [0, 0], [1 :: u32]] = map (map of_nat) (root_paths [CallNode [CallNode [CallNode []], CallNode []]])"
    by simp_all
  then show ?thesis by (intro iffD2 [OF compute_trace_addresses_correct] exI conjI)
qed

section \<open>Failed ancestors\<close>

abbreviation frame_depth :: "stored_trace \<Rightarrow> nat" where
  "frame_depth t \<equiv> length (tr_trace_address t)"

text \<open>The frame at depth \<open>d\<close> of the current call path: the latest earlier frame there.\<close>

definition ancestor_at :: "stored_trace list \<Rightarrow> nat \<Rightarrow> stored_trace option" where
  "ancestor_at earlier d = find (\<lambda>u. frame_depth u = d) (rev earlier)"

definition ancestor_failed :: "stored_trace list \<Rightarrow> stored_trace \<Rightarrow> bool" where
  "ancestor_failed earlier t \<longleftrightarrow>
     list_ex (\<lambda>d. case ancestor_at earlier d of None \<Rightarrow> False | Some u \<Rightarrow> tr_status u \<noteq> 0)
       [0..<frame_depth t]"

definition same_tx :: "stored_trace \<Rightarrow> stored_trace list \<Rightarrow> stored_trace list" where
  "same_tx t ts = filter (\<lambda>u. tr_tx_index u = tr_tx_index t) ts"

definition failed_at :: "stored_trace list \<Rightarrow> nat \<Rightarrow> bool" where
  "failed_at earlier d \<longleftrightarrow>
     (case ancestor_at earlier d of None \<Rightarrow> False | Some u \<Rightarrow> tr_status u \<noteq> 0)"

definition failed_upto :: "stored_trace list \<Rightarrow> nat \<Rightarrow> bool" where
  "failed_upto earlier n \<longleftrightarrow> (\<exists>d < n. failed_at earlier d)"

definition stack_inv :: "stored_trace list \<Rightarrow> bool list \<Rightarrow> bool" where
  "stack_inv earlier stack \<longleftrightarrow>
     length stack = (if earlier = [] then 0 else frame_depth (last earlier) + 1) \<and>
     (\<forall>i < length stack. stack ! i \<longleftrightarrow> failed_upto earlier (Suc i))"

lemma ancestor_failed_iff: "ancestor_failed earlier t \<longleftrightarrow> failed_upto earlier (frame_depth t)"
  by (auto simp: ancestor_failed_def failed_upto_def failed_at_def list_ex_iff)

lemma failed_at_snoc:
  "failed_at (earlier @ [t]) d \<longleftrightarrow>
     (if d = frame_depth t then tr_status t \<noteq> 0 else failed_at earlier d)"
  by (simp add: failed_at_def ancestor_at_def)

lemma failed_upto_snoc:
  "n \<le> frame_depth t \<Longrightarrow> failed_upto (earlier @ [t]) n \<longleftrightarrow> failed_upto earlier n"
  unfolding failed_upto_def by (intro ex_cong1 conj_cong) (auto simp: failed_at_snoc)

lemma failed_upto_Suc: "failed_upto earlier (Suc n) \<longleftrightarrow> failed_upto earlier n \<or> failed_at earlier n"
  by (auto simp: failed_upto_def less_Suc_eq)

lemma failed_upto_snoc_Suc:
  "failed_upto (earlier @ [t]) (Suc (frame_depth t)) \<longleftrightarrow>
     failed_upto earlier (frame_depth t) \<or> tr_status t \<noteq> 0"
  by (simp add: failed_upto_Suc failed_upto_snoc failed_at_snoc)

lemma ancestor_flag_correct:
  assumes "stack_inv earlier stack" "frame_depth t \<le> length stack"
  shows "ancestor_flag stack (frame_depth t) \<longleftrightarrow> ancestor_failed earlier t"
proof (cases "frame_depth t")
  case 0
  then show ?thesis by (simp add: ancestor_flag_def ancestor_failed_iff failed_upto_def)
next
  case (Suc k)
  then show ?thesis
    using assms by (simp add: ancestor_flag_def ancestor_failed_iff stack_inv_def)
qed

lemma push_frame_inv:
  assumes "stack_inv earlier stack" "frame_depth t \<le> length stack"
  shows "stack_inv (earlier @ [t])
           (push_frame stack (frame_depth t)
              (ancestor_flag stack (frame_depth t) \<or> tr_status t \<noteq> 0))"
proof -
  have "push_frame stack (frame_depth t) b = take (frame_depth t) stack @ [b]" for b
    using assms(2) by (simp add: push_frame_def Let_def)
  then show ?thesis
    using assms ancestor_flag_correct [OF assms]
    by (auto simp: stack_inv_def nth_append less_Suc_eq failed_upto_snoc failed_upto_snoc_Suc
        ancestor_failed_iff)
qed

lemma walk_from_append:
  "walk_from d (xs @ [x]) \<longleftrightarrow> walk_from d xs \<and> x \<le> (if xs = [] then d else last xs + 1)"
  by (induction xs arbitrary: d) auto

lemma walk_from_prefix: "walk_from d (xs @ ys) \<Longrightarrow> walk_from d xs"
  by (induction xs arbitrary: d) auto

lemma from_traces_loop_correct:
  assumes "\<And>x. preorder_walk (map frame_depth (filter (\<lambda>u. tr_tx_index u = x) (earlier @ ts)))"
    and "\<And>x. stack_inv (filter (\<lambda>u. tr_tx_index u = x) earlier) (stacks x)"
    and "i < length ts"
  shows "from_traces_loop stacks ts ! i =
    (ts ! i, ancestor_failed (same_tx (ts ! i) (earlier @ take i ts)) (ts ! i))"
  using assms
proof (induction ts arbitrary: stacks earlier i)
  case (Cons t ts)
  let ?x = "tr_tx_index t"
  let ?e = "filter (\<lambda>u. tr_tx_index u = ?x) earlier"
  let ?s = "push_frame (stacks ?x) (frame_depth t)
    (ancestor_flag (stacks ?x) (frame_depth t) \<or> tr_status t \<noteq> 0)"
  have "preorder_walk (map frame_depth ?e @ [frame_depth t])"
    using Cons.prems(1) [of ?x] walk_from_prefix [of 0 "map frame_depth ?e @ [frame_depth t]"]
    by simp
  then have d: "frame_depth t \<le> length (stacks ?x)"
    using Cons.prems(2) [of ?x] by (auto simp: walk_from_append stack_inv_def last_map)
  note flag = ancestor_flag_correct [OF Cons.prems(2) [of ?x] d]
  have si: "stack_inv (filter (\<lambda>u. tr_tx_index u = x) (earlier @ [t])) ((stacks(?x := ?s)) x)" for x
    using push_frame_inv [OF Cons.prems(2) [of ?x] d] Cons.prems(2) [of x] by auto
  have pw: "preorder_walk (map frame_depth (filter (\<lambda>u. tr_tx_index u = x) ((earlier @ [t]) @ ts)))"
    for x using Cons.prems(1) [of x] by simp
  have "from_traces_loop (stacks(?x := ?s)) ts ! j =
      (ts ! j, ancestor_failed (same_tx (ts ! j) ((earlier @ [t]) @ take j ts)) (ts ! j))"
    if "j < length ts" for j
    by (rule Cons.IH [OF pw si that])
  then show ?case
    using Cons.prems(3) flag by (cases i) (auto simp: Let_def same_tx_def)
qed simp

lemma from_traces_length: "length (from_traces ts) = length ts"
proof -
  have "length (from_traces_loop st ts) = length ts" for st
    by (induction ts arbitrary: st) (auto simp: Let_def)
  then show ?thesis by (simp add: from_traces_def)
qed

text \<open>
  C20: The stack algorithm computes the ancestor status: when the frames of every transaction
  form a pre-order walk, a frame is marked exactly when the latest earlier frame of its
  transaction at some smaller depth failed.
\<close>

theorem from_traces_correct:
  assumes "\<And>x. preorder_walk (map frame_depth (filter (\<lambda>u. tr_tx_index u = x) ts))"
    and "i < length ts"
  shows "from_traces ts ! i =
    (ts ! i, ancestor_failed (same_tx (ts ! i) (take i ts)) (ts ! i))"
  using from_traces_loop_correct [of "[]" ts "\<lambda>_. []" i] assms
  by (simp add: from_traces_def stack_inv_def)

text \<open>A root that calls twice; the first callee fails after a successful call of its own.\<close>

definition sample_trace :: "u32 list \<Rightarrow> u8 \<Rightarrow> stored_trace" where
  "sample_trace addr st =
     \<lparr>tr_type = Call, tr_from = 1, tr_to = Some 2, tr_value = 0, tr_gas = 0, tr_gas_used = 0,
      tr_input = [], tr_output = [], tr_status = st, tr_depth = of_nat (length addr),
      tr_tx_index = 0, tr_trace_address = addr, tr_tx_status = True\<rparr>"

definition sample_traces :: "stored_trace list" where
  "sample_traces = [sample_trace [] 0, sample_trace [0] 1, sample_trace [0, 0] 0, sample_trace [1] 0]"

theorem from_traces_witness:
  "from_traces sample_traces ! 2 = (sample_trace [0, 0] 0, True) \<and>
   from_traces sample_traces ! 3 = (sample_trace [1] 0, False)"
proof -
  have "preorder_walk (map frame_depth (filter (\<lambda>u. tr_tx_index u = x) sample_traces))" for x
    by (simp add: sample_traces_def sample_trace_def)
  note c = from_traces_correct [OF this]
  show ?thesis
    using c [of 2] c [of 3]
    by (simp add: sample_traces_def ancestor_failed_def same_tx_def ancestor_at_def
        upt_rec sample_trace_def eval_nat_numeral)
qed

end
