(* ===== verification/Meta_Store.thy ===== *)
theory Meta_Store
  imports Query_Types
begin

text \<open>
  The metadata interface of the query crates (\<open>monad-query-types/src/store/meta\<close>): cells,
  rows and keys, the \<open>MetaStore\<close> trait as a record of its operations, and the typed
  \<open>MetaTable\<close> over a schema.  The locale \<open>meta_store\<close> states what the writer needs of
  any store: reads return the stored row, a successful write stores it, and a failed
  batch leaves every key with its old value or with one the batch meant to write.
\<close>

section \<open>Cells (column.rs)\<close>

datatype cell_type = T_Bool | T_Number | T_Bytes

datatype cell_value = CV_Bool bool | CV_Number string | CV_Bytes bytes

fun cell_type_from :: "cell_value \<Rightarrow> cell_type" where
  "cell_type_from (CV_Bool b) = T_Bool"
| "cell_type_from (CV_Number s) = T_Number"
| "cell_type_from (CV_Bytes bs) = T_Bytes"

fun cell_value_cmp :: "cell_value \<Rightarrow> cell_value \<Rightarrow> ordering" where
  "cell_value_cmp (CV_Bool a) (CV_Bool b) = cmp_lin a b"
| "cell_value_cmp (CV_Number a) (CV_Number b) =
     (case (parse_i128 a, parse_i128 b) of
        (Some x, Some y) \<Rightarrow> cmp_lin x y
      | _ \<Rightarrow> cmp_lin a b)"
| "cell_value_cmp (CV_Bytes a) (CV_Bytes b) = cmp_lin a b"
| "cell_value_cmp (CV_Bool _) _ = Less"
| "cell_value_cmp (CV_Number _) (CV_Bool _) = Greater"
| "cell_value_cmp (CV_Number _) (CV_Bytes _) = Less"
| "cell_value_cmp (CV_Bytes _) _ = Greater"

record cell =
  column :: string
  cell_val :: cell_value

type_synonym row_cells = "cell list"

definition Cell_new_bool :: "string \<Rightarrow> bool \<Rightarrow> cell" where
  "Cell_new_bool name v = \<lparr>column = name, cell_val = CV_Bool v\<rparr>"

definition Cell_new_number :: "string \<Rightarrow> u64 \<Rightarrow> cell" where
  "Cell_new_number name v = \<lparr>column = name, cell_val = CV_Number (word_to_string v)\<rparr>"

definition Cell_new_bytes :: "string \<Rightarrow> bytes \<Rightarrow> cell" where
  "Cell_new_bytes name v = \<lparr>column = name, cell_val = CV_Bytes v\<rparr>"

lemma Cell_sel [simp]:
  "column (Cell_new_number n v) = n" "cell_val (Cell_new_number n v) = CV_Number (word_to_string v)"
  "column (Cell_new_bytes n b) = n" "cell_val (Cell_new_bytes n b) = CV_Bytes b"
  "column (Cell_new_bool n c) = n" "cell_val (Cell_new_bool n c) = CV_Bool c"
  by (simp_all add: Cell_new_number_def Cell_new_bytes_def Cell_new_bool_def)

lemma Cell_inject [simp]:
  "Cell_new_number n v = Cell_new_number n' v' \<longleftrightarrow> n = n' \<and> v = v'"
  "Cell_new_bytes n b = Cell_new_bytes n' b' \<longleftrightarrow> n = n' \<and> b = b'"
  by (auto simp: Cell_new_number_def Cell_new_bytes_def)

text \<open>\<open>Cell\<close> derives its order: by column, then by value.\<close>

definition cell_cmp :: "cell \<Rightarrow> cell \<Rightarrow> ordering" where
  "cell_cmp a b =
     then_with (cmp_lin (column a) (column b)) (cell_value_cmp (cell_val a) (cell_val b))"

record column_def =
  cd_name :: string
  cd_kind :: cell_type

definition ColumnDef_new_bool :: "string \<Rightarrow> column_def" where
  "ColumnDef_new_bool n = \<lparr>cd_name = n, cd_kind = T_Bool\<rparr>"
definition ColumnDef_new_number :: "string \<Rightarrow> column_def" where
  "ColumnDef_new_number n = \<lparr>cd_name = n, cd_kind = T_Number\<rparr>"
definition ColumnDef_new_byte :: "string \<Rightarrow> column_def" where
  "ColumnDef_new_byte n = \<lparr>cd_name = n, cd_kind = T_Bytes\<rparr>"

lemmas ColumnDef_defs = ColumnDef_new_bool_def ColumnDef_new_number_def ColumnDef_new_byte_def

section \<open>Keys and rows (mod.rs)\<close>

record meta_key =
  mk_partition :: row_cells
  mk_clustering :: row_cells

record meta_row =
  row_key :: meta_key
  row_columns :: row_cells

definition meta_key_cmp :: "meta_key \<Rightarrow> meta_key \<Rightarrow> ordering" where
  "meta_key_cmp a b =
     then_with (cmp_list cell_cmp (mk_partition a) (mk_partition b))
               (cmp_list cell_cmp (mk_clustering a) (mk_clustering b))"

definition same_columns :: "row_cells \<Rightarrow> row_cells \<Rightarrow> bool" where
  "same_columns left right \<longleftrightarrow> map column left = map column right"

definition has_same_columns :: "meta_key \<Rightarrow> meta_key \<Rightarrow> bool" where
  "has_same_columns self other \<longleftrightarrow>
     same_columns (mk_partition self) (mk_partition other) \<and>
     same_columns (mk_clustering self) (mk_clustering other)"

text \<open>\<open>slice::windows(2)\<close>.\<close>

definition windows2 :: "'a list \<Rightarrow> ('a \<times> 'a) list" where
  "windows2 xs = zip xs (tl xs)"

definition MetaKey_validate_batch_layout :: "meta_key list \<Rightarrow> unit query_result" where
  "MetaKey_validate_batch_layout keys =
     (if list_ex (\<lambda>(a, b). \<not> has_same_columns a b) (windows2 keys)
      then Inl (Err (InvalidRequest ''metadata batch keys must have identical ordered columns''))
      else Inr ())"

definition MetaRow_validate_batch_layout :: "meta_row list \<Rightarrow> unit query_result" where
  "MetaRow_validate_batch_layout rows =
     (if list_ex (\<lambda>(a, b). \<not> has_same_columns (row_key a) (row_key b)
                          \<or> \<not> same_columns (row_columns a) (row_columns b)) (windows2 rows)
      then Inl (Err (InvalidRequest ''metadata batch rows must have identical ordered columns''))
      else Inr ())"

datatype meta_scan_order = Ascending | Descending

section \<open>Table definitions (table.rs)\<close>

record meta_table_def =
  partition_key :: "column_def list"
  clustering_key :: "column_def list"
  columns_def :: "column_def list"

definition validate_row :: "column_def list \<Rightarrow> cell list \<Rightarrow> unit query_result" where
  "validate_row row_def row =
     (if length row_def \<noteq> length row
         \<or> list_ex (\<lambda>(d, c). cd_name d \<noteq> column c \<or> cd_kind d \<noteq> cell_type_from (cell_val c))
              (zip row_def row)
      then Inl (Err (InvalidRequest ''metadata row does not match table schema''))
      else Inr ())"

definition validate_key :: "meta_table_def \<Rightarrow> meta_key \<Rightarrow> unit query_result" where
  "validate_key d key =
     res_bind (validate_row (partition_key d) (mk_partition key))
       (\<lambda>_. validate_row (clustering_key d) (mk_clustering key))"

definition validate_row_cells :: "meta_table_def \<Rightarrow> row_cells \<Rightarrow> unit query_result" where
  "validate_row_cells d row = validate_row (columns_def d) row"

section \<open>The store trait\<close>

record 'w meta_store =
  ms_init :: "string \<Rightarrow> meta_table_def \<Rightarrow> ('w, unit) query_io"
  ms_get :: "string \<Rightarrow> meta_key \<Rightarrow> ('w, meta_row option) query_io"
  ms_get_many :: "string \<Rightarrow> meta_key list \<Rightarrow> ('w, meta_row list) query_io"
  ms_get_range :: "string \<Rightarrow> row_cells \<Rightarrow> row_cells \<Rightarrow> row_cells \<Rightarrow> meta_scan_order
                     \<Rightarrow> nat option \<Rightarrow> ('w, meta_row list) query_io"
  ms_seek_le :: "string \<Rightarrow> row_cells \<Rightarrow> row_cells \<Rightarrow> ('w, meta_row option) query_io"
  ms_put :: "string \<Rightarrow> meta_row \<Rightarrow> ('w, unit) query_io"
  ms_put_batch :: "string \<Rightarrow> meta_row list \<Rightarrow> ('w, unit) query_io"

text \<open>The trait's default bodies.\<close>

definition default_init :: "string \<Rightarrow> meta_table_def \<Rightarrow> ('w, unit) query_io" where
  "default_init t d = io_lift (Inr ())"

fun get_each ::
  "(string \<Rightarrow> meta_key \<Rightarrow> ('w, meta_row option) query_io) \<Rightarrow> string \<Rightarrow> meta_key list
     \<Rightarrow> ('w, meta_row list) query_io" where
  "get_each get t [] = io_lift (Inr [])"
| "get_each get t (k # ks) =
     io_bind (get t k) (\<lambda>r. io_bind (get_each get t ks) (\<lambda>rs.
       io_lift (Inr (case r of None \<Rightarrow> rs | Some row \<Rightarrow> row # rs))))"

definition default_get_many ::
  "(string \<Rightarrow> meta_key \<Rightarrow> ('w, meta_row option) query_io) \<Rightarrow> string \<Rightarrow> meta_key list
     \<Rightarrow> ('w, meta_row list) query_io" where
  "default_get_many get t keys =
     io_bind (io_lift (MetaKey_validate_batch_layout keys)) (\<lambda>_. get_each get t keys)"

definition default_get_range ::
  "string \<Rightarrow> row_cells \<Rightarrow> row_cells \<Rightarrow> row_cells \<Rightarrow> meta_scan_order \<Rightarrow> nat option
     \<Rightarrow> ('w, meta_row list) query_io" where
  "default_get_range t p s e ord lim =
     io_lift (Inl (Err (Backend ''metadata range query is not supported'')))"

definition default_seek_le ::
  "string \<Rightarrow> row_cells \<Rightarrow> row_cells \<Rightarrow> ('w, meta_row option) query_io" where
  "default_seek_le t p c = io_lift (Inl (Err (Backend ''metadata seek is not supported'')))"

definition default_put_batch ::
  "(string \<Rightarrow> meta_row \<Rightarrow> ('w, unit) query_io) \<Rightarrow> string \<Rightarrow> meta_row list
     \<Rightarrow> ('w, unit) query_io" where
  "default_put_batch put t rows =
     io_bind (io_lift (MetaRow_validate_batch_layout rows)) (\<lambda>_. io_each (put t) rows)"

section \<open>Typed tables (table.rs)\<close>

record ('k, 'v) meta_table_schema =
  TABLE :: string
  DEFINITION :: meta_table_def
  sch_key :: "'k \<Rightarrow> meta_key"
  sch_decode_key :: "meta_key \<Rightarrow> 'k query_result"
  sch_columns :: "'v \<Rightarrow> row_cells"
  sch_decode :: "row_cells \<Rightarrow> 'v query_result"

definition MetaTable_init :: "'w meta_store \<Rightarrow> ('k, 'v) meta_table_schema \<Rightarrow> ('w, unit) query_io" where
  "MetaTable_init ms ts = ms_init ms (TABLE ts) (DEFINITION ts)"

definition MetaTable_get ::
  "'w meta_store \<Rightarrow> ('k, 'v) meta_table_schema \<Rightarrow> 'k \<Rightarrow> ('w, 'v option) query_io" where
  "MetaTable_get ms ts k =
     (let key = sch_key ts k in
      io_bind (io_lift (validate_key (DEFINITION ts) key)) (\<lambda>_.
      io_bind (ms_get ms (TABLE ts) key) (\<lambda>r.
      io_lift (map_transpose (\<lambda>row. sch_decode ts (row_columns row)) r))))"

definition MetaTable_get_many ::
  "'w meta_store \<Rightarrow> ('k, 'v) meta_table_schema \<Rightarrow> 'k list \<Rightarrow> ('w, 'v option list) query_io" where
  "MetaTable_get_many ms ts keys =
     io_bind (io_lift (map_res (\<lambda>k. let key = sch_key ts k in
                res_bind (validate_key (DEFINITION ts) key) (\<lambda>_. Inr key)) keys)) (\<lambda>physical.
     io_bind (ms_get_many ms (TABLE ts) physical) (\<lambda>rows.
     let vals = map_of (rev (map (\<lambda>row. (row_key row, row_columns row)) rows)) in
     io_lift (map_res (\<lambda>k. map_transpose (sch_decode ts) (vals (sch_key ts k))) keys)))"

definition decode_row_pair ::
  "('k, 'v) meta_table_schema \<Rightarrow> meta_row \<Rightarrow> ('k \<times> 'v) query_result" where
  "decode_row_pair ts row =
     res_bind (sch_decode_key ts (row_key row)) (\<lambda>k.
     res_bind (sch_decode ts (row_columns row)) (\<lambda>v. Inr (k, v)))"

definition MetaTable_scan ::
  "'w meta_store \<Rightarrow> ('k, 'v) meta_table_schema \<Rightarrow> 'k \<Rightarrow> 'k \<Rightarrow> meta_scan_order \<Rightarrow> nat option
     \<Rightarrow> ('w, ('k \<times> 'v) list) query_io" where
  "MetaTable_scan ms ts start_k end_k ord limit =
     (let s = sch_key ts start_k; e = sch_key ts end_k in
      io_bind (io_lift (validate_key (DEFINITION ts) s)) (\<lambda>_.
      io_bind (io_lift (validate_key (DEFINITION ts) e)) (\<lambda>_.
      if mk_partition s \<noteq> mk_partition e
         \<or> length (mk_clustering s) \<noteq> 1
         \<or> length (mk_clustering e) \<noteq> 1
         \<or> column (mk_clustering s ! 0) \<noteq> column (mk_clustering e ! 0)
         \<or> meta_key_cmp s e = Greater
      then io_lift (Inl (Err (InvalidRequest
             ''metadata range requires ordered bounds in one partition'')))
      else io_bind (ms_get_range ms (TABLE ts) (mk_partition s) (mk_clustering s)
                      (mk_clustering e) ord limit) (\<lambda>rows.
           io_lift (map_res (decode_row_pair ts) rows)))))"

definition MetaTable_seek_le ::
  "'w meta_store \<Rightarrow> ('k, 'v) meta_table_schema \<Rightarrow> 'k \<Rightarrow> ('w, ('k \<times> 'v) option) query_io" where
  "MetaTable_seek_le ms ts k =
     (let key = sch_key ts k in
      io_bind (io_lift (validate_key (DEFINITION ts) key)) (\<lambda>_.
      io_bind (ms_seek_le ms (TABLE ts) (mk_partition key) (mk_clustering key)) (\<lambda>r.
      io_lift (map_transpose (decode_row_pair ts) r))))"

text \<open>One row to write: key and columns, both checked against the schema.\<close>

definition schema_row :: "('k, 'v) meta_table_schema \<Rightarrow> 'k \<times> 'v \<Rightarrow> meta_row query_result" where
  "schema_row ts kv =
     (let key = sch_key ts (fst kv); cols = sch_columns ts (snd kv) in
      res_bind (validate_key (DEFINITION ts) key) (\<lambda>_.
      res_bind (validate_row_cells (DEFINITION ts) cols) (\<lambda>_.
      Inr \<lparr>row_key = key, row_columns = cols\<rparr>)))"

definition MetaTable_put ::
  "'w meta_store \<Rightarrow> ('k, 'v) meta_table_schema \<Rightarrow> 'k \<Rightarrow> 'v \<Rightarrow> ('w, unit) query_io" where
  "MetaTable_put ms ts k v =
     io_bind (io_lift (schema_row ts (k, v))) (ms_put ms (TABLE ts))"

definition MetaTable_put_batch ::
  "'w meta_store \<Rightarrow> ('k, 'v) meta_table_schema \<Rightarrow> ('k \<times> 'v) list \<Rightarrow> ('w, unit) query_io" where
  "MetaTable_put_batch ms ts writes =
     io_bind (io_lift (map_res (schema_row ts) writes)) (ms_put_batch ms (TABLE ts))"

end
