(* ===== verification/Meta_Contract.thy ===== *)
theory Meta_Contract
  imports Meta_Store
begin

text \<open>
  What the metadata layer promises.  The order on cells is a linear order on the keys the
  schemas build (numbers printed from \<open>u64\<close>) and not on arbitrary number strings; batch
  layout checks compare neighbours and thereby all rows; the locale \<open>meta_schema\<close> is the
  contract of a \<open>MetaTableSchema\<close>, \<open>meta_store\<close> that of a \<open>MetaStore\<close>, and their sum
  gives the laws of the typed \<open>MetaTable\<close>.
\<close>

section \<open>Canonical cells and their order\<close>

fun canonical_value :: "cell_value \<Rightarrow> bool" where
  "canonical_value (CV_Number s) =
     (case parse_word s :: u64 option of None \<Rightarrow> False | Some n \<Rightarrow> word_to_string n = s)"
| "canonical_value _ = True"

definition canonical_cells :: "row_cells \<Rightarrow> bool" where
  "canonical_cells cs \<longleftrightarrow> list_all (\<lambda>c. canonical_value (cell_val c)) cs"

definition canonical_key :: "meta_key \<Rightarrow> bool" where
  "canonical_key k \<longleftrightarrow> canonical_cells (mk_partition k) \<and> canonical_cells (mk_clustering k)"

lemma canonical_number_iff:
  "canonical_value (CV_Number s) \<longleftrightarrow> (\<exists>n::u64. s = word_to_string n)"
  by (auto split: option.splits)

lemma canonical_new [simp]:
  "canonical_value (cell_val (Cell_new_number n v))"
  "canonical_value (cell_val (Cell_new_bytes n b))"
  "canonical_value (cell_val (Cell_new_bool n c))"
  by simp_all

lemma cell_value_cmp_numbers [simp]:
  "cell_value_cmp (CV_Number (word_to_string (a :: u64))) (CV_Number (word_to_string (b :: u64))) =
     cmp_lin a b"
  by (simp add: cmp_lin_def word_less_def word_uint_eq_iff)

lemma cell_value_comparator: "comparator cell_value_cmp {v. canonical_value v}"
proof (unfold_locales, goal_cases)
  case (1 x y)
  then show ?case
    by (cases x; cases y)
       (auto simp: canonical_number_iff word_uint_eq_iff simp del: canonical_value.simps)
next
  case (2 x y)
  then show ?case
    by (cases x; cases y) (auto simp: canonical_number_iff simp del: canonical_value.simps)
next
  case (3 x y z)
  then show ?case
    by (cases x; cases y; cases z)
       (auto simp: canonical_number_iff simp del: canonical_value.simps)
qed

lemma comparator_inj:
  assumes "comparator c A" "inj_on f B" "f ` B \<subseteq> A"
  shows "comparator (\<lambda>x y. c (f x) (f y)) B"
proof -
  note c = comparator.eq_iff [OF assms(1)] comparator.flip [OF assms(1)]
    comparator.less_trans [OF assms(1)]
  have mem: "x \<in> B \<Longrightarrow> f x \<in> A" for x using assms(3) by blast
  show ?thesis
  proof (unfold_locales, goal_cases)
    case (1 x y)
    then show ?case using c(1) [OF mem mem] assms(2) by (auto dest: inj_onD)
  next
    case (2 x y)
    then show ?case by (rule c(2) [OF mem mem])
  next
    case (3 x y z)
    then show ?case using c(3) [OF mem mem mem] by blast
  qed
qed

lemma cell_eq_iff: "(x :: cell) = y \<longleftrightarrow> column x = column y \<and> cell_val x = cell_val y"
  by (cases x; cases y) simp

lemma cell_comparator: "comparator cell_cmp {c. canonical_value (cell_val c)}"
proof -
  have "comparator (cmp_pair cmp_lin cell_value_cmp) (UNIV \<times> {v. canonical_value v})"
    by (rule comparator_pair [OF lin.comparator_axioms cell_value_comparator])
  then have "comparator (\<lambda>(x :: cell) y. cmp_pair cmp_lin cell_value_cmp (column x, cell_val x) (column y, cell_val y))
      {c. canonical_value (cell_val c)}"
    by (rule comparator_inj [where f = "\<lambda>c. (column c, cell_val c)"])
       (auto simp: inj_on_def cell_eq_iff)
  then show ?thesis by (simp add: cell_cmp_def [abs_def] cmp_pair_def)
qed

lemma meta_key_comparator: "comparator meta_key_cmp {k. canonical_key k}"
proof -
  let ?A = "{cs. set cs \<subseteq> {c. canonical_value (cell_val c)}}"
  have "comparator (cmp_pair (cmp_list cell_cmp) (cmp_list cell_cmp)) (?A \<times> ?A)"
    by (intro comparator_pair comparator_list cell_comparator)
  then have "comparator (\<lambda>x y. cmp_pair (cmp_list cell_cmp) (cmp_list cell_cmp)
      (mk_partition x, mk_clustering x) (mk_partition y, mk_clustering y)) {k. canonical_key k}"
    by (rule comparator_inj [where f = "\<lambda>k. (mk_partition k, mk_clustering k)"])
       (auto simp: inj_on_def canonical_key_def canonical_cells_def list_all_iff
             intro: meta_key.equality)
  then show ?thesis by (simp add: meta_key_cmp_def [abs_def] cmp_pair_def)
qed

section \<open>Batch layouts\<close>

lemma windows2_simps [simp]:
  "windows2 [] = []" "windows2 [x] = []" "windows2 (x # y # zs) = (x, y) # windows2 (y # zs)"
  by (simp_all add: windows2_def)

lemma windows2_all_related:
  assumes "\<And>x y z. R x y \<Longrightarrow> R y z \<Longrightarrow> R x z"
    and "list_all (\<lambda>(a, b). R a b) (windows2 (x # xs))"
  shows "\<forall>y \<in> set xs. R x y"
  using assms(2)
proof (induction xs arbitrary: x)
  case (Cons y ys)
  then have "R x y" "\<forall>z \<in> set ys. R y z" by auto
  then show ?case using assms(1) [of x y] by auto
qed simp

lemma windows2_chain_iff:
  assumes "\<And>x. R x x" "\<And>x y. R x y \<Longrightarrow> R y x" "\<And>x y z. R x y \<Longrightarrow> R y z \<Longrightarrow> R x z"
  shows "list_all (\<lambda>(a, b). R a b) (windows2 xs) \<longleftrightarrow> (\<forall>x \<in> set xs. \<forall>y \<in> set xs. R x y)"
proof
  assume l: "list_all (\<lambda>(a, b). R a b) (windows2 xs)"
  show "\<forall>x \<in> set xs. \<forall>y \<in> set xs. R x y"
  proof (cases xs)
    case (Cons z zs)
    with l have "\<forall>y \<in> set xs. R z y"
      using windows2_all_related [of R z zs, OF assms(3)] assms(1) by auto
    then show ?thesis using assms(2,3) by blast
  qed simp
next
  assume "\<forall>x \<in> set xs. \<forall>y \<in> set xs. R x y"
  then show "list_all (\<lambda>(a, b). R a b) (windows2 xs)"
    by (induction xs rule: induct_list012) auto
qed

definition same_layout :: "meta_row \<Rightarrow> meta_row \<Rightarrow> bool" where
  "same_layout a b \<longleftrightarrow>
     has_same_columns (row_key a) (row_key b) \<and> same_columns (row_columns a) (row_columns b)"

lemma list_ex_not: "list_ex (\<lambda>x. \<not> P x) xs \<longleftrightarrow> \<not> list_all P xs"
  by (induction xs) auto

lemma MetaRow_layout_iff:
  "MetaRow_validate_batch_layout rows = Inr () \<longleftrightarrow>
     (\<forall>a \<in> set rows. \<forall>b \<in> set rows. same_layout a b)"
proof -
  have "MetaRow_validate_batch_layout rows = Inr () \<longleftrightarrow>
      list_all (\<lambda>(a, b). same_layout a b) (windows2 rows)"
    by (auto simp: MetaRow_validate_batch_layout_def same_layout_def list_ex_iff list_all_iff)
  also have "\<dots> \<longleftrightarrow> (\<forall>a \<in> set rows. \<forall>b \<in> set rows. same_layout a b)"
    by (rule windows2_chain_iff)
       (auto simp: same_layout_def has_same_columns_def same_columns_def)
  finally show ?thesis .
qed

lemma MetaKey_layout_iff:
  "MetaKey_validate_batch_layout keys = Inr () \<longleftrightarrow>
     (\<forall>a \<in> set keys. \<forall>b \<in> set keys. has_same_columns a b)"
proof -
  have "MetaKey_validate_batch_layout keys = Inr () \<longleftrightarrow>
      list_all (\<lambda>(a, b). has_same_columns a b) (windows2 keys)"
    by (auto simp: MetaKey_validate_batch_layout_def list_ex_iff list_all_iff)
  also have "\<dots> \<longleftrightarrow> (\<forall>a \<in> set keys. \<forall>b \<in> set keys. has_same_columns a b)"
    by (rule windows2_chain_iff) (auto simp: has_same_columns_def same_columns_def)
  finally show ?thesis .
qed

lemma validate_row_iff:
  "validate_row ds cs = Inr () \<longleftrightarrow>
     map (\<lambda>d. (cd_name d, cd_kind d)) ds = map (\<lambda>c. (column c, cell_type_from (cell_val c))) cs"
proof (induction ds arbitrary: cs)
  case Nil
  then show ?case by (cases cs) (simp_all add: validate_row_def)
next
  case (Cons d ds)
  show ?case
  proof (cases cs)
    case (Cons c cs')
    have "validate_row (d # ds) (c # cs') = Inr () \<longleftrightarrow>
        cd_name d = column c \<and> cd_kind d = cell_type_from (cell_val c) \<and> validate_row ds cs' = Inr ()"
      by (auto simp: validate_row_def)
    with Cons.IH [of cs'] Cons show ?thesis by simp
  qed (simp add: validate_row_def)
qed

section \<open>Schemas\<close>

text \<open>The contract of a \<open>MetaTableSchema\<close>; \<open>okv\<close> are the values its columns can hold.\<close>

locale meta_schema =
  fixes ts :: "('k, 'v) meta_table_schema"
    and okv :: "'v \<Rightarrow> bool"
  assumes key_valid: "validate_key (DEFINITION ts) (sch_key ts k) = Inr ()"
    and columns_valid: "validate_row_cells (DEFINITION ts) (sch_columns ts v) = Inr ()"
    and key_canonical: "canonical_key (sch_key ts k)"
    and decode_key: "sch_decode_key ts (sch_key ts k) = Inr k"
    and decode_columns: "okv v \<Longrightarrow> sch_decode ts (sch_columns ts v) = Inr v"
    and key_inject: "sch_key ts k = sch_key ts k' \<longleftrightarrow> k = k'"
begin

definition row_of :: "'k \<times> 'v \<Rightarrow> meta_row" where
  "row_of kv = \<lparr>row_key = sch_key ts (fst kv), row_columns = sch_columns ts (snd kv)\<rparr>"

lemma schema_row_total: "schema_row ts kv = Inr (row_of kv)"
  by (simp add: schema_row_def row_of_def key_valid columns_valid Let_def)

lemma schema_rows_total: "map_res (schema_row ts) kvs = Inr (map row_of kvs)"
  by (rule map_res_total) (simp add: schema_row_total)

lemma valid_names:
  assumes "validate_row ds cs = Inr ()"
  shows "map column cs = map cd_name ds"
proof -
  have "map fst (map (\<lambda>d. (cd_name d, cd_kind d)) ds) =
      map fst (map (\<lambda>c. (column c, cell_type_from (cell_val c))) cs)"
    using assms by (simp only: validate_row_iff)
  then show ?thesis by (simp add: comp_def)
qed

lemma rows_same_layout: "same_layout (row_of kv) (row_of kv')"
proof -
  have "validate_row (partition_key (DEFINITION ts)) (mk_partition (sch_key ts k)) = Inr ()"
    "validate_row (clustering_key (DEFINITION ts)) (mk_clustering (sch_key ts k)) = Inr ()" for k
    using key_valid [of k] by (auto simp: validate_key_def res_bind_Inr_iff)
  note n = this [THEN valid_names]
  have "map column (sch_columns ts v) = map cd_name (columns_def (DEFINITION ts))" for v
    using columns_valid [of v] valid_names by (simp add: validate_row_cells_def)
  with n show ?thesis
    by (simp add: same_layout_def row_of_def has_same_columns_def same_columns_def)
qed

lemma batch_layout_ok: "MetaRow_validate_batch_layout (map row_of kvs) = Inr ()"
  using rows_same_layout by (auto simp: MetaRow_layout_iff)

lemma keys_layout_ok: "MetaKey_validate_batch_layout (map (sch_key ts) ks) = Inr ()"
  using rows_same_layout [of "(_, undefined)" "(_, undefined)"]
  by (auto simp: MetaKey_layout_iff same_layout_def row_of_def)

end

section \<open>Stores\<close>

type_synonym meta_rows = "string \<Rightarrow> meta_key \<Rightarrow> row_cells option"

text \<open>The rows after one write, and after a batch of them.\<close>

definition rows_put :: "string \<Rightarrow> meta_row \<Rightarrow> meta_rows \<Rightarrow> meta_rows" where
  "rows_put t row R = R(t := (R t)(row_key row \<mapsto> row_columns row))"

definition rows_put_all :: "string \<Rightarrow> meta_row list \<Rightarrow> meta_rows \<Rightarrow> meta_rows" where
  "rows_put_all t rws R = fold (rows_put t) rws R"

text \<open>
  The rows after a write that failed part-way: every key holds what it held before or one
  of the values meant for it.
\<close>

definition rows_partial :: "string \<Rightarrow> meta_row list \<Rightarrow> meta_rows \<Rightarrow> meta_rows \<Rightarrow> bool" where
  "rows_partial t rws R R' \<longleftrightarrow>
     (\<forall>t' k. R' t' k = R t' k \<or>
        (t' = t \<and> (\<exists>row \<in> set rws. row_key row = k \<and> R' t' k = Some (row_columns row))))"

lemma rows_put_apply [simp]:
  "rows_put t row R t' k =
     (if t' = t \<and> k = row_key row then Some (row_columns row) else R t' k)"
  by (simp add: rows_put_def)

lemma rows_put_all_simps [simp]:
  "rows_put_all t [] R = R"
  "rows_put_all t (row # rws) R = rows_put_all t rws (rows_put t row R)"
  by (simp_all add: rows_put_all_def)

lemma rows_partial_refl [simp]: "rows_partial t rws R R"
  by (simp add: rows_partial_def)

lemma rows_partial_put_all: "rows_partial t rws R (rows_put_all t rws R)"
proof (induction rws arbitrary: R)
  case (Cons row rws)
  let ?R = "rows_put_all t rws (rows_put t row R)"
  show ?case
    unfolding rows_partial_def
  proof (intro allI)
    fix t' k
    from Cons [of "rows_put t row R"]
    have "?R t' k = rows_put t row R t' k \<or>
        (t' = t \<and> (\<exists>row \<in> set rws. row_key row = k \<and> ?R t' k = Some (row_columns row)))"
      by (simp only: rows_partial_def)
    then show "rows_put_all t (row # rws) R t' k = R t' k \<or>
        (t' = t \<and> (\<exists>r \<in> set (row # rws). row_key r = k \<and>
           rows_put_all t (row # rws) R t' k = Some (row_columns r)))"
      by (cases "t' = t \<and> k = row_key row") auto
  qed
qed simp

lemma rows_put_all_other:
  "t' \<noteq> t \<or> k \<notin> row_key ` set rws \<Longrightarrow> rows_put_all t rws R t' k = R t' k"
  by (induction rws arbitrary: R) auto

lemma rows_put_all_distinct:
  "\<lbrakk>distinct (map row_key rws); row \<in> set rws\<rbrakk> \<Longrightarrow>
     rows_put_all t rws R t (row_key row) = Some (row_columns row)"
proof (induction rws arbitrary: R)
  case (Cons r rws)
  then show ?case
    using rows_put_all_other [of t t "row_key row" rws "rows_put t r R"] by (auto simp: image_iff)
qed simp

locale meta_store =
  fixes ms :: "'w meta_store"
    and winv :: "'w \<Rightarrow> bool"
    and rows :: "'w \<Rightarrow> meta_rows"
  assumes get: "\<lbrakk>winv w; canonical_key k; ms_get ms t k w = (r, w')\<rbrakk> \<Longrightarrow>
      winv w' \<and> rows w' = rows w \<and>
      (\<forall>x. r = Inr x \<longrightarrow> x = map_option (\<lambda>cs. \<lparr>row_key = k, row_columns = cs\<rparr>) (rows w t k))"
    and put: "\<lbrakk>winv w; canonical_key (row_key row); ms_put ms t row w = (r', w')\<rbrakk> \<Longrightarrow>
      winv w' \<and> (r' = Inr () \<longrightarrow> rows w' = rows_put t row (rows w)) \<and>
      rows_partial t [row] (rows w) (rows w')"
    and put_batch: "\<lbrakk>winv w; list_all (\<lambda>row. canonical_key (row_key row)) rws;
        ms_put_batch ms t rws w = (r', w')\<rbrakk> \<Longrightarrow>
      winv w' \<and> (r' = Inr () \<longrightarrow> rows w' = rows_put_all t rws (rows w)) \<and>
      rows_partial t rws (rows w) (rows w')"

text \<open>A store that never fails on well-formed requests.\<close>

locale reliable_meta_store = meta_store +
  assumes init_ok: "winv w \<Longrightarrow> \<exists>w'. ms_init ms t d w = (Inr (), w')"
    and get_ok: "\<lbrakk>winv w; canonical_key k\<rbrakk> \<Longrightarrow> \<exists>x w'. ms_get ms t k w = (Inr x, w')"
    and put_ok: "\<lbrakk>winv w; canonical_key (row_key row)\<rbrakk> \<Longrightarrow> \<exists>w'. ms_put ms t row w = (Inr (), w')"
    and put_batch_ok: "\<lbrakk>winv w; list_all (\<lambda>row. canonical_key (row_key row)) rws;
        MetaRow_validate_batch_layout rws = Inr ()\<rbrakk> \<Longrightarrow>
      \<exists>w'. ms_put_batch ms t rws w = (Inr (), w')"

section \<open>Typed tables over a store\<close>

text \<open>The stored value of a typed key: its columns are in the table's rows.\<close>

definition holds :: "meta_rows \<Rightarrow> ('k, 'v) meta_table_schema \<Rightarrow> 'k \<Rightarrow> 'v \<Rightarrow> bool" where
  "holds R ts k v \<longleftrightarrow> R (TABLE ts) (sch_key ts k) = Some (sch_columns ts v)"

locale meta_table = meta_store ms winv rows + meta_schema ts okv
  for ms :: "'w meta_store" and winv :: "'w \<Rightarrow> bool" and rows :: "'w \<Rightarrow> meta_rows"
    and ts :: "('k, 'v) meta_table_schema" and okv :: "'v \<Rightarrow> bool"
begin

lemma table_get:
  assumes "winv w" "MetaTable_get ms ts k w = (r, w')"
  shows "winv w'" and "rows w' = rows w"
    and "r = Inr x \<Longrightarrow>
      (case rows w (TABLE ts) (sch_key ts k) of
         None \<Rightarrow> x = None
       | Some cs \<Rightarrow> \<exists>v. sch_decode ts cs = Inr v \<and> x = Some v)"
proof -
  obtain r0 where g: "ms_get ms (TABLE ts) (sch_key ts k) w = (r0, w')"
    using assms(2) by (cases "ms_get ms (TABLE ts) (sch_key ts k) w")
      (auto simp: MetaTable_get_def key_valid io_bind_def split: sum.splits)
  note p = get [OF assms(1) key_canonical g]
  from p show "winv w'" "rows w' = rows w" by auto
  assume "r = Inr x"
  with assms(2) g obtain row where r0: "r0 = Inr row"
    "map_transpose (\<lambda>row. sch_decode ts (row_columns row)) row = Inr x"
    by (auto simp: MetaTable_get_def key_valid io_bind_def split: sum.splits)
  with p show "case rows w (TABLE ts) (sch_key ts k) of
         None \<Rightarrow> x = None
       | Some cs \<Rightarrow> \<exists>v. sch_decode ts cs = Inr v \<and> x = Some v"
    by (auto simp: res_bind_Inr_iff split: option.splits)
qed

lemma table_get_holds:
  assumes "winv w" "holds (rows w) ts k v" "okv v" "MetaTable_get ms ts k w = (Inr x, w')"
  shows "x = Some v"
  using table_get(3) [OF assms(1,4)] assms(2,3) decode_columns by (auto simp: holds_def)

lemma put_batch_rows: "MetaTable_put_batch ms ts kvs w = ms_put_batch ms (TABLE ts) (map row_of kvs) w"
  by (simp add: MetaTable_put_batch_def schema_rows_total)

lemma canonical_rows: "list_all (\<lambda>row. canonical_key (row_key row)) (map row_of kvs)"
  by (simp add: list_all_iff row_of_def key_canonical)

lemma table_put_batch:
  assumes "winv w" "MetaTable_put_batch ms ts kvs w = (r, w')"
  shows "winv w'"
    and "r = Inr () \<Longrightarrow> rows w' = rows_put_all (TABLE ts) (map row_of kvs) (rows w)"
    and "rows_partial (TABLE ts) (map row_of kvs) (rows w) (rows w')"
  using put_batch [OF assms(1) canonical_rows assms(2) [unfolded put_batch_rows]] by auto

lemma table_put:
  assumes "winv w" "MetaTable_put ms ts k v w = (r, w')"
  shows "winv w'"
    and "r = Inr () \<Longrightarrow> rows w' = rows_put (TABLE ts) (row_of (k, v)) (rows w)"
    and "rows_partial (TABLE ts) [row_of (k, v)] (rows w) (rows w')"
proof -
  have "ms_put ms (TABLE ts) (row_of (k, v)) w = (r, w')"
    using assms(2) by (simp add: MetaTable_put_def schema_row_total)
  moreover have "canonical_key (row_key (row_of (k, v)))"
    by (simp add: row_of_def key_canonical)
  ultimately show "winv w'"
    "r = Inr () \<Longrightarrow> rows w' = rows_put (TABLE ts) (row_of (k, v)) (rows w)"
    "rows_partial (TABLE ts) [row_of (k, v)] (rows w) (rows w')"
    using put [OF assms(1)] by blast+
qed

end

text \<open>A reliable store answers a typed read whose row, if there is one, decodes.\<close>

context reliable_meta_store
begin

lemma table_get_ok:
  assumes "meta_schema ts okv" "winv w" "MetaTable_get ms ts k w = (r, w')"
    and "\<And>cs. rows w (TABLE ts) (sch_key ts k) = Some cs \<Longrightarrow> \<exists>v. sch_decode ts cs = Inr v"
  shows "\<exists>x. r = Inr x"
proof -
  have c: "canonical_key (sch_key ts k)" by (rule meta_schema.key_canonical [OF assms(1)])
  obtain x w1 where g: "ms_get ms (TABLE ts) (sch_key ts k) w = (Inr x, w1)"
    using get_ok [OF assms(2) c] by blast
  with get [OF assms(2) c g] assms(3,4) show ?thesis
    by (cases "rows w (TABLE ts) (sch_key ts k)")
       (auto simp: MetaTable_get_def meta_schema.key_valid [OF assms(1)] io_bind_def Let_def)
qed

end

end
