(* ===== verification/Blob_Store.thy ===== *)
theory Blob_Store
  imports Query_Types
begin

text \<open>
  The blob interface (\<open>monad-query-types/src/store/blob\<close>): the \<open>BlobStore\<close> trait as a
  record of operations, the codec table over it, and partition blobs that hold many items
  end to end.  The locale \<open>blob_store\<close> is the contract of a store;
  \<open>partition_table\<close> combines it with a value codec and proves that appending after the
  committed end keeps the committed bytes and makes every appended item readable.
\<close>

section \<open>The store trait (mod.rs)\<close>

record blob_put =
  bp_table :: string
  bp_key :: bytes
  bp_value :: bytes

record 'w blob_store =
  bs_get :: "string \<Rightarrow> bytes \<Rightarrow> ('w, bytes option) query_io"
  bs_get_range :: "string \<Rightarrow> bytes \<Rightarrow> nat \<Rightarrow> nat \<Rightarrow> ('w, bytes option) query_io"
  bs_put :: "string \<Rightarrow> bytes \<Rightarrow> bytes \<Rightarrow> ('w, unit) query_io"
  bs_put_batch :: "blob_put list \<Rightarrow> ('w, unit) query_io"

text \<open>\<open>Bytes::slice(lo..hi)\<close> panics unless \<open>lo <= hi <= len\<close>.\<close>

definition slice_bytes :: "nat \<Rightarrow> nat \<Rightarrow> bytes \<Rightarrow> bytes query_result" where
  "slice_bytes lo hi bs =
     (if lo \<le> hi \<and> hi \<le> length bs then Inr (take (hi - lo) (drop lo bs))
      else panic ''range out of bounds'')"

text \<open>The trait's default \<open>get_range\<close>.\<close>

definition default_blob_get_range ::
  "(string \<Rightarrow> bytes \<Rightarrow> ('w, bytes option) query_io) \<Rightarrow> string \<Rightarrow> bytes \<Rightarrow> nat \<Rightarrow> nat
     \<Rightarrow> ('w, bytes option) query_io" where
  "default_blob_get_range get t key start end_exclusive =
     (if start \<ge> end_exclusive then io_lift (decode_err ''invalid blob range'')
      else io_bind (get t key) (\<lambda>r. case r of
             None \<Rightarrow> io_lift (Inr None)
           | Some blob \<Rightarrow>
               if end_exclusive > length blob
               then io_lift (decode_err ''blob range exceeds blob length'')
               else io_lift (res_bind (slice_bytes start end_exclusive blob) (\<lambda>b. Inr (Some b)))))"

section \<open>Codec tables (table.rs)\<close>

text \<open>
  \<open>TableKey::encode\<close> and \<open>TableValue::encode\<close>/\<open>decode\<close>.  Encoding a value can panic
  (\<open>PayloadItem\<close> asserts its size), so the value encoder returns a result.
\<close>

record ('k, 'v) blob_codec =
  key_encode :: "'k \<Rightarrow> bytes"
  value_encode :: "'v \<Rightarrow> bytes query_result"
  value_decode :: "bytes \<Rightarrow> 'v query_result"

record 'w codec_blob_table =
  cbt_table :: string
  cbt_store :: "'w blob_store"

definition CodecBlobTable_get ::
  "'w codec_blob_table \<Rightarrow> ('k, 'v) blob_codec \<Rightarrow> 'k \<Rightarrow> ('w, 'v option) query_io" where
  "CodecBlobTable_get T c k =
     io_bind (bs_get (cbt_store T) (cbt_table T) (key_encode c k)) (\<lambda>r.
     io_lift (map_transpose (value_decode c) r))"

definition CodecBlobTable_get_range ::
  "'w codec_blob_table \<Rightarrow> ('k, 'v) blob_codec \<Rightarrow> 'k \<Rightarrow> nat \<Rightarrow> nat \<Rightarrow> ('w, 'v option) query_io" where
  "CodecBlobTable_get_range T c k s e =
     io_bind (bs_get_range (cbt_store T) (cbt_table T) (key_encode c k) s e) (\<lambda>r.
     io_lift (map_transpose (value_decode c) r))"

definition CodecBlobTable_put ::
  "'w codec_blob_table \<Rightarrow> ('k, 'v) blob_codec \<Rightarrow> 'k \<Rightarrow> 'v \<Rightarrow> ('w, unit) query_io" where
  "CodecBlobTable_put T c k v =
     io_bind (io_lift (value_encode c v)) (\<lambda>b.
     bs_put (cbt_store T) (cbt_table T) (key_encode c k) b)"

definition CodecBlobTable_put_batch ::
  "'w codec_blob_table \<Rightarrow> ('k, 'v) blob_codec \<Rightarrow> ('k \<times> 'v) list \<Rightarrow> ('w, unit) query_io" where
  "CodecBlobTable_put_batch T c batch =
     io_bind (io_lift (map_res (\<lambda>(k, v). res_bind (value_encode c v) (\<lambda>b.
                Inr \<lparr>bp_table = cbt_table T, bp_key = key_encode c k, bp_value = b\<rparr>)) batch))
       (bs_put_batch (cbt_store T))"

text \<open>\<open>impl TableValue for Bytes\<close>: raw bytes under a key codec.\<close>

definition raw_codec :: "('k, 'v) blob_codec \<Rightarrow> ('k, bytes) blob_codec" where
  "raw_codec c = \<lparr>key_encode = key_encode c, value_encode = Inr, value_decode = Inr\<rparr>"

lemma put_batch_encoded:
  assumes "\<And>v. value_encode c v = Inr (enc v)"
  shows "CodecBlobTable_put_batch T c kvs =
    bs_put_batch (cbt_store T) (map (\<lambda>(k, v).
      \<lparr>bp_table = cbt_table T, bp_key = key_encode c k, bp_value = enc v\<rparr>) kvs)"
proof -
  have "map_res (\<lambda>(k, v). res_bind (value_encode c v) (\<lambda>b.
      Inr \<lparr>bp_table = cbt_table T, bp_key = key_encode c k, bp_value = b\<rparr>)) kvs =
    Inr (map (\<lambda>(k, v). \<lparr>bp_table = cbt_table T, bp_key = key_encode c k, bp_value = enc v\<rparr>) kvs)"
    by (rule map_res_total) (auto simp: assms)
  then show ?thesis by (simp add: CodecBlobTable_put_batch_def)
qed

section \<open>Partition blobs (partition.rs)\<close>

definition PartitionItemBoundaries_new :: "(nat \<times> nat) list \<Rightarrow> (nat \<times> nat) list query_result" where
  "PartitionItemBoundaries_new boundaries =
     (if boundaries = []
         \<or> list_ex (\<lambda>(s, e). s > e) boundaries
         \<or> list_ex (\<lambda>((_, previous_end), (next_start, _)). previous_end > next_start)
              (zip boundaries (tl boundaries))
      then decode_err ''invalid partition item boundaries''
      else Inr boundaries)"

definition boundaries_range :: "(nat \<times> nat) list \<Rightarrow> nat \<times> nat" where
  "boundaries_range bs = (fst (hd bs), snd (last bs))"

text \<open>
  \<open>Vec::extend_from_slice\<close> panics when the vector would exceed \<open>isize::MAX\<close> bytes, so a
  vector's length always fits a \<open>u64\<close>.
\<close>

definition extend_from_slice :: "bytes \<Rightarrow> bytes \<Rightarrow> bytes query_result" where
  "extend_from_slice bs xs =
     (if length bs + length xs < 2 ^ 63 then Inr (bs @ xs) else panic ''capacity overflow'')"

fun extend_items ::
  "('v \<Rightarrow> bytes query_result) \<Rightarrow> bytes \<Rightarrow> 'v list \<Rightarrow> (bytes \<times> u64 list) query_result" where
  "extend_items enc bs [] = Inr (bs, [])"
| "extend_items enc bs (item # items) =
     res_bind (enc item) (\<lambda>x.
     res_bind (extend_from_slice bs x) (\<lambda>bs'.
     res_bind (extend_items enc bs' items) (\<lambda>(bs'', ends).
     Inr (bs'', of_nat (length bs') # ends))))"

definition prepare_append ::
  "'w codec_blob_table \<Rightarrow> ('k, 'v) blob_codec \<Rightarrow> 'k \<Rightarrow> u64 \<Rightarrow> 'v list
     \<Rightarrow> ('w, 'k \<times> bytes \<times> u64 list) query_io" where
  "prepare_append T c key committed_end items =
     io_bind (CodecBlobTable_get T (raw_codec c) key) (\<lambda>r.
     let bs = (case r of None \<Rightarrow> [] | Some b \<Rightarrow> b) in
     if unat committed_end > length bs
     then io_lift (decode_err ''committed payload exceeds blob length'')
     else io_lift (res_bind (extend_items (value_encode c) (take (unat committed_end) bs) items)
            (\<lambda>(b, ends). Inr (key, b, ends))))"

definition Partition_get_many ::
  "'w codec_blob_table \<Rightarrow> ('k, 'v) blob_codec \<Rightarrow> 'k \<Rightarrow> (nat \<times> nat) list
     \<Rightarrow> ('w, 'v list option) query_io" where
  "Partition_get_many T c key boundaries =
     (let (start, e) = boundaries_range boundaries in
      io_bind (CodecBlobTable_get_range T (raw_codec c) key start e) (\<lambda>r. case r of
        None \<Rightarrow> io_lift (Inr None)
      | Some bs \<Rightarrow>
          io_lift (res_bind (map_res (\<lambda>(item_start, item_end).
              res_bind (slice_bytes (item_start - start) (item_end - start) bs) (value_decode c))
            boundaries) (\<lambda>vs. Inr (Some vs)))))"

definition Partition_append ::
  "'w codec_blob_table \<Rightarrow> ('k, 'v) blob_codec \<Rightarrow> 'k \<Rightarrow> u64 \<Rightarrow> 'v list \<Rightarrow> ('w, u64 list) query_io" where
  "Partition_append T c key committed_end items =
     io_bind (prepare_append T c key committed_end items) (\<lambda>(k, b, ends).
     io_bind (CodecBlobTable_put T (raw_codec c) k b) (\<lambda>_.
     io_lift (Inr ends)))"

text \<open>
  \<open>append_batch\<close> on a \<open>BTreeMap\<close> given as its in-order entries: all reads and encodings
  first, then one batch write; the ends come back in key order.
\<close>

definition Partition_append_batch ::
  "'w codec_blob_table \<Rightarrow> ('k, 'v) blob_codec \<Rightarrow> ('k \<times> u64 \<times> 'v list) list
     \<Rightarrow> ('w, ('k \<times> u64 list) list) query_io" where
  "Partition_append_batch T c items =
     io_bind (io_map (\<lambda>(key, committed_end, vs). prepare_append T c key committed_end vs) items)
       (\<lambda>prepared.
     io_bind (CodecBlobTable_put_batch T (raw_codec c)
                (map (\<lambda>(key, b, ends). (key, b)) prepared)) (\<lambda>_.
     io_lift (Inr (map (\<lambda>(key, b, ends). (key, ends)) prepared))))"

section \<open>What a blob store promises\<close>

type_synonym blobs = "string \<Rightarrow> bytes \<Rightarrow> bytes option"

definition blob_upd :: "blob_put \<Rightarrow> blobs \<Rightarrow> blobs" where
  "blob_upd p B = B(bp_table p := (B (bp_table p))(bp_key p \<mapsto> bp_value p))"

definition blob_upd_all :: "blob_put list \<Rightarrow> blobs \<Rightarrow> blobs" where
  "blob_upd_all ps B = fold blob_upd ps B"

text \<open>A batch that failed part-way: old value or one the batch meant to write.\<close>

definition blobs_partial :: "blob_put list \<Rightarrow> blobs \<Rightarrow> blobs \<Rightarrow> bool" where
  "blobs_partial ps B B' \<longleftrightarrow>
     (\<forall>t k. B' t k = B t k \<or>
        (\<exists>p \<in> set ps. bp_table p = t \<and> bp_key p = k \<and> B' t k = Some (bp_value p)))"

lemma blob_upd_apply [simp]:
  "blob_upd p B t k = (if t = bp_table p \<and> k = bp_key p then Some (bp_value p) else B t k)"
  by (simp add: blob_upd_def)

lemma blob_upd_all_simps [simp]:
  "blob_upd_all [] B = B"
  "blob_upd_all (p # ps) B = blob_upd_all ps (blob_upd p B)"
  by (simp_all add: blob_upd_all_def)

lemma blob_upd_all_other:
  "\<forall>p \<in> set ps. bp_table p \<noteq> t \<or> bp_key p \<noteq> k \<Longrightarrow> blob_upd_all ps B t k = B t k"
  by (induction ps arbitrary: B) auto

lemma blob_upd_all_distinct:
  "\<lbrakk>distinct (map (\<lambda>p. (bp_table p, bp_key p)) ps); p \<in> set ps\<rbrakk> \<Longrightarrow>
     blob_upd_all ps B (bp_table p) (bp_key p) = Some (bp_value p)"
proof (induction ps arbitrary: B)
  case (Cons q ps)
  show ?case
  proof (cases "p = q")
    case True
    with Cons.prems(1) have "\<forall>r \<in> set ps. bp_table r \<noteq> bp_table p \<or> bp_key r \<noteq> bp_key p"
      by (auto simp: image_iff)
    with True show ?thesis by (simp add: blob_upd_all_other)
  next
    case False
    with Cons show ?thesis by simp
  qed
qed simp

lemma blobs_partial_refl [simp]: "blobs_partial ps B B"
  by (simp add: blobs_partial_def)

lemma blobs_partial_all: "blobs_partial ps B (blob_upd_all ps B)"
proof (induction ps arbitrary: B)
  case (Cons p ps)
  show ?case
    unfolding blobs_partial_def
  proof (intro allI)
    fix t k
    from Cons [of "blob_upd p B"]
    have "blob_upd_all ps (blob_upd p B) t k = blob_upd p B t k \<or>
        (\<exists>q \<in> set ps. bp_table q = t \<and> bp_key q = k \<and>
           blob_upd_all ps (blob_upd p B) t k = Some (bp_value q))"
      by (simp only: blobs_partial_def)
    then show "blob_upd_all (p # ps) B t k = B t k \<or>
        (\<exists>q \<in> set (p # ps). bp_table q = t \<and> bp_key q = k \<and>
           blob_upd_all (p # ps) B t k = Some (bp_value q))"
      by (cases "t = bp_table p \<and> k = bp_key p") auto
  qed
qed simp

locale blob_store =
  fixes bs :: "'w blob_store"
    and winv :: "'w \<Rightarrow> bool"
    and blobs :: "'w \<Rightarrow> blobs"
  assumes get: "\<lbrakk>winv w; bs_get bs t k w = (r, w')\<rbrakk> \<Longrightarrow>
      winv w' \<and> blobs w' = blobs w \<and> (\<forall>x. r = Inr x \<longrightarrow> x = blobs w t k)"
    and get_range: "\<lbrakk>winv w; bs_get_range bs t k s e w = (r, w')\<rbrakk> \<Longrightarrow>
      winv w' \<and> blobs w' = blobs w \<and>
      (\<forall>x. r = Inr x \<longrightarrow> s < e \<and>
         (case blobs w t k of
            None \<Rightarrow> x = None
          | Some b \<Rightarrow> e \<le> length b \<and> x = Some (take (e - s) (drop s b))))"
    and put: "\<lbrakk>winv w; bs_put bs t k v w = (r', w')\<rbrakk> \<Longrightarrow>
      winv w' \<and>
      (r' = Inr () \<longrightarrow> blobs w' = blob_upd \<lparr>bp_table = t, bp_key = k, bp_value = v\<rparr> (blobs w)) \<and>
      blobs_partial [\<lparr>bp_table = t, bp_key = k, bp_value = v\<rparr>] (blobs w) (blobs w')"
    and put_batch: "\<lbrakk>winv w; bs_put_batch bs ps w = (r', w')\<rbrakk> \<Longrightarrow>
      winv w' \<and> (r' = Inr () \<longrightarrow> blobs w' = blob_upd_all ps (blobs w)) \<and>
      blobs_partial ps (blobs w) (blobs w')"

text \<open>A store whose requests succeed whenever they are well-formed.\<close>

locale reliable_blob_store = blob_store +
  assumes get_ok: "winv w \<Longrightarrow> \<exists>x w'. bs_get bs t k w = (Inr x, w')"
    and get_range_ok: "\<lbrakk>winv w; s < e; \<And>b. blobs w t k = Some b \<Longrightarrow> e \<le> length b\<rbrakk> \<Longrightarrow>
      \<exists>x w'. bs_get_range bs t k s e w = (Inr x, w')"
    and put_ok: "winv w \<Longrightarrow> \<exists>w'. bs_put bs t k v w = (Inr (), w')"
    and put_batch_ok: "winv w \<Longrightarrow> \<exists>w'. bs_put_batch bs ps w = (Inr (), w')"

section \<open>Reading back what was appended\<close>

text \<open>The byte ranges of consecutive items that start at \<open>s\<close>, from their end offsets.\<close>

fun item_ranges :: "nat \<Rightarrow> u64 list \<Rightarrow> (nat \<times> nat) list" where
  "item_ranges s [] = []"
| "item_ranges s (e # es) = (s, unat e) # item_ranges (unat e) es"

lemma extend_from_slice_Inr [simp]:
  "extend_from_slice bs xs = Inr ys \<longleftrightarrow> ys = bs @ xs \<and> length bs + length xs < 2 ^ 63"
  by (auto simp: extend_from_slice_def)

lemma extend_items_prefix:
  "extend_items enc bs items = Inr (b, ends) \<Longrightarrow> length bs < 2 ^ 63 \<Longrightarrow>
     \<exists>rest. b = bs @ rest \<and> length b < 2 ^ 63"
proof (induction items arbitrary: bs ends)
  case (Cons item items)
  then obtain x bs' ends' where x: "bs' = bs @ x" "length bs' < 2 ^ 63"
    "extend_items enc bs' items = Inr (b, ends')"
    by (auto simp: res_bind_Inr_iff split: prod.splits)
  then obtain rest where "b = bs' @ rest \<and> length b < 2 ^ 63"
    using Cons.IH by blast
  with x(1) show ?case by auto
qed simp

lemma extend_items_length: "extend_items enc bs items = Inr (b, ends) \<Longrightarrow> length ends = length items"
  by (induction items arbitrary: bs ends) (fastforce simp: res_bind_Inr_iff split: prod.splits)+

text \<open>
  Every appended item's range lies inside the blob and holds exactly its encoding, also
  after the blob has been extended further.
\<close>

lemma extend_items_slices:
  assumes "extend_items enc bs items = Inr (b, ends)" "length bs < 2 ^ 63"
  shows "list_all2 (\<lambda>item (s, e). \<exists>x. enc item = Inr x \<and> length bs \<le> s \<and> s \<le> e
           \<and> e \<le> length b \<and> e - s = length x \<and> take (e - s) (drop s b) = x)
         items (item_ranges (length bs) ends)"
  using assms
proof (induction items arbitrary: bs ends)
  case (Cons item items)
  then obtain x bs' ends' where x: "enc item = Inr x" "bs' = bs @ x" "length bs' < 2 ^ 63"
    "extend_items enc bs' items = Inr (b, ends')" "ends = of_nat (length bs') # ends'"
    by (auto simp: res_bind_Inr_iff split: prod.splits)
  have e: "unat (of_nat (length bs') :: u64) = length bs'"
    using x(3) by (intro unat_of_nat_small) simp
  obtain rest where rest: "b = bs' @ rest"
    using extend_items_prefix [OF x(4,3)] by blast
  have "list_all2 (\<lambda>item (s, e). \<exists>x. enc item = Inr x \<and> length bs \<le> s \<and> s \<le> e
           \<and> e \<le> length b \<and> e - s = length x \<and> take (e - s) (drop s b) = x)
         items (item_ranges (length bs') ends')"
    using Cons.IH [OF x(4,3)] x(2) by (auto elim!: list_all2_mono)
  moreover have "length bs \<le> length bs'" "length bs' \<le> length b"
    "take (length bs' - length bs) (drop (length bs) b) = x"
    by (simp_all add: x(2) rest)
  ultimately show ?case using x(1,2) e by (simp add: x(5))
qed simp

lemma slice_prefix:
  "e \<le> length bs \<Longrightarrow> take (e - s) (drop s (bs @ rest)) = take (e - s) (drop s bs)"
  by (cases "s \<le> length bs") auto

lemma item_ranges_boundaries:
  assumes "ends \<noteq> []" "sorted (s # map unat ends)"
  shows "PartitionItemBoundaries_new (item_ranges s ends) = Inr (item_ranges s ends)"
    and "boundaries_range (item_ranges s ends) = (s, unat (last ends))"
proof -
  have "list_all (\<lambda>(s, e). s \<le> e) (item_ranges s ends)"
    if "sorted (s # map unat ends)" for s and ends :: "u64 list"
    using that by (induction ends arbitrary: s) auto
  moreover have "list_all (\<lambda>((_, p), (n, _)). p \<le> n) (zip (item_ranges s ends) (tl (item_ranges s ends)))"
    for s and ends :: "u64 list"
  proof (induction ends arbitrary: s)
    case (Cons e es)
    then show ?case by (cases es) auto
  qed simp
  moreover have "item_ranges s ends \<noteq> []" using assms(1) by (cases ends) auto
  ultimately have "list_all (\<lambda>(s, e). \<not> s > e) (item_ranges s ends)"
    "list_all (\<lambda>((_, p), (n, _)). \<not> p > n) (zip (item_ranges s ends) (tl (item_ranges s ends)))"
    "item_ranges s ends \<noteq> []"
    using assms(2) by (simp_all add: not_less case_prod_unfold)
  then show "PartitionItemBoundaries_new (item_ranges s ends) = Inr (item_ranges s ends)"
    by (auto simp: PartitionItemBoundaries_new_def list_ex_iff list_all_iff)
  have "snd (last (item_ranges s ends)) = unat (last ends)"
    using assms(1)
  proof (induction ends arbitrary: s)
    case (Cons e es)
    then show ?case by (cases es) auto
  qed simp
  moreover have "fst (hd (item_ranges s ends)) = s" using assms(1) by (cases ends) auto
  ultimately show "boundaries_range (item_ranges s ends) = (s, unat (last ends))"
    by (simp add: boundaries_range_def)
qed

lemma extend_items_sorted:
  "extend_items enc bs items = Inr (b, ends) \<Longrightarrow> length bs < 2 ^ 63 \<Longrightarrow>
     sorted (length bs # map unat ends) \<and> (ends \<noteq> [] \<longrightarrow> unat (last ends) = length b)"
proof (induction items arbitrary: bs ends)
  case (Cons item items)
  then obtain x bs' ends' where x: "enc item = Inr x" "bs' = bs @ x" "length bs' < 2 ^ 63"
    "extend_items enc bs' items = Inr (b, ends')" "ends = of_nat (length bs') # ends'"
    by (auto simp: res_bind_Inr_iff split: prod.splits)
  have e: "unat (of_nat (length bs') :: u64) = length bs'"
    using x(3) by (intro unat_of_nat_small) simp
  have "ends' = [] \<Longrightarrow> b = bs'"
    using x(4) by (cases items) (auto simp: res_bind_Inr_iff split: prod.splits)
  with Cons.IH [OF x(4,3)] e x(2) show ?case by (auto simp: x(5))
qed simp

section \<open>Partition tables over a store\<close>

locale partition_table = blob_store bs winv blobs
  for bs :: "'w blob_store" and winv :: "'w \<Rightarrow> bool" and blobs :: "'w \<Rightarrow> blobs" +
  fixes T :: "'w codec_blob_table"
    and c :: "('k, 'v) blob_codec"
  assumes store: "cbt_store T = bs"
    and value_decode: "value_encode c v = Inr x \<Longrightarrow> value_decode c x = Inr v"
begin

definition blob_at :: "'w \<Rightarrow> 'k \<Rightarrow> bytes" where
  "blob_at w k = (case blobs w (cbt_table T) (key_encode c k) of None \<Rightarrow> [] | Some b \<Rightarrow> b)"

lemma raw_get:
  assumes "winv w" "CodecBlobTable_get T (raw_codec c) k w = (r, w')"
  shows "winv w'" "blobs w' = blobs w" "r = Inr x \<Longrightarrow> x = blobs w (cbt_table T) (key_encode c k)"
proof -
  obtain r0 where g: "bs_get bs (cbt_table T) (key_encode c k) w = (r0, w')"
    "r = Inr x \<Longrightarrow> r0 = Inr x" for x
  proof -
    obtain r1 w1 where "bs_get bs (cbt_table T) (key_encode c k) w = (r1, w1)"
      by (meson surj_pair)
    then show ?thesis
      using assms(2) that
      by (cases r1; cases "projr r1")
         (auto simp: CodecBlobTable_get_def store raw_codec_def io_bind_def)
  qed
  from get [OF assms(1) g(1)] show "winv w'" "blobs w' = blobs w" by auto
  assume "r = Inr x"
  with get [OF assms(1) g(1)] g(2) show "x = blobs w (cbt_table T) (key_encode c k)" by auto
qed

lemma prepare_append_frame:
  assumes "winv w" "prepare_append T c k ce items w = (r, w')"
  shows "winv w'" "blobs w' = blobs w"
proof -
  obtain r1 w1 where g: "CodecBlobTable_get T (raw_codec c) k w = (r1, w1)" by (meson surj_pair)
  then have "w' = w1"
    using assms(2)
    by (auto simp: prepare_append_def io_bind_def Let_def split: sum.splits if_splits)
  with raw_get(1,2) [OF assms(1) g] show "winv w'" "blobs w' = blobs w" by auto
qed

lemma prepare_append_spec:
  assumes "winv w" "prepare_append T c k ce items w = (Inr (k', b, ends), w')"
  shows "k' = k" and "unat ce \<le> length (blob_at w k)"
    and "extend_items (value_encode c) (take (unat ce) (blob_at w k)) items = Inr (b, ends)"
proof -
  obtain r1 w1 where g: "CodecBlobTable_get T (raw_codec c) k w = (r1, w1)" by (meson surj_pair)
  with assms(2) obtain x where x: "r1 = Inr x"
    by (auto simp: prepare_append_def io_bind_def split: sum.splits)
  from raw_get(3) [OF assms(1) g x]
  have b: "(case x of None \<Rightarrow> [] | Some b \<Rightarrow> b) = blob_at w k" by (simp add: blob_at_def)
  from assms(2) g x show "k' = k" "unat ce \<le> length (blob_at w k)"
    "extend_items (value_encode c) (take (unat ce) (blob_at w k)) items = Inr (b, ends)"
    by (auto simp: prepare_append_def io_bind_def Let_def b res_bind_Inr_iff
        split: if_splits prod.splits)
qed

text \<open>A range read of consecutive items decodes to exactly those items.\<close>

lemma get_many_ranges:
  assumes w: "winv w" and blob: "blobs w (cbt_table T) (key_encode c k) = Some b"
    and rng: "list_all2 (\<lambda>item (s, e). \<exists>x. value_encode c item = Inr x \<and> lo \<le> s \<and> s \<le> e \<and> e \<le> hi
           \<and> take (e - s) (drop s b) = x) items ranges"
    and br: "boundaries_range ranges = (lo, hi)"
    and got: "Partition_get_many T c k ranges w = (Inr vs, w')"
  shows "vs = Some items"
proof -
  obtain r1 w1 where g: "bs_get_range bs (cbt_table T) (key_encode c k) lo hi w = (r1, w1)"
    by (meson surj_pair)
  with got obtain x where x: "r1 = Inr x"
    by (auto simp: Partition_get_many_def br CodecBlobTable_get_range_def store raw_codec_def
        io_bind_def split: sum.splits)
  from get_range [OF w g] x blob have lh: "lo < hi" "hi \<le> length b"
    "x = Some (take (hi - lo) (drop lo b))" by auto
  let ?B = "take (hi - lo) (drop lo b)"
  have "(\<lambda>(s, e). res_bind (slice_bytes (s - lo) (e - lo) ?B) (value_decode c)) p = Inr item"
    if "case p of (s, e) \<Rightarrow> \<exists>x. value_encode c item = Inr x \<and> lo \<le> s \<and> s \<le> e \<and> e \<le> hi
           \<and> take (e - s) (drop s b) = x" for item p
  proof -
    obtain s e where p: "p = (s, e)" by force
    with that obtain x where e: "value_encode c item = Inr x" "lo \<le> s" "s \<le> e" "e \<le> hi"
      "take (e - s) (drop s b) = x" by auto
    have "drop (s - lo) ?B = take (hi - s) (drop s b)"
      using e(2) by (simp add: drop_take)
    then have "take (e - lo - (s - lo)) (drop (s - lo) ?B) = x"
      using e by simp
    then have "slice_bytes (s - lo) (e - lo) ?B = Inr x"
      using e(2-4) lh(2) by (simp add: slice_bytes_def diff_le_mono)
    then show ?thesis by (simp add: p value_decode [OF e(1)])
  qed
  then have "map_res (\<lambda>(s, e). res_bind (slice_bytes (s - lo) (e - lo) ?B) (value_decode c)) ranges
      = Inr items"
    using rng unfolding map_res_Inr_iff
    by (auto simp: list_all2_conv_all_nth)
  with got g x lh(3) show ?thesis
    by (auto simp: Partition_get_many_def br CodecBlobTable_get_range_def store raw_codec_def
        io_bind_def)
qed

theorem append_keeps_and_reads:
  assumes w: "winv w" and app: "Partition_append T c k ce items w = (Inr ends, w')"
  shows "winv w'"
    and "take (unat ce) (blob_at w' k) = take (unat ce) (blob_at w k)"
    and "k' \<noteq> k \<Longrightarrow> inj (key_encode c) \<Longrightarrow> blob_at w' k' = blob_at w k'"
    and "\<lbrakk>Partition_get_many T c k (item_ranges (unat ce) ends) w' = (Inr vs, w'');
          items \<noteq> []; length (blob_at w k) < 2 ^ 63\<rbrakk> \<Longrightarrow> vs = Some items"
proof -
  obtain b w1 where p: "prepare_append T c k ce items w = (Inr (k, b, ends), w1)"
    and pt: "bs_put bs (cbt_table T) (key_encode c k) b w1 = (Inr (), w')"
    using app prepare_append_spec(1) [OF w]
    by (fastforce simp: Partition_append_def io_bind_Inr_iff CodecBlobTable_put_def raw_codec_def store)
  note spec = prepare_append_spec [OF w p] and frame = prepare_append_frame [OF w p]
  from put [OF frame(1) pt] have w': "winv w'"
    "blobs w' = blob_upd \<lparr>bp_table = cbt_table T, bp_key = key_encode c k, bp_value = b\<rparr> (blobs w)"
    by (auto simp: frame(2))
  then have b: "blobs w' (cbt_table T) (key_encode c k) = Some b" "blob_at w' k = b"
    by (simp_all add: blob_at_def)
  show "winv w'" by (rule w')
  have pre: "\<exists>rest. b = bs @ rest" if "extend_items enc bs is = Inr (b, es)" for enc bs "is" es b
    using that
  proof (induction "is" arbitrary: bs es)
    case (Cons i "is")
    then obtain x es' where "extend_items enc (bs @ x) is = Inr (b, es')"
      by (auto simp: res_bind_Inr_iff split: prod.splits)
    from Cons.IH [OF this] show ?case by auto
  qed simp
  obtain rest where rest: "b = take (unat ce) (blob_at w k) @ rest"
    using pre [OF spec(3)] by blast
  then show "take (unat ce) (blob_at w' k) = take (unat ce) (blob_at w k)"
    using b spec(2) by simp
  show "blob_at w' k' = blob_at w k'" if "k' \<noteq> k" "inj (key_encode c)"
    using that w'(2) by (simp add: blob_at_def inj_eq)
  assume r: "Partition_get_many T c k (item_ranges (unat ce) ends) w' = (Inr vs, w'')"
    "items \<noteq> []" "length (blob_at w k) < 2 ^ 63"
  let ?bs = "take (unat ce) (blob_at w k)"
  have l: "length ?bs = unat ce" "length ?bs < 2 ^ 63" using spec(2) r(3) by auto
  have ne: "ends \<noteq> []" using extend_items_length [OF spec(3)] r(2) by auto
  note srt = extend_items_sorted [OF spec(3) l(2)]
  have br: "boundaries_range (item_ranges (unat ce) ends) = (unat ce, length b)"
    using item_ranges_boundaries(2) [OF ne, of "unat ce"] srt ne l(1) by simp
  have "list_all2 (\<lambda>item (s, e). \<exists>x. value_encode c item = Inr x \<and> unat ce \<le> s \<and> s \<le> e
       \<and> e \<le> length b \<and> take (e - s) (drop s b) = x) items (item_ranges (unat ce) ends)"
    using extend_items_slices [OF spec(3) l(2)] unfolding l(1)
    by (rule list_all2_mono) auto
  from get_many_ranges [OF w'(1) b(1) this br r(1)] show "vs = Some items" .
qed

end

end
