(* ===== verification/Tables.thy ===== *)
theory Tables
  imports Families Meta_Contract Blob_Store
begin

text \<open>
  The tables of the query index (\<open>monad-query-schema/src/tables\<close>): keys, values and codecs
  of the six metadata tables and the two blob tables.  Every metadata schema is an
  interpretation of \<open>meta_schema\<close>; the state table's holds for values with a start block,
  since an absent start is written as zero and read back as \<open>Some 0\<close>.
\<close>

section \<open>Reading cells\<close>

text \<open>Indexing a boxed slice panics out of range.\<close>

definition cell_at :: "row_cells \<Rightarrow> nat \<Rightarrow> cell query_result" where
  "cell_at cs i = (if i < length cs then Inr (cs ! i) else panic ''index out of bounds'')"

text \<open>\<open>match value { Number(v) => v.parse().map_err(..), _ => Err(..) }\<close>\<close>

definition number_of :: "string \<Rightarrow> string \<Rightarrow> cell_value \<Rightarrow> 'a::len word query_result" where
  "number_of parse_msg kind_msg v =
     (case v of
        CV_Number s \<Rightarrow> ok_or (parse_word s) (Err (Decode parse_msg))
      | _ \<Rightarrow> decode_err kind_msg)"

text \<open>\<open>u8::try_from(u64)\<close>, \<open>u32::try_from(u64)\<close>\<close>

definition try_narrow :: "string \<Rightarrow> u64 \<Rightarrow> 'a::len word query_result" where
  "try_narrow msg n =
     (if unat n < 2 ^ LENGTH('a) then Inr (of_nat (unat n)) else decode_err msg)"

lemma number_of_simps [simp, codec_simps]:
  "number_of p k (CV_Number (word_to_string (w :: 'a::len word))) = Inr w"
  by (simp add: number_of_def)

lemma unat_widen [simp, width_simps]:
  "unat (ucast (w :: 8 word) :: u64) = unat w"
  "unat (ucast (v :: 32 word) :: u64) = unat v"
proof -
  have *: "unat w < 2 ^ 8" "unat v < 2 ^ 32"
    using unsigned_less [of w, where ?'a = nat] unsigned_less [of v, where ?'a = nat] by simp_all
  then have "unat w < 2 ^ 64" "unat v < 2 ^ 64" by simp_all
  then show "unat (ucast w :: u64) = unat w" "unat (ucast v :: u64) = unat v"
    by (simp_all add: unsigned_ucast_eq take_bit_nat_eq_self)
qed

lemma number_of_narrow [simp, codec_simps]:
  "number_of p k (CV_Number (word_to_string (ucast (w :: 8 word) :: u64))) = Inr w"
  "number_of p k (CV_Number (word_to_string (ucast (v :: 32 word) :: u64))) = Inr v"
  using unsigned_less [of w, where ?'a = nat] unsigned_less [of v, where ?'a = nat]
  by (simp_all add: number_of_def word_to_string_def parse_word_to_decimal)

lemma try_narrow_widen [simp, codec_simps]:
  "try_narrow m (ucast (w :: 8 word) :: u64) = Inr w"
  "try_narrow m (ucast (v :: 32 word) :: u64) = Inr v"
  using unsigned_less [of w, where ?'a = nat] unsigned_less [of v, where ?'a = nat]
  by (simp_all add: try_narrow_def del: of_nat_unat add: word_unat_eq_iff unat_of_nat_small)

lemma widen_inject [simp]:
  "(ucast (w :: 8 word) :: u64) = ucast (w' :: 8 word) \<longleftrightarrow> w = w'"
  by (metis unat_widen(1) word_unat_eq_iff)

lemma canonical_Cell [simp]:
  "canonical_value (CV_Number (word_to_string (w :: u64)))"
  by (simp add: canonical_number_iff)

lemma canonical_cells_simps [simp]:
  "canonical_cells []"
  "canonical_cells (c # cs) \<longleftrightarrow> canonical_value (cell_val c) \<and> canonical_cells cs"
  by (simp_all add: canonical_cells_def)

definition family_number :: "family \<Rightarrow> u64" where
  "family_number f = ucast (family_into f)"

lemma family_number_inject [simp]: "family_number f = family_number g \<longleftrightarrow> f = g"
  by (simp add: family_number_def)

section \<open>Block hashes (metadata/block\_hash.rs)\<close>

datatype block_hash_key = MetadataBlockHashKey (bh_height: u64)

definition BlockHash_key :: "block_hash_key \<Rightarrow> meta_key" where
  "BlockHash_key k =
     \<lparr>mk_partition = [Cell_new_number ''id'' 0],
      mk_clustering = [Cell_new_number ''block_height'' (bh_height k)]\<rparr>"

definition BlockHash_decode_key :: "meta_key \<Rightarrow> block_hash_key query_result" where
  "BlockHash_decode_key key =
     res_bind (cell_at (mk_clustering key) 0) (\<lambda>c.
     res_bind (number_of ''invalid block height'' ''invalid block height'' (cell_val c)) (\<lambda>h.
     Inr (MetadataBlockHashKey h)))"

definition BlockHash_columns :: "b256 \<Rightarrow> row_cells" where
  "BlockHash_columns v = [Cell_new_bytes ''block_hash'' (word_to_be v)]"

definition BlockHash_decode :: "row_cells \<Rightarrow> b256 query_result" where
  "BlockHash_decode columns =
     (case columns of
        [c] \<Rightarrow>
          if column c \<noteq> ''block_hash'' then decode_err ''invalid block hash columns''
          else (case cell_val c of
                  CV_Bytes v \<Rightarrow> if length v = 32 then Inr (word_from_be v)
                                else decode_err ''invalid block hash''
                | _ \<Rightarrow> decode_err ''invalid block hash'')
      | _ \<Rightarrow> decode_err ''invalid block hash columns'')"

definition block_hash_schema :: "(block_hash_key, b256) meta_table_schema" where
  "block_hash_schema =
     \<lparr>TABLE = ''metadata_block_hash'',
      DEFINITION = \<lparr>partition_key = [ColumnDef_new_number ''id''],
                    clustering_key = [ColumnDef_new_number ''block_height''],
                    columns_def = [ColumnDef_new_byte ''block_hash'']\<rparr>,
      sch_key = BlockHash_key, sch_decode_key = BlockHash_decode_key,
      sch_columns = BlockHash_columns, sch_decode = BlockHash_decode\<rparr>"

lemmas block_hash_schema_defs =
  block_hash_schema_def BlockHash_key_def BlockHash_decode_key_def BlockHash_columns_def
  BlockHash_decode_def

lemmas schema_law_simps =
  validate_key_def validate_row_cells_def validate_row_def ColumnDef_defs canonical_key_def
  cell_at_def family_number_def

interpretation block_hash: meta_schema block_hash_schema "\<lambda>_. True"
proof (unfold_locales, goal_cases)
  case (6 k k')
  then show ?case by (cases k; cases k') (simp add: block_hash_schema_defs)
qed (simp_all add: block_hash_schema_defs schema_law_simps)

section \<open>Family ranges (metadata/family.rs)\<close>

datatype family_key = MetadataFamilyKey (fk_family: family) (fk_height: u64)

definition family_number_err :: "cell \<Rightarrow> u64 query_result" where
  "family_number_err c =
     number_of ''invalid family metadata number'' ''invalid family metadata number'' (cell_val c)"

definition Family_key :: "family_key \<Rightarrow> meta_key" where
  "Family_key k =
     \<lparr>mk_partition = [Cell_new_number ''family'' (family_number (fk_family k))],
      mk_clustering = [Cell_new_number ''block_height'' (fk_height k)]\<rparr>"

definition Family_decode_key :: "meta_key \<Rightarrow> family_key query_result" where
  "Family_decode_key key =
     res_bind (cell_at (mk_partition key) 0) (\<lambda>p.
     res_bind (family_number_err p) (\<lambda>n.
     res_bind (try_narrow ''invalid family metadata family'' n) (\<lambda>b.
     res_bind (ok_or (family_try_from b) (Err (Decode ''invalid family metadata family''))) (\<lambda>f.
     res_bind (cell_at (mk_clustering key) 0) (\<lambda>c.
     res_bind (family_number_err c) (\<lambda>h.
     Inr (MetadataFamilyKey f h)))))))"

definition Family_columns :: "family_metadata \<Rightarrow> row_cells" where
  "Family_columns v =
     [Cell_new_number ''first_primary_id'' (as_u64 (first_primary_id v)),
      Cell_new_number ''row_count'' (ucast (fm_count v))]"

definition Family_decode :: "row_cells \<Rightarrow> family_metadata query_result" where
  "Family_decode columns =
     (case columns of
        [a, b] \<Rightarrow>
          if column a \<noteq> ''first_primary_id'' \<or> column b \<noteq> ''row_count''
          then decode_err ''invalid family metadata columns''
          else res_bind (family_number_err a) (\<lambda>first.
               res_bind (family_number_err b) (\<lambda>n.
               res_bind (try_narrow ''invalid row count'' n) (\<lambda>cnt.
               Inr \<lparr>first_primary_id = PrimaryId first, fm_count = cnt\<rparr>)))
      | _ \<Rightarrow> decode_err ''invalid family metadata columns'')"

definition family_schema :: "(family_key, family_metadata) meta_table_schema" where
  "family_schema =
     \<lparr>TABLE = ''metadata_family'',
      DEFINITION = \<lparr>partition_key = [ColumnDef_new_number ''family''],
                    clustering_key = [ColumnDef_new_number ''block_height''],
                    columns_def = [ColumnDef_new_number ''first_primary_id'',
                                   ColumnDef_new_number ''row_count'']\<rparr>,
      sch_key = Family_key, sch_decode_key = Family_decode_key,
      sch_columns = Family_columns, sch_decode = Family_decode\<rparr>"

lemmas family_schema_defs =
  family_schema_def Family_key_def Family_decode_key_def Family_columns_def Family_decode_def
  family_number_err_def

interpretation family_table: meta_schema family_schema "\<lambda>_. True"
proof (unfold_locales, goal_cases)
  case (6 k k')
  then show ?case by (cases k; cases k') (simp add: family_schema_defs)
qed (simp_all add: family_schema_defs schema_law_simps)

section \<open>Block of a primary id (metadata/family\_block\_index.rs)\<close>

datatype family_block_index_key =
  MetadataFamilyBlockIndexKey (fbi_family: family) (fbi_first_primary_id: u64)

definition FamilyBlockIndex_number :: "cell \<Rightarrow> u64 query_result" where
  "FamilyBlockIndex_number c =
     number_of ''invalid family block index number'' ''invalid family block index number'' (cell_val c)"

definition FamilyBlockIndex_key :: "family_block_index_key \<Rightarrow> meta_key" where
  "FamilyBlockIndex_key k =
     \<lparr>mk_partition = [Cell_new_number ''family'' (family_number (fbi_family k))],
      mk_clustering = [Cell_new_number ''first_primary_id'' (fbi_first_primary_id k)]\<rparr>"

definition FamilyBlockIndex_decode_key :: "meta_key \<Rightarrow> family_block_index_key query_result" where
  "FamilyBlockIndex_decode_key key =
     res_bind (cell_at (mk_partition key) 0) (\<lambda>p.
     res_bind (FamilyBlockIndex_number p) (\<lambda>n.
     res_bind (try_narrow ''invalid family block index family'' n) (\<lambda>b.
     res_bind (ok_or (family_try_from b) (Err (Decode ''invalid family block index family''))) (\<lambda>f.
     res_bind (cell_at (mk_clustering key) 0) (\<lambda>c.
     res_bind (FamilyBlockIndex_number c) (\<lambda>i.
     Inr (MetadataFamilyBlockIndexKey f i)))))))"

definition FamilyBlockIndex_columns :: "u64 \<Rightarrow> row_cells" where
  "FamilyBlockIndex_columns height = [Cell_new_number ''block_height'' height]"

definition FamilyBlockIndex_decode :: "row_cells \<Rightarrow> u64 query_result" where
  "FamilyBlockIndex_decode columns =
     (case columns of
        [c] \<Rightarrow>
          if column c \<noteq> ''block_height'' then decode_err ''invalid family block index columns''
          else number_of ''invalid block height'' ''invalid block height'' (cell_val c)
      | _ \<Rightarrow> decode_err ''invalid family block index columns'')"

definition family_block_index_schema :: "(family_block_index_key, u64) meta_table_schema" where
  "family_block_index_schema =
     \<lparr>TABLE = ''metadata_family_block_index'',
      DEFINITION = \<lparr>partition_key = [ColumnDef_new_number ''family''],
                    clustering_key = [ColumnDef_new_number ''first_primary_id''],
                    columns_def = [ColumnDef_new_number ''block_height'']\<rparr>,
      sch_key = FamilyBlockIndex_key, sch_decode_key = FamilyBlockIndex_decode_key,
      sch_columns = FamilyBlockIndex_columns, sch_decode = FamilyBlockIndex_decode\<rparr>"

lemmas family_block_index_schema_defs =
  family_block_index_schema_def FamilyBlockIndex_key_def FamilyBlockIndex_decode_key_def
  FamilyBlockIndex_columns_def FamilyBlockIndex_decode_def FamilyBlockIndex_number_def

interpretation fbi_table: meta_schema family_block_index_schema "\<lambda>_. True"
proof (unfold_locales, goal_cases)
  case (6 k k')
  then show ?case by (cases k; cases k') (simp add: family_block_index_schema_defs)
qed (simp_all add: family_block_index_schema_defs schema_law_simps)

section \<open>Payload locations (payload/location.rs)\<close>

datatype payload_location_key = PayloadLocationKey (plk_family: family) (plk_id: primary_id)

definition PayloadLocationKey_encode :: "payload_location_key \<Rightarrow> bytes" where
  "PayloadLocationKey_encode k = family_into (plk_family k) # word_to_be (as_u64 (plk_id k))"

definition PayloadLocationKey_decode :: "bytes \<Rightarrow> payload_location_key query_result" where
  "PayloadLocationKey_decode bs =
     (if length bs \<noteq> 9 then decode_err ''invalid payload location key''
      else res_bind (ok_or (family_try_from (bs ! 0)) (Err (Decode ''invalid family tag''))) (\<lambda>f.
           Inr (PayloadLocationKey f (PrimaryId (word_from_be (drop 1 bs))))))"

datatype payload_location = PayloadLocation (payload_end: u64)

definition PayloadLocation_encode :: "payload_location \<Rightarrow> bytes" where
  "PayloadLocation_encode v = word_to_be (payload_end v)"

definition PayloadLocation_decode :: "bytes \<Rightarrow> payload_location query_result" where
  "PayloadLocation_decode bs =
     (if length bs = 8 then Inr (PayloadLocation (word_from_be bs))
      else decode_err ''invalid payload location'')"

definition PayloadLocation_key :: "payload_location_key \<Rightarrow> meta_key" where
  "PayloadLocation_key k =
     \<lparr>mk_partition = [Cell_new_number ''family'' (family_number (plk_family k))],
      mk_clustering = [Cell_new_number ''primary_id'' (as_u64 (plk_id k))]\<rparr>"

definition PayloadLocation_decode_key :: "meta_key \<Rightarrow> payload_location_key query_result" where
  "PayloadLocation_decode_key key =
     res_bind (cell_at (mk_partition key) 0) (\<lambda>p.
     res_bind (number_of ''invalid payload family'' ''invalid payload family'' (cell_val p) :: u8 query_result) (\<lambda>b.
     res_bind (cell_at (mk_clustering key) 0) (\<lambda>c.
     res_bind (number_of ''invalid payload id'' ''invalid payload id'' (cell_val c)) (\<lambda>i.
     res_bind (ok_or (family_try_from b) (Err (Decode ''invalid payload family''))) (\<lambda>f.
     Inr (PayloadLocationKey f (PrimaryId i)))))))"

definition PayloadLocation_columns :: "payload_location \<Rightarrow> row_cells" where
  "PayloadLocation_columns v = [Cell_new_number ''offset_end'' (payload_end v)]"

definition PayloadLocation_decode_columns :: "row_cells \<Rightarrow> payload_location query_result" where
  "PayloadLocation_decode_columns columns =
     (case columns of
        [c] \<Rightarrow>
          if column c \<noteq> ''offset_end'' then decode_err ''invalid payload location columns''
          else res_bind (number_of ''invalid payload location number''
                           ''invalid payload location number'' (cell_val c)) (\<lambda>e.
               Inr (PayloadLocation e))
      | _ \<Rightarrow> decode_err ''invalid payload location columns'')"

definition payload_location_schema :: "(payload_location_key, payload_location) meta_table_schema" where
  "payload_location_schema =
     \<lparr>TABLE = ''payload_location'',
      DEFINITION = \<lparr>partition_key = [ColumnDef_new_number ''family''],
                    clustering_key = [ColumnDef_new_number ''primary_id''],
                    columns_def = [ColumnDef_new_number ''offset_end'']\<rparr>,
      sch_key = PayloadLocation_key, sch_decode_key = PayloadLocation_decode_key,
      sch_columns = PayloadLocation_columns, sch_decode = PayloadLocation_decode_columns\<rparr>"

lemmas payload_location_schema_defs =
  payload_location_schema_def PayloadLocation_key_def PayloadLocation_decode_key_def
  PayloadLocation_columns_def PayloadLocation_decode_columns_def

lemma PayloadLocationKey_roundtrip [codec_simps]:
  "PayloadLocationKey_decode (PayloadLocationKey_encode k) = Inr k"
  by (cases k) (simp add: PayloadLocationKey_decode_def PayloadLocationKey_encode_def)

lemma PayloadLocation_roundtrip [codec_simps]:
  "PayloadLocation_decode (PayloadLocation_encode v) = Inr v"
  by (simp add: PayloadLocation_decode_def PayloadLocation_encode_def)

interpretation location_table: meta_schema payload_location_schema "\<lambda>_. True"
proof (unfold_locales, goal_cases)
  case (6 k k')
  then show ?case
    by (cases k; cases k') (auto simp: payload_location_schema_defs intro: primary_id.expand)
qed (simp_all add: payload_location_schema_defs schema_law_simps)

section \<open>Index state (state/index.rs)\<close>

datatype state_index_key = StateIndexKey

record state_index =
  indexed_start :: "u64 option"
  next_block_id :: u64
  next_log_id :: u64
  next_tx_id :: u64
  next_trace_id :: u64

definition StateIndex_default :: state_index where
  "StateIndex_default =
     \<lparr>indexed_start = None, next_block_id = 0, next_log_id = 0, next_tx_id = 0, next_trace_id = 0\<rparr>"

definition StateIndex_key :: "state_index_key \<Rightarrow> meta_key" where
  "StateIndex_key k =
     \<lparr>mk_partition = [\<lparr>column = ''id'', cell_val = CV_Number ''0''\<rparr>], mk_clustering = []\<rparr>"

definition StateIndex_decode_key :: "meta_key \<Rightarrow> state_index_key query_result" where
  "StateIndex_decode_key key = Inr StateIndexKey"

definition StateIndex_columns :: "state_index \<Rightarrow> row_cells" where
  "StateIndex_columns v =
     [Cell_new_number ''indexed_start'' (case indexed_start v of None \<Rightarrow> 0 | Some s \<Rightarrow> s),
      Cell_new_number ''next_block_id'' (next_block_id v),
      Cell_new_number ''next_log_id'' (next_log_id v),
      Cell_new_number ''next_tx_id'' (next_tx_id v),
      Cell_new_number ''next_trace_id'' (next_trace_id v)]"

definition StateIndex_number :: "cell \<Rightarrow> u64 query_result" where
  "StateIndex_number c =
     number_of ''invalid state index Cell::new_number'' ''invalid state index Cell::new_number'' (cell_val c)"

definition StateIndex_decode :: "row_cells \<Rightarrow> state_index query_result" where
  "StateIndex_decode columns =
     (case columns of
        [a, b, c, d, e] \<Rightarrow>
          if [column a, column b, column c, column d, column e] \<noteq>
             [''indexed_start'', ''next_block_id'', ''next_log_id'', ''next_tx_id'', ''next_trace_id'']
          then decode_err ''invalid state index columns''
          else res_bind (StateIndex_number a) (\<lambda>start.
               res_bind (StateIndex_number b) (\<lambda>blk.
               res_bind (StateIndex_number c) (\<lambda>log.
               res_bind (StateIndex_number d) (\<lambda>tx.
               res_bind (StateIndex_number e) (\<lambda>tr.
               Inr \<lparr>indexed_start = Some start, next_block_id = blk, next_log_id = log,
                    next_tx_id = tx, next_trace_id = tr\<rparr>)))))
      | _ \<Rightarrow> decode_err ''invalid state index columns'')"

definition state_index_schema :: "(state_index_key, state_index) meta_table_schema" where
  "state_index_schema =
     \<lparr>TABLE = ''state_index'',
      DEFINITION = \<lparr>partition_key = [ColumnDef_new_number ''id''],
                    clustering_key = [],
                    columns_def = [ColumnDef_new_number ''indexed_start'',
                                   ColumnDef_new_number ''next_block_id'',
                                   ColumnDef_new_number ''next_log_id'',
                                   ColumnDef_new_number ''next_tx_id'',
                                   ColumnDef_new_number ''next_trace_id'']\<rparr>,
      sch_key = StateIndex_key, sch_decode_key = StateIndex_decode_key,
      sch_columns = StateIndex_columns, sch_decode = StateIndex_decode\<rparr>"

lemmas state_index_schema_defs =
  state_index_schema_def StateIndex_key_def StateIndex_decode_key_def
  StateIndex_columns_def StateIndex_decode_def StateIndex_number_def

lemma zero_string: "''0'' = word_to_string (0 :: u64)"
  by (simp add: word_to_string_def to_decimal.simps digit_char_def char_of_def bit_0)

text \<open>An unset start block is stored as zero and read back as set to zero.\<close>

lemma StateIndex_decode_columns:
  "StateIndex_decode (StateIndex_columns v) =
     Inr (v\<lparr>indexed_start := Some (case indexed_start v of None \<Rightarrow> 0 | Some s \<Rightarrow> s)\<rparr>)"
  by (simp add: state_index_schema_defs)

interpretation state_table: meta_schema state_index_schema "\<lambda>v. indexed_start v \<noteq> None"
proof (unfold_locales, goal_cases)
  case (3 k)
  have "canonical_value (CV_Number ''0'')"
    unfolding zero_string by (rule canonical_Cell)
  then show ?case
    by (simp add: state_index_schema_def StateIndex_key_def canonical_key_def del: canonical_value.simps)
next
  case (4 k)
  then show ?case by (cases k) (simp add: state_index_schema_def StateIndex_decode_key_def)
next
  case (5 v)
  then show ?case
    using StateIndex_decode_columns [of v] by (auto simp: state_index_schema_def)
next
  case (6 k k')
  then show ?case by (cases k; cases k') (simp add: state_index_schema_defs)
qed (simp_all add: state_index_schema_defs schema_law_simps)

section \<open>Bitmap page statistics (bitmap/page\_stats.rs)\<close>

datatype page_stats_key =
  BitmapPageStatsKey (ps_family: family) (ps_filter: bitmap_filter_value) (ps_page: u64)

definition PageStats_key :: "page_stats_key \<Rightarrow> meta_key" where
  "PageStats_key k =
     \<lparr>mk_partition = [Cell_new_number ''family'' (family_number (ps_family k)),
                      Cell_new_bytes ''filter'' (BitmapFilterValue_encode (ps_filter k))],
      mk_clustering = [Cell_new_number ''page'' (ps_page k)]\<rparr>"

definition PageStats_decode_key :: "meta_key \<Rightarrow> page_stats_key query_result" where
  "PageStats_decode_key key =
     res_bind (cell_at (mk_partition key) 0) (\<lambda>p.
     res_bind (number_of ''invalid bitmap family'' ''invalid bitmap family'' (cell_val p) :: u8 query_result) (\<lambda>b.
     res_bind (cell_at (mk_partition key) 1) (\<lambda>q.
     res_bind (case cell_val q of CV_Bytes v \<Rightarrow> BitmapFilterValue_decode v
                                | _ \<Rightarrow> decode_err ''invalid bitmap filter'') (\<lambda>flt.
     res_bind (cell_at (mk_clustering key) 0) (\<lambda>c.
     res_bind (number_of ''invalid bitmap page number'' ''invalid bitmap stats number'' (cell_val c)) (\<lambda>page.
     res_bind (ok_or (family_try_from b) (Err (Decode ''invalid bitmap family''))) (\<lambda>f.
     Inr (BitmapPageStatsKey f flt page))))))))"

definition PageStats_columns :: "u32 \<Rightarrow> row_cells" where
  "PageStats_columns v = [Cell_new_number ''count'' (ucast v)]"

definition PageStats_decode :: "row_cells \<Rightarrow> u32 query_result" where
  "PageStats_decode columns =
     (case columns of
        [c] \<Rightarrow>
          if column c \<noteq> ''count'' then decode_err ''invalid bitmap page stats''
          else res_bind (number_of ''invalid bitmap stats number'' ''invalid bitmap stats number'' (cell_val c))
                 (try_narrow ''invalid bitmap page count'')
      | _ \<Rightarrow> decode_err ''invalid bitmap page stats'')"

definition page_stats_schema :: "(page_stats_key, u32) meta_table_schema" where
  "page_stats_schema =
     \<lparr>TABLE = ''bitmap_page_stats'',
      DEFINITION = \<lparr>partition_key = [ColumnDef_new_number ''family'', ColumnDef_new_byte ''filter''],
                    clustering_key = [ColumnDef_new_number ''page''],
                    columns_def = [ColumnDef_new_number ''count'']\<rparr>,
      sch_key = PageStats_key, sch_decode_key = PageStats_decode_key,
      sch_columns = PageStats_columns, sch_decode = PageStats_decode\<rparr>"

lemmas page_stats_schema_defs =
  page_stats_schema_def PageStats_key_def PageStats_decode_key_def
  PageStats_columns_def PageStats_decode_def

interpretation stats_table: meta_schema page_stats_schema "\<lambda>_. True"
proof (unfold_locales, goal_cases)
  case (6 k k')
  then show ?case by (cases k; cases k') (simp add: page_stats_schema_defs)
qed (simp_all add: page_stats_schema_defs schema_law_simps)

section \<open>Bitmap pages (bitmap/index.rs)\<close>

datatype bitmap_index_key =
  BitmapIndexKey (bik_family: family) (bik_filter: bitmap_filter_value) (bik_page: u64)

definition BitmapIndexKey_encode :: "bitmap_index_key \<Rightarrow> bytes" where
  "BitmapIndexKey_encode k =
     [family_into (bik_family k)] @ BitmapFilterValue_encode (bik_filter k) @ word_to_be (bik_page k)"

definition BitmapIndexKey_decode :: "bytes \<Rightarrow> bitmap_index_key query_result" where
  "BitmapIndexKey_decode bs =
     (if length bs < 10 then decode_err ''invalid bitmap key''
      else res_bind (ok_or (family_try_from (bs ! 0)) (Err (Decode ''invalid family tag''))) (\<lambda>f.
           res_bind (BitmapFilterValue_decode (take (length bs - 9) (drop 1 bs))) (\<lambda>flt.
           Inr (BitmapIndexKey f flt (word_from_be (drop (length bs - 8) bs))))))"

definition PAGE_SPAN :: u64 where
  "PAGE_SPAN = 64 * 1024"

record 'b bitmap_index_value =
  id_start :: primary_id
  id_end :: primary_id
  biv_bitmap :: 'b

definition BitmapIndexValue_encode :: "('h, 'b) externals \<Rightarrow> 'b bitmap_index_value \<Rightarrow> bytes" where
  "BitmapIndexValue_encode X v =
     word_to_be (as_u64 (id_start v)) @ word_to_be (as_u64 (id_end v)) @ rb_serialize X (biv_bitmap v)"

definition BitmapIndexValue_decode ::
  "('h, 'b) externals \<Rightarrow> bytes \<Rightarrow> 'b bitmap_index_value query_result" where
  "BitmapIndexValue_decode X bs =
     (if length bs < 16 then decode_err ''invalid bitmap index value''
      else case rb_deserialize X (drop 16 bs) of
             None \<Rightarrow> decode_err ''invalid bitmap payload''
           | Some (bitmap, position) \<Rightarrow>
               if position \<noteq> length bs - 16 then decode_err ''trailing bitmap payload''
               else Inr \<lparr>id_start = PrimaryId (word_from_be (take 8 bs)),
                         id_end = PrimaryId (word_from_be (take 8 (drop 8 bs))),
                         biv_bitmap = bitmap\<rparr>)"

definition bitmap_codec ::
  "('h, 'b) externals \<Rightarrow> (bitmap_index_key, 'b bitmap_index_value) blob_codec" where
  "bitmap_codec X =
     \<lparr>key_encode = BitmapIndexKey_encode, value_encode = (\<lambda>v. Inr (BitmapIndexValue_encode X v)),
      value_decode = BitmapIndexValue_decode X\<rparr>"

lemma BitmapIndexKey_roundtrip [codec_simps]:
  "BitmapIndexKey_decode (BitmapIndexKey_encode k) = Inr k"
proof -
  let ?f = "BitmapFilterValue_encode (bik_filter k)"
  have "?f \<noteq> []" by (simp add: BitmapFilterValue_encode_def)
  then show ?thesis
    by (simp add: BitmapIndexKey_decode_def BitmapIndexKey_encode_def)
qed

lemma BitmapIndexKey_encode_inject [simp]:
  "BitmapIndexKey_encode k = BitmapIndexKey_encode k' \<longleftrightarrow> k = k'"
  by (metis BitmapIndexKey_roundtrip sum.inject(2))

lemma BitmapIndexValue_roundtrip [codec_simps]:
  "bitmap_laws X \<Longrightarrow> BitmapIndexValue_decode X (BitmapIndexValue_encode X v) = Inr v"
  by (simp add: BitmapIndexValue_decode_def BitmapIndexValue_encode_def bitmap_laws_def)

section \<open>Payload partitions (payload/payload.rs)\<close>

datatype payload_key = PayloadKey (pk_family: family) (pk_key: bytes)

definition ITEMS_PER_BLOB :: u64 where
  "ITEMS_PER_BLOB = 1024"

definition PayloadKey_from_id :: "family \<Rightarrow> u64 \<Rightarrow> payload_key" where
  "PayloadKey_from_id f i = PayloadKey f (word_to_be (i div ITEMS_PER_BLOB))"

definition partition_start :: "u64 \<Rightarrow> u64" where
  "partition_start i = i div ITEMS_PER_BLOB * ITEMS_PER_BLOB"

definition partition_number :: "u64 \<Rightarrow> u64" where
  "partition_number i = i div ITEMS_PER_BLOB"

definition PayloadKey_encode :: "payload_key \<Rightarrow> bytes" where
  "PayloadKey_encode k =
     [family_into (pk_family k)] @ word_to_be (of_nat (length (pk_key k)) :: u32) @ pk_key k"

definition PayloadKey_decode :: "bytes \<Rightarrow> payload_key query_result" where
  "PayloadKey_decode bs =
     (if length bs < 5 then decode_err ''invalid payload key''
      else let key_len = unat (word_from_be (take 4 (drop 1 bs)) :: u32) in
        if length bs \<noteq> 5 + key_len then decode_err ''invalid payload key length''
        else res_bind (ok_or (family_try_from (bs ! 0)) (Err (Decode ''invalid family tag''))) (\<lambda>f.
             Inr (PayloadKey f (drop 5 bs))))"

text \<open>The derived order of \<open>PayloadKey\<close>.\<close>

definition payload_key_cmp :: "payload_key \<Rightarrow> payload_key \<Rightarrow> ordering" where
  "payload_key_cmp a b =
     then_with (cmp_lin (pk_family a) (pk_family b)) (cmp_lin (pk_key a) (pk_key b))"

definition MAX_PAYLOAD_SIZE :: nat where
  "MAX_PAYLOAD_SIZE = 128 * 1024 * 1024"

datatype payload_item = PayloadItem (pi_bytes: bytes)

definition PayloadItem_encode :: "('h, 'b) externals \<Rightarrow> payload_item \<Rightarrow> bytes query_result" where
  "PayloadItem_encode X v =
     (if length (pi_bytes v) \<le> MAX_PAYLOAD_SIZE then Inr (zstd_compress X (pi_bytes v))
      else panic ''payload exceeds 128 MiB limit'')"

definition PayloadItem_decode :: "('h, 'b) externals \<Rightarrow> bytes \<Rightarrow> payload_item query_result" where
  "PayloadItem_decode X bs =
     res_bind (ok_or (zstd_decompress X bs MAX_PAYLOAD_SIZE) (Err (Decode ''invalid compressed payload'')))
       (\<lambda>b. Inr (PayloadItem b))"

definition payload_codec :: "('h, 'b) externals \<Rightarrow> (payload_key, payload_item) blob_codec" where
  "payload_codec X =
     \<lparr>key_encode = PayloadKey_encode, value_encode = PayloadItem_encode X,
      value_decode = PayloadItem_decode X\<rparr>"

lemma PayloadKey_roundtrip [codec_simps]:
  assumes "length (pk_key k) < 2 ^ 32"
  shows "PayloadKey_decode (PayloadKey_encode k) = Inr k"
proof -
  have "unat (of_nat (length (pk_key k)) :: u32) = length (pk_key k)"
    using assms by (simp add: unat_of_nat_small)
  then show ?thesis
    by (simp add: PayloadKey_decode_def PayloadKey_encode_def Let_def)
qed

lemma PayloadItem_roundtrip [codec_simps]:
  "codec_laws X \<Longrightarrow> PayloadItem_encode X v = Inr bs \<Longrightarrow> PayloadItem_decode X bs = Inr v"
  by (auto simp: PayloadItem_encode_def PayloadItem_decode_def codec_laws_def split: if_splits)

lemma payload_key_comparator: "comparator payload_key_cmp UNIV"
proof -
  have "comparator (cmp_pair cmp_lin cmp_lin) (UNIV \<times> UNIV :: (family \<times> bytes) set)"
    by (intro comparator_pair lin.comparator_axioms)
  then have "comparator (\<lambda>x y. cmp_pair cmp_lin cmp_lin (pk_family x, pk_key x)
      (pk_family y, pk_key y)) UNIV"
    by (rule comparator_inj [where f = "\<lambda>k. (pk_family k, pk_key k)"])
       (auto simp: inj_on_def intro: payload_key.expand)
  then show ?thesis by (simp add: payload_key_cmp_def [abs_def] cmp_pair_def)
qed

interpretation pkey: comparator payload_key_cmp UNIV
  by (rule payload_key_comparator)

lemma PayloadKey_encode_from_id [simp]:
  "PayloadKey_encode (PayloadKey_from_id f i) = PayloadKey_encode (PayloadKey_from_id g j) \<longleftrightarrow>
     f = g \<and> i div ITEMS_PER_BLOB = j div ITEMS_PER_BLOB"
  by (simp add: PayloadKey_encode_def PayloadKey_from_id_def)

end
