(* ===== verification/Writer.thy ===== *)
theory Writer
  imports Tables
begin

text \<open>
  The query writer (\<open>monad-query-write\<close>) and the bundle of tables it owns
  (\<open>monad-query-schema/src/tables/mod.rs\<close>).  A writer holds the committed state, the hash of
  the last committed block and the blocks appended since; \<open>flush\<close> assigns primary ids to
  the pending blocks and writes payloads, bitmaps and metadata, and the state row last.
\<close>

section \<open>The table bundle (tables/mod.rs)\<close>

record 'w query_tables =
  qt_bitmap_index :: "'w codec_blob_table"
  qt_page_stats :: "'w meta_store"
  qt_block_hash :: "'w meta_store"
  qt_family :: "'w meta_store"
  qt_family_block_index :: "'w meta_store"
  qt_payload :: "'w codec_blob_table"
  qt_payload_location :: "'w meta_store"
  qt_state :: "'w meta_store"

definition QueryTables_new ::
  "'w blob_store \<Rightarrow> 'w meta_store \<Rightarrow> 'w meta_store \<Rightarrow> 'w blob_store \<Rightarrow> 'w meta_store
     \<Rightarrow> 'w meta_store \<Rightarrow> 'w query_tables" where
  "QueryTables_new bitmap_index metadata_block_hash metadata_family payload payload_location state =
     \<lparr>qt_bitmap_index = \<lparr>cbt_table = ''bitmap_index'', cbt_store = bitmap_index\<rparr>,
      qt_page_stats = metadata_family,
      qt_block_hash = metadata_block_hash,
      qt_family = metadata_family,
      qt_family_block_index = metadata_family,
      qt_payload = \<lparr>cbt_table = ''payload'', cbt_store = payload\<rparr>,
      qt_payload_location = payload_location,
      qt_state = state\<rparr>"

definition MetadataTables_init :: "'w query_tables \<Rightarrow> ('w, unit) query_io" where
  "MetadataTables_init T =
     io_bind (MetaTable_init (qt_block_hash T) block_hash_schema) (\<lambda>_.
     io_bind (MetaTable_init (qt_family T) family_schema) (\<lambda>_.
     MetaTable_init (qt_family_block_index T) family_block_index_schema))"

definition BitmapTables_init :: "'w query_tables \<Rightarrow> ('w, unit) query_io" where
  "BitmapTables_init T = MetaTable_init (qt_page_stats T) page_stats_schema"

definition PayloadTables_init :: "'w query_tables \<Rightarrow> ('w, unit) query_io" where
  "PayloadTables_init T = MetaTable_init (qt_payload_location T) payload_location_schema"

definition StateTables_init :: "'w query_tables \<Rightarrow> ('w, unit) query_io" where
  "StateTables_init T = MetaTable_init (qt_state T) state_index_schema"

definition QueryTables_init :: "'w query_tables \<Rightarrow> ('w, unit) query_io" where
  "QueryTables_init T =
     io_bind (MetadataTables_init T) (\<lambda>_.
     io_bind (BitmapTables_init T) (\<lambda>_.
     io_bind (PayloadTables_init T) (\<lambda>_.
     StateTables_init T)))"

section \<open>Blocks (block.rs)\<close>

record writer_tx =
  wt_envelope :: stored_tx
  wt_logs :: "stored_log list"
  wt_traces :: "stored_trace list"

record 'h writer_block =
  wb_header :: 'h
  wb_txs :: "writer_tx list"

definition block_number :: "('h, 'b) externals \<Rightarrow> 'h writer_block \<Rightarrow> u64" where
  "block_number X b = hdr_number X (wb_header b)"

definition block_hash :: "('h, 'b) externals \<Rightarrow> 'h writer_block \<Rightarrow> b256" where
  "block_hash X b = hash_slow X (wb_header b)"

definition parent_hash :: "('h, 'b) externals \<Rightarrow> 'h writer_block \<Rightarrow> b256" where
  "parent_hash X b = hdr_parent_hash X (wb_header b)"

section \<open>Writer state (lib.rs)\<close>

record 'h assigned_block =
  ab_block :: "'h writer_block"
  ab_logs :: family_metadata
  ab_txs :: family_metadata
  ab_traces :: family_metadata

record 'h flush_batch =
  fb_blocks :: "'h assigned_block list"
  fb_state :: state_index

record ('w, 'h) query_writer =
  qw_tables :: "'w query_tables"
  qw_state :: state_index
  qw_last_block_hash :: "b256 option"
  qw_pending :: "'h writer_block list"

text \<open>
  The id of the last committed block, unless the index is still empty:
  \<open>next_block_id.checked_sub(1).filter(|b| indexed_start.is_none_or(|s| *b >= s))\<close>.
\<close>

definition last_block_id :: "state_index \<Rightarrow> u64 option" where
  "last_block_id st =
     (case checked_sub (next_block_id st) 1 of
        None \<Rightarrow> None
      | Some b \<Rightarrow>
          if (case indexed_start st of None \<Rightarrow> True | Some s \<Rightarrow> s \<le> b) then Some b else None)"

definition QueryWriter_open :: "'w query_tables \<Rightarrow> ('w, ('w, 'h) query_writer) query_io" where
  "QueryWriter_open T =
     io_bind (QueryTables_init T) (\<lambda>_.
     io_bind (MetaTable_get (qt_state T) state_index_schema StateIndexKey) (\<lambda>s.
     let st = (case s of None \<Rightarrow> StateIndex_default | Some st \<Rightarrow> st) in
     io_bind (case last_block_id st of
                None \<Rightarrow> io_lift (Inr None)
              | Some h \<Rightarrow>
                  io_bind (MetaTable_get (qt_block_hash T) block_hash_schema (MetadataBlockHashKey h))
                    (\<lambda>r. case r of
                       None \<Rightarrow> io_lift (Inl (Err (MissingData ''indexed block is missing block hash'')))
                     | Some hash \<Rightarrow> io_lift (Inr (Some hash)))) (\<lambda>last.
     io_lift (Inr \<lparr>qw_tables = T, qw_state = st, qw_last_block_hash = last, qw_pending = []\<rparr>))))"

definition next_block_number :: "('w, 'h) query_writer \<Rightarrow> u64 query_result" where
  "next_block_number W =
     ok_or (checked_add (next_block_id (qw_state W)) (of_nat (length (qw_pending W))))
           (Err (InvalidBlock ''block number overflow''))"

definition previous_hash :: "('h, 'b) externals \<Rightarrow> ('w, 'h) query_writer \<Rightarrow> b256 option" where
  "previous_hash X W =
     (if qw_pending W = [] then qw_last_block_hash W
      else Some (block_hash X (last (qw_pending W))))"

definition QueryWriter_append ::
  "('h, 'b) externals \<Rightarrow> ('w, 'h) query_writer \<Rightarrow> 'h writer_block
     \<Rightarrow> unit query_result \<times> ('w, 'h) query_writer" where
  "QueryWriter_append X W b =
     (case next_block_number W of
        Inl e \<Rightarrow> (Inl e, W)
      | Inr n \<Rightarrow>
          if block_number X b \<noteq> n
          then (Inl (Err (InvalidBlock ''finalized blocks must be appended in order'')), W)
          else if (case previous_hash X W of None \<Rightarrow> False | Some p \<Rightarrow> parent_hash X b \<noteq> p)
          then (Inl (Err (InvalidBlock ''finalized block does not extend the indexed chain'')), W)
          else (Inr (), W\<lparr>qw_pending := qw_pending W @ [b]\<rparr>))"

definition QueryWriter_start_at ::
  "('w, 'h) query_writer \<Rightarrow> u64 \<Rightarrow> unit query_result \<times> ('w, 'h) query_writer" where
  "QueryWriter_start_at W n =
     (if indexed_start (qw_state W) \<noteq> None \<or> next_block_id (qw_state W) \<noteq> 0 \<or> qw_pending W \<noteq> []
      then (Inl (Err (InvalidBlock ''writer already contains blocks'')), W)
      else (Inr (), W\<lparr>qw_state := (qw_state W)\<lparr>indexed_start := Some n, next_block_id := n\<rparr>\<rparr>))"

text \<open>Id ranges of the pending blocks.\<close>

definition id_range :: "u64 \<Rightarrow> nat \<Rightarrow> family_metadata query_result" where
  "id_range first n =
     (if n < 2 ^ 32 then Inr \<lparr>first_primary_id = PrimaryId first, fm_count = of_nat n\<rparr>
      else Inl (Err (InvalidBlock ''block contains too many records'')))"

definition advance :: "string \<Rightarrow> u64 \<Rightarrow> family_metadata \<Rightarrow> u64 query_result" where
  "advance msg first r = ok_or (checked_add first (ucast (fm_count r))) (Err (InvalidBlock msg))"

definition block_logs :: "'h writer_block \<Rightarrow> stored_log list" where
  "block_logs b = concat (map wt_logs (wb_txs b))"

definition block_traces :: "'h writer_block \<Rightarrow> stored_trace list" where
  "block_traces b = concat (map wt_traces (wb_txs b))"

fun assign_ids ::
  "u64 \<times> u64 \<times> u64 \<Rightarrow> 'h writer_block list
     \<Rightarrow> ((u64 \<times> u64 \<times> u64) \<times> 'h assigned_block list) query_result" where
  "assign_ids nxt [] = Inr (nxt, [])"
| "assign_ids (next_tx, next_log, next_trace) (b # bs) =
     res_bind (id_range next_tx (length (wb_txs b))) (\<lambda>txs.
     res_bind (id_range next_log (length (block_logs b))) (\<lambda>logs.
     res_bind (id_range next_trace (length (block_traces b))) (\<lambda>traces.
     res_bind (advance ''transaction ID overflow'' next_tx txs) (\<lambda>tx'.
     res_bind (advance ''log ID overflow'' next_log logs) (\<lambda>log'.
     res_bind (advance ''trace ID overflow'' next_trace traces) (\<lambda>trace'.
     res_bind (assign_ids (tx', log', trace') bs) (\<lambda>(nxt, rest).
     Inr (nxt, \<lparr>ab_block = b, ab_logs = logs, ab_txs = txs, ab_traces = traces\<rparr> # rest))))))))"

definition prepare_flush ::
  "('h, 'b) externals \<Rightarrow> ('w, 'h) query_writer
     \<Rightarrow> 'h flush_batch option query_result \<times> ('w, 'h) query_writer" where
  "prepare_flush X W =
     (if qw_pending W = [] then (Inr None, W)
      else
        let st = qw_state W in
        case assign_ids (next_tx_id st, next_log_id st, next_trace_id st) (qw_pending W) of
          Inl e \<Rightarrow> (Inl e, W)
        | Inr ((next_tx, next_log, next_trace), blocks) \<Rightarrow>
            (case checked_add (block_number X (last (qw_pending W))) 1 of
               None \<Rightarrow> (Inl (Err (InvalidBlock ''block number overflow'')), W)
             | Some next_block \<Rightarrow>
                 (Inr (Some
                    \<lparr>fb_blocks = blocks,
                     fb_state = \<lparr>indexed_start = (case indexed_start st of
                                     None \<Rightarrow> Some (block_number X (hd (qw_pending W)))
                                   | Some s \<Rightarrow> Some s),
                                 next_block_id = next_block, next_log_id = next_log,
                                 next_tx_id = next_tx, next_trace_id = next_trace\<rparr>\<rparr>),
                  W\<lparr>qw_pending := []\<rparr>)))"

section \<open>Payload stage (payload.rs)\<close>

definition family_rows ::
  "('h, 'b) externals \<Rightarrow> family \<Rightarrow> 'h assigned_block \<Rightarrow> u64 \<times> bytes list" where
  "family_rows X f a =
     (let b = ab_block a in
      case f of
        BlockHeader \<Rightarrow> (block_number X b, [rlp_encode_header X (wb_header b)])
      | Transaction \<Rightarrow> (as_u64 (first_primary_id (ab_txs a)),
                        map (\<lambda>tx. rlp_encode_tx X (wt_envelope tx)) (wb_txs b))
      | Log \<Rightarrow> (as_u64 (first_primary_id (ab_logs a)), map (rlp_encode_log X) (block_logs b))
      | Trace \<Rightarrow> (as_u64 (first_primary_id (ab_traces a)), map (StoredTrace_encode X) (block_traces b)))"

definition block_payload_items ::
  "('h, 'b) externals \<Rightarrow> family \<Rightarrow> 'h assigned_block \<Rightarrow> (payload_key \<times> payload_item \<times> primary_id) list" where
  "block_payload_items X f a =
     (let (first, rows) = family_rows X f a in
      map (\<lambda>(i, bs). let pid = first + of_nat i in
             (PayloadKey_from_id f pid, PayloadItem bs, PrimaryId pid)) (List.enumerate 0 rows))"

definition payload_items ::
  "('h, 'b) externals \<Rightarrow> family \<Rightarrow> 'h assigned_block list \<Rightarrow> (payload_key \<times> payload_item \<times> primary_id) list" where
  "payload_items X f blocks = concat (map (block_payload_items X f) blocks)"

text \<open>\<open>into_group_map\<close> collected into a \<open>BTreeMap\<close>: groups in key order, items in input order.\<close>

definition group_add ::
  "(payload_key \<times> payload_item \<times> primary_id) \<Rightarrow> (payload_key, (primary_id \<times> payload_item) list) btree
     \<Rightarrow> (payload_key, (primary_id \<times> payload_item) list) btree" where
  "group_add x m =
     (let (key, v, i) = x in
      bt_insert payload_key_cmp key
        ((case bt_get payload_key_cmp key m of None \<Rightarrow> [] | Some vs \<Rightarrow> vs) @ [(i, v)]) m)"

definition group_items ::
  "(payload_key \<times> payload_item \<times> primary_id) list
     \<Rightarrow> (payload_key, (primary_id \<times> payload_item) list) btree" where
  "group_items xs = fold group_add xs []"

definition committed_id :: "state_index \<Rightarrow> family \<Rightarrow> u64 option" where
  "committed_id st f =
     (case f of
        BlockHeader \<Rightarrow> last_block_id st
      | Transaction \<Rightarrow> checked_sub (next_tx_id st) 1
      | Log \<Rightarrow> checked_sub (next_log_id st) 1
      | Trace \<Rightarrow> checked_sub (next_trace_id st) 1)"

definition group_committed_end ::
  "'w meta_store \<Rightarrow> state_index \<Rightarrow> family \<Rightarrow> (primary_id \<times> payload_item) list \<Rightarrow> ('w, u64) query_io" where
  "group_committed_end location st f items =
     (case items of
        [] \<Rightarrow> io_lift (panic ''payload group is non-empty'')
      | (first_id, _) # _ \<Rightarrow>
          (case committed_id st f of
             None \<Rightarrow> io_lift (Inr 0)
           | Some c \<Rightarrow>
               if PayloadKey_from_id f c = PayloadKey_from_id f (as_u64 first_id)
               then io_bind (MetaTable_get location payload_location_schema
                               (PayloadLocationKey f (PrimaryId c))) (\<lambda>r.
                    io_lift (res_bind (ok_or r (Err (MissingData ''missing committed payload location'')))
                               (\<lambda>l. Inr (payload_end l))))
               else io_lift (Inr 0)))"

definition grouped_entry ::
  "'w meta_store \<Rightarrow> state_index \<Rightarrow> family \<Rightarrow> payload_key \<times> (primary_id \<times> payload_item) list
     \<Rightarrow> ('w, payload_key \<times> primary_id list \<times> u64 \<times> payload_item list) query_io" where
  "grouped_entry location st f g =
     (let (key, items) = g in
      io_bind (group_committed_end location st f items) (\<lambda>committed_end.
      io_lift (Inr (key, map fst items, committed_end, map snd items))))"

fun collect_locations ::
  "family \<Rightarrow> (payload_key \<times> primary_id list) list \<Rightarrow> (payload_key \<times> u64 list) list
     \<Rightarrow> (payload_location_key \<times> payload_location) list query_result" where
  "collect_locations f grouped_ids [] = Inr []"
| "collect_locations f grouped_ids ((key, ends) # rest) =
     (case map_of grouped_ids key of
        None \<Rightarrow> panic ''payload group has IDs''
      | Some ids \<Rightarrow>
          if length ids \<noteq> length ends
          then Inl (Err (Internal ''payload append returned mismatched item counts''))
          else res_bind (collect_locations f (filter (\<lambda>(k, _). k \<noteq> key) grouped_ids) rest) (\<lambda>ls.
               Inr (map (\<lambda>(i, e). (PayloadLocationKey f i, PayloadLocation e)) (zip ids ends) @ ls)))"

definition flush_family ::
  "('h, 'b) externals \<Rightarrow> 'w codec_blob_table \<Rightarrow> 'w meta_store \<Rightarrow> state_index \<Rightarrow> 'h flush_batch \<Rightarrow> family
     \<Rightarrow> ('w, (payload_location_key \<times> payload_location) list) query_io" where
  "flush_family X payload location st batch f =
     io_bind (io_map (grouped_entry location st f)
                (group_items (payload_items X f (fb_blocks batch)))) (\<lambda>entries.
     io_bind (Partition_append_batch payload (payload_codec X)
                (map (\<lambda>(key, ids, ce, vs). (key, ce, vs)) entries)) (\<lambda>ends.
     io_lift (collect_locations f (map (\<lambda>(key, ids, _). (key, ids)) entries) ends)))"

definition payload_flush ::
  "('h, 'b) externals \<Rightarrow> 'w codec_blob_table \<Rightarrow> 'w meta_store \<Rightarrow> state_index \<Rightarrow> 'h flush_batch
     \<Rightarrow> ('w, unit) query_io" where
  "payload_flush X payload location st batch =
     io_bind (io_map (flush_family X payload location st batch) family_iter) (\<lambda>locs.
     MetaTable_put_batch location payload_location_schema (concat locs))"

section \<open>Bitmap stage (bitmap\_index.rs)\<close>

type_synonym bitmap_entry = "family \<times> bitmap_filter_value \<times> u64"

fun log_entries :: "u64 \<Rightarrow> stored_log list \<Rightarrow> bitmap_entry list query_result" where
  "log_entries i [] = Inr []"
| "log_entries i (l # ls) =
     res_bind (Log_bitmap_filters l) (\<lambda>fs.
     res_bind (log_entries (i + 1) ls) (\<lambda>rest.
     Inr (map (\<lambda>flt. (Log, flt, i)) fs @ rest)))"

fun trace_entries :: "u64 \<Rightarrow> (stored_trace \<times> bool) list \<Rightarrow> bitmap_entry list query_result" where
  "trace_entries i [] = Inr []"
| "trace_entries i (t # ts) =
     res_bind (Trace_bitmap_filters t) (\<lambda>fs.
     res_bind (trace_entries (i + 1) ts) (\<lambda>rest.
     Inr (map (\<lambda>flt. (Trace, flt, i)) fs @ rest)))"

text \<open>The transactions of a block: \<open>tx_id\<close>, \<open>log_id\<close> and \<open>trace_id\<close> are the running ids.\<close>

fun tx_entries ::
  "('h, 'b) externals \<Rightarrow> u64 \<Rightarrow> u64 \<Rightarrow> u64 \<Rightarrow> writer_tx list \<Rightarrow> bitmap_entry list query_result" where
  "tx_entries X tx_id log_id trace_id [] = Inr []"
| "tx_entries X tx_id log_id trace_id (tx # txs) =
     res_bind (Tx_bitmap_filters X (wt_envelope tx)) (\<lambda>fs.
     res_bind (log_entries log_id (wt_logs tx)) (\<lambda>ls.
     res_bind (trace_entries trace_id (from_traces (wt_traces tx))) (\<lambda>ts.
     res_bind (tx_entries X (tx_id + 1) (log_id + of_nat (length (wt_logs tx)))
                 (trace_id + of_nat (length (wt_traces tx))) txs) (\<lambda>rest.
     Inr (map (\<lambda>flt. (Transaction, flt, tx_id)) fs @ ls @ ts @ rest)))))"

definition block_entries ::
  "('h, 'b) externals \<Rightarrow> 'h assigned_block \<Rightarrow> bitmap_entry list query_result" where
  "block_entries X a =
     res_bind (Block_bitmap_filters X (wb_header (ab_block a))) (\<lambda>fs.
     res_bind (tx_entries X (as_u64 (first_primary_id (ab_txs a)))
                 (as_u64 (first_primary_id (ab_logs a))) (as_u64 (first_primary_id (ab_traces a)))
                 (wb_txs (ab_block a))) (\<lambda>rest.
     Inr (map (\<lambda>flt. (BlockHeader, flt, block_number X (ab_block a))) fs @ rest)))"

definition page_of :: "u64 \<Rightarrow> u64" where
  "page_of i = i div PAGE_SPAN * PAGE_SPAN"

text \<open>\<open>pages.entry(key).or_default().insert((id - page) as u32)\<close>\<close>

fun page_insert ::
  "('h, 'b) externals \<Rightarrow> bitmap_index_key \<Rightarrow> u32 \<Rightarrow> (bitmap_index_key \<times> 'b) list
     \<Rightarrow> (bitmap_index_key \<times> 'b) list" where
  "page_insert X k i [] = [(k, rb_insert X i (rb_new X))]"
| "page_insert X k i ((k', b) # m) =
     (if k' = k then (k', rb_insert X i b) # m else (k', b) # page_insert X k i m)"

definition page_add ::
  "('h, 'b) externals \<Rightarrow> bitmap_entry \<Rightarrow> (bitmap_index_key \<times> 'b) list \<Rightarrow> (bitmap_index_key \<times> 'b) list" where
  "page_add X e m =
     (let (f, flt, i) = e in
      page_insert X (BitmapIndexKey f flt (page_of i)) (ucast (i - page_of i)) m)"

definition pending_pages ::
  "('h, 'b) externals \<Rightarrow> 'h assigned_block list \<Rightarrow> (bitmap_index_key \<times> 'b) list query_result" where
  "pending_pages X blocks =
     res_bind (map_res (block_entries X) blocks) (\<lambda>es. Inr (fold (page_add X) (concat es) []))"

definition batch_committed :: "('h, 'b) externals \<Rightarrow> 'h flush_batch \<Rightarrow> family \<Rightarrow> u64" where
  "batch_committed X batch f =
     (case fb_blocks batch of
        [] \<Rightarrow> (case f of
                 BlockHeader \<Rightarrow> 0
               | Transaction \<Rightarrow> next_tx_id (fb_state batch)
               | Log \<Rightarrow> next_log_id (fb_state batch)
               | Trace \<Rightarrow> next_trace_id (fb_state batch))
      | a # _ \<Rightarrow> (case f of
                 BlockHeader \<Rightarrow> block_number X (ab_block a)
               | Transaction \<Rightarrow> as_u64 (first_primary_id (ab_txs a))
               | Log \<Rightarrow> as_u64 (first_primary_id (ab_logs a))
               | Trace \<Rightarrow> as_u64 (first_primary_id (ab_traces a))))"

definition load_committed ::
  "('h, 'b) externals \<Rightarrow> 'w codec_blob_table \<Rightarrow> u64 \<Rightarrow> bitmap_index_key \<Rightarrow> ('w, 'b) query_io" where
  "load_committed X table committed key =
     (if committed \<le> bik_page key then io_lift (Inr (rb_new X))
      else io_bind (CodecBlobTable_get table (bitmap_codec X) key) (\<lambda>r.
        let bitmap = (case r of None \<Rightarrow> rb_new X | Some v \<Rightarrow> biv_bitmap v) in
        io_lift (Inr (if committed < saturating_add (bik_page key) PAGE_SPAN
                      then rb_remove_from X (ucast (committed - bik_page key)) bitmap
                      else bitmap))))"

definition page_update ::
  "('h, 'b) externals \<Rightarrow> 'w codec_blob_table \<Rightarrow> 'h flush_batch \<Rightarrow> bitmap_index_key \<times> 'b
     \<Rightarrow> ('w, (bitmap_index_key \<times> 'b bitmap_index_value) \<times> (page_stats_key \<times> u32) option) query_io" where
  "page_update X table batch p =
     (let (key, pending) = p in
      io_bind (load_committed X table (batch_committed X batch (bik_family key)) key) (\<lambda>old.
      let bitmap = rb_union X old pending in
      io_lift (Inr
        ((key, \<lparr>id_start = PrimaryId (bik_page key),
                id_end = PrimaryId (bik_page key + PAGE_SPAN), biv_bitmap = bitmap\<rparr>),
         (if rb_is_empty X bitmap then None
          else Some (BitmapPageStatsKey (bik_family key) (bik_filter key) (bik_page key),
                     ucast (rb_len X bitmap)))))))"

text \<open>\<open>try_join_all\<close> of the reads, in the hash map's iteration order.\<close>

definition bitmap_flush ::
  "('h, 'b) externals \<Rightarrow> 'w codec_blob_table \<Rightarrow> 'w meta_store \<Rightarrow> 'h flush_batch \<Rightarrow> ('w, unit) query_io" where
  "bitmap_flush X table stats batch =
     io_bind (io_lift (pending_pages X (fb_blocks batch))) (\<lambda>pages.
     io_bind (io_map (page_update X table batch) (hash_iter X pages)) (\<lambda>updates.
     let stats_writes = sort_key (\<lambda>(k, _). (ps_family k, ps_filter k, ps_page k))
                          (List.map_filter snd updates) in
     io_bind (CodecBlobTable_put_batch table (bitmap_codec X) (map fst updates)) (\<lambda>_.
     MetaTable_put_batch stats page_stats_schema stats_writes)))"

section \<open>Metadata stage (metadata.rs)\<close>

definition family_range :: "('h, 'b) externals \<Rightarrow> family \<Rightarrow> 'h assigned_block \<Rightarrow> family_metadata" where
  "family_range X f a =
     (case f of
        BlockHeader \<Rightarrow> \<lparr>first_primary_id = PrimaryId (block_number X (ab_block a)), fm_count = 1\<rparr>
      | Transaction \<Rightarrow> ab_txs a
      | Log \<Rightarrow> ab_logs a
      | Trace \<Rightarrow> ab_traces a)"

definition hash_puts :: "('h, 'b) externals \<Rightarrow> 'h assigned_block list \<Rightarrow> (block_hash_key \<times> b256) list" where
  "hash_puts X blocks =
     map (\<lambda>a. (MetadataBlockHashKey (block_number X (ab_block a)), block_hash X (ab_block a))) blocks"

definition family_puts ::
  "('h, 'b) externals \<Rightarrow> 'h assigned_block list \<Rightarrow> (family_key \<times> family_metadata) list" where
  "family_puts X blocks =
     concat (map (\<lambda>a. map (\<lambda>f.
       (MetadataFamilyKey f (block_number X (ab_block a)), family_range X f a)) family_iter) blocks)"

definition block_index_puts ::
  "('h, 'b) externals \<Rightarrow> 'h assigned_block list \<Rightarrow> (family_block_index_key \<times> u64) list" where
  "block_index_puts X blocks =
     concat (map (\<lambda>a. map (\<lambda>f.
         (MetadataFamilyBlockIndexKey f (as_u64 (first_primary_id (family_range X f a))),
          block_number X (ab_block a)))
       (filter (\<lambda>f. fm_count (family_range X f a) > 0) family_iter)) blocks)"

definition metadata_flush ::
  "('h, 'b) externals \<Rightarrow> 'w meta_store \<Rightarrow> 'w meta_store \<Rightarrow> 'w meta_store \<Rightarrow> 'h flush_batch
     \<Rightarrow> ('w, unit) query_io" where
  "metadata_flush X block_table fam_table fbi_tab batch =
     io_bind (MetaTable_put_batch block_table block_hash_schema (hash_puts X (fb_blocks batch))) (\<lambda>_.
     io_bind (MetaTable_put_batch fam_table family_schema (family_puts X (fb_blocks batch))) (\<lambda>_.
     MetaTable_put_batch fbi_tab family_block_index_schema (block_index_puts X (fb_blocks batch))))"

section \<open>Flush (lib.rs)\<close>

definition flush_batch_io ::
  "('h, 'b) externals \<Rightarrow> ('w, 'h) query_writer \<Rightarrow> 'h flush_batch \<Rightarrow> ('w, unit) query_io" where
  "flush_batch_io X W batch =
     (let T = qw_tables W in
      io_bind (payload_flush X (qt_payload T) (qt_payload_location T) (qw_state W) batch) (\<lambda>_.
      io_bind (bitmap_flush X (qt_bitmap_index T) (qt_page_stats T) batch) (\<lambda>_.
      io_bind (metadata_flush X (qt_block_hash T) (qt_family T) (qt_family_block_index T) batch) (\<lambda>_.
      MetaTable_put (qt_state T) state_index_schema StateIndexKey (fb_state batch)))))"

definition QueryWriter_flush ::
  "('h, 'b) externals \<Rightarrow> ('w, 'h) query_writer \<Rightarrow> 'w
     \<Rightarrow> unit query_result \<times> ('w, 'h) query_writer \<times> 'w" where
  "QueryWriter_flush X W w =
     (case prepare_flush X W of
        (Inl e, W1) \<Rightarrow> (Inl e, W1, w)
      | (Inr None, W1) \<Rightarrow> (Inr (), W1, w)
      | (Inr (Some batch), W1) \<Rightarrow>
          (case flush_batch_io X W1 batch w of
             (Inr _, w') \<Rightarrow>
               (Inr (), W1\<lparr>qw_last_block_hash :=
                            (if fb_blocks batch = [] then None
                             else Some (block_hash X (ab_block (last (fb_blocks batch))))),
                           qw_state := fb_state batch\<rparr>, w')
           | (Inl e, w') \<Rightarrow> (Inl e, W1\<lparr>qw_pending := map ab_block (fb_blocks batch)\<rparr>, w')))"

end
