(* ===== verification/Chain.thy ===== *)
theory Chain
  imports Writer
begin

text \<open>
  What an index of a chain should contain, independent of any store.  A finalized chain is
  a list of blocks numbered from a start block; \<open>assign_ids\<close> gives each block its id
  ranges.  From it follow the id of every item of a family, the bytes of every payload
  partition, and the set of ids under every bitmap filter.
\<close>

section \<open>Chains and their ids\<close>

definition chain_ok ::
  "('h, 'b) externals \<Rightarrow> u64 \<Rightarrow> 'h writer_block list \<Rightarrow> 'h assigned_block list \<Rightarrow> bool" where
  "chain_ok X start blocks A \<longleftrightarrow>
     (\<exists>nxt. assign_ids (0, 0, 0) blocks = Inr (nxt, A)) \<and>
     (\<forall>i < length blocks. block_number X (blocks ! i) = start + of_nat i) \<and>
     unat start + length blocks < 2 ^ 64"

text \<open>The encoded rows of a family, over a list of blocks in chain order.\<close>

definition fam_items :: "('h, 'b) externals \<Rightarrow> family \<Rightarrow> 'h assigned_block list \<Rightarrow> bytes list" where
  "fam_items X f as = concat (map (\<lambda>a. snd (family_rows X f a)) as)"

definition first_base :: "u64 \<Rightarrow> family \<Rightarrow> nat" where
  "first_base start f = (if f = BlockHeader then unat start else 0)"

text \<open>The first id not used by the first \<open>n\<close> blocks.\<close>

definition base :: "('h, 'b) externals \<Rightarrow> u64 \<Rightarrow> 'h assigned_block list \<Rightarrow> family \<Rightarrow> nat \<Rightarrow> nat" where
  "base X start A f n = first_base start f + length (fam_items X f (take n A))"

fun ids_of :: "family \<Rightarrow> u64 \<times> u64 \<times> u64 \<Rightarrow> u64" where
  "ids_of BlockHeader _ = 0"
| "ids_of Transaction (t, l, r) = t"
| "ids_of Log (t, l, r) = l"
| "ids_of Trace (t, l, r) = r"

definition next_id :: "state_index \<Rightarrow> family \<Rightarrow> u64" where
  "next_id st f =
     (case f of BlockHeader \<Rightarrow> next_block_id st | Transaction \<Rightarrow> next_tx_id st
      | Log \<Rightarrow> next_log_id st | Trace \<Rightarrow> next_trace_id st)"

lemma fam_items_simps [simp]:
  "fam_items X f [] = []"
  "fam_items X f (a # as) = snd (family_rows X f a) @ fam_items X f as"
  "fam_items X f (as @ bs) = fam_items X f as @ fam_items X f bs"
  by (simp_all add: fam_items_def)

lemma first_range [simp]:
  "as_u64 (first_primary_id (family_range X f a)) = fst (family_rows X f a)"
  by (cases f) (simp_all add: family_range_def family_rows_def Let_def)

lemma block_items_append [simp]:
  "length (block_logs b) = length (concat (map wt_logs (wb_txs b)))"
  "length (block_traces b) = length (concat (map wt_traces (wb_txs b)))"
  by (simp_all add: block_logs_def block_traces_def)

lemma assign_ids_Cons:
  assumes "assign_ids nxt (b # bs) = Inr (nxt', as)"
  obtains a as1 nxt1 where "as = a # as1" "ab_block a = b" "assign_ids nxt1 bs = Inr (nxt', as1)"
    "\<And>f. f \<noteq> BlockHeader \<Longrightarrow> fst (family_rows X f a) = ids_of f nxt \<and>
       unat (ids_of f nxt1) = unat (ids_of f nxt) + length (snd (family_rows X f a))"
    "\<And>f. unat (fm_count (family_range X f a)) = length (snd (family_rows X f a))"
proof -
  obtain t l r where nxt: "nxt = (t, l, r)" by (cases nxt) auto
  from assms obtain txs logs traces t1 l1 r1 as1 where
    r: "id_range t (length (wb_txs b)) = Inr txs" "id_range l (length (block_logs b)) = Inr logs"
      "id_range r (length (block_traces b)) = Inr traces"
    and adv: "advance ''transaction ID overflow'' t txs = Inr t1"
      "advance ''log ID overflow'' l logs = Inr l1" "advance ''trace ID overflow'' r traces = Inr r1"
    and rest: "assign_ids (t1, l1, r1) bs = Inr (nxt', as1)"
      "as = \<lparr>ab_block = b, ab_logs = logs, ab_txs = txs, ab_traces = traces\<rparr> # as1"
    by (auto simp: nxt res_bind_Inr_iff simp del: block_items_append split: prod.splits)
  let ?a = "\<lparr>ab_block = b, ab_logs = logs, ab_txs = txs, ab_traces = traces\<rparr>"
  have rng: "q = \<lparr>first_primary_id = PrimaryId x, fm_count = of_nat n\<rparr> \<and> n < 2 ^ 32"
    if "id_range x n = Inr q" for x n q
    using that by (auto simp: id_range_def split: if_splits)
  have adv': "unat y = unat x + unat (fm_count q)" if "advance m x q = Inr y" for m x q y
    using that by (auto simp: advance_def dest!: checked_add_SomeD)
  note r = r [THEN rng] and adv = adv [THEN adv']
  show ?thesis
  proof (rule that [OF rest(2) _ rest(1)])
    fix f :: family assume "f \<noteq> BlockHeader"
    with r adv show "fst (family_rows X f ?a) = ids_of f nxt \<and>
       unat (ids_of f (t1, l1, r1)) = unat (ids_of f nxt) + length (snd (family_rows X f ?a))"
      by (cases f) (auto simp: family_rows_def nxt unat_of_nat_small simp del: block_items_append)
  next
    fix f :: family
    from r show "unat (fm_count (family_range X f ?a)) = length (snd (family_rows X f ?a))"
      by (cases f) (auto simp: family_rows_def family_range_def unat_of_nat_small
          simp del: block_items_append)
  qed simp
qed

lemma assign_ids_spec:
  assumes "assign_ids nxt bs = Inr (nxt', as)"
  shows "map ab_block as = bs"
    and "f \<noteq> BlockHeader \<Longrightarrow> unat (ids_of f nxt') = unat (ids_of f nxt) + length (fam_items X f as)"
    and "\<lbrakk>f \<noteq> BlockHeader; i < length as\<rbrakk> \<Longrightarrow>
      unat (fst (family_rows X f (as ! i))) = unat (ids_of f nxt) + length (fam_items X f (take i as))"
    and "i < length as \<Longrightarrow>
      unat (fm_count (family_range X f (as ! i))) = length (snd (family_rows X f (as ! i)))"
proof -
  have "map ab_block as = bs \<and>
    (f \<noteq> BlockHeader \<longrightarrow> unat (ids_of f nxt') = unat (ids_of f nxt) + length (fam_items X f as)) \<and>
    (\<forall>i < length as. f \<noteq> BlockHeader \<longrightarrow>
      unat (fst (family_rows X f (as ! i))) = unat (ids_of f nxt) + length (fam_items X f (take i as))) \<and>
    (\<forall>i < length as. unat (fm_count (family_range X f (as ! i))) =
      length (snd (family_rows X f (as ! i))))"
    using assms
  proof (induction bs arbitrary: nxt as)
    case Nil
    then show ?case by (cases nxt) auto
  next
    case (Cons b bs)
    obtain a as1 nxt1 where a: "as = a # as1" "ab_block a = b" "assign_ids nxt1 bs = Inr (nxt', as1)"
      "\<And>f. f \<noteq> BlockHeader \<Longrightarrow> fst (family_rows X f a) = ids_of f nxt \<and>
         unat (ids_of f nxt1) = unat (ids_of f nxt) + length (snd (family_rows X f a))"
      "\<And>f. unat (fm_count (family_range X f a)) = length (snd (family_rows X f a))"
      by (rule assign_ids_Cons [OF Cons.prems, where X = X]) blast
    from Cons.IH [OF a(3)] a(2,4,5) show ?case
      by (auto simp: a(1) nth_Cons split: nat.splits)
  qed
  then show "map ab_block as = bs"
    "f \<noteq> BlockHeader \<Longrightarrow> unat (ids_of f nxt') = unat (ids_of f nxt) + length (fam_items X f as)"
    "\<lbrakk>f \<noteq> BlockHeader; i < length as\<rbrakk> \<Longrightarrow>
      unat (fst (family_rows X f (as ! i))) = unat (ids_of f nxt) + length (fam_items X f (take i as))"
    "i < length as \<Longrightarrow>
      unat (fm_count (family_range X f (as ! i))) = length (snd (family_rows X f (as ! i)))"
    by auto
qed

lemma assign_ids_append:
  "assign_ids nxt (xs @ ys) =
     res_bind (assign_ids nxt xs) (\<lambda>(nxt1, as). res_bind (assign_ids nxt1 ys) (\<lambda>(nxt2, bs).
       Inr (nxt2, as @ bs)))"
proof (induction xs arbitrary: nxt)
  case Nil
  show ?case by (cases "assign_ids nxt ys") auto
next
  case (Cons x xs)
  obtain t l r where "nxt = (t, l, r)" by (cases nxt) auto
  then show ?case
    using Cons.IH by (auto simp: res_bind_def split: sum.splits prod.splits)
qed

lemma length_header_items: "length (fam_items X BlockHeader as) = length as"
  by (induction as) (simp_all add: family_rows_def Let_def)

lemma fst_header_rows: "fst (family_rows X BlockHeader a) = block_number X (ab_block a)"
  by (simp add: family_rows_def Let_def)

section \<open>Contents of an index\<close>

text \<open>The \<open>i\<close>-th id of a family, its payload, and the bytes of consecutive payloads.\<close>

definition item_of ::
  "('h, 'b) externals \<Rightarrow> u64 \<Rightarrow> 'h assigned_block list \<Rightarrow> family \<Rightarrow> nat \<Rightarrow> bytes" where
  "item_of X start A f i = fam_items X f A ! (i - first_base start f)"

definition pbytes ::
  "('h, 'b) externals \<Rightarrow> u64 \<Rightarrow> 'h assigned_block list \<Rightarrow> family \<Rightarrow> nat \<Rightarrow> nat \<Rightarrow> bytes" where
  "pbytes X start A f i j = concat (map (\<lambda>k. zstd_compress X (item_of X start A f k)) [i..<j])"

text \<open>The first id of partition \<open>p\<close>.\<close>

definition plo :: "u64 \<Rightarrow> family \<Rightarrow> nat \<Rightarrow> nat" where
  "plo start f p = max (first_base start f) (1024 * p)"

definition phi :: "nat \<Rightarrow> nat" where
  "phi p = 1024 * (p + 1)"

definition state_at ::
  "('h, 'b) externals \<Rightarrow> u64 \<Rightarrow> 'h assigned_block list \<Rightarrow> nat \<Rightarrow> state_index" where
  "state_at X start A n =
     \<lparr>indexed_start = Some start, next_block_id = of_nat (base X start A BlockHeader n),
      next_log_id = of_nat (base X start A Log n), next_tx_id = of_nat (base X start A Transaction n),
      next_trace_id = of_nat (base X start A Trace n)\<rparr>"

lemma pbytes_append:
  "\<lbrakk>i \<le> j; j \<le> k\<rbrakk> \<Longrightarrow> pbytes X s A f i k = pbytes X s A f i j @ pbytes X s A f j k"
  unfolding pbytes_def using upt_add_eq_append [of i j "k - j"] by simp

lemma pbytes_empty [simp]: "j \<le> i \<Longrightarrow> pbytes X s A f i j = []"
  by (simp add: pbytes_def)

lemma pbytes_take:
  "\<lbrakk>j \<le> k\<rbrakk> \<Longrightarrow> take (length (pbytes X s A f i j)) (pbytes X s A f i k) = pbytes X s A f i j"
  using pbytes_append [of i j k X s A f] by (cases "i \<le> j") simp_all

locale chain =
  fixes X :: "('h, 'b) externals" and start :: u64
    and blocks :: "'h writer_block list" and A :: "'h assigned_block list"
  assumes chain: "chain_ok X start blocks A"
    and ext: "externals_ok X"
begin

lemma length_A [simp]: "length A = length blocks"
  and blocks_A: "map ab_block A = blocks"
proof -
  obtain nxt where "assign_ids (0, 0, 0) blocks = Inr (nxt, A)"
    using chain by (auto simp: chain_ok_def)
  from assign_ids_spec(1) [OF this] show "map ab_block A = blocks" .
  then show "length A = length blocks" by (metis length_map)
qed

lemma block_nth: "i < length blocks \<Longrightarrow> ab_block (A ! i) = blocks ! i"
  using blocks_A by (metis length_A nth_map)

lemma number_nth: "i < length blocks \<Longrightarrow> block_number X (blocks ! i) = start + of_nat i"
  and start_bound: "unat start + length blocks < 2 ^ 64"
  using chain by (simp_all add: chain_ok_def)

lemma unat_number: "i < length blocks \<Longrightarrow> unat (block_number X (blocks ! i)) = unat start + i"
  using start_bound by (simp add: number_nth unat_add_nat)

lemma base_header: "n \<le> length blocks \<Longrightarrow> base X start A BlockHeader n = unat start + n"
  by (simp add: base_def first_base_def length_header_items)

lemma base_first:
  assumes "i < length blocks"
  shows "unat (fst (family_rows X f (A ! i))) = base X start A f i"
proof (cases "f = BlockHeader")
  case True
  then show ?thesis using assms by (simp add: fst_header_rows block_nth unat_number base_header)
next
  case False
  obtain nxt where "assign_ids (0, 0, 0) blocks = Inr (nxt, A)"
    using chain by (auto simp: chain_ok_def)
  from assign_ids_spec(3) [OF this False, of i X] assms False show ?thesis
    by (cases f) (simp_all add: base_def first_base_def)
qed

lemma base_count:
  "i < length blocks \<Longrightarrow>
     unat (fm_count (family_range X f (A ! i))) = length (snd (family_rows X f (A ! i)))"
  using chain assign_ids_spec(4) [of "(0, 0, 0)" blocks _ A i X f] by (auto simp: chain_ok_def)

lemma base_0 [simp]: "base X start A f 0 = first_base start f"
  by (simp add: base_def)

lemma base_Suc:
  "i < length blocks \<Longrightarrow>
     base X start A f (Suc i) = base X start A f i + length (snd (family_rows X f (A ! i)))"
  by (simp add: base_def take_Suc_conv_app_nth)

lemma base_mono: "m \<le> n \<Longrightarrow> base X start A f m \<le> base X start A f n"
proof -
  assume "m \<le> n"
  then obtain d where "n = m + d" by (auto simp: le_iff_add)
  then show ?thesis by (simp add: base_def take_add)
qed

lemma first_base_le: "first_base start f \<le> base X start A f n"
  by (simp add: base_def)

lemma base_bound: "base X start A f n < 2 ^ 64"
proof -
  have "base X start A f n \<le> base X start A f (max n (length A))"
    by (rule base_mono) simp
  also have "\<dots> = first_base start f + length (fam_items X f A)"
    by (simp add: base_def max_def)
  also have "\<dots> < 2 ^ 64"
  proof (cases "f = BlockHeader")
    case True
    then show ?thesis using start_bound by (simp add: first_base_def length_header_items)
  next
    case False
    obtain nxt where "assign_ids (0, 0, 0) blocks = Inr (nxt, A)"
      using chain by (auto simp: chain_ok_def)
    from assign_ids_spec(2) [OF this False, of X] False
    have "first_base start f + length (fam_items X f A) = unat (ids_of f nxt)"
      by (cases f) (simp_all add: first_base_def)
    also have "\<dots> < 2 ^ 64" using unsigned_less [of "ids_of f nxt", where ?'a = nat] by simp
    finally show ?thesis .
  qed
  finally show ?thesis .
qed

lemma unat_below_base: "i \<le> base X start A f n \<Longrightarrow> unat (of_nat i :: u64) = i"
  using base_bound [of f n] by (intro unat_of_nat_small) simp

lemma unat_base [simp]: "unat (of_nat (base X start A f n) :: u64) = base X start A f n"
  by (rule unat_below_base [OF order.refl])

lemma next_id_state: "next_id (state_at X start A n) f = of_nat (base X start A f n)"
  by (cases f) (simp_all add: next_id_def state_at_def)

text \<open>Assigning ids from the committed counters yields the chain's own assignment.\<close>

definition ids_at :: "nat \<Rightarrow> u64 \<times> u64 \<times> u64" where
  "ids_at n = (of_nat (base X start A Transaction n), of_nat (base X start A Log n),
               of_nat (base X start A Trace n))"

lemma assign_prefix:
  assumes "n \<le> length blocks"
  shows "assign_ids (0, 0, 0) (take n blocks) = Inr (ids_at n, take n A)"
proof -
  obtain nxt where nxt: "assign_ids (0, 0, 0) (take n blocks @ drop n blocks) = Inr (nxt, A)"
    using chain by (auto simp: chain_ok_def)
  then obtain n1 as1 as2 where a: "assign_ids (0, 0, 0) (take n blocks) = Inr (n1, as1)" "A = as1 @ as2"
    by (subst (asm) assign_ids_append) (auto simp: res_bind_Inr_iff split: prod.splits)
  have "length as1 = n"
    using assign_ids_spec(1) [OF a(1)] assms by (metis length_map length_take min.absorb2)
  then have as1: "as1 = take n A" using a(2) by simp
  have "unat (ids_of f n1) = base X start A f n" if "f \<noteq> BlockHeader" for f
    using assign_ids_spec(2) [OF a(1) that, of X] that
    by (cases f) (simp_all add: base_def first_base_def as1)
  then have "unat (ids_of f n1) = unat (ids_of f (ids_at n))" if "f \<noteq> BlockHeader" for f
    using that by (cases f) (simp_all add: ids_at_def)
  from this [of Transaction] this [of Log] this [of Trace] have "n1 = ids_at n"
    by (cases n1; cases "ids_at n") (simp add: word_unat_eq_iff)
  with a(1) as1 show ?thesis by simp
qed

lemma assign_segment:
  assumes "n + k \<le> length blocks"
  shows "assign_ids (ids_at n) (take k (drop n blocks)) = Inr (ids_at (n + k), take k (drop n A))"
proof -
  have "assign_ids (0, 0, 0) (take n blocks @ take k (drop n blocks)) = Inr (ids_at (n + k), take (n + k) A)"
    using assign_prefix [OF assms] by (simp add: take_add)
  moreover have "assign_ids (0, 0, 0) (take n blocks) = Inr (ids_at n, take n A)"
    using assms by (intro assign_prefix) simp
  ultimately show ?thesis
    by (subst (asm) assign_ids_append) (auto simp: res_bind_Inr_iff take_add split: prod.splits)
qed

section \<open>Payload items by id\<close>

definition id_item :: "family \<Rightarrow> nat \<Rightarrow> payload_key \<times> payload_item \<times> primary_id" where
  "id_item f i = (PayloadKey_from_id f (of_nat i), PayloadItem (item_of X start A f i), PrimaryId (of_nat i))"

lemma item_nth:
  assumes "i < length blocks" "j < length (snd (family_rows X f (A ! i)))"
  shows "item_of X start A f (base X start A f i + j) = snd (family_rows X f (A ! i)) ! j"
proof -
  have "A = take i A @ A ! i # drop (Suc i) A"
    using assms(1) by (simp add: id_take_nth_drop)
  then have "fam_items X f A = fam_items X f (take i A) @ snd (family_rows X f (A ! i))
      @ fam_items X f (drop (Suc i) A)"
    by (metis fam_items_simps(2,3))
  then show ?thesis
    using assms(2) by (simp add: item_of_def base_def nth_append)
qed

lemma block_items_range:
  assumes "i < length blocks"
  shows "block_payload_items X f (A ! i) =
    map (id_item f) [base X start A f i..<base X start A f (Suc i)]"
proof (rule nth_equalityI)
  show "length (block_payload_items X f (A ! i)) =
      length (map (id_item f) [base X start A f i..<base X start A f (Suc i)])"
    using assms by (simp add: block_payload_items_def base_Suc case_prod_unfold Let_def)
next
  fix j assume "j < length (block_payload_items X f (A ! i))"
  then have j: "j < length (snd (family_rows X f (A ! i)))"
    by (simp add: block_payload_items_def case_prod_unfold Let_def)
  have "fst (family_rows X f (A ! i)) = of_nat (base X start A f i)"
    by (metis assms base_first of_nat_unat ucast_id)
  then show "block_payload_items X f (A ! i) ! j =
      map (id_item f) [base X start A f i..<base X start A f (Suc i)] ! j"
    using j assms by (simp add: block_payload_items_def case_prod_unfold Let_def base_Suc
        nth_enumerate_eq id_item_def item_nth)
qed

lemma payload_items_range:
  assumes "n + k \<le> length blocks"
  shows "payload_items X f (take k (drop n A)) =
    map (id_item f) [base X start A f n..<base X start A f (n + k)]"
  using assms
proof (induction k)
  case (Suc k)
  have "take (Suc k) (drop n A) = take k (drop n A) @ [A ! (n + k)]"
    using Suc.prems by (simp add: take_Suc_conv_app_nth)
  then have "payload_items X f (take (Suc k) (drop n A)) =
      map (id_item f) [base X start A f n..<base X start A f (n + k)] @ block_payload_items X f (A ! (n + k))"
    using Suc by (simp add: payload_items_def)
  also have "\<dots> = map (id_item f) [base X start A f n..<base X start A f (n + Suc k)]"
    using Suc.prems base_mono [of n "n + k" f] base_mono [of "n + k" "Suc (n + k)" f]
      upt_add_eq_append [of "base X start A f n" "base X start A f (n + k)"
        "base X start A f (Suc (n + k)) - base X start A f (n + k)"]
    by (simp add: block_items_range)
  finally show ?case .
qed (simp add: payload_items_def)

end

end
