(* ===== verification/Payload_Groups.thy ===== *)
theory Payload_Groups
  imports Chain
begin

text \<open>
  Grouping of payload items into partitions.  The groups the writer builds are the
  partitions of the flushed id range: each holds the ids of the range that fall into it, in
  order, and the writer's committed end for it is the length of the partition's bytes
  before the group's first id.
\<close>

section \<open>Grouping by key\<close>

definition key_group ::
  "payload_key \<Rightarrow> (payload_key \<times> payload_item \<times> primary_id) list \<Rightarrow> (primary_id \<times> payload_item) list" where
  "key_group k xs = map (\<lambda>(_, v, i). (i, v)) (filter (\<lambda>(k', _). k' = k) xs)"

lemma key_group_append: "key_group k (xs @ ys) = key_group k xs @ key_group k ys"
  by (simp add: key_group_def)

lemma key_group_single: "key_group k [(q, v, i)] = (if q = k then [(i, v)] else [])"
  by (simp add: key_group_def)

lemma group_items_inv_get:
  "pkey.bt_inv (group_items xs) \<and>
   bt_get payload_key_cmp k (group_items xs) = (if key_group k xs = [] then None else Some (key_group k xs))"
proof (induction xs arbitrary: k rule: rev_induct)
  case Nil
  show ?case by (simp add: group_items_def key_group_def)
next
  case (snoc x xs)
  obtain q v i where x: "x = (q, v, i)" by (cases x) auto
  have step: "group_items (xs @ [(q, v, i)]) = group_add (q, v, i) (group_items xs)"
    by (simp add: group_items_def)
  have inv: "pkey.bt_inv (group_items xs)" using snoc by blast
  show ?case
    using snoc [of q] snoc [of k] pkey.inv_insert [OF UNIV_I inv] pkey.get_insert [OF UNIV_I UNIV_I inv]
    by (auto simp: step group_add_def x key_group_append key_group_single)
qed

lemma group_items_mem:
  "(k, vs) \<in> set (group_items xs) \<longleftrightarrow> vs = key_group k xs \<and> vs \<noteq> []"
  using pkey.get_iff [of "group_items xs" k vs] group_items_inv_get [of xs k]
  by (auto split: if_splits)

lemma bt_inv_distinct: "pkey.bt_inv m \<Longrightarrow> distinct (map fst m)"
proof (induction m)
  case (Cons p m)
  obtain k v where p: "p = (k, v)" by force
  from Cons.prems have "pkey.bt_inv m" "\<forall>k' \<in> fst ` set m. payload_key_cmp k k' = Less"
    by (auto simp: p pkey.inv_Cons)
  with Cons.IH pkey.irrefl [of k] show ?case by (auto simp: p)
qed simp

lemma group_items_distinct: "distinct (map fst (group_items xs))"
  using group_items_inv_get bt_inv_distinct by blast

section \<open>Partitions of an id range\<close>

lemma div_word_nat: "unat (i div ITEMS_PER_BLOB) = unat i div 1024"
  by (simp add: ITEMS_PER_BLOB_def unat_div_distrib)

lemma from_id_eq [simp]:
  "PayloadKey_from_id f i = PayloadKey_from_id g j \<longleftrightarrow> f = g \<and> unat i div 1024 = unat j div 1024"
  by (simp add: PayloadKey_from_id_def word_unat_eq_iff div_word_nat)

lemma filter_partition:
  "filter (\<lambda>i. i div 1024 = p) [a..<b] = [max a (1024 * p)..<min b (phi p)]"
proof (induction b)
  case (Suc b)
  show ?case
  proof (cases "a \<le> b \<and> b div 1024 = p")
    case True
    then have "1024 * p \<le> b" "b < phi p" by (auto simp: phi_def)
    with True Suc show ?thesis by (simp add: min_def max_def)
  next
    case False
    then consider "b < a" | "b < 1024 * p" | "a \<le> b" "phi p \<le> b"
    proof -
      have "b div 1024 = p" if "1024 * p \<le> b" "b < phi p"
        using that by (simp add: phi_def) 
      with False that show ?thesis by linarith
    qed
    then show ?thesis
    proof cases
      case 3
      then have "min (Suc b) (phi p) = min b (phi p)" "b div 1024 \<noteq> p"
        using False by (auto simp: min_def)
      with Suc 3 show ?thesis by simp
    next
      case 2
      with False Suc show ?thesis by (cases "a \<le> b") (auto simp: max_def min_def phi_def)
    qed simp
  qed
qed simp

context chain
begin

definition group_range :: "family \<Rightarrow> nat \<Rightarrow> nat \<Rightarrow> nat \<Rightarrow> nat list" where
  "group_range f p a b = [max a (1024 * p)..<min b (phi p)]"

lemma key_group_range:
  assumes "b \<le> base X start A f m" "unat k div 1024 = p"
  shows "key_group (PayloadKey_from_id f k) (map (id_item f) [a..<b]) =
    map (\<lambda>i. (PrimaryId (of_nat i), PayloadItem (item_of X start A f i))) (group_range f p a b)"
proof -
  have "filter (\<lambda>(k', _). k' = PayloadKey_from_id f k) (map (id_item f) [a..<b]) =
      map (id_item f) (filter (\<lambda>i. i div 1024 = p) [a..<b])"
    unfolding filter_map comp_def
    by (intro arg_cong [where f = "map (id_item f)"] filter_cong refl)
       (use assms in \<open>auto simp: id_item_def unat_below_base [of _ f m]\<close>)
  then show ?thesis
    by (simp add: key_group_def filter_partition group_range_def id_item_def comp_def)
qed

text \<open>Every group is a partition of the range; its key is that of its partition number.\<close>

lemma group_cases:
  assumes "(key, vs) \<in> set (group_items (map (id_item f) [a..<b]))" "b \<le> base X start A f m"
  obtains p where "key = PayloadKey_from_id f (of_nat (1024 * p))" "1024 * p < 2 ^ 64"
    "vs = map (\<lambda>i. (PrimaryId (of_nat i), PayloadItem (item_of X start A f i))) (group_range f p a b)"
    "max a (1024 * p) < min b (phi p)"
proof -
  from assms(1) have vs: "vs = key_group key (map (id_item f) [a..<b])" "vs \<noteq> []"
    by (auto simp: group_items_mem)
  then obtain i where i: "a \<le> i" "i < b" "key = PayloadKey_from_id f (of_nat i)"
    by (auto simp: key_group_def id_item_def filter_empty_conv)
  have iu: "unat (of_nat i :: u64) = i" "i < 2 ^ 64"
    using i(2) assms(2) base_bound [of f m] by (auto intro!: unat_below_base [of _ f m])
  let ?p = "i div 1024"
  have pi: "1024 * ?p \<le> i" "1024 * ?p < 2 ^ 64" using iu(2) by auto
  then have pu: "unat (of_nat (1024 * ?p) :: u64) = 1024 * ?p" by (intro unat_of_nat_small) simp
  show ?thesis
  proof (rule that [of ?p])
    show "key = PayloadKey_from_id f (of_nat (1024 * ?p))"
      unfolding i(3) from_id_eq iu(1) pu by simp
    show "vs = map (\<lambda>i. (PrimaryId (of_nat i), PayloadItem (item_of X start A f i))) (group_range f ?p a b)"
      unfolding vs(1) i(3) by (rule key_group_range [OF assms(2)]) (simp only: iu(1))
    show "max a (1024 * ?p) < min b (phi ?p)"
      using i(1,2) pi(1) by (auto simp: phi_def max_def min_def)
  qed (rule pi(2))
qed

lemma group_exists:
  assumes "max a (1024 * p) < min b (phi p)" "b \<le> base X start A f m"
  shows "(PayloadKey_from_id f (of_nat (1024 * p)),
      map (\<lambda>i. (PrimaryId (of_nat i), PayloadItem (item_of X start A f i))) (group_range f p a b))
      \<in> set (group_items (map (id_item f) [a..<b]))"
proof -
  have "1024 * p < b" using assms(1) by auto
  then have "unat (of_nat (1024 * p) :: u64) = 1024 * p"
    using assms(2) by (intro unat_below_base [of _ f m]) simp
  then have "key_group (PayloadKey_from_id f (of_nat (1024 * p))) (map (id_item f) [a..<b]) =
    map (\<lambda>i. (PrimaryId (of_nat i), PayloadItem (item_of X start A f i))) (group_range f p a b)"
    by (intro key_group_range [OF assms(2)]) simp
  moreover have "group_range f p a b \<noteq> []"
    using assms(1) unfolding group_range_def by (simp only: upt_eq_Nil_conv) linarith
  ultimately show ?thesis by (simp only: group_items_mem) simp
qed

end

end
