(* ===== verification/Query_Index.thy ===== *)
theory Query_Index
  imports Payload_Groups
begin

text \<open>
  The invariant that ties the stores to a chain.  \<open>index_ok X start A n R B\<close> says that rows
  \<open>R\<close> and blobs \<open>B\<close> hold everything about the first \<open>n\<close> blocks and nothing that
  contradicts the chain: left-overs of an interrupted flush are always parts of what the
  next flush writes.  The locale \<open>query_stores\<close> is what the writer needs of the stores it
  is given; every typed table over such a store is a \<open>meta_table\<close>.
\<close>

section \<open>What is stored for the first blocks of a chain\<close>

text \<open>A table holds only rows of the chain, and all rows of its committed part.\<close>

definition tab_ok ::
  "('k, 'v) meta_table_schema \<Rightarrow> ('k \<times> 'v) list \<Rightarrow> ('k \<times> 'v) list \<Rightarrow> meta_rows \<Rightarrow> bool" where
  "tab_ok ts all committed R \<longleftrightarrow>
     (\<forall>k cs. R (TABLE ts) k = Some cs \<longrightarrow>
        (\<exists>kv \<in> set all. k = sch_key ts (fst kv) \<and> cs = sch_columns ts (snd kv))) \<and>
     (\<forall>kv \<in> set committed. R (TABLE ts) (sch_key ts (fst kv)) \<noteq> None)"

definition end_of ::
  "('h, 'b) externals \<Rightarrow> u64 \<Rightarrow> 'h assigned_block list \<Rightarrow> family \<Rightarrow> nat \<Rightarrow> nat" where
  "end_of X start A f i = length (pbytes X start A f (plo start f (i div 1024)) (Suc i))"

definition location_put ::
  "('h, 'b) externals \<Rightarrow> u64 \<Rightarrow> 'h assigned_block list \<Rightarrow> family \<Rightarrow> nat
     \<Rightarrow> payload_location_key \<times> payload_location" where
  "location_put X start A f i =
     (PayloadLocationKey f (PrimaryId (of_nat i)), PayloadLocation (of_nat (end_of X start A f i)))"

definition location_puts ::
  "('h, 'b) externals \<Rightarrow> u64 \<Rightarrow> 'h assigned_block list \<Rightarrow> nat
     \<Rightarrow> (payload_location_key \<times> payload_location) list" where
  "location_puts X start A n =
     concat (map (\<lambda>f. map (location_put X start A f) [first_base start f..<base X start A f n])
       family_iter)"

text \<open>Offsets that a vector can have: only these are ever written.\<close>

definition true_locations ::
  "('h, 'b) externals \<Rightarrow> u64 \<Rightarrow> 'h assigned_block list \<Rightarrow> (payload_location_key \<times> payload_location) list" where
  "true_locations X start A =
     concat (map (\<lambda>f. map (location_put X start A f)
        (filter (\<lambda>i. end_of X start A f i < 2 ^ 63) [first_base start f..<base X start A f (length A)]))
       family_iter)"

definition payload_blob :: "blobs \<Rightarrow> family \<Rightarrow> nat \<Rightarrow> bytes" where
  "payload_blob B f p =
     (case B ''payload'' (PayloadKey_encode (PayloadKey_from_id f (of_nat (1024 * p)))) of
        None \<Rightarrow> [] | Some b \<Rightarrow> b)"

definition pfam_ok ::
  "('h, 'b) externals \<Rightarrow> u64 \<Rightarrow> 'h assigned_block list \<Rightarrow> family \<Rightarrow> nat \<Rightarrow> blobs \<Rightarrow> bool" where
  "pfam_ok X start A f n B \<longleftrightarrow>
     (\<forall>p. 1024 * p < 2 ^ 64 \<longrightarrow>
        (\<exists>j. min (base X start A f n) (phi p) \<le> j \<and> j \<le> min (base X start A f (length A)) (phi p) \<and>
             payload_blob B f p = pbytes X start A f (plo start f p) j))"

definition payload_ok ::
  "('h, 'b) externals \<Rightarrow> u64 \<Rightarrow> 'h assigned_block list \<Rightarrow> nat \<Rightarrow> blobs \<Rightarrow> bool" where
  "payload_ok X start A n B \<longleftrightarrow> (\<forall>f. pfam_ok X start A f n B)"

definition chain_entries :: "('h, 'b) externals \<Rightarrow> 'h assigned_block list \<Rightarrow> bitmap_entry list" where
  "chain_entries X as =
     concat (map (\<lambda>a. case block_entries X a of Inl _ \<Rightarrow> [] | Inr es \<Rightarrow> es) as)"

definition bits ::
  "('h, 'b) externals \<Rightarrow> 'h assigned_block list \<Rightarrow> bitmap_index_key \<Rightarrow> u32 set" where
  "bits X as k =
     {ucast (i - page_of i) | i. (bik_family k, bik_filter k, i) \<in> set (chain_entries X as) \<and>
        page_of i = bik_page k}"

definition page_value :: "u64 \<Rightarrow> 'b \<Rightarrow> 'b bitmap_index_value" where
  "page_value page bm =
     \<lparr>id_start = PrimaryId page, id_end = PrimaryId (page + PAGE_SPAN), biv_bitmap = bm\<rparr>"

definition page_ok ::
  "('h, 'b) externals \<Rightarrow> 'h assigned_block list \<Rightarrow> 'h assigned_block list \<Rightarrow> bitmap_index_key
     \<Rightarrow> bytes option \<Rightarrow> bool" where
  "page_ok X all committed k b \<longleftrightarrow>
     (case b of
        None \<Rightarrow> bits X committed k = {}
      | Some bs \<Rightarrow> (\<exists>bm. bs = BitmapIndexValue_encode X (page_value (bik_page k) bm) \<and>
           bits X committed k \<subseteq> rb_set X bm \<and> rb_set X bm \<subseteq> bits X all k))"

definition bitmap_ok ::
  "('h, 'b) externals \<Rightarrow> 'h assigned_block list \<Rightarrow> nat \<Rightarrow> blobs \<Rightarrow> bool" where
  "bitmap_ok X A n B \<longleftrightarrow>
     (\<forall>k. page_ok X A (take n A) k (B ''bitmap_index'' (BitmapIndexKey_encode k)))"

text \<open>Every page with ids of the given blocks has its exact size in the statistics table.\<close>

definition stats_ok ::
  "('h, 'b) externals \<Rightarrow> 'h assigned_block list \<Rightarrow> meta_rows \<Rightarrow> blobs \<Rightarrow> bool" where
  "stats_ok X as R B \<longleftrightarrow>
     (\<forall>k. bits X as k \<noteq> {} \<longrightarrow>
        (\<exists>bm. B ''bitmap_index'' (BitmapIndexKey_encode k) =
              Some (BitmapIndexValue_encode X (page_value (bik_page k) bm)) \<and>
            holds R page_stats_schema
              (BitmapPageStatsKey (bik_family k) (bik_filter k) (bik_page k)) (ucast (rb_len X bm))))"

definition meta_ok ::
  "('h, 'b) externals \<Rightarrow> 'h assigned_block list \<Rightarrow> nat \<Rightarrow> meta_rows \<Rightarrow> bool" where
  "meta_ok X A n R \<longleftrightarrow>
     tab_ok block_hash_schema (hash_puts X A) (hash_puts X (take n A)) R \<and>
     tab_ok family_schema (family_puts X A) (family_puts X (take n A)) R \<and>
     tab_ok family_block_index_schema (block_index_puts X A) (block_index_puts X (take n A)) R"

definition index_ok ::
  "('h, 'b) externals \<Rightarrow> u64 \<Rightarrow> 'h assigned_block list \<Rightarrow> nat \<Rightarrow> meta_rows \<Rightarrow> blobs \<Rightarrow> bool" where
  "index_ok X start A n R B \<longleftrightarrow>
     tab_ok payload_location_schema (true_locations X start A) (location_puts X start A n) R \<and>
     payload_ok X start A n B \<and> bitmap_ok X A n B \<and> meta_ok X A n R"

definition state_row ::
  "('h, 'b) externals \<Rightarrow> u64 \<Rightarrow> 'h assigned_block list \<Rightarrow> nat \<Rightarrow> meta_rows \<Rightarrow> bool" where
  "state_row X start A m R \<longleftrightarrow>
     holds R state_index_schema StateIndexKey (state_at X start A m) \<or>
     (m = 0 \<and> R (TABLE state_index_schema) (sch_key state_index_schema StateIndexKey) = None)"

section \<open>Monotonicity\<close>

lemma tab_ok_mono: "tab_ok ts all c R \<Longrightarrow> set c' \<subseteq> set c \<Longrightarrow> tab_ok ts all c' R"
  by (auto simp: tab_ok_def)

lemma tab_ok_append_iff: "tab_ok ts all (c @ d) R \<longleftrightarrow> tab_ok ts all c R \<and> tab_ok ts all d R"
  by (auto simp: tab_ok_def)

lemma set_take_mono: "m \<le> n \<Longrightarrow> set (take m xs) \<subseteq> set (take n xs)"
  by (rule set_take_subset_set_take)

lemma puts_mono:
  assumes "set as \<subseteq> set bs"
  shows "set (hash_puts X as) \<subseteq> set (hash_puts X bs)"
    and "set (family_puts X as) \<subseteq> set (family_puts X bs)"
    and "set (block_index_puts X as) \<subseteq> set (block_index_puts X bs)"
    and "set (chain_entries X as) \<subseteq> set (chain_entries X bs)"
  using assms by (auto simp: hash_puts_def family_puts_def block_index_puts_def chain_entries_def)

lemma bits_mono: "set as \<subseteq> set bs \<Longrightarrow> bits X as k \<subseteq> bits X bs k"
  using puts_mono(4) [of as bs X] by (auto simp: bits_def)

lemma bits_append: "bits X (as @ bs) k = bits X as k \<union> bits X bs k"
proof -
  have "set (chain_entries X (as @ bs)) = set (chain_entries X as) \<union> set (chain_entries X bs)"
    by (simp add: chain_entries_def)
  then show ?thesis by (auto simp: bits_def)
qed

lemma base_le: "m \<le> n \<Longrightarrow> base X s A f m \<le> base X s A f n"
proof -
  assume "m \<le> n"
  then obtain d where "n = m + d" by (auto simp: le_iff_add)
  then show ?thesis by (simp add: base_def take_add)
qed

lemma location_puts_mono:
  assumes "m \<le> n"
  shows "set (location_puts X s A m) \<subseteq> set (location_puts X s A n)"
proof -
  have "set [first_base s f..<base X s A f m] \<subseteq> set [first_base s f..<base X s A f n]" for f
    using base_le [OF assms, of X s A f] by auto
  then have "location_put X s A f ` set [first_base s f..<base X s A f m] \<subseteq>
      location_put X s A f ` set [first_base s f..<base X s A f n]" for f
    by (rule image_mono)
  then show ?thesis
    unfolding location_puts_def by (simp only: set_concat set_map image_image) (rule UN_mono; simp)
qed

lemma payload_ok_mono:
  assumes "payload_ok X s A n B" "m \<le> n"
  shows "payload_ok X s A m B"
  unfolding payload_ok_def pfam_ok_def
proof (intro allI impI)
  fix f p assume "1024 * p < (2 :: nat) ^ 64"
  then obtain j where "min (base X s A f n) (phi p) \<le> j"
    "j \<le> min (base X s A f (length A)) (phi p)" "payload_blob B f p = pbytes X s A f (plo s f p) j"
    using assms(1) unfolding payload_ok_def pfam_ok_def by blast
  moreover have "min (base X s A f m) (phi p) \<le> min (base X s A f n) (phi p)"
    using base_le [OF assms(2), of X s A f] by simp
  ultimately show "\<exists>j. min (base X s A f m) (phi p) \<le> j \<and>
      j \<le> min (base X s A f (length A)) (phi p) \<and> payload_blob B f p = pbytes X s A f (plo s f p) j"
    using order.trans by blast
qed

lemma bitmap_ok_mono: "bitmap_ok X A n B \<Longrightarrow> m \<le> n \<Longrightarrow> bitmap_ok X A m B"
proof -
  assume "bitmap_ok X A n B" "m \<le> n"
  moreover have "page_ok X A (take m A) k b" if "page_ok X A (take n A) k b" for k b
    using that bits_mono [OF set_take_mono [OF \<open>m \<le> n\<close>, of A], of X k]
    by (auto simp: page_ok_def split: option.splits)
  ultimately show ?thesis by (auto simp: bitmap_ok_def)
qed

lemma meta_ok_mono: "meta_ok X A n R \<Longrightarrow> m \<le> n \<Longrightarrow> meta_ok X A m R"
  using puts_mono [OF set_take_mono [of m n A], of X] tab_ok_mono unfolding meta_ok_def by metis

lemma location_ok_mono:
  "\<lbrakk>tab_ok payload_location_schema all (location_puts X s A n) R; m \<le> n\<rbrakk> \<Longrightarrow>
     tab_ok payload_location_schema all (location_puts X s A m) R"
  using location_puts_mono tab_ok_mono by metis

lemma index_ok_mono: "\<lbrakk>index_ok X s A n R B; m \<le> n\<rbrakk> \<Longrightarrow> index_ok X s A m R B"
  by (auto simp: index_ok_def intro: payload_ok_mono bitmap_ok_mono meta_ok_mono location_ok_mono)

section \<open>Partial writes of chain rows\<close>

text \<open>
  A write, complete or interrupted, of rows that belong to the chain keeps a table within
  the chain and loses nothing; a complete one commits its rows.
\<close>

lemma tab_ok_partial:
  assumes "tab_ok ts all c R" "set puts \<subseteq> set all"
    and "rows_partial (TABLE ts) (map (\<lambda>kv. \<lparr>row_key = sch_key ts (fst kv), row_columns = sch_columns ts (snd kv)\<rparr>) puts) R R'"
  shows "tab_ok ts all c R'"
proof -
  have p: "R' (TABLE ts) k = R (TABLE ts) k \<or>
      (\<exists>kv \<in> set puts. k = sch_key ts (fst kv) \<and> R' (TABLE ts) k = Some (sch_columns ts (snd kv)))" for k
    using assms(3) unfolding rows_partial_def by fastforce
  show ?thesis
    unfolding tab_ok_def
  proof (intro conjI allI impI ballI)
    fix k cs assume "R' (TABLE ts) k = Some cs"
    with p [of k] show "\<exists>kv \<in> set all. k = sch_key ts (fst kv) \<and> cs = sch_columns ts (snd kv)"
      using assms(1,2) unfolding tab_ok_def by auto
  next
    fix kv assume "kv \<in> set c"
    with p [of "sch_key ts (fst kv)"] show "R' (TABLE ts) (sch_key ts (fst kv)) \<noteq> None"
      using assms(1) unfolding tab_ok_def by force
  qed
qed

lemma tab_ok_commit:
  assumes "tab_ok ts all c R" "set puts \<subseteq> set all"
    and "R' = rows_put_all (TABLE ts) (map (\<lambda>kv. \<lparr>row_key = sch_key ts (fst kv), row_columns = sch_columns ts (snd kv)\<rparr>) puts) R"
  shows "tab_ok ts all (c @ puts) R'"
proof -
  let ?row = "\<lambda>kv. \<lparr>row_key = sch_key ts (fst kv), row_columns = sch_columns ts (snd kv)\<rparr>"
  have "tab_ok ts all c R'"
    using tab_ok_partial [OF assms(1,2)] assms(3) rows_partial_put_all by blast
  moreover have pr: "rows_put_all t rws Q t k \<noteq> None" if "k \<in> row_key ` set rws" for t rws Q k
    using that
  proof (induction rws arbitrary: Q)
    case (Cons r rws)
    then show ?case
      using rows_put_all_other [of t t k rws "rows_put t r Q"]
      by (cases "k \<in> row_key ` set rws") auto
  qed simp
  have "R' (TABLE ts) (sch_key ts (fst kv)) \<noteq> None" if "kv \<in> set puts" for kv
    unfolding assms(3) by (rule pr) (use that in \<open>simp add: image_image\<close>)
  ultimately show ?thesis by (auto simp: tab_ok_def)
qed

lemma tab_ok_frame:
  "tab_ok ts all c R \<Longrightarrow> R' (TABLE ts) = R (TABLE ts) \<Longrightarrow> tab_ok ts all c R'"
  by (simp add: tab_ok_def)

lemma rows_partial_frame: "rows_partial t rws R R' \<Longrightarrow> t' \<noteq> t \<Longrightarrow> R' t' = R t'"
  unfolding rows_partial_def by (intro ext) blast

lemma blobs_partial_frame:
  "blobs_partial ps B B' \<Longrightarrow> \<forall>p \<in> set ps. bp_table p \<noteq> t \<Longrightarrow> B' t = B t"
  unfolding blobs_partial_def by (intro ext) blast

end
