(* ===== verification/Writer_Stages.thy ===== *)
theory Writer_Stages
  imports Query_Index
begin

text \<open>
  The stages of a flush against stores that may fail at any call.  Each stage, whether it
  returns or fails part-way, keeps the index of every already committed block; when it
  returns, its tables hold the flushed blocks as well.
\<close>

section \<open>The stores of a writer\<close>

locale query_stores =
  M: meta_store ms winv rows + B: blob_store bs winv blobs
  for ms :: "'w meta_store" and bs :: "'w blob_store" and winv :: "'w \<Rightarrow> bool"
    and rows :: "'w \<Rightarrow> meta_rows" and blobs :: "'w \<Rightarrow> blobs" +
  assumes meta_init: "\<lbrakk>winv w; ms_init ms t d w = (r1, w')\<rbrakk> \<Longrightarrow>
      winv w' \<and> rows w' = rows w \<and> blobs w' = blobs w"
    and get_blobs: "\<lbrakk>winv w; ms_get ms t k w = (r2, w')\<rbrakk> \<Longrightarrow> blobs w' = blobs w"
    and put_blobs: "\<lbrakk>winv w; ms_put ms t row w = (r1, w')\<rbrakk> \<Longrightarrow> blobs w' = blobs w"
    and put_batch_blobs: "\<lbrakk>winv w; ms_put_batch ms t rws w = (r1, w')\<rbrakk> \<Longrightarrow> blobs w' = blobs w"
    and bget_rows: "\<lbrakk>winv w; bs_get bs t bk w = (r3, w')\<rbrakk> \<Longrightarrow> rows w' = rows w"
    and bget_range_rows: "\<lbrakk>winv w; bs_get_range bs t bk s e w = (r3, w')\<rbrakk> \<Longrightarrow> rows w' = rows w"
    and bput_rows: "\<lbrakk>winv w; bs_put bs t bk v w = (r1, w')\<rbrakk> \<Longrightarrow> rows w' = rows w"
    and bput_batch_rows: "\<lbrakk>winv w; bs_put_batch bs ps w = (r1, w')\<rbrakk> \<Longrightarrow> rows w' = rows w"
begin

text \<open>A read leaves the world as it was, as far as rows and blobs go.\<close>

definition same :: "'w \<Rightarrow> 'w \<Rightarrow> bool" where
  "same w w' \<longleftrightarrow> winv w' \<and> rows w' = rows w \<and> blobs w' = blobs w"

lemma same_refl: "winv w \<Longrightarrow> same w w"
  by (simp add: same_def)

lemma same_trans: "same w w1 \<Longrightarrow> same w1 w2 \<Longrightarrow> same w w2"
  by (simp add: same_def)

lemma table_get_facts:
  assumes "meta_schema ts okv" "winv w" "MetaTable_get ms ts k w = (r, w')"
  shows "same w w'"
    and "r = Inr x \<Longrightarrow> (case rows w (TABLE ts) (sch_key ts k) of
         None \<Rightarrow> x = None
       | Some cs \<Rightarrow> \<exists>v. sch_decode ts cs = Inr v \<and> x = Some v)"
proof -
  note mt = meta_table.intro [OF M.meta_store_axioms assms(1)]
  obtain r2 w2 where "ms_get ms (TABLE ts) (sch_key ts k) w = (r2, w2)" by (meson surj_pair)
  moreover from this have "w2 = w'"
    using assms(3) by (cases r2) (auto simp: MetaTable_get_def meta_schema.key_valid [OF assms(1)]
        io_bind_def Let_def)
  ultimately show "same w w'"
    using meta_table.table_get(1,2) [OF mt assms(2,3)] get_blobs [OF assms(2)]
    by (auto simp: same_def)
  show "case rows w (TABLE ts) (sch_key ts k) of
         None \<Rightarrow> x = None
       | Some cs \<Rightarrow> \<exists>v. sch_decode ts cs = Inr v \<and> x = Some v" if "r = Inr x"
    using meta_table.table_get(3) [OF mt assms(2,3) that] .
qed

lemma table_put_batch_rows:
  assumes "meta_schema ts okv" "winv w" "MetaTable_put_batch ms ts kvs w = (r, w')"
  defines "rws \<equiv> map (\<lambda>kv. \<lparr>row_key = sch_key ts (fst kv), row_columns = sch_columns ts (snd kv)\<rparr>) kvs"
  shows "winv w' \<and> blobs w' = blobs w \<and> rows_partial (TABLE ts) rws (rows w) (rows w') \<and>
    (r = Inr () \<longrightarrow> rows w' = rows_put_all (TABLE ts) rws (rows w))"
proof -
  note mt = meta_table.intro [OF M.meta_store_axioms assms(1)]
  have row: "map (meta_schema.row_of ts) kvs = rws"
    unfolding rws_def by (rule map_cong [OF refl]) (rule meta_schema.row_of_def [OF assms(1)])
  have "blobs w' = blobs w"
    using put_batch_blobs [OF assms(2)] assms(3) by (simp add: meta_table.put_batch_rows [OF mt])
  then show ?thesis
    using meta_table.table_put_batch [OF mt assms(2,3)] unfolding row by blast
qed

lemma table_put_batch_facts:
  assumes "meta_schema ts okv" "winv w" "tab_ok ts all c (rows w)" "set kvs \<subseteq> set all"
    and "MetaTable_put_batch ms ts kvs w = (r, w')"
  shows "winv w' \<and> blobs w' = blobs w \<and> (\<forall>t. t \<noteq> TABLE ts \<longrightarrow> rows w' t = rows w t) \<and>
    tab_ok ts all c (rows w') \<and> (r = Inr () \<longrightarrow> tab_ok ts all (c @ kvs) (rows w'))"
  using table_put_batch_rows [OF assms(1,2,5)] rows_partial_frame
    tab_ok_partial [OF assms(3,4)] tab_ok_commit [OF assms(3,4)]
  by blast

end

section \<open>Metadata stage\<close>

lemma take_batch: "n + k \<le> length A \<Longrightarrow> take (n + k) A = take n A @ take k (drop n A)"
  by (simp add: take_add)

lemma set_batch: "set (take k (drop n A)) \<subseteq> set A"
  by (meson order.trans set_drop_subset set_take_subset)

lemma puts_append:
  "hash_puts X (as @ bs) = hash_puts X as @ hash_puts X bs"
  "family_puts X (as @ bs) = family_puts X as @ family_puts X bs"
  "block_index_puts X (as @ bs) = block_index_puts X as @ block_index_puts X bs"
  by (simp_all add: hash_puts_def family_puts_def block_index_puts_def)

lemma schema_tables [simp]:
  "TABLE block_hash_schema = ''metadata_block_hash''" "TABLE family_schema = ''metadata_family''"
  "TABLE family_block_index_schema = ''metadata_family_block_index''"
  "TABLE payload_location_schema = ''payload_location''"
  "TABLE page_stats_schema = ''bitmap_page_stats''" "TABLE state_index_schema = ''state_index''"
  by (simp_all add: block_hash_schema_def family_schema_def family_block_index_schema_def
      payload_location_schema_def page_stats_schema_def state_index_schema_def)

lemmas schema_axioms =
  block_hash.meta_schema_axioms family_table.meta_schema_axioms fbi_table.meta_schema_axioms
  location_table.meta_schema_axioms stats_table.meta_schema_axioms state_table.meta_schema_axioms

definition meta_tables :: "string set" where
  "meta_tables = {''metadata_block_hash'', ''metadata_family'', ''metadata_family_block_index''}"

context query_stores
begin

lemma metadata_stage:
  assumes w: "winv w" and ok: "meta_ok X A m (rows w)" and n: "n \<le> m"
    and as: "fb_blocks batch = take k (drop n A)"
    and run: "metadata_flush X ms ms ms batch w = (r, w')"
  shows "winv w' \<and> blobs w' = blobs w \<and> (\<forall>t. t \<notin> meta_tables \<longrightarrow> rows w' t = rows w t) \<and>
    meta_ok X A m (rows w') \<and> (r = Inr () \<longrightarrow> meta_ok X A (n + k) (rows w'))"
proof -
  let ?as = "take k (drop n A)"
  note sub = puts_mono [OF set_batch [of k n A], of X]
    and sub' = puts_mono [OF set_take_mono [OF n, of A], of X]
  have H: "tab_ok block_hash_schema (hash_puts X A) (hash_puts X (take m A)) (rows w)"
    and F: "tab_ok family_schema (family_puts X A) (family_puts X (take m A)) (rows w)"
    and I: "tab_ok family_block_index_schema (block_index_puts X A) (block_index_puts X (take m A)) (rows w)"
    using ok by (auto simp: meta_ok_def)
  note f1 = table_put_batch_facts [OF block_hash.meta_schema_axioms w H sub(1)]
  from run [unfolded metadata_flush_def as] show ?thesis
  proof (cases rule: io_bind_cases)
    case (fail e)
    with f1 [OF fail(1)] F I show ?thesis
      by (auto simp: meta_ok_def meta_tables_def intro: tab_ok_frame)
  next
    case (ok u w1)
    note f1 = f1 [OF ok(1)]
    have F1: "tab_ok family_schema (family_puts X A) (family_puts X (take m A)) (rows w1)"
      and I1: "tab_ok family_block_index_schema (block_index_puts X A) (block_index_puts X (take m A)) (rows w1)"
      using F I f1 by (auto intro: tab_ok_frame)
    note f2 = table_put_batch_facts [OF family_table.meta_schema_axioms _ F1 sub(2)]
    from ok(2) show ?thesis
    proof (cases rule: io_bind_cases)
      case (fail e)
      with f1 f2 [OF _ fail(1)] I1 show ?thesis
        by (auto simp: meta_ok_def meta_tables_def intro: tab_ok_frame)
    next
      case ok2: (ok u2 w2)
      note f2 = f2 [OF _ ok2(1)]
      have I2: "tab_ok family_block_index_schema (block_index_puts X A) (block_index_puts X (take m A)) (rows w2)"
        using I1 f1 f2 by (auto intro: tab_ok_frame)
      note f3 = table_put_batch_facts [OF fbi_table.meta_schema_axioms _ I2 sub(3) ok2(2)]
      have "tab_ok block_hash_schema (hash_puts X A) (hash_puts X (take m A) @ hash_puts X ?as) (rows w')"
        "tab_ok family_schema (family_puts X A) (family_puts X (take m A) @ family_puts X ?as) (rows w')"
        using f1 f2 f3 by (auto intro: tab_ok_frame)
      then show ?thesis
        using f1 f2 f3 sub'
        by (auto simp: meta_ok_def meta_tables_def puts_append take_add tab_ok_append_iff
            intro: tab_ok_mono)
    qed
  qed
qed

end

end
