(* ===== verification/Payload_Stage.thy ===== *)
theory Payload_Stage
  imports Writer_Stages
begin

text \<open>
  The payload stage of a flush: every partition touched is rewritten as its committed
  prefix followed by the new items, and the locations written afterwards are the item ends.
\<close>

section \<open>Item ends\<close>

lemma PayloadItem_encode_Inr: "PayloadItem_encode X (PayloadItem bs) = Inr x \<Longrightarrow> x = zstd_compress X bs"
  by (auto simp: PayloadItem_encode_def split: if_splits)

lemma extend_items_pbytes:
  assumes "extend_items (PayloadItem_encode X) (pbytes X s A f lo a)
      (map (\<lambda>i. PayloadItem (item_of X s A f i)) [a..<c]) = Inr (b, ends)"
    and "lo \<le> a" "a \<le> c"
  shows "b = pbytes X s A f lo c \<and>
    ends = map (\<lambda>i. of_nat (length (pbytes X s A f lo (Suc i)))) [a..<c] \<and>
    (\<forall>i \<in> set [a..<c]. length (pbytes X s A f lo (Suc i)) < 2 ^ 63)"
  using assms
proof (induction "c - a" arbitrary: a ends)
  case (Suc d)
  have upt: "[a..<c] = a # [Suc a..<c]" using Suc.hyps(2) by (simp add: upt_rec)
  have suc: "pbytes X s A f lo a @ zstd_compress X (item_of X s A f a) = pbytes X s A f lo (Suc a)"
    using Suc.prems(2) by (simp add: pbytes_def)
  from Suc.prems(1) obtain ends' where e: "length (pbytes X s A f lo (Suc a)) < 2 ^ 63"
    "extend_items (PayloadItem_encode X) (pbytes X s A f lo (Suc a))
       (map (\<lambda>i. PayloadItem (item_of X s A f i)) [Suc a..<c]) = Inr (b, ends')"
    "ends = of_nat (length (pbytes X s A f lo (Suc a))) # ends'"
    by (auto simp: upt res_bind_Inr_iff suc [symmetric] dest!: PayloadItem_encode_Inr split: prod.splits)
  from Suc.hyps(1) [OF _ e(2)] Suc.hyps(2) Suc.prems e(1,3) show ?case by (auto simp: upt)
qed simp

section \<open>Locations of the groups\<close>

lemma collect_locations_zip:
  assumes "distinct (map fst es)" "\<forall>(k, ids, ends) \<in> set es. length ids = length ends"
  shows "collect_locations f (map (\<lambda>(k, ids, ends). (k, ids)) es) (map (\<lambda>(k, ids, ends). (k, ends)) es) =
    Inr (concat (map (\<lambda>(k, ids, ends).
      map (\<lambda>(i, e). (PayloadLocationKey f i, PayloadLocation e)) (zip ids ends)) es))"
  using assms
proof (induction es)
  case (Cons x es)
  obtain k ids ends where x: "x = (k, ids, ends)" by (cases x) auto
  from Cons.prems(1) have "k \<notin> fst ` set es" by (simp add: x)
  then have "filter (\<lambda>(k', _). k' \<noteq> k) (map (\<lambda>(k, ids, ends). (k, ids)) es) =
      map (\<lambda>(k, ids, ends). (k, ids)) es"
    by (force simp: filter_id_conv)
  with Cons show ?case by (simp add: x)
qed simp

section \<open>The committed id of a family\<close>

text \<open>The states a writer with \<open>n\<close> committed blocks can hold.\<close>

definition writer_state ::
  "('h, 'b) externals \<Rightarrow> u64 \<Rightarrow> 'h assigned_block list \<Rightarrow> nat \<Rightarrow> state_index \<Rightarrow> bool" where
  "writer_state X start A n st \<longleftrightarrow>
     st = state_at X start A n \<or> (n = 0 \<and> start = 0 \<and> st = StateIndex_default)"

lemma of_nat_minus_one: "0 < i \<Longrightarrow> (of_nat i :: u64) - 1 = of_nat (i - 1)"
  by (simp add: of_nat_diff)

context chain
begin

lemma of_nat_base_zero: "(of_nat (base X start A f n) :: u64) = 0 \<longleftrightarrow> base X start A f n = 0"
  using unat_base [of f n] by (auto simp: unat_eq_0 [symmetric])

lemma committed_id_state:
  assumes "writer_state X start A n st" "n \<le> length blocks"
  shows "committed_id st f =
    (if first_base start f < base X start A f n then Some (of_nat (base X start A f n - 1)) else None)"
proof -
  have other: "checked_sub (of_nat (base X start A g n) :: u64) 1 =
      (if first_base start g < base X start A g n then Some (of_nat (base X start A g n - 1)) else None)"
    if "g \<noteq> BlockHeader" for g
    using that of_nat_base_zero [of g n] of_nat_minus_one [of "base X start A g n"]
    by (auto simp: checked_sub_one first_base_def simp del: of_nat_diff)
  have hdr: "last_block_id (state_at X start A n) =
      (if 0 < n then Some (of_nat (unat start + n - 1)) else None)"
  proof (cases n)
    case 0
    have "start = 0" if "start \<le> start - 1"
    proof (rule ccontr)
      assume s: "start \<noteq> 0"
      then have "unat start \<le> unat start - 1" "0 < unat start"
        using that by (auto simp: word_le_nat_alt unat_sub_one unat_gt_0)
      then show False by linarith
    qed
    with 0 show ?thesis
      by (auto simp: last_block_id_def state_at_def base_header checked_sub_one first_base_def)
  next
    case (Suc m)
    then have "unat start + n < 2 ^ 64" using assms(2) start_bound by simp
    then have "unat start + n < 2 ^ LENGTH(64)" "unat start + m < 2 ^ LENGTH(64)"
      using Suc by simp_all
    note u = this [THEN unat_of_nat_small]
    have "unat (of_nat (unat start + n) :: u64) \<noteq> 0" unfolding u using Suc by simp
    moreover have "start \<le> of_nat (unat start + m)" by (simp only: word_le_nat_alt u le_add1)
    ultimately have "(of_nat (unat start + n) :: u64) \<noteq> 0" "start \<le> of_nat (unat start + m)"
      by (simp_all only: unat_eq_0 not_False_eq_True)
    then show ?thesis
      using Suc assms(2) of_nat_minus_one [of "unat start + n"]
      by (simp add: last_block_id_def state_at_def base_header checked_sub_one del: of_nat_add)
  qed
  have "committed_id (state_at X start A n) f =
    (if first_base start f < base X start A f n then Some (of_nat (base X start A f n - 1)) else None)"
    using other [of f] hdr base_header [OF assms(2)]
    by (cases f) (simp_all add: committed_id_def state_at_def first_base_def)
  moreover have "committed_id StateIndex_default f = None"
    by (cases f) (simp_all add: committed_id_def StateIndex_default_def last_block_id_def checked_sub_one)
  ultimately show ?thesis using assms(1) by (auto simp: writer_state_def base_def)
qed

end

section \<open>One family\<close>

locale index_writer =
  query_stores ms bs winv rows blobs + chain X start blocks A
  for ms :: "'w meta_store" and bs :: "'w blob_store" and winv :: "'w \<Rightarrow> bool"
    and rows :: "'w \<Rightarrow> meta_rows" and blobs :: "'w \<Rightarrow> blobs"
    and X :: "('h, 'b) externals" and start :: u64
    and blocks :: "'h writer_block list" and A :: "'h assigned_block list"

sublocale index_writer \<subseteq> pt: partition_table bs winv blobs
  "\<lparr>cbt_table = ''payload'', cbt_store = bs\<rparr>" "payload_codec X"
  by unfold_locales (use ext in \<open>auto simp: payload_codec_def externals_ok_def PayloadItem_roundtrip\<close>)

context index_writer
begin

abbreviation "payload_T \<equiv> \<lparr>cbt_table = ''payload'', cbt_store = bs\<rparr> :: 'w codec_blob_table"

abbreviation "bas f n \<equiv> base X start A f n"
abbreviation "pby f i j \<equiv> pbytes X start A f i j"

text \<open>The location of a committed item is its end offset.\<close>

lemma true_location:
  assumes "tab_ok payload_location_schema (true_locations X start A) (location_puts X start A n) R"
    and "first_base start f \<le> i" "i < bas f n"
  shows "R ''payload_location'' (PayloadLocation_key (PayloadLocationKey f (PrimaryId (of_nat i)))) =
      Some (PayloadLocation_columns (PayloadLocation (of_nat (end_of X start A f i))))"
    and "end_of X start A f i < 2 ^ 63"
proof -
  let ?k = "PayloadLocationKey f (PrimaryId (of_nat i))"
  have key: "sch_key payload_location_schema = PayloadLocation_key"
    "sch_columns payload_location_schema = PayloadLocation_columns"
    by (simp_all add: payload_location_schema_def)
  have "location_put X start A f i \<in> set (location_puts X start A n)"
    using assms(2,3) by (auto simp: location_puts_def intro!: exI [of _ f])
  then have "R ''payload_location'' (PayloadLocation_key ?k) \<noteq> None"
    using assms(1) by (auto simp: tab_ok_def key location_put_def)
  then obtain cs where cs: "R ''payload_location'' (PayloadLocation_key ?k) = Some cs" by auto
  then obtain kv where kv: "kv \<in> set (true_locations X start A)"
    "PayloadLocation_key ?k = PayloadLocation_key (fst kv)" "cs = PayloadLocation_columns (snd kv)"
    using assms(1) unfolding tab_ok_def key schema_tables by blast
  from kv(1) obtain g j where j: "kv = location_put X start A g j" "j < bas g (length A)"
    "end_of X start A g j < 2 ^ 63"
    by (auto simp: true_locations_def)
  have "?k = fst kv"
    using kv(2) location_table.key_inject [of ?k "fst kv"] by (simp add: key)
  then have "f = g" "(of_nat i :: u64) = of_nat j" by (auto simp: j(1) location_put_def)
  then have "i = j"
    using unat_below_base [of i f n] unat_below_base [of j g "length A"] assms(3) j(2)
    by (metis less_imp_le)
  with \<open>f = g\<close> j cs kv(3) show "end_of X start A f i < 2 ^ 63"
    "R ''payload_location'' (PayloadLocation_key ?k) =
      Some (PayloadLocation_columns (PayloadLocation (of_nat (end_of X start A f i))))"
    by (simp_all add: location_put_def)
qed

text \<open>The committed end the writer reads for a group.\<close>

definition group_first :: "family \<Rightarrow> nat \<Rightarrow> nat \<Rightarrow> nat" where
  "group_first f n p = max (bas f n) (1024 * p)"

definition group_last :: "family \<Rightarrow> nat \<Rightarrow> nat \<Rightarrow> nat" where
  "group_last f n p = min (bas f n) (phi p)"

lemma group_first_lo:
  "plo start f p \<le> group_first f n p"
  "group_first f n p \<noteq> plo start f p \<Longrightarrow> 1024 * p < bas f n \<and> first_base start f < bas f n
     \<and> group_first f n p = bas f n"
  using first_base_le [of f n] by (auto simp: plo_def group_first_def)

lemma group_committed_end_value:
  assumes w: "winv w" and st: "writer_state X start A n st" "n \<le> length blocks"
    and loc: "tab_ok payload_location_schema (true_locations X start A) (location_puts X start A n) (rows w)"
    and g: "group_first f n p < group_last f m p"
    and run: "group_committed_end ms st f
      (map (\<lambda>i. (PrimaryId (of_nat i), v i)) [group_first f n p..<group_last f m p]) w = (r, w')"
  shows "same w w'"
    and "r = Inr ce \<Longrightarrow> unat ce = length (pby f (plo start f p) (group_first f n p))"
proof -
  let ?g = "group_first f n p"
  have hd: "[?g..<group_last f m p] = ?g # [Suc ?g..<group_last f m p]"
    using g by (simp add: upt_rec)
  have gl: "?g < bas f m" "?g < phi p" using g by (auto simp: group_last_def)
  have gu: "unat (of_nat ?g :: u64) = ?g"
    using gl by (intro unat_below_base [of _ f m]) simp
  have gp: "?g div 1024 = p"
    using gl(2) unfolding phi_def group_first_def by (auto simp: max_def)
  let ?c = "bas f n - 1"
  have cu: "unat (of_nat ?c :: u64) = ?c" by (rule unat_below_base [of _ f n]) simp
  show "same w w'"
    using run w table_get_facts(1) [OF location_table.meta_schema_axioms w]
    by (auto simp: group_committed_end_def hd committed_id_state [OF st] io_bind_def same_refl
        split: if_splits prod.splits sum.splits)
  assume r: "r = Inr ce"
  show "unat ce = length (pby f (plo start f p) ?g)"
  proof (cases "first_base start f < bas f n \<and> ?c div 1024 = p")
    case False
    have "?g = plo start f p"
    proof (rule ccontr)
      assume "?g \<noteq> plo start f p"
      with group_first_lo(2) [of f n p]
      have "1024 * p < bas f n" "first_base start f < bas f n" "?g = bas f n" by blast+
      then have "1024 * p \<le> ?c" "?c < phi p" using gl(2) by auto
      then have "?c div 1024 = p" by (simp add: phi_def)
      with False \<open>first_base start f < bas f n\<close> show False by simp
    qed
    moreover have "ce = 0"
      using run r False
      by (auto simp: group_committed_end_def hd committed_id_state [OF st] gu gp
          cu [unfolded One_nat_def] simp del: of_nat_diff split: if_splits)
    ultimately show ?thesis by simp
  next
    case True
    have c: "first_base start f \<le> ?c" "?c < bas f n" using True by auto
    note row = true_location [OF loc c]
    have gc: "?g = Suc ?c"
    proof -
      have "1024 * p \<le> ?c" "?c < phi p" using True by (auto simp: phi_def)
      then show ?thesis using c by (auto simp: group_first_def max_def)
    qed
    let ?get = "MetaTable_get ms payload_location_schema (PayloadLocationKey f (PrimaryId (of_nat ?c))) w"
    obtain r1 w1 where g1: "?get = (r1, w1)" by (meson surj_pair)
    from run r g1 True gp gu cu obtain l where l: "r1 = Inr (Some l)" "ce = payload_end l"
      by (auto simp: group_committed_end_def hd committed_id_state [OF st] io_bind_def
          res_bind_Inr_iff simp del: of_nat_diff split: sum.splits)
    have "l = PayloadLocation (of_nat (end_of X start A f ?c))"
      using table_get_facts(2) [OF location_table.meta_schema_axioms w g1 l(1)] row(1)
        location_table.decode_columns [of "PayloadLocation (of_nat (end_of X start A f ?c))"]
      by (simp add: payload_location_schema_def)
    then have "unat ce = end_of X start A f ?c"
      using l(2) row(2) by (simp add: unat_of_nat_small)
    then show ?thesis using True gc by (simp add: end_of_def)
  qed
qed

text \<open>The bytes before a group's first id are on disk; the blob written extends them.\<close>

abbreviation "pkey_of f p \<equiv> PayloadKey_from_id f (of_nat (1024 * p) :: u64)"

lemma blob_at_payload: "pt.blob_at w (pkey_of f p) = payload_blob (blobs w) f p"
  unfolding pt.blob_at_def payload_blob_def by (simp add: payload_codec_def)

lemma committed_prefix:
  assumes "pfam_ok X start A f n B" "1024 * p < 2 ^ 64" "group_first f n p < phi p"
  shows "take (length (pby f (plo start f p) (group_first f n p))) (payload_blob B f p) =
    pby f (plo start f p) (group_first f n p)"
proof (cases "group_first f n p = plo start f p")
  case False
  obtain j where j: "min (bas f n) (phi p) \<le> j" "payload_blob B f p = pby f (plo start f p) j"
    using assms(1,2) unfolding pfam_ok_def by blast
  with group_first_lo(2) [OF False] assms(3) have "group_first f n p \<le> j" by auto
  then show ?thesis unfolding j(2) by (rule pbytes_take)
qed simp

definition group_put :: "family \<Rightarrow> nat \<Rightarrow> nat \<Rightarrow> blob_put" where
  "group_put f m p =
     \<lparr>bp_table = ''payload'', bp_key = PayloadKey_encode (pkey_of f p),
      bp_value = pby f (plo start f p) (group_last f m p)\<rparr>"

definition valid_group :: "family \<Rightarrow> nat \<Rightarrow> nat \<Rightarrow> nat \<Rightarrow> bool" where
  "valid_group f n m p \<longleftrightarrow> 1024 * p < 2 ^ 64 \<and> group_first f n p < group_last f m p"

lemma pkey_encode_eq:
  assumes "1024 * p < 2 ^ 64" "1024 * q < 2 ^ 64"
  shows "PayloadKey_encode (pkey_of f p) = PayloadKey_encode (pkey_of g q) \<longleftrightarrow> f = g \<and> p = q"
proof -
  have "unat (of_nat (1024 * p) :: u64) = 1024 * p" "unat (of_nat (1024 * q) :: u64) = 1024 * q"
    by (rule unat_of_nat_small; use assms in simp)+
  then show ?thesis
    unfolding PayloadKey_encode_from_id word_unat_eq_iff div_word_nat by simp
qed

lemma pfam_ok_partial:
  assumes part: "blobs_partial ps B B'" and ps: "\<forall>x \<in> set ps. \<exists>p. valid_group f n m p \<and> x = group_put f m p"
    and ok: "pfam_ok X start A g j B" and j: "g = f \<longrightarrow> j \<le> m" and m: "m \<le> length blocks"
  shows "pfam_ok X start A g j B'"
  unfolding pfam_ok_def
proof (intro allI impI)
  fix q :: nat assume q: "1024 * q < 2 ^ 64"
  let ?k = "PayloadKey_encode (pkey_of g q)"
  obtain i where i: "min (bas g j) (phi q) \<le> i" "i \<le> min (bas g (length A)) (phi q)"
    "payload_blob B g q = pby g (plo start g q) i"
    using ok q unfolding pfam_ok_def by blast
  from part have "B' ''payload'' ?k = B ''payload'' ?k \<or>
      (\<exists>x \<in> set ps. bp_key x = ?k \<and> B' ''payload'' ?k = Some (bp_value x))"
    unfolding blobs_partial_def by blast
  then consider "payload_blob B' g q = payload_blob B g q"
    | p where "valid_group f n m p" "?k = PayloadKey_encode (pkey_of f p)"
      "payload_blob B' g q = pby f (plo start f p) (group_last f m p)"
    using ps by (fastforce simp: payload_blob_def group_put_def)
  then show "\<exists>i. min (bas g j) (phi q) \<le> i \<and> i \<le> min (bas g (length A)) (phi q) \<and>
      payload_blob B' g q = pby g (plo start g q) i"
  proof cases
    case 1
    with i show ?thesis by metis
  next
    case 2
    then have gq: "f = g" "p = q"
      using pkey_encode_eq [OF q, of p g f] by (auto simp: valid_group_def)
    have "min (bas g j) (phi q) \<le> group_last f m p" "group_last f m p \<le> min (bas g (length A)) (phi q)"
      using base_mono [of j m g] base_mono [of m "length A" g] j m
      by (auto simp: gq group_last_def intro: min.coboundedI1)
    with 2(3) show ?thesis unfolding gq by blast
  qed
qed

lemma pfam_ok_commit:
  assumes ok: "pfam_ok X start A f n B" and n: "n \<le> m" "m \<le> length blocks"
    and ps: "\<forall>x \<in> set ps. \<exists>p. valid_group f n m p \<and> x = group_put f m p"
    and all: "\<And>p. valid_group f n m p \<Longrightarrow> group_put f m p \<in> set ps"
    and dist: "distinct (map (\<lambda>x. (bp_table x, bp_key x)) ps)" and B': "B' = blob_upd_all ps B"
  shows "pfam_ok X start A f m B'"
  unfolding pfam_ok_def
proof (intro allI impI)
  fix q :: nat assume q: "1024 * q < 2 ^ 64"
  have mA: "bas f m \<le> bas f (length A)" using n(2) by (intro base_mono) simp
  show "\<exists>i. min (bas f m) (phi q) \<le> i \<and> i \<le> min (bas f (length A)) (phi q) \<and>
      payload_blob B' f q = pby f (plo start f q) i"
  proof (cases "valid_group f n m q")
    case True
    then have "B' ''payload'' (PayloadKey_encode (pkey_of f q)) =
        Some (pby f (plo start f q) (group_last f m q))"
      using blob_upd_all_distinct [OF dist all [OF True], of B] B' by (simp add: group_put_def)
    then have "payload_blob B' f q = pby f (plo start f q) (group_last f m q)"
      by (simp add: payload_blob_def)
    with mA show ?thesis by (intro exI [of _ "group_last f m q"]) (auto simp: group_last_def)
  next
    case False
    have "pfam_ok X start A f n B'"
      using pfam_ok_partial [OF _ ps ok _ n(2)] n(1) B' blobs_partial_all by blast
    then obtain i where i: "min (bas f n) (phi q) \<le> i" "i \<le> min (bas f (length A)) (phi q)"
      "payload_blob B' f q = pby f (plo start f q) i"
      using q unfolding pfam_ok_def by blast
    from False q have gl: "min (bas f m) (phi q) \<le> max (bas f n) (1024 * q)"
      by (auto simp: valid_group_def group_first_def group_last_def)
    show ?thesis
    proof (cases "min (bas f m) (phi q) \<le> i")
      case True
      with i show ?thesis by blast
    next
      case i': False
      with i(1) gl base_mono [OF n(1), of f] have "bas f m \<le> 1024 * q"
        by (auto simp: min_def max_def phi_def split: if_splits)
      then have "pby f (plo start f q) i = pby f (plo start f q) (min (bas f m) (phi q))"
        using i' by (simp add: plo_def)
      with i mA show ?thesis by (intro exI [of _ "min (bas f m) (phi q)"]) auto
    qed
  qed
qed

section \<open>The calls of one family\<close>

text \<open>The entry the writer prepares for group \<open>p\<close>, and what appending it produces.\<close>

definition entry_of ::
  "family \<Rightarrow> nat \<Rightarrow> nat \<Rightarrow> nat \<Rightarrow> payload_key \<times> primary_id list \<times> u64 \<times> payload_item list \<Rightarrow> bool" where
  "entry_of f n m p e \<longleftrightarrow> valid_group f n m p \<and>
     (\<exists>ce. e = (pkey_of f p, map (\<lambda>i. PrimaryId (of_nat i)) [group_first f n p..<group_last f m p], ce,
            map (\<lambda>i. PayloadItem (item_of X start A f i)) [group_first f n p..<group_last f m p]) \<and>
        unat ce = length (pby f (plo start f p) (group_first f n p)))"

definition ends_of :: "family \<Rightarrow> nat \<Rightarrow> nat \<Rightarrow> nat \<Rightarrow> u64 list" where
  "ends_of f n m p = map (\<lambda>i. of_nat (end_of X start A f i)) [group_first f n p..<group_last f m p]"

definition small_ends :: "family \<Rightarrow> nat \<Rightarrow> nat \<Rightarrow> nat \<Rightarrow> bool" where
  "small_ends f n m p \<longleftrightarrow>
     (\<forall>i. group_first f n p \<le> i \<and> i < group_last f m p \<longrightarrow> end_of X start A f i < 2 ^ 63)"

lemma group_id_div: "\<lbrakk>group_first f n p \<le> i; i < group_last f m p\<rbrakk> \<Longrightarrow> i div 1024 = p"
  by (auto simp: group_first_def group_last_def phi_def)

lemma entries_read:
  assumes w: "winv w" and st: "writer_state X start A n st" "n \<le> m" "m \<le> length blocks"
    and loc: "tab_ok payload_location_schema (true_locations X start A) (location_puts X start A n) (rows w)"
    and run: "io_map (grouped_entry ms st f)
      (group_items (map (id_item f) [bas f n..<bas f m])) w = (r, w')"
  shows "same w w' \<and> (\<forall>es. r = Inr es \<longrightarrow>
    list_all2 (\<lambda>g e. \<exists>p. fst g = pkey_of f p \<and> entry_of f n m p e)
      (group_items (map (id_item f) [bas f n..<bas f m])) es)"
proof (rule io_map_inv [where P = "same w", OF _ same_refl [OF w] run])
  fix g w1 r1 w2
  assume g: "g \<in> set (group_items (map (id_item f) [bas f n..<bas f m]))"
    and s: "same w w1" and call: "grouped_entry ms st f g w1 = (r1, w2)"
  obtain key vs where kv: "g = (key, vs)" by force
  obtain p where p: "key = pkey_of f p" "1024 * p < 2 ^ 64"
    "vs = map (\<lambda>i. (PrimaryId (of_nat i), PayloadItem (item_of X start A f i)))
            (group_range f p (bas f n) (bas f m))"
    "max (bas f n) (1024 * p) < min (bas f m) (phi p)"
    by (rule group_cases [OF g [unfolded kv] order.refl])
  have v: "valid_group f n m p"
    using p(2,4) unfolding valid_group_def group_first_def group_last_def by blast
  have vs: "vs = map (\<lambda>i. (PrimaryId (of_nat i), PayloadItem (item_of X start A f i)))
      [group_first f n p..<group_last f m p]"
    unfolding p(3) group_range_def group_first_def group_last_def ..
  have w1: "winv w1" "rows w1 = rows w" using s by (simp_all add: same_def)
  obtain r3 w3 where c: "group_committed_end ms st f vs w1 = (r3, w3)" by (meson surj_pair)
  have n: "n \<le> length blocks" using st by simp
  note ce = group_committed_end_value [OF w1(1) st(1) n _ _ c [unfolded vs], unfolded w1(2), OF loc]
  have gf: "group_first f n p < group_last f m p" using v by (simp add: valid_group_def)
  have w2: "w2 = w3" "\<forall>y. r1 = Inr y \<longrightarrow> (\<exists>ce. r3 = Inr ce \<and> y = (key, map fst vs, ce, map snd vs))"
    using call c by (cases r3; auto simp: grouped_entry_def kv io_bind_def)+
  show "same w w2 \<and> (\<forall>y. r1 = Inr y \<longrightarrow> (\<exists>p. fst g = pkey_of f p \<and> entry_of f n m p y))"
    using same_trans [OF s ce(1) [OF gf]] w2 ce(2) [OF gf] v p(1)
    unfolding entry_of_def kv vs by (fastforce simp: comp_def)
qed

lemma append_prepared:
  assumes w: "winv w" and n: "n \<le> m" and ok: "pfam_ok X start A f n (blobs w)"
    and e: "entry_of f n m p e"
    and run: "(\<lambda>(key, ids, ce, vs). prepare_append payload_T (payload_codec X) key ce vs) e w = (r, w')"
  shows "same w w' \<and> (\<forall>y. r = Inr y \<longrightarrow> small_ends f n m p \<and>
    y = (pkey_of f p, pby f (plo start f p) (group_last f m p), ends_of f n m p))"
proof -
  from e obtain ce where v: "valid_group f n m p"
    and e': "e = (pkey_of f p, map (\<lambda>i. PrimaryId (of_nat i)) [group_first f n p..<group_last f m p], ce,
            map (\<lambda>i. PayloadItem (item_of X start A f i)) [group_first f n p..<group_last f m p])"
      "unat ce = length (pby f (plo start f p) (group_first f n p))"
    by (auto simp: entry_of_def)
  from run have run': "prepare_append payload_T (payload_codec X) (pkey_of f p) ce
      (map (\<lambda>i. PayloadItem (item_of X start A f i)) [group_first f n p..<group_last f m p]) w = (r, w')"
    by (simp add: e'(1))
  have "rows w' = rows w"
  proof -
    obtain r1 w1 where "bs_get bs ''payload'' (PayloadKey_encode (pkey_of f p)) w = (r1, w1)"
      by (meson surj_pair)
    with run' bget_rows [OF w this] show ?thesis
      by (cases r1) (auto simp: prepare_append_def CodecBlobTable_get_def raw_codec_def payload_codec_def
          io_bind_def Let_def split: sum.splits if_splits)
  qed
  then have s: "same w w'"
    using pt.prepare_append_frame [OF w run'] by (simp add: same_def)
  moreover have "small_ends f n m p \<and>
      y = (pkey_of f p, pby f (plo start f p) (group_last f m p), ends_of f n m p)" if "r = Inr y" for y
  proof -
    obtain k' b ends where y: "y = (k', b, ends)" by (cases y) auto
    note spec = pt.prepare_append_spec [OF w run' [unfolded that y]]
    have gl: "group_first f n p < phi p" "1024 * p < 2 ^ 64" "group_first f n p \<le> group_last f m p"
      using v by (auto simp: valid_group_def group_last_def)
    have "extend_items (PayloadItem_encode X) (pby f (plo start f p) (group_first f n p))
        (map (\<lambda>i. PayloadItem (item_of X start A f i)) [group_first f n p..<group_last f m p]) = Inr (b, ends)"
      using spec(3) unfolding blob_at_payload e'(2) committed_prefix [OF ok gl(2,1)]
      by (simp add: payload_codec_def)
    from extend_items_pbytes [OF this group_first_lo(1) gl(3)] spec(1) y show ?thesis
      unfolding ends_of_def small_ends_def end_of_def
      by (auto simp: group_id_div [where m = m])
  qed
  ultimately show ?thesis by blast
qed

text \<open>The partitions of a flush: the groups' keys, each once, and all of them.\<close>

definition flush_parts :: "family \<Rightarrow> nat \<Rightarrow> nat \<Rightarrow> nat list \<Rightarrow> bool" where
  "flush_parts f n m ps \<longleftrightarrow> distinct ps \<and> set ps = {p. valid_group f n m p}"

lemma flush_parts_groups:
  assumes "list_all2 (\<lambda>p g. fst g = pkey_of f p) ps (group_items (map (id_item f) [bas f n..<bas f m]))"
    and "\<forall>p \<in> set ps. valid_group f n m p"
  shows "flush_parts f n m ps"
proof -
  let ?G = "group_items (map (id_item f) [bas f n..<bas f m])"
  have keys: "map fst ?G = map (pkey_of f) ps"
    using assms(1) by (simp add: list_all2_conv_all_nth list_eq_iff_nth_eq)
  have "p \<in> set ps" if v: "valid_group f n m p" for p
  proof -
    have "max (bas f n) (1024 * p) < min (bas f m) (phi p)"
      using v unfolding valid_group_def group_first_def group_last_def by blast
    from group_exists [OF this order.refl] have "pkey_of f p \<in> set (map fst ?G)" by force
    then obtain q where "q \<in> set ps" "pkey_of f p = pkey_of f q" unfolding keys by auto
    then show ?thesis
      using pkey_encode_eq [of p q f f] v assms(2) unfolding valid_group_def by metis
  qed
  moreover have "distinct ps"
    using group_items_distinct [of "map (id_item f) [bas f n..<bas f m]"] unfolding keys
    by (simp add: distinct_map)
  ultimately show ?thesis using assms(2) by (auto simp: flush_parts_def)
qed

lemma append_batch_stage:
  assumes w: "winv w" and n: "n \<le> m" "m \<le> length blocks" and ok: "pfam_ok X start A f n (blobs w)"
    and ps: "flush_parts f n m ps" and es: "list_all2 (entry_of f n m) ps es"
    and run: "Partition_append_batch payload_T (payload_codec X)
      (map (\<lambda>(key, ids, ce, vs). (key, ce, vs)) es) w = (r, w')"
  shows "winv w' \<and> rows w' = rows w \<and> (\<forall>t. t \<noteq> ''payload'' \<longrightarrow> blobs w' t = blobs w t) \<and>
    (\<forall>g j. pfam_ok X start A g j (blobs w) \<and> (g = f \<longrightarrow> j \<le> m) \<longrightarrow> pfam_ok X start A g j (blobs w')) \<and>
    (\<forall>ends. r = Inr ends \<longrightarrow> pfam_ok X start A f m (blobs w') \<and> list_all (small_ends f n m) ps \<and>
      ends = map (\<lambda>p. (pkey_of f p, ends_of f n m p)) ps)"
proof -
  let ?prep = "\<lambda>(key, ids, ce, vs). prepare_append payload_T (payload_codec X) key ce vs"
  let ?y = "\<lambda>p. (pkey_of f p, pby f (plo start f p) (group_last f m p), ends_of f n m p)"
  let ?puts = "map (group_put f m) ps"
  obtain r1 w1 where r1: "io_map ?prep es w = (r1, w1)" by (meson surj_pair)
  have run: "io_bind (io_map ?prep es) (\<lambda>prepared.
      io_bind (CodecBlobTable_put_batch payload_T (raw_codec (payload_codec X))
        (map (\<lambda>(key, b, ends). (key, b)) prepared)) (\<lambda>_.
      io_lift (Inr (map (\<lambda>(key, b, ends). (key, ends)) prepared)))) w = (r, w')"
    using run by (simp add: Partition_append_batch_def io_map_map case_prod_unfold)
  have "same w w1 \<and> (\<forall>ys. r1 = Inr ys \<longrightarrow>
      list_all2 (\<lambda>e y. \<forall>p. entry_of f n m p e \<longrightarrow> y = ?y p \<and> small_ends f n m p) es ys)"
  proof (rule io_map_inv [where P = "same w", OF _ same_refl [OF w] r1])
    fix e v q v' assume e: "e \<in> set es" and s: "same w v" and c: "?prep e v = (q, v')"
    then obtain p where p: "entry_of f n m p e" using es by (metis list_all2_conv_all_nth in_set_conv_nth)
    have v: "winv v" "pfam_ok X start A f n (blobs v)" using s ok by (simp_all add: same_def)
    note a = append_prepared [OF v(1) n(1) v(2) _ c]
    show "same w v' \<and> (\<forall>y. q = Inr y \<longrightarrow> (\<forall>p. entry_of f n m p e \<longrightarrow> y = ?y p \<and> small_ends f n m p))"
      using a [OF p] a s same_trans by blast
  qed
  then have w1: "same w w1" and ys: "r1 = Inr ys \<Longrightarrow> ys = map ?y ps \<and> list_all (small_ends f n m) ps" for ys
    using es by (auto simp: list_all2_eq_map [symmetric] list_all2_conv_all_nth)
  from run show ?thesis
  proof (cases rule: io_bind_cases)
    case (fail e)
    with r1 w1 show ?thesis by (auto simp: same_def)
  next
    case (ok prepared w2)
    then have prep: "prepared = map ?y ps" "list_all (small_ends f n m) ps" "w2 = w1"
      using r1 ys by auto
    have enc: "CodecBlobTable_put_batch payload_T (raw_codec (payload_codec X))
        (map (\<lambda>(key, b, ends). (key, b)) prepared) = bs_put_batch bs ?puts"
      by (subst put_batch_encoded [where enc = "\<lambda>b. b"])
         (simp_all add: raw_codec_def prep(1) comp_def group_put_def [abs_def] payload_codec_def)
    obtain r3 where put: "bs_put_batch bs ?puts w1 = (r3, w')"
      "r = Inr x \<Longrightarrow> r3 = Inr () \<and> x = map (\<lambda>p. (pkey_of f p, ends_of f n m p)) ps" for x
      using ok(2) unfolding enc prep(3)
      by (cases rule: io_bind_cases) (auto simp: prep(1) comp_def)
    have w1': "winv w1" "rows w1 = rows w" "blobs w1 = blobs w" using w1 by (auto simp: same_def)
    note b = B.put_batch [OF w1'(1) put(1)]
    have valid: "\<forall>x \<in> set ?puts. \<exists>p. valid_group f n m p \<and> x = group_put f m p"
      using ps by (auto simp: flush_parts_def)
    have all: "group_put f m p \<in> set ?puts" if "valid_group f n m p" for p
      using that ps by (simp add: flush_parts_def)
    have dist: "distinct (map (\<lambda>x. (bp_table x, bp_key x)) ?puts)"
      using ps pkey_encode_eq [of _ _ f f] unfolding flush_parts_def valid_group_def
      by (auto simp: distinct_map inj_on_def group_put_def simp del: of_nat_mult)
    have frame: "\<forall>x \<in> set ?puts. bp_table x \<noteq> t" if "t \<noteq> ''payload''" for t
      using that by (auto simp: group_put_def)
    have "pfam_ok X start A f m (blobs w')" if "r3 = Inr ()"
      using pfam_ok_commit [OF assms(4) n valid all dist] b that by (simp add: w1'(3))
    then show ?thesis
      using b w1' put bput_batch_rows [OF w1'(1) put(1)] prep(2) frame
        blobs_partial_frame [of ?puts "blobs w1" "blobs w'"]
        pfam_ok_partial [of ?puts "blobs w1" "blobs w'", OF _ valid _ _ n(2)]
      by auto
  qed
qed

lemma parts_cover:
  assumes "flush_parts f n m ps" "n \<le> m"
  shows "(\<Union>p \<in> set ps. {group_first f n p..<group_last f m p}) = {bas f n..<bas f m}"
proof (intro set_eqI iffI)
  fix i assume "i \<in> (\<Union>p \<in> set ps. {group_first f n p..<group_last f m p})"
  then show "i \<in> {bas f n..<bas f m}" by (auto simp: group_first_def group_last_def)
next
  fix i assume i: "i \<in> {bas f n..<bas f m}"
  let ?p = "i div 1024"
  have "i < 2 ^ 64" using i base_bound [of f m] by simp
  then have "valid_group f n m ?p" "i \<in> {group_first f n ?p..<group_last f m ?p}"
    using i by (auto simp: valid_group_def group_first_def group_last_def phi_def max_def min_def)
  with assms(1) show "i \<in> (\<Union>p \<in> set ps. {group_first f n p..<group_last f m p})"
    unfolding flush_parts_def by blast
qed

lemma collect_ends:
  assumes parts: "flush_parts f n m ps" and es: "list_all2 (entry_of f n m) ps es"
  shows "collect_locations f (map (\<lambda>(key, ids, _). (key, ids)) es)
      (map (\<lambda>p. (pkey_of f p, ends_of f n m p)) ps) =
    Inr (concat (map (\<lambda>p. map (location_put X start A f) [group_first f n p..<group_last f m p]) ps))"
proof -
  let ?ids = "\<lambda>p. map (\<lambda>i. PrimaryId (of_nat i)) [group_first f n p..<group_last f m p]"
  let ?es = "map (\<lambda>p. (pkey_of f p, ?ids p, ends_of f n m p)) ps"
  have ids: "map (\<lambda>(key, ids, _). (key, ids)) es = map (\<lambda>(k, ids, ends). (k, ids)) ?es"
    using es by (auto simp: list_eq_iff_nth_eq list_all2_conv_all_nth entry_of_def simp del: of_nat_mult)
  have inj: "p = q" if "p \<in> set ps" "q \<in> set ps" "pkey_of f p = pkey_of f q" for p q
  proof -
    have "1024 * p < 2 ^ 64" "1024 * q < 2 ^ 64"
      using that(1,2) parts by (auto simp: flush_parts_def valid_group_def)
    from pkey_encode_eq [OF this, of f f] that(3) show ?thesis by metis
  qed
  have "distinct (map fst ?es)"
    using parts inj by (auto simp: distinct_map inj_on_def flush_parts_def comp_def simp del: of_nat_mult)
  moreover have "\<forall>(k, ids, ends) \<in> set ?es. length ids = length ends"
    by (auto simp: ends_of_def)
  moreover have "map (\<lambda>p. (pkey_of f p, ends_of f n m p)) ps = map (\<lambda>(k, ids, ends). (k, ends)) ?es"
    by (simp add: comp_def)
  ultimately have "collect_locations f (map (\<lambda>(key, ids, _). (key, ids)) es)
      (map (\<lambda>p. (pkey_of f p, ends_of f n m p)) ps) =
      Inr (concat (map (\<lambda>(k, ids, ends).
        map (\<lambda>(i, e). (PayloadLocationKey f i, PayloadLocation e)) (zip ids ends)) ?es))"
    unfolding ids by (simp only: collect_locations_zip)
  also have "\<dots> = Inr (concat (map (\<lambda>p. map (location_put X start A f)
      [group_first f n p..<group_last f m p]) ps))"
    by (simp add: comp_def ends_of_def zip_map_map zip_same_conv_map location_put_def [abs_def])
  finally show ?thesis .
qed

lemma flush_family_stage:
  assumes w: "winv w" and st: "writer_state X start A n st" and n: "n + k \<le> length blocks"
    and loc: "tab_ok payload_location_schema (true_locations X start A) (location_puts X start A n) (rows w)"
    and ok: "pfam_ok X start A f n (blobs w)" and as: "fb_blocks batch = take k (drop n A)"
    and run: "flush_family X payload_T ms st batch f w = (r, w')"
  shows "winv w' \<and> rows w' = rows w \<and> (\<forall>t. t \<noteq> ''payload'' \<longrightarrow> blobs w' t = blobs w t) \<and>
    (\<forall>g j. pfam_ok X start A g j (blobs w) \<and> (g = f \<longrightarrow> j \<le> n + k) \<longrightarrow> pfam_ok X start A g j (blobs w')) \<and>
    (\<forall>locs. r = Inr locs \<longrightarrow> pfam_ok X start A f (n + k) (blobs w') \<and>
      set locs = location_put X start A f ` {bas f n..<bas f (n + k)} \<and>
      (\<forall>i \<in> {bas f n..<bas f (n + k)}. end_of X start A f i < 2 ^ 63))"
proof -
  let ?m = "n + k" and ?G = "group_items (map (id_item f) [bas f n..<bas f (n + k)])"
  have nm: "n \<le> ?m" "n \<le> length blocks" using n by auto
  note rd = entries_read [OF w st nm(1) n loc]
  from run [unfolded flush_family_def as payload_items_range [OF n]] show ?thesis
  proof (cases rule: io_bind_cases)
    case (fail e)
    with rd [OF fail(1)] show ?thesis by (auto simp: same_def)
  next
    case (ok es w1)
    note rd = rd [OF ok(1)]
    then have w1: "winv w1" "rows w1 = rows w" "blobs w1 = blobs w" by (auto simp: same_def)
    from rd obtain ps where ps: "list_all2 (\<lambda>p g. fst g = pkey_of f p) ps ?G"
      "list_all2 (entry_of f n ?m) ps es"
      using list_all2_choose [of "\<lambda>p g. fst g = pkey_of f p" "entry_of f n ?m" ?G es] by blast
    have "\<forall>p \<in> set ps. valid_group f n ?m p"
      using ps(2) by (auto simp: list_all2_conv_all_nth in_set_conv_nth entry_of_def)
    note parts = flush_parts_groups [OF ps(1) this]
    have ok1: "pfam_ok X start A f n (blobs w1)" using assms(5) w1 by simp
    note ap = append_batch_stage [OF w1(1) nm(1) n ok1 parts ps(2)]
    from ok(2) show ?thesis
    proof (cases rule: io_bind_cases)
      case (fail e)
      with ap [OF fail(1)] w1 show ?thesis by auto
    next
      case ok2: (ok ends w2)
      note ap = ap [OF ok2(1)]
      have locs: "w' = w2" "r = Inr (concat (map (\<lambda>p. map (location_put X start A f)
          [group_first f n p..<group_last f ?m p]) ps))"
        using ok2(2) ap collect_ends [OF parts ps(2)] by simp_all
      have cover: "{bas f n..<bas f ?m} = (\<Union>p \<in> set ps. {group_first f n p..<group_last f ?m p})"
        using parts_cover [OF parts nm(1)] by simp
      have "\<forall>i \<in> {bas f n..<bas f ?m}. end_of X start A f i < 2 ^ 63"
        using ap unfolding cover by (auto simp: list_all_iff small_ends_def)
      moreover have "set (concat (map (\<lambda>p. map (location_put X start A f)
          [group_first f n p..<group_last f ?m p]) ps)) = location_put X start A f ` {bas f n..<bas f ?m}"
        unfolding cover by auto
      ultimately show ?thesis using ap w1 unfolding locs by auto
    qed
  qed
qed

section \<open>The whole stage\<close>

definition keeps :: "nat \<Rightarrow> 'w \<Rightarrow> 'w \<Rightarrow> bool" where
  "keeps m w w' \<longleftrightarrow> rows w' = rows w \<and> (\<forall>t. t \<noteq> ''payload'' \<longrightarrow> blobs w' t = blobs w t) \<and>
     (\<forall>g j. j \<le> m \<longrightarrow> pfam_ok X start A g j (blobs w) \<longrightarrow> pfam_ok X start A g j (blobs w'))"

definition family_done :: "nat \<Rightarrow> nat \<Rightarrow> family \<Rightarrow> (payload_location_key \<times> payload_location) list \<Rightarrow> 'w \<Rightarrow> bool" where
  "family_done n m f locs w \<longleftrightarrow> pfam_ok X start A f m (blobs w) \<and>
     set locs = location_put X start A f ` {bas f n..<bas f m} \<and>
     (\<forall>i \<in> {bas f n..<bas f m}. end_of X start A f i < 2 ^ 63)"

lemma families_stage:
  assumes w: "winv w" and st: "writer_state X start A n st" and n: "n + k \<le> length blocks"
    and loc: "tab_ok payload_location_schema (true_locations X start A) (location_puts X start A n) (rows w)"
    and ok: "payload_ok X start A n (blobs w)" and as: "fb_blocks batch = take k (drop n A)"
    and run: "io_map (flush_family X payload_T ms st batch) fs w = (r, w')"
  shows "winv w' \<and> keeps (n + k) w w' \<and>
    (\<forall>ls. r = Inr ls \<longrightarrow> list_all2 (\<lambda>f locs. family_done n (n + k) f locs w') fs ls)"
proof -
  let ?P = "\<lambda>w. winv w \<and> payload_ok X start A n (blobs w) \<and>
    tab_ok payload_location_schema (true_locations X start A) (location_puts X start A n) (rows w)"
  have "?P w' \<and> keeps (n + k) w w' \<and>
    (\<forall>ls. r = Inr ls \<longrightarrow> list_all2 (\<lambda>f locs. family_done n (n + k) f locs w') fs ls)"
  proof (rule io_map_rel [where P = ?P and L = "keeps (n + k)", OF _ _ _ _ _ run])
    fix f v q v' assume P: "?P v" and c: "flush_family X payload_T ms st batch f v = (q, v')"
    then have "pfam_ok X start A f n (blobs v)" by (simp add: payload_ok_def)
    with P flush_family_stage [OF _ st n _ _ as c]
    have s: "winv v'" "keeps (n + k) v v'" "\<forall>locs. q = Inr locs \<longrightarrow> family_done n (n + k) f locs v'"
      by (auto simp: keeps_def family_done_def)
    moreover from s P have "?P v'" by (auto simp: keeps_def payload_ok_def)
    ultimately show "?P v' \<and> keeps (n + k) v v' \<and> (\<forall>y. q = Inr y \<longrightarrow> family_done n (n + k) f y v')"
      by blast
  qed (use w loc ok in \<open>auto simp: keeps_def family_done_def\<close>)
  then show ?thesis by blast
qed

lemma location_puts_segment:
  assumes "n \<le> m"
  shows "set (location_puts X start A m) = set (location_puts X start A n) \<union>
    (\<Union>f. location_put X start A f ` {bas f n..<bas f m})"
proof -
  have "{first_base start f..<bas f m} = {first_base start f..<bas f n} \<union> {bas f n..<bas f m}" for f
    using base_mono [OF assms, of f] first_base_le [of f n] by auto
  then show ?thesis
    by (simp add: location_puts_def image_Un UN_Un_distrib)
qed

lemma true_locationsI:
  "\<lbrakk>first_base start f \<le> i; i < bas f (length A); end_of X start A f i < 2 ^ 63\<rbrakk> \<Longrightarrow>
     location_put X start A f i \<in> set (true_locations X start A)"
  by (auto simp: true_locations_def)

lemma payload_stage:
  assumes w: "winv w" and st: "writer_state X start A n st" and n: "n + k \<le> length blocks"
    and m: "n \<le> m" "m \<le> n + k"
    and loc: "tab_ok payload_location_schema (true_locations X start A) (location_puts X start A m) (rows w)"
    and ok: "payload_ok X start A m (blobs w)" and as: "fb_blocks batch = take k (drop n A)"
    and run: "payload_flush X payload_T ms st batch w = (r, w')"
  shows "winv w' \<and> (\<forall>t. t \<noteq> ''payload_location'' \<longrightarrow> rows w' t = rows w t) \<and>
    (\<forall>t. t \<noteq> ''payload'' \<longrightarrow> blobs w' t = blobs w t) \<and> payload_ok X start A m (blobs w') \<and>
    tab_ok payload_location_schema (true_locations X start A) (location_puts X start A m) (rows w') \<and>
    (r = Inr () \<longrightarrow> payload_ok X start A (n + k) (blobs w') \<and>
       tab_ok payload_location_schema (true_locations X start A) (location_puts X start A (n + k)) (rows w'))"
proof -
  have loc_n: "tab_ok payload_location_schema (true_locations X start A) (location_puts X start A n) (rows w)"
    by (rule location_ok_mono [OF loc m(1)])
  have ok_n: "payload_ok X start A n (blobs w)"
    by (rule payload_ok_mono [OF ok m(1)])
  note fam = families_stage [OF w st n loc_n ok_n as]
  from run [unfolded payload_flush_def] show ?thesis
  proof (cases rule: io_bind_cases)
    case (fail e)
    with fam [OF fail(1)] loc ok m show ?thesis by (auto simp: keeps_def payload_ok_def)
  next
    case ok1: (ok ls w1)
    note fam = fam [OF ok1(1)]
    then have k1: "winv w1" "keeps (n + k) w w1" and
      dn: "list_all2 (\<lambda>f locs. family_done n (n + k) f locs w1) family_iter ls" by auto
    have each: "\<exists>locs \<in> set ls. family_done n (n + k) f locs w1" for f
    proof -
      have "f \<in> set family_iter" by simp
      with dn show ?thesis by (metis in_set_conv_nth list_all2_conv_all_nth)
    qed
    have rev: "\<exists>f. family_done n (n + k) f locs w1" if "locs \<in> set ls" for locs
      using that dn by (metis in_set_conv_nth list_all2_conv_all_nth)
    have set: "set (concat ls) = (\<Union>f. location_put X start A f ` {bas f n..<bas f (n + k)})"
    proof -
      have "set locs \<subseteq> (\<Union>f. location_put X start A f ` {bas f n..<bas f (n + k)})" if "locs \<in> set ls" for locs
        using rev [OF that] by (auto simp: family_done_def)
      moreover have "location_put X start A f ` {bas f n..<bas f (n + k)} \<subseteq> set (concat ls)" for f
        using each [of f] by (auto simp: family_done_def)
      ultimately show ?thesis unfolding set_concat by blast
    qed
    have true: "set (concat ls) \<subseteq> set (true_locations X start A)"
    proof -
      have "bas f (n + k) \<le> bas f (length A)" for f using n by (intro base_mono) simp
      moreover have "end_of X start A f i < 2 ^ 63" if "bas f n \<le> i" "i < bas f (n + k)" for f i
        using each [of f] that by (auto simp: family_done_def)
      ultimately have "location_put X start A f i \<in> set (true_locations X start A)"
        if "bas f n \<le> i" "i < bas f (n + k)" for f i
        using that first_base_le [of f n] by (intro true_locationsI) (auto intro: order.trans less_le_trans)
      then show ?thesis unfolding set by auto
    qed
    have loc1: "tab_ok payload_location_schema (true_locations X start A) (location_puts X start A m) (rows w1)"
      using loc k1(2) by (simp add: keeps_def)
    note put = table_put_batch_facts [OF location_table.meta_schema_axioms k1(1) loc1 true ok1(2)]
    have "set (location_puts X start A (n + k)) \<subseteq> set (location_puts X start A m @ concat ls)"
      using location_puts_segment [of n "n + k"] location_puts_mono [OF m(1), of X start A] set by auto
    then have "r = Inr () \<Longrightarrow>
        tab_ok payload_location_schema (true_locations X start A) (location_puts X start A (n + k)) (rows w')"
      using put tab_ok_mono by blast
    moreover have "payload_ok X start A (n + k) (blobs w1)" "payload_ok X start A m (blobs w1)"
      using each k1(2) ok m(2) by (auto simp: payload_ok_def family_done_def keeps_def)
    ultimately show ?thesis using put k1 by (auto simp: keeps_def)
  qed
qed

end

end
