(* ===== verification/Bitmap_Stage.thy ===== *)
theory Bitmap_Stage
  imports Payload_Stage
begin

text \<open>
  The bitmap stage of a flush: the pages accumulated for the flushed blocks are the sets of
  their ids by family, filter and page; merging a page into its committed part keeps every
  committed id, drops nothing of the flushed ones and adds nothing that the chain lacks.
\<close>

section \<open>Pages accumulated in memory\<close>

definition ebits :: "bitmap_entry list \<Rightarrow> bitmap_index_key \<Rightarrow> u32 set" where
  "ebits es k = {ucast (i - page_of i) | i. (bik_family k, bik_filter k, i) \<in> set es \<and> page_of i = bik_page k}"

lemma bits_ebits: "bits X as k = ebits (chain_entries X as) k"
  by (simp add: bits_def ebits_def)

lemma ebits_Nil [simp]: "ebits [] k = {}"
  by (simp add: ebits_def)

lemma ebits_snoc:
  "ebits (es @ [(f, flt, i)]) k =
     (if k = BitmapIndexKey f flt (page_of i) then insert (ucast (i - page_of i)) (ebits es k) else ebits es k)"
  by (cases k) (auto simp: ebits_def)

lemma page_insert_keys: "set (map fst (page_insert X k i m)) = insert k (set (map fst m))"
  by (induction X k i m rule: page_insert.induct) auto

lemma page_insert_distinct: "distinct (map fst m) \<Longrightarrow> distinct (map fst (page_insert X k i m))"
proof (induction m)
  case (Cons p m)
  then show ?case using page_insert_keys [of X k i m] by (cases p) auto
qed simp

lemma page_insert_get:
  "map_of (page_insert X k i m) k' =
     (if k' = k then Some (rb_insert X i (case map_of m k of None \<Rightarrow> rb_new X | Some b \<Rightarrow> b))
      else map_of m k')"
  by (induction m) auto

definition pages_inv :: "('h, 'b) externals \<Rightarrow> bitmap_entry list \<Rightarrow> (bitmap_index_key \<times> 'b) list \<Rightarrow> bool" where
  "pages_inv X es m \<longleftrightarrow> distinct (map fst m) \<and>
     (\<forall>k. case map_of m k of None \<Rightarrow> ebits es k = {} | Some b \<Rightarrow> rb_set X b = ebits es k \<and> ebits es k \<noteq> {})"

lemma pages_fold:
  assumes "bitmap_laws X"
  shows "pages_inv X es (fold (page_add X) es [])"
proof (induction es rule: rev_induct)
  case Nil
  show ?case by (simp add: pages_inv_def)
next
  case (snoc e es)
  obtain f flt i where e: "e = (f, flt, i)" by (cases e) auto
  let ?m = "fold (page_add X) es []" and ?k = "BitmapIndexKey f flt (page_of i)"
  have "rb_set X (rb_insert X j (case map_of ?m ?k of None \<Rightarrow> rb_new X | Some b \<Rightarrow> b)) =
      insert j (ebits es ?k)" for j
    using assms snoc [unfolded pages_inv_def, THEN conjunct2, rule_format, of ?k]
    by (auto simp: bitmap_laws_def split: option.splits)
  note new = this
  have step: "fold (page_add X) (es @ [(f, flt, i)]) [] = page_insert X ?k (ucast (i - page_of i)) ?m"
    by (simp add: page_add_def)
  show ?case
    unfolding pages_inv_def e step
  proof (intro conjI allI)
    show "distinct (map fst (page_insert X ?k (ucast (i - page_of i)) ?m))"
      using snoc page_insert_distinct by (auto simp: pages_inv_def)
    fix k
    show "case map_of (page_insert X ?k (ucast (i - page_of i)) ?m) k of
        None \<Rightarrow> ebits (es @ [(f, flt, i)]) k = {}
      | Some b \<Rightarrow> rb_set X b = ebits (es @ [(f, flt, i)]) k \<and> ebits (es @ [(f, flt, i)]) k \<noteq> {}"
      using snoc [unfolded pages_inv_def, THEN conjunct2, rule_format, of k]
      unfolding page_insert_get ebits_snoc by (cases "k = ?k") (simp_all add: new)
  qed
qed

lemma pages_mem:
  assumes "pages_inv X es m"
  shows "(k, b) \<in> set m \<Longrightarrow> rb_set X b = ebits es k \<and> ebits es k \<noteq> {}"
    and "ebits es k \<noteq> {} \<Longrightarrow> k \<in> fst ` set m"
proof -
  note law = assms [unfolded pages_inv_def, THEN conjunct2, rule_format, of k]
  have "map_of m k = Some b" if "(k, b) \<in> set m" using assms that by (simp add: pages_inv_def)
  with law show "rb_set X b = ebits es k \<and> ebits es k \<noteq> {}" if "(k, b) \<in> set m" using that by simp
  have "map_of m k \<noteq> None" if "ebits es k \<noteq> {}" using law that by (auto split: option.splits)
  then show "k \<in> fst ` set m" if "ebits es k \<noteq> {}" using that by (simp add: map_of_eq_None_iff)
qed

lemma pending_pages_entries:
  assumes "pending_pages X as = Inr m" "bitmap_laws X"
  shows "pages_inv X (chain_entries X as) m"
proof -
  obtain es where es: "map_res (block_entries X) as = Inr es" "m = fold (page_add X) (concat es) []"
    using assms(1) by (auto simp: pending_pages_def res_bind_Inr_iff)
  have "map (\<lambda>a. case block_entries X a of Inl _ \<Rightarrow> [] | Inr es \<Rightarrow> es) as = es"
    using es(1) by (auto simp: map_res_Inr_iff list_all2_conv_all_nth list_eq_iff_nth_eq)
  then show ?thesis using pages_fold [OF assms(2), of "concat es"] es(2) by (simp add: chain_entries_def)
qed

section \<open>Ids of bitmap entries\<close>

lemma log_entries_ids:
  "\<lbrakk>log_entries i ls = Inr es; (f, flt, x) \<in> set es\<rbrakk> \<Longrightarrow> f = Log \<and> (\<exists>q < length ls. x = i + of_nat q)"
proof (induction ls arbitrary: i es)
  case (Cons l ls)
  then obtain es' where es': "log_entries (i + 1) ls = Inr es'"
    "(f, flt, x) \<in> (\<lambda>flt. (Log, flt, i)) ` UNIV \<union> set es'"
    by (auto simp: res_bind_Inr_iff)
  show ?case
  proof (cases "(f, flt, x) \<in> set es'")
    case True
    from Cons.IH [OF es'(1) True] obtain q where "f = Log" "q < length ls" "x = i + 1 + of_nat q" by auto
    then show ?thesis by (auto intro!: exI [of _ "Suc q"])
  qed (use es'(2) in \<open>auto intro!: exI [of _ 0]\<close>)
qed simp

lemma trace_entries_ids:
  "\<lbrakk>trace_entries i ts = Inr es; (f, flt, x) \<in> set es\<rbrakk> \<Longrightarrow> f = Trace \<and> (\<exists>q < length ts. x = i + of_nat q)"
proof (induction ts arbitrary: i es)
  case (Cons l ls)
  then obtain es' where es': "trace_entries (i + 1) ls = Inr es'"
    "(f, flt, x) \<in> (\<lambda>flt. (Trace, flt, i)) ` UNIV \<union> set es'"
    by (auto simp: res_bind_Inr_iff)
  show ?case
  proof (cases "(f, flt, x) \<in> set es'")
    case True
    from Cons.IH [OF es'(1) True] obtain q where "f = Trace" "q < length ls" "x = i + 1 + of_nat q" by auto
    then show ?thesis by (auto intro!: exI [of _ "Suc q"])
  qed (use es'(2) in \<open>auto intro!: exI [of _ 0]\<close>)
qed simp

fun tx_count :: "family \<Rightarrow> writer_tx list \<Rightarrow> nat" where
  "tx_count BlockHeader txs = 0"
| "tx_count Transaction txs = length txs"
| "tx_count Log txs = length (concat (map wt_logs txs))"
| "tx_count Trace txs = length (concat (map wt_traces txs))"

lemma tx_entries_ids:
  "\<lbrakk>tx_entries X t l r txs = Inr es; (f, flt, x) \<in> set es\<rbrakk> \<Longrightarrow>
     \<exists>q < tx_count f txs. x = ids_of f (t, l, r) + of_nat q"
proof (induction txs arbitrary: t l r es)
  case (Cons tx txs)
  then obtain fs ls ts rest where e: "log_entries l (wt_logs tx) = Inr ls"
    "trace_entries r (from_traces (wt_traces tx)) = Inr ts"
    "tx_entries X (t + 1) (l + of_nat (length (wt_logs tx))) (r + of_nat (length (wt_traces tx))) txs = Inr rest"
    "es = map (\<lambda>flt. (Transaction, flt, t)) fs @ ls @ ts @ rest"
    by (auto simp: res_bind_Inr_iff)
  with Cons.prems(2) consider "f = Transaction" "x = t" | "(f, flt, x) \<in> set ls"
    | "(f, flt, x) \<in> set ts" | "(f, flt, x) \<in> set rest" by auto
  then show ?case
  proof cases
    case 1
    then show ?thesis by (auto intro!: exI [of _ 0])
  next
    case 2
    from log_entries_ids [OF e(1) 2] show ?thesis by (auto intro: trans_less_add1)
  next
    case 3
    from trace_entries_ids [OF e(2) 3] show ?thesis
      by (auto simp: length_from_traces intro: trans_less_add1)
  next
    case 4
    from Cons.IH [OF e(3) 4] obtain q where q: "q < tx_count f txs"
      "x = ids_of f (t + 1, l + of_nat (length (wt_logs tx)), r + of_nat (length (wt_traces tx))) + of_nat q"
      by blast
    define d where "d = tx_count f [tx]"
    from q have "x = ids_of f (t, l, r) + of_nat (d + q)" "d + q < tx_count f (tx # txs)"
      by (cases f; simp add: d_def)+
    then show ?thesis by blast
  qed
qed simp

context chain
begin

lemma entry_range:
  assumes j: "j < length blocks" and e: "block_entries X (A ! j) = Inr es" "(f, flt, x) \<in> set es"
  shows "base X start A f j \<le> unat x \<and> unat x < base X start A f (Suc j)"
proof -
  let ?a = "A ! j"
  have len: "length (snd (family_rows X f ?a)) =
      (if f = BlockHeader then 1 else tx_count f (wb_txs (ab_block ?a)))"
    by (cases f) (simp_all add: family_rows_def Let_def block_logs_def block_traces_def)
  have "\<exists>q < length (snd (family_rows X f ?a)). x = fst (family_rows X f ?a) + of_nat q"
  proof -
    from e obtain rest where r: "tx_entries X (as_u64 (first_primary_id (ab_txs ?a)))
        (as_u64 (first_primary_id (ab_logs ?a))) (as_u64 (first_primary_id (ab_traces ?a)))
        (wb_txs (ab_block ?a)) = Inr rest"
      "(f, flt, x) \<in> (\<lambda>flt. (BlockHeader, flt, block_number X (ab_block ?a))) ` UNIV \<union> set rest"
      by (auto simp: block_entries_def res_bind_Inr_iff)
    show ?thesis
    proof (cases "(f, flt, x) \<in> set rest")
      case True
      from tx_entries_ids [OF r(1) True] show ?thesis
        unfolding len by (cases f) (simp_all add: family_rows_def Let_def)
    next
      case False
      with r(2) show ?thesis unfolding len by (auto simp: fst_header_rows)
    qed
  qed
  then obtain q where q: "q < length (snd (family_rows X f ?a))" "x = fst (family_rows X f ?a) + of_nat q"
    by blast
  have "unat (fst (family_rows X f ?a)) + q < 2 ^ LENGTH(64)"
    using base_first [OF j, of f] base_Suc [OF j, of f] q(1) base_bound [of f "Suc j"] by simp
  then have "unat x = base X start A f j + q"
    unfolding q(2) using base_first [OF j, of f] by (simp add: unat_add_nat)
  then show ?thesis using q(1) base_Suc [OF j, of f] by simp
qed

lemma chain_entry_below:
  assumes "(f, flt, x) \<in> set (chain_entries X (take n A))"
  shows "unat x < base X start A f n"
proof -
  from assms obtain a where a0: "a \<in> set (take n A)"
    "(f, flt, x) \<in> set (case block_entries X a of Inl _ \<Rightarrow> [] | Inr es \<Rightarrow> es)"
    by (auto simp: chain_entries_def)
  then obtain es where a: "a \<in> set (take n A)" "block_entries X a = Inr es" "(f, flt, x) \<in> set es"
    by (cases "block_entries X a") auto
  then obtain j where j: "j < n" "j < length blocks" "a = A ! j"
    by (auto simp: in_set_conv_nth)
  from entry_range [OF j(2) a(2)[unfolded j(3)] a(3)] base_mono [of "Suc j" n f] j(1) show ?thesis by simp
qed

end

section \<open>Merging a page\<close>

lemma page_of_nat: "unat (page_of i) = unat i div 65536 * 65536"
proof -
  have "unat i div 65536 * 65536 \<le> unat i" by simp
  moreover have "unat i < 2 ^ 64" using unsigned_less [of i, where ?'a = nat] by simp
  ultimately have "unat i div 65536 * 65536 < 2 ^ 64" by linarith
  then show ?thesis
    by (simp add: page_of_def PAGE_SPAN_def unat_word_ariths unat_div_distrib)
qed

lemma page_of_le: "page_of i \<le> i"
  by (simp add: word_le_nat_alt page_of_nat)

lemma page_offset: "unat (i - page_of i) = unat i mod 65536"
proof -
  have "unat (i - page_of i) = unat i - unat (page_of i)"
    using page_of_le [of i] by (simp add: unat_sub word_le_nat_alt)
  then show ?thesis by (simp add: page_of_nat minus_div_mult_eq_mod)
qed

lemma ucast_small: "unat (x :: u64) < 65536 \<Longrightarrow> unat (ucast x :: u32) = unat x"
  by (simp add: unsigned_ucast_eq take_bit_nat_eq_self)

text \<open>Cutting at the committed id keeps every smaller id of the page.\<close>

lemma offset_below_cut:
  assumes "i < c" "page_of i = page" "c < saturating_add page PAGE_SPAN" "page < c"
  shows "(ucast (i - page) :: u32) < ucast (c - page)"
proof -
  have "unat (saturating_add page PAGE_SPAN) \<le> unat page + 65536"
  proof (cases "unat page + unat PAGE_SPAN < 2 ^ LENGTH(64)")
    case True
    then show ?thesis by (simp add: saturating_add_def PAGE_SPAN_def unat_word_ariths)
  next
    case False
    then have "2 ^ 64 \<le> unat page + 65536" by (simp add: PAGE_SPAN_def)
    moreover have "unat (saturating_add page PAGE_SPAN) < 2 ^ 64"
      using unsigned_less [of "saturating_add page PAGE_SPAN", where ?'a = nat] by simp
    ultimately show ?thesis by linarith
  qed
  moreover have "unat c < unat (saturating_add page PAGE_SPAN)" using assms(3) by (simp add: word_less_nat_alt)
  moreover have c: "unat (c - page) = unat c - unat page"
    using assms(4) by (simp add: unat_sub word_less_nat_alt word_le_nat_alt)
  ultimately have cs: "unat (c - page) < 65536" using assms(4) by (simp add: word_less_nat_alt)
  have io: "unat (i - page) < 65536" using page_offset [of i] assms(2) by simp
  have "unat (i - page) = unat i - unat page"
    using page_of_le [of i] assms(2) by (simp add: unat_sub word_le_nat_alt)
  moreover have "unat page \<le> unat i" using page_of_le [of i] assms(2) by (simp add: word_le_nat_alt)
  ultimately have "unat (i - page) < unat (c - page)"
    using assms(1) c by (simp add: word_less_nat_alt)
  with cs io show ?thesis by (simp add: word_less_nat_alt ucast_small)
qed

context chain
begin

text \<open>What the stored page contributes once ids from \<open>n\<close> on are cut off.\<close>

lemma bits_cut:
  assumes c: "unat c = base X start A (bik_family k) n" and x: "x \<in> bits X (take n A) k"
  shows "bik_page k < c" and "c < saturating_add (bik_page k) PAGE_SPAN \<Longrightarrow> x < ucast (c - bik_page k)"
proof -
  from x obtain i where i: "x = ucast (i - page_of i)" "page_of i = bik_page k"
    "(bik_family k, bik_filter k, i) \<in> set (chain_entries X (take n A))"
    by (auto simp: bits_def)
  have ic: "i < c" using chain_entry_below [OF i(3)] c by (simp add: word_less_nat_alt)
  then show pg: "bik_page k < c" using page_of_le [of i] i(2) by simp
  show "x < ucast (c - bik_page k)" if "c < saturating_add (bik_page k) PAGE_SPAN"
    using offset_below_cut [OF ic i(2) that pg] i(1,2) by simp
qed

end

context index_writer
begin

abbreviation "bitmap_T \<equiv> \<lparr>cbt_table = ''bitmap_index'', cbt_store = bs\<rparr> :: 'w codec_blob_table"

lemma bitmap_laws: "bitmap_laws X"
  using ext by (simp add: externals_ok_def)

lemma load_committed_ok:
  assumes w: "winv w" and ok: "bitmap_ok X A n (blobs w)"
    and c: "unat c = base X start A (bik_family k) n"
    and run: "load_committed X bitmap_T c k w = (r, w')"
  shows "same w w'"
    and "r = Inr b \<Longrightarrow> bits X (take n A) k \<subseteq> rb_set X b \<and> rb_set X b \<subseteq> bits X A k"
proof -
  let ?get = "bs_get bs ''bitmap_index'' (BitmapIndexKey_encode k)"
  obtain r1 w1 where g: "?get w = (r1, w1)" by (meson surj_pair)
  note gf = B.get [OF w g] and gr = bget_rows [OF w g]
  have pg: "page_ok X A (take n A) k (blobs w ''bitmap_index'' (BitmapIndexKey_encode k))"
    using ok by (simp add: bitmap_ok_def)
  show "same w w'"
    using run w g gf gr by (cases r1)
      (auto simp: load_committed_def CodecBlobTable_get_def bitmap_codec_def io_bind_def same_def Let_def
        split: if_splits sum.splits)
  assume r: "r = Inr b"
  note cut = bits_cut [OF c]
  show "bits X (take n A) k \<subseteq> rb_set X b \<and> rb_set X b \<subseteq> bits X A k"
  proof (cases "c \<le> bik_page k")
    case True
    then have "bits X (take n A) k = {}" using cut(1) by (auto simp: not_less [symmetric])
    moreover have "b = rb_new X" using True run r by (simp add: load_committed_def)
    ultimately show ?thesis using bitmap_laws by (simp add: bitmap_laws_def)
  next
    case False
    with run r g obtain x where x: "r1 = Inr x" "map_transpose (BitmapIndexValue_decode X) x = Inr v \<Longrightarrow>
        b = (let bm = (case v of None \<Rightarrow> rb_new X | Some v \<Rightarrow> biv_bitmap v) in
          if c < saturating_add (bik_page k) PAGE_SPAN then rb_remove_from X (ucast (c - bik_page k)) bm else bm)" for v
      by (cases r1) (auto simp: load_committed_def CodecBlobTable_get_def bitmap_codec_def io_bind_def Let_def
          split: sum.splits)
    have xb: "x = blobs w ''bitmap_index'' (BitmapIndexKey_encode k)" using gf x(1) by simp
    obtain bm where bm: "bits X (take n A) k \<subseteq> rb_set X bm" "rb_set X bm \<subseteq> bits X A k"
      "b = (if c < saturating_add (bik_page k) PAGE_SPAN
            then rb_remove_from X (ucast (c - bik_page k)) bm else bm)"
    proof (cases x)
      case None
      with pg xb x(2) [of None] show ?thesis
        using bitmap_laws by (intro that [of "rb_new X"]) (auto simp: page_ok_def bitmap_laws_def)
    next
      case (Some bs)
      with xb have "page_ok X A (take n A) k (Some bs)" using pg by simp
      then obtain bm where bm: "bs = BitmapIndexValue_encode X (page_value (bik_page k) bm)"
        "bits X (take n A) k \<subseteq> rb_set X bm" "rb_set X bm \<subseteq> bits X A k"
        by (auto simp: page_ok_def)
      with Some x(2) [of "Some (page_value (bik_page k) bm)"] show ?thesis
        by (intro that [of bm]) (simp_all add: BitmapIndexValue_roundtrip [OF bitmap_laws] page_value_def)
    qed
    have "rb_set X (rb_remove_from X i bm) = {j \<in> rb_set X bm. j < i}" for i
      using bitmap_laws by (simp add: bitmap_laws_def)
    with bm cut(2) show ?thesis by auto
  qed
qed

text \<open>The page written for a key: within the chain, and complete up to block \<open>m\<close>.\<close>

definition good_page :: "nat \<Rightarrow> bitmap_index_key \<Rightarrow> 'b \<Rightarrow> bool" where
  "good_page m k bm \<longleftrightarrow> bits X (take m A) k \<subseteq> rb_set X bm \<and> rb_set X bm \<subseteq> bits X A k"

definition stats_of :: "bitmap_index_key \<Rightarrow> 'b \<Rightarrow> (page_stats_key \<times> u32) option" where
  "stats_of k bm =
     (if rb_is_empty X bm then None
      else Some (BitmapPageStatsKey (bik_family k) (bik_filter k) (bik_page k), ucast (rb_len X bm)))"

lemma batch_committed_base:
  assumes "fb_blocks batch = take k (drop n A)" "0 < k" "n + k \<le> length blocks"
  shows "unat (batch_committed X batch f) = base X start A f n"
proof -
  have "fb_blocks batch = A ! n # tl (fb_blocks batch)"
    using assms by (cases k) (auto simp: Cons_nth_drop_Suc [symmetric])
  then have "batch_committed X batch f = fst (family_rows X f (A ! n))"
    by (cases f; cases "fb_blocks batch") (auto simp: batch_committed_def family_rows_def Let_def)
  then show ?thesis using base_first [of n f] assms by simp
qed

lemma page_update_ok:
  assumes w: "winv w" and ok: "bitmap_ok X A n (blobs w)" and as: "fb_blocks batch = take k (drop n A)"
    and k: "0 < k" "n + k \<le> length blocks" and pend: "rb_set X pending = bits X (take k (drop n A)) key"
    and run: "page_update X bitmap_T batch (key, pending) w = (r, w')"
  shows "same w w' \<and> (\<forall>u. r = Inr u \<longrightarrow>
    (\<exists>bm. good_page (n + k) key bm \<and> u = ((key, page_value (bik_page key) bm), stats_of key bm)))"
proof -
  note load = load_committed_ok [OF w ok batch_committed_base [OF as k]]
  from run [unfolded page_update_def, simplified] show ?thesis
  proof (cases rule: io_bind_cases)
    case (fail e)
    with load(1) show ?thesis by blast
  next
    case (ok old w1)
    let ?bm = "rb_union X old pending"
    have "rb_set X ?bm = rb_set X old \<union> bits X (take k (drop n A)) key"
      using bitmap_laws pend by (simp add: bitmap_laws_def)
    moreover have "bits X (take k (drop n A)) key \<subseteq> bits X A key"
      by (rule bits_mono [OF set_batch])
    moreover have "bits X (take (n + k) A) key =
        bits X (take n A) key \<union> bits X (take k (drop n A)) key"
      by (simp add: take_add bits_append)
    ultimately have "good_page (n + k) key ?bm"
      using load(2) [OF ok(1) refl] by (auto simp: good_page_def)
    moreover have "same w w'" "r = Inr ((key, page_value (bik_page key) ?bm), stats_of key ?bm)"
      using load(1) [OF ok(1)] ok(2) by (auto simp: Let_def page_value_def stats_of_def)
    ultimately show ?thesis by blast
  qed
qed

definition page_put :: "bitmap_index_key \<Rightarrow> 'b \<Rightarrow> blob_put" where
  "page_put k bm =
     \<lparr>bp_table = ''bitmap_index'', bp_key = BitmapIndexKey_encode k,
      bp_value = BitmapIndexValue_encode X (page_value (bik_page k) bm)\<rparr>"

lemma page_ok_good: "good_page m k bm \<Longrightarrow> j \<le> m \<Longrightarrow>
    page_ok X A (take j A) k (Some (BitmapIndexValue_encode X (page_value (bik_page k) bm)))"
  using bits_mono [OF set_take_mono [of j m A], of X k] by (auto simp: page_ok_def good_page_def)

lemma bitmap_ok_partial:
  assumes "blobs_partial ps B B'" "\<forall>x \<in> set ps. \<exists>k bm. good_page m k bm \<and> x = page_put k bm"
    and "bitmap_ok X A j B" "j \<le> m"
  shows "bitmap_ok X A j B'"
  unfolding bitmap_ok_def
proof
  fix k
  let ?e = "BitmapIndexKey_encode k"
  from assms(1) consider "B' ''bitmap_index'' ?e = B ''bitmap_index'' ?e"
    | x where "x \<in> set ps" "bp_key x = ?e" "B' ''bitmap_index'' ?e = Some (bp_value x)"
    unfolding blobs_partial_def by blast
  then show "page_ok X A (take j A) k (B' ''bitmap_index'' ?e)"
  proof cases
    case 1
    with assms(3) show ?thesis by (simp add: bitmap_ok_def)
  next
    case 2
    with assms(2) obtain k' bm where "good_page m k' bm" "x = page_put k' bm" by blast
    with 2 page_ok_good [of m k bm j] assms(4) show ?thesis by (auto simp: page_put_def)
  qed
qed

lemma bitmap_ok_commit:
  assumes ok: "bitmap_ok X A n B" and ps: "ps = map (\<lambda>(k, bm). page_put k bm) us"
    and good: "\<forall>(k, bm) \<in> set us. good_page (n + d) k bm" and dist: "distinct (map fst us)"
    and all: "\<And>k. bits X (take d (drop n A)) k \<noteq> {} \<Longrightarrow> k \<in> fst ` set us"
    and B': "B' = blob_upd_all ps B"
  shows "bitmap_ok X A (n + d) B'"
    and "(k, bm) \<in> set us \<Longrightarrow>
      B' ''bitmap_index'' (BitmapIndexKey_encode k) = Some (BitmapIndexValue_encode X (page_value (bik_page k) bm))"
proof -
  have dist': "distinct (map (\<lambda>p. (bp_table p, bp_key p)) ps)"
  proof -
    have "map (\<lambda>p. (bp_table p, bp_key p)) ps =
        map (\<lambda>k. (''bitmap_index'', BitmapIndexKey_encode k)) (map fst us)"
      by (simp add: ps page_put_def case_prod_unfold comp_def)
    then show ?thesis using dist by (simp only: distinct_map) (auto simp: inj_on_def)
  qed
  have put: "B' ''bitmap_index'' (BitmapIndexKey_encode k) =
      Some (BitmapIndexValue_encode X (page_value (bik_page k) bm))" if "(k, bm) \<in> set us" for k bm
  proof -
    have "page_put k bm \<in> set ps" using that by (force simp: ps)
    from blob_upd_all_distinct [OF dist' this, of B] show ?thesis by (simp add: B' page_put_def)
  qed
  show "B' ''bitmap_index'' (BitmapIndexKey_encode k) =
      Some (BitmapIndexValue_encode X (page_value (bik_page k) bm))" if "(k, bm) \<in> set us"
    using put [OF that] .
  show "bitmap_ok X A (n + d) B'"
    unfolding bitmap_ok_def
  proof
    fix k
    show "page_ok X A (take (n + d) A) k (B' ''bitmap_index'' (BitmapIndexKey_encode k))"
    proof (cases "k \<in> fst ` set us")
      case True
      then obtain bm where "(k, bm) \<in> set us" by force
      with put good page_ok_good [of "n + d" k bm "n + d"] show ?thesis by auto
    next
      case False
      then have "B' ''bitmap_index'' (BitmapIndexKey_encode k) = B ''bitmap_index'' (BitmapIndexKey_encode k)"
        unfolding B' by (intro blob_upd_all_other) (force simp: ps page_put_def)
      moreover have b: "bits X (take (n + d) A) k = bits X (take n A) k"
        using all [of k] False by (auto simp: take_add bits_append)
      ultimately show ?thesis
        using ok [unfolded bitmap_ok_def, rule_format, of k] unfolding page_ok_def b by simp
    qed
  qed
qed

lemma set_map_filter_iff: "y \<in> set (List.map_filter f xs) \<longleftrightarrow> (\<exists>x \<in> set xs. f x = Some y)"
  by (induction xs) (auto simp: map_filter_simps split: option.splits)

lemma stats_commit:
  assumes dist: "distinct (map fst us)" and us: "(k, bm) \<in> set us" "rb_set X bm \<noteq> {}"
    and R': "R' = rows_put_all ''bitmap_page_stats'' (map (\<lambda>kv.
      \<lparr>row_key = sch_key page_stats_schema (fst kv), row_columns = sch_columns page_stats_schema (snd kv)\<rparr>)
      (sort_key g (List.map_filter (\<lambda>(k, bm). stats_of k bm) us))) R"
  shows "holds R' page_stats_schema (BitmapPageStatsKey (bik_family k) (bik_filter k) (bik_page k))
    (ucast (rb_len X bm))"
proof -
  let ?f = "\<lambda>(k, bm). stats_of k bm" and ?row = "\<lambda>kv.
    \<lparr>row_key = sch_key page_stats_schema (fst kv), row_columns = sch_columns page_stats_schema (snd kv)\<rparr>"
  let ?kv = "(BitmapPageStatsKey (bik_family k) (bik_filter k) (bik_page k), ucast (rb_len X bm) :: u32)"
  have "stats_of k bm = Some ?kv"
    using us(2) bitmap_laws by (simp add: stats_of_def bitmap_laws_def)
  then have mem: "?kv \<in> set (List.map_filter ?f us)" using us(1) by (force simp: set_map_filter_iff)
  have key: "stats_of k bm = Some kv \<Longrightarrow> fst kv = BitmapPageStatsKey (bik_family k) (bik_filter k) (bik_page k)" for k bm kv
    by (auto simp: stats_of_def split: if_splits)
  have inj: "BitmapPageStatsKey (bik_family k) (bik_filter k) (bik_page k) =
      BitmapPageStatsKey (bik_family k') (bik_filter k') (bik_page k') \<longleftrightarrow> k = k'" for k k'
    by (cases k; cases k') simp
  have "distinct (map fst (List.map_filter ?f us))"
    using dist
  proof (induction us)
    case (Cons u us)
    obtain k' bm' where u: "u = (k', bm')" by force
    have "fst kv \<noteq> fst kv'" if "stats_of k' bm' = Some kv" "(k2, bm2) \<in> set us" "stats_of k2 bm2 = Some kv'"
      for kv kv' k2 bm2
      using key [OF that(1)] key [OF that(3)] inj [of k' k2] Cons.prems that(2) by (auto simp: u image_iff)
    then have "fst kv \<notin> fst ` set (List.map_filter ?f us)" if "stats_of k' bm' = Some kv" for kv
      using that by (fastforce simp: set_map_filter_iff)
    with Cons show ?case by (cases "stats_of k' bm'") (simp_all add: u map_filter_simps)
  qed (simp add: map_filter_simps)
  then have "distinct (map fst (sort_key g (List.map_filter ?f us)))"
    by (metis distinct_map mset_eq_imp_distinct_iff mset_map mset_sort)
  then have "distinct (map row_key (map ?row (sort_key g (List.map_filter ?f us))))"
    by (auto simp: distinct_map inj_on_def stats_table.key_inject)
  moreover have "?row ?kv \<in> set (map ?row (sort_key g (List.map_filter ?f us)))"
    using mem unfolding set_map set_sort by (rule imageI)
  ultimately show ?thesis
    using rows_put_all_distinct [of "map ?row (sort_key g (List.map_filter ?f us))" "?row ?kv"
        "''bitmap_page_stats''" R]
    by (simp add: holds_def R')
qed

lemma bitmap_stage:
  assumes w: "winv w" and d: "0 < d" "n + d \<le> length blocks" and m: "n \<le> m" "m \<le> n + d"
    and ok_m: "bitmap_ok X A m (blobs w)"
    and as: "fb_blocks batch = take d (drop n A)"
    and run: "bitmap_flush X bitmap_T ms batch w = (r, w')"
  shows "winv w' \<and> (\<forall>t. t \<noteq> ''bitmap_page_stats'' \<longrightarrow> rows w' t = rows w t) \<and>
    (\<forall>t. t \<noteq> ''bitmap_index'' \<longrightarrow> blobs w' t = blobs w t) \<and> bitmap_ok X A m (blobs w') \<and>
    (r = Inr () \<longrightarrow> bitmap_ok X A (n + d) (blobs w') \<and>
       stats_ok X (take d (drop n A)) (rows w') (blobs w'))"
proof -
  let ?as = "take d (drop n A)"
  have ok_n: "bitmap_ok X A n (blobs w)" by (rule bitmap_ok_mono [OF ok_m m(1)])
  from run [unfolded bitmap_flush_def as] show ?thesis
  proof (cases rule: io_bind_cases)
    case (fail e)
    with w ok_m show ?thesis by auto
  next
    case (ok pages w0)
    then have pages: "pending_pages X ?as = Inr pages" "w0 = w" by auto
    note inv = pending_pages_entries [OF pages(1) bitmap_laws]
    let ?ps = "hash_iter X pages"
    have ms_eq: "mset ?ps = mset pages" by (rule mset_hash_iter [OF local.ext])
    then have sets: "set ?ps = set pages" by (metis set_mset_mset)
    have pend: "rb_set X b = bits X ?as key" "bits X ?as key \<noteq> {}" if "(key, b) \<in> set ?ps" for key b
      using pages_mem(1) [OF inv] that by (simp_all add: sets bits_ebits)
    obtain r1 w1 where r1: "io_map (page_update X bitmap_T batch) ?ps w = (r1, w1)" by (meson surj_pair)
    have upd: "same w w1 \<and> (\<forall>us. r1 = Inr us \<longrightarrow> list_all2 (\<lambda>p u. \<exists>x. (fst x = fst p \<and> good_page (n + d) (fst x) (snd x)) \<and>
        u = ((fst x, page_value (bik_page (fst x)) (snd x)), stats_of (fst x) (snd x))) ?ps us)"
    proof (rule io_map_inv [where P = "same w", OF _ same_refl [OF w] r1])
      fix p v q v' assume p: "p \<in> set ?ps" and s: "same w v"
        and c: "page_update X bitmap_T batch p v = (q, v')"
      obtain key b where kb: "p = (key, b)" by force
      have v: "winv v" "bitmap_ok X A n (blobs v)" using s ok_n by (simp_all add: same_def)
      from page_update_ok [OF v as d pend(1) c [unfolded kb]] p kb same_trans [OF s]
      show "same w v' \<and> (\<forall>u. q = Inr u \<longrightarrow> (\<exists>x. (fst x = fst p \<and> good_page (n + d) (fst x) (snd x)) \<and>
        u = ((fst x, page_value (bik_page (fst x)) (snd x)), stats_of (fst x) (snd x))))"
        by auto
    qed
    have w1: "winv w1" "rows w1 = rows w" "blobs w1 = blobs w" using upd by (auto simp: same_def)
    from ok(2) [unfolded pages(2)] show ?thesis
    proof (cases rule: io_bind_cases)
      case (fail e)
      with r1 w1 ok_m show ?thesis by auto
    next
      case ok2: (ok updates w2)
      with r1 have w2: "w2 = w1" "r1 = Inr updates" by auto
      from upd w2(2) obtain us where
        us1: "list_all2 (\<lambda>x p. fst x = fst p \<and> good_page (n + d) (fst x) (snd x)) us ?ps"
        and us2: "list_all2 (\<lambda>x u. u = ((fst x, page_value (bik_page (fst x)) (snd x)), stats_of (fst x) (snd x))) us updates"
        using list_all2_choose [of "\<lambda>x p. fst x = fst p \<and> good_page (n + d) (fst x) (snd x)"
            "\<lambda>x u. u = ((fst x, page_value (bik_page (fst x)) (snd x)), stats_of (fst x) (snd x))" ?ps updates]
        by blast
      have updates: "updates = map (\<lambda>x. ((fst x, page_value (bik_page (fst x)) (snd x)), stats_of (fst x) (snd x))) us"
        using us2 by (auto simp: list_all2_conv_all_nth list_eq_iff_nth_eq)
      have keys: "map fst us = map fst ?ps"
        using us1 by (auto simp: list_all2_conv_all_nth list_eq_iff_nth_eq)
      have dist: "distinct (map fst us)"
        unfolding keys using inv ms_eq by (metis mset_eq_imp_distinct_iff mset_map pages_inv_def)
      have good: "\<forall>(k, bm) \<in> set us. good_page (n + d) k bm"
        using us1 by (fastforce simp: list_all2_conv_all_nth in_set_conv_nth)
      have all: "k \<in> fst ` set us" if "bits X ?as k \<noteq> {}" for k
        using pages_mem(2) [OF inv] that keys sets by (metis bits_ebits image_set)
      let ?puts = "map (\<lambda>(k, bm). page_put k bm) us"
      have enc: "CodecBlobTable_put_batch bitmap_T (bitmap_codec X) (map fst updates) = bs_put_batch bs ?puts"
        by (subst put_batch_encoded [where enc = "BitmapIndexValue_encode X"])
           (simp_all add: bitmap_codec_def updates comp_def page_put_def case_prod_unfold)
      have valid: "\<forall>x \<in> set ?puts. \<exists>k bm. good_page (n + d) k bm \<and> x = page_put k bm"
        using good by fastforce
      have stats: "List.map_filter snd updates = List.map_filter (\<lambda>(k, bm). stats_of k bm) us"
        by (simp add: updates map_filter_def filter_map comp_def case_prod_unfold)
      have frame: "\<forall>x \<in> set ?puts. bp_table x \<noteq> t" if "t \<noteq> ''bitmap_index''" for t
        using that by (auto simp: page_put_def)
      note put = B.put_batch [OF w1(1), of ?puts] and put_rows = bput_batch_rows [OF w1(1), of ?puts]
      from ok2(2) [unfolded enc w2(1) Let_def] show ?thesis
      proof (cases rule: io_bind_cases)
        case (fail e)
        with put [OF fail(1)] put_rows [OF fail(1)] w1 show ?thesis
          using bitmap_ok_partial [OF _ valid ok_m m(2)] blobs_partial_frame [OF _ frame]
          by (metis sum.distinct(1))
      next
        case ok3: (ok u w3)
        from put [OF ok3(1)] put_rows [OF ok3(1)] w1
        have w3: "winv w3" "rows w3 = rows w" "blobs w3 = blob_upd_all ?puts (blobs w)" by auto
        note fin = table_put_batch_rows [OF stats_table.meta_schema_axioms w3(1) ok3(2)]
        have ok_fin: "bitmap_ok X A (n + d) (blobs w3)"
          by (rule bitmap_ok_commit(1) [OF ok_n refl good dist all w3(3)])
        have "stats_ok X ?as (rows w') (blobs w3)" if "r = Inr ()"
          unfolding stats_ok_def
        proof (intro allI impI)
          fix k assume b: "bits X ?as k \<noteq> {}"
          then obtain bm where bm: "(k, bm) \<in> set us" using all by force
          have "bits X ?as k \<subseteq> bits X (take (n + d) A) k" by (simp add: take_add bits_append)
          then have "rb_set X bm \<noteq> {}" using b bm good by (auto simp: good_page_def)
          moreover have "rows w' = rows_put_all ''bitmap_page_stats'' (map (\<lambda>kv.
              \<lparr>row_key = sch_key page_stats_schema (fst kv), row_columns = sch_columns page_stats_schema (snd kv)\<rparr>)
              (sort_key (\<lambda>(k, _). (ps_family k, ps_filter k, ps_page k))
                (List.map_filter (\<lambda>(k, bm). stats_of k bm) us))) (rows w3)"
            using fin that by (simp add: stats)
          ultimately show "\<exists>bm. blobs w3 ''bitmap_index'' (BitmapIndexKey_encode k) =
              Some (BitmapIndexValue_encode X (page_value (bik_page k) bm)) \<and>
            holds (rows w') page_stats_schema
              (BitmapPageStatsKey (bik_family k) (bik_filter k) (bik_page k)) (ucast (rb_len X bm))"
            using bitmap_ok_commit(2) [OF ok_n refl good dist all w3(3) bm] stats_commit [OF dist bm] by blast
        qed
        moreover have "bitmap_ok X A m (blobs w3)"
          using bitmap_ok_partial [OF _ valid ok_m m(2)] blobs_partial_all [of ?puts] w3(3) by simp
        moreover have "blobs w3 t = blobs w t" if "t \<noteq> ''bitmap_index''" for t
          using blobs_partial_frame [OF blobs_partial_all frame [OF that]] w3(3) by simp
        moreover have "rows w' t = rows w t" if "t \<noteq> ''bitmap_page_stats''" for t
          using rows_partial_frame [OF fin [THEN conjunct2, THEN conjunct2, THEN conjunct1], of t] that w3(2)
          by simp
        ultimately show ?thesis using fin ok_fin by auto
      qed
    qed
  qed
qed

end

end
