(* ===== verification/Writer_Correct.thy ===== *)
theory Writer_Correct
  imports Bitmap_Stage
begin

text \<open>
  The writer as a whole.  \<open>writer_inv X start blocks A n m W R B\<close> relates a writer with \<open>n\<close>
  blocks in its in-memory state to stores that hold the index of \<open>m\<close> blocks.  The two
  differ only after a state write that took effect although it was reported as failed; the
  pending blocks then include the extra ones.  \<open>open\<close> establishes the invariant, \<open>append\<close>
  and \<open>flush\<close> keep it, whatever the stores do within their contract.
\<close>

section \<open>The invariant\<close>

definition last_hash_ok ::
  "('h, 'b) externals \<Rightarrow> 'h writer_block list \<Rightarrow> nat \<Rightarrow> b256 option \<Rightarrow> bool" where
  "last_hash_ok X blocks n h \<longleftrightarrow> h = (if n = 0 then None else Some (block_hash X (blocks ! (n - 1))))"

definition durable ::
  "('h, 'b) externals \<Rightarrow> u64 \<Rightarrow> 'h assigned_block list \<Rightarrow> nat \<Rightarrow> meta_rows \<Rightarrow> blobs \<Rightarrow> bool" where
  "durable X start A m R B \<longleftrightarrow> m \<le> length A \<and> index_ok X start A m R B \<and> state_row X start A m R"

definition writer_inv ::
  "('h, 'b) externals \<Rightarrow> u64 \<Rightarrow> 'h writer_block list \<Rightarrow> 'h assigned_block list \<Rightarrow> nat \<Rightarrow> nat
     \<Rightarrow> ('w, 'h) query_writer \<Rightarrow> meta_rows \<Rightarrow> blobs \<Rightarrow> bool" where
  "writer_inv X start blocks A n m W R B \<longleftrightarrow>
     writer_state X start A n (qw_state W) \<and>
     qw_pending W = take (length (qw_pending W)) (drop n blocks) \<and>
     n + length (qw_pending W) \<le> length blocks \<and>
     last_hash_ok X blocks n (qw_last_block_hash W) \<and>
     n \<le> m \<and> m \<le> n + length (qw_pending W) \<and> durable X start A m R B"

text \<open>Each block names its predecessor's hash.\<close>

definition linked :: "('h, 'b) externals \<Rightarrow> 'h writer_block list \<Rightarrow> bool" where
  "linked X blocks \<longleftrightarrow>
     (\<forall>i. Suc i < length blocks \<longrightarrow> parent_hash X (blocks ! Suc i) = block_hash X (blocks ! i))"

definition fresh_writer :: "('w, 'h) query_writer \<Rightarrow> bool" where
  "fresh_writer W \<longleftrightarrow> qw_state W = StateIndex_default \<and> qw_pending W = [] \<and> qw_last_block_hash W = None"

section \<open>Preparing a flush\<close>

context chain
begin

lemma checked_add_last:
  assumes "0 < k" "n + k \<le> length blocks"
  shows "checked_add (block_number X (blocks ! (n + k - 1))) 1 =
    Some (of_nat (base X start A BlockHeader (n + k)))"
proof -
  have u: "unat (block_number X (blocks ! (n + k - 1))) = unat start + (n + k - 1)"
    using assms by (intro unat_number) simp
  have "unat start + (n + k) < 2 ^ 64" using start_bound assms by simp
  then have "checked_add (block_number X (blocks ! (n + k - 1))) 1 =
      Some (block_number X (blocks ! (n + k - 1)) + 1)"
    using u assms by (simp add: checked_add_def)
  moreover have "block_number X (blocks ! (n + k - 1)) + 1 = of_nat (unat start + (n + k))"
  proof -
    have "block_number X (blocks ! (n + k - 1)) = of_nat (unat start + (n + k - 1))"
      by (metis u of_nat_unat ucast_id)
    then show ?thesis using assms by (simp add: of_nat_diff)
  qed
  ultimately show ?thesis using base_header [OF assms(2)] by simp
qed

lemma prepare_flush_chain:
  assumes st: "writer_state X start A n (qw_state W)"
    and p: "qw_pending W = take k (drop n blocks)" "0 < k" "n + k \<le> length blocks"
  shows "prepare_flush X W =
    (Inr (Some \<lparr>fb_blocks = take k (drop n A), fb_state = state_at X start A (n + k)\<rparr>),
     W\<lparr>qw_pending := []\<rparr>)"
proof -
  have ne: "qw_pending W \<noteq> []" using p by auto
  have "(next_tx_id (qw_state W), next_log_id (qw_state W), next_trace_id (qw_state W)) = ids_at n"
    using st by (auto simp: writer_state_def state_at_def StateIndex_default_def ids_at_def base_def
        first_base_def)
  then have asg: "assign_ids (next_tx_id (qw_state W), next_log_id (qw_state W), next_trace_id (qw_state W))
      (qw_pending W) = Inr (ids_at (n + k), take k (drop n A))"
    using assign_segment [OF p(3)] p(1) by simp
  have hd: "hd (qw_pending W) = blocks ! n" "last (qw_pending W) = blocks ! (n + k - 1)"
    using p by (simp_all add: hd_conv_nth last_conv_nth)
  have "(case indexed_start (qw_state W) of None \<Rightarrow> Some (block_number X (hd (qw_pending W))) | Some s \<Rightarrow> Some s) = Some start"
    unfolding hd using st p number_nth [of n] by (auto simp: writer_state_def state_at_def StateIndex_default_def)
  with ne asg checked_add_last [OF p(2,3)] show ?thesis
    by (simp add: prepare_flush_def Let_def ids_at_def state_at_def hd(2))
qed

end

section \<open>One batch\<close>

definition query_tables_on :: "'w meta_store \<Rightarrow> 'w blob_store \<Rightarrow> 'w query_tables" where
  "query_tables_on ms bs = QueryTables_new bs ms ms bs ms ms"

lemma query_tables_on_sel [simp]:
  "qt_bitmap_index (query_tables_on ms bs) = \<lparr>cbt_table = ''bitmap_index'', cbt_store = bs\<rparr>"
  "qt_payload (query_tables_on ms bs) = \<lparr>cbt_table = ''payload'', cbt_store = bs\<rparr>"
  "qt_page_stats (query_tables_on ms bs) = ms" "qt_block_hash (query_tables_on ms bs) = ms"
  "qt_family (query_tables_on ms bs) = ms" "qt_family_block_index (query_tables_on ms bs) = ms"
  "qt_payload_location (query_tables_on ms bs) = ms" "qt_state (query_tables_on ms bs) = ms"
  by (simp_all add: query_tables_on_def QueryTables_new_def)

lemma meta_ok_frame: "\<lbrakk>meta_ok X A n R; \<forall>t \<in> meta_tables. R' t = R t\<rbrakk> \<Longrightarrow> meta_ok X A n R'"
  by (auto simp: meta_ok_def meta_tables_def intro: tab_ok_frame)

lemma payload_ok_frame: "\<lbrakk>payload_ok X s A n B; B' ''payload'' = B ''payload''\<rbrakk> \<Longrightarrow> payload_ok X s A n B'"
  by (simp add: payload_ok_def pfam_ok_def payload_blob_def)

lemma bitmap_ok_frame: "\<lbrakk>bitmap_ok X A n B; B' ''bitmap_index'' = B ''bitmap_index''\<rbrakk> \<Longrightarrow> bitmap_ok X A n B'"
  by (simp add: bitmap_ok_def)

lemma state_row_frame:
  "\<lbrakk>state_row X s A m R; R' ''state_index'' = R ''state_index''\<rbrakk> \<Longrightarrow> state_row X s A m R'"
  by (simp add: state_row_def holds_def)

context query_stores
begin

lemma table_put_row:
  assumes "meta_schema ts okv" "winv w" "MetaTable_put ms ts k v w = (r, w')"
  shows "winv w' \<and> blobs w' = blobs w \<and> (\<forall>t. t \<noteq> TABLE ts \<longrightarrow> rows w' t = rows w t) \<and>
    (r = Inr () \<longrightarrow> holds (rows w') ts k v) \<and>
    (rows w' = rows w \<or> holds (rows w') ts k v)"
proof -
  note mt = meta_table.intro [OF M.meta_store_axioms assms(1)]
  note f = meta_table.table_put [OF mt assms(2,3)]
  have "blobs w' = blobs w"
    using put_blobs [OF assms(2)] assms(3)
    by (simp add: MetaTable_put_def meta_schema.schema_row_total [OF assms(1)])
  moreover have "rows w' = rows w \<or> holds (rows w') ts k v"
  proof (cases "rows w' (TABLE ts) (sch_key ts k) = rows w (TABLE ts) (sch_key ts k)")
    case True
    have "rows w' t q = rows w t q" for t q
      using f(3) True unfolding rows_partial_def meta_schema.row_of_def [OF assms(1)] by fastforce
    then show ?thesis by (intro disjI1 HOL.ext)
  next
    case False
    then show ?thesis
      using f(3) unfolding rows_partial_def holds_def meta_schema.row_of_def [OF assms(1)] by fastforce
  qed
  ultimately show ?thesis
    using f rows_partial_frame [OF f(3)]
    by (auto simp: holds_def meta_schema.row_of_def [OF assms(1)])
qed

end

context index_writer
begin

text \<open>
  How far each group of tables has come: payloads for \<open>p\<close> blocks, bitmaps for \<open>b\<close>, metadata
  for \<open>d\<close>, with the state row still at \<open>m\<close>.
\<close>

definition progress :: "nat \<Rightarrow> nat \<Rightarrow> nat \<Rightarrow> nat \<Rightarrow> 'w \<Rightarrow> bool" where
  "progress m p b d w \<longleftrightarrow> winv w \<and>
     tab_ok payload_location_schema (true_locations X start A) (location_puts X start A p) (rows w) \<and>
     payload_ok X start A p (blobs w) \<and> bitmap_ok X A b (blobs w) \<and> meta_ok X A d (rows w) \<and>
     state_row X start A m (rows w)"

lemma progress_index:
  "\<lbrakk>progress m p b d w; j \<le> p; j \<le> b; j \<le> d\<rbrakk> \<Longrightarrow> index_ok X start A j (rows w) (blobs w)"
  by (auto simp: progress_def index_ok_def
      intro: payload_ok_mono bitmap_ok_mono meta_ok_mono location_ok_mono)

lemma progress_start:
  "\<lbrakk>winv w; index_ok X start A m (rows w) (blobs w); state_row X start A m (rows w)\<rbrakk> \<Longrightarrow> progress m m m m w"
  by (simp add: progress_def index_ok_def)

lemma payload_progress:
  assumes "writer_state X start A n st" "n + k \<le> length blocks" "n \<le> m" "m \<le> n + k"
    and "fb_blocks batch = take k (drop n A)" "progress m m m m w"
    and "payload_flush X payload_T ms st batch w = (r, w')"
  shows "progress m m m m w' \<and> (r = Inr () \<longrightarrow> progress m (n + k) m m w')"
proof -
  note p = assms(6) [unfolded progress_def]
  note s = payload_stage [OF conjunct1 [OF p] assms(1-4) _ _ assms(5,7)]
  show ?thesis
    using p s bitmap_ok_frame [of X A m "blobs w" "blobs w'"] meta_ok_frame [of X A m "rows w" "rows w'"]
      state_row_frame [of X start A m "rows w" "rows w'"]
    unfolding progress_def by (simp add: meta_tables_def)
qed

lemma bitmap_progress:
  assumes "0 < k" "n + k \<le> length blocks" "n \<le> m" "m \<le> n + k"
    and "fb_blocks batch = take k (drop n A)" "progress m p m m w"
    and "bitmap_flush X bitmap_T ms batch w = (r, w')"
  shows "progress m p m m w' \<and> (r = Inr () \<longrightarrow> progress m p (n + k) m w' \<and>
    stats_ok X (take k (drop n A)) (rows w') (blobs w'))"
proof -
  note q = assms(6) [unfolded progress_def]
  note s = bitmap_stage [OF conjunct1 [OF q] assms(1-4) _ assms(5,7)]
  show ?thesis
    using q s payload_ok_frame [of X start A p "blobs w" "blobs w'"] meta_ok_frame [of X A m "rows w" "rows w'"]
      state_row_frame [of X start A m "rows w" "rows w'"]
      tab_ok_frame [of payload_location_schema _ _ "rows w" "rows w'"]
    unfolding progress_def by (simp add: meta_tables_def)
qed

lemma metadata_progress:
  assumes "n \<le> m" "fb_blocks batch = take k (drop n A)" "progress m p b m w"
    and "metadata_flush X ms ms ms batch w = (r, w')"
  shows "progress m p b m w' \<and> blobs w' = blobs w \<and> rows w' ''bitmap_page_stats'' = rows w ''bitmap_page_stats'' \<and>
    (r = Inr () \<longrightarrow> progress m p b (n + k) w')"
proof -
  note q = assms(3) [unfolded progress_def]
  note s = metadata_stage [OF conjunct1 [OF q] _ assms(1,2,4)]
  show ?thesis
    using q s state_row_frame [of X start A m "rows w" "rows w'"]
      tab_ok_frame [of payload_location_schema _ _ "rows w" "rows w'"]
    unfolding progress_def by (simp add: meta_tables_def)
qed

lemma state_progress:
  assumes "progress m p p p w" "m \<le> p"
    and "MetaTable_put ms state_index_schema StateIndexKey (state_at X start A p) w = (r, w')"
  shows "winv w' \<and> blobs w' = blobs w \<and> rows w' ''bitmap_page_stats'' = rows w ''bitmap_page_stats'' \<and>
    index_ok X start A p (rows w') (blobs w') \<and>
    (state_row X start A p (rows w') \<or> (r \<noteq> Inr () \<and> state_row X start A m (rows w')))"
proof -
  note q = assms(1) [unfolded progress_def]
  note s = table_put_row [OF state_table.meta_schema_axioms conjunct1 [OF q] assms(3)]
  have "progress m p p p w" "\<forall>t. t \<noteq> ''state_index'' \<longrightarrow> rows w' t = rows w t"
    using assms(1) s by simp_all
  then have "index_ok X start A p (rows w') (blobs w')"
    using s meta_ok_frame [of X A p "rows w" "rows w'"]
      tab_ok_frame [of payload_location_schema _ _ "rows w" "rows w'"]
    unfolding progress_def index_ok_def by (simp add: meta_tables_def)
  moreover have "state_row X start A p (rows w')" if "holds (rows w') state_index_schema StateIndexKey (state_at X start A p)"
    using that by (simp add: state_row_def)
  ultimately show ?thesis using s q by auto
qed

lemma flush_batch_safe:
  assumes w: "winv w" and st: "writer_state X start A n (qw_state W)"
    and T: "qw_tables W = query_tables_on ms bs"
    and k: "0 < k" "n + k \<le> length blocks" and m: "n \<le> m" "m \<le> n + k"
    and ok: "index_ok X start A m (rows w) (blobs w)" "state_row X start A m (rows w)"
    and batch: "fb_blocks batch = take k (drop n A)" "fb_state batch = state_at X start A (n + k)"
    and run: "flush_batch_io X W batch w = (r, w')"
  shows "winv w' \<and> (\<exists>m'. m \<le> m' \<and> m' \<le> n + k \<and> (r = Inr () \<longrightarrow> m' = n + k) \<and>
    index_ok X start A m' (rows w') (blobs w') \<and> state_row X start A m' (rows w')) \<and>
    (r = Inr () \<longrightarrow> stats_ok X (take k (drop n A)) (rows w') (blobs w'))"
proof -
  have stop: ?thesis if "progress m p b d w'" "m \<le> p" "m \<le> b" "m \<le> d" "r = Inl e" for p b d e
    using progress_index [OF that(1-4)] that(1,5) m(2) unfolding progress_def by blast
  note p1 = payload_progress [OF st k(2) m batch(1) progress_start [OF w ok]]
  from run [unfolded flush_batch_io_def T Let_def query_tables_on_sel batch(2)] show ?thesis
  proof (cases rule: io_bind_cases)
    case (fail e)
    with p1 [OF fail(1)] stop show ?thesis by blast
  next
    case (ok u w1)
    have "progress m (n + k) m m w1" using p1 [OF ok(1)] by simp
    note p2 = bitmap_progress [OF k m batch(1) this]
    from ok(2) show ?thesis
    proof (cases rule: io_bind_cases)
      case (fail e)
      with p2 [OF fail(1)] stop m show ?thesis by auto
    next
      case ok2: (ok u2 w2)
      then have q2: "progress m (n + k) (n + k) m w2" "stats_ok X (take k (drop n A)) (rows w2) (blobs w2)"
        using p2 by auto
      note p3 = metadata_progress [OF m(1) batch(1) q2(1)]
      from ok2(2) show ?thesis
      proof (cases rule: io_bind_cases)
        case (fail e)
        with p3 [OF fail(1)] stop m show ?thesis by auto
      next
        case ok3: (ok u3 w3)
        then have q3: "progress m (n + k) (n + k) (n + k) w3" and f3: "blobs w3 = blobs w2"
          "rows w3 ''bitmap_page_stats'' = rows w2 ''bitmap_page_stats''"
          using p3 by auto
        note s = state_progress [OF q3 m(2) ok3(2)]
        have "stats_ok X (take k (drop n A)) (rows w') (blobs w')"
          using q2(2) f3 s by (simp add: stats_ok_def holds_def)
        moreover have "index_ok X start A m (rows w') (blobs w')"
          using s index_ok_mono m(2) by blast
        ultimately show ?thesis using s m by blast
      qed
    qed
  qed
qed

section \<open>The operations keep the invariant\<close>

lemma flush_keeps:
  assumes w: "winv w" and inv: "writer_inv X start blocks A n m W (rows w) (blobs w)"
    and T: "qw_tables W = query_tables_on ms bs" and run: "QueryWriter_flush X W w = (r, W', w')"
  shows "winv w' \<and> qw_tables W' = query_tables_on ms bs \<and>
    (case r of
       Inr _ \<Rightarrow> qw_pending W' = [] \<and>
         writer_inv X start blocks A (n + length (qw_pending W)) (n + length (qw_pending W)) W' (rows w') (blobs w') \<and>
         stats_ok X (take (length (qw_pending W)) (drop n A)) (rows w') (blobs w')
     | Inl _ \<Rightarrow> W' = W \<and> (\<exists>m'. m \<le> m' \<and> writer_inv X start blocks A n m' W (rows w') (blobs w')))"
proof (cases "qw_pending W = []")
  case True
  with run have "r = Inr ()" "W' = W" "w' = w"
    by (simp_all add: QueryWriter_flush_def prepare_flush_def)
  moreover have "stats_ok X [] R B" for R B by (simp add: stats_ok_def bits_def chain_entries_def)
  moreover have "m = n" using inv True by (simp add: writer_inv_def)
  ultimately show ?thesis using inv w T True by simp
next
  case False
  let ?k = "length (qw_pending W)"
  have i: "writer_state X start A n (qw_state W)" "qw_pending W = take ?k (drop n blocks)"
    "n + ?k \<le> length blocks" "n \<le> m" "m \<le> n + ?k"
    "index_ok X start A m (rows w) (blobs w)" "state_row X start A m (rows w)"
    using inv by (simp_all add: writer_inv_def durable_def)
  have k: "0 < ?k" using False by simp
  let ?batch = "\<lparr>fb_blocks = take ?k (drop n A), fb_state = state_at X start A (n + ?k)\<rparr>"
  let ?W1 = "W\<lparr>qw_pending := []\<rparr>"
  note prep = prepare_flush_chain [OF i(1,2) k i(3)]
  obtain r1 w1 where io: "flush_batch_io X ?W1 ?batch w = (r1, w1)" by (meson surj_pair)
  have st1: "writer_state X start A n (qw_state ?W1)" "qw_tables ?W1 = query_tables_on ms bs"
    using i(1) T by simp_all
  note safe = flush_batch_safe [OF w st1 k i(3-7) _ _ io, simplified]
  have bk: "map ab_block (take ?k (drop n A)) = qw_pending W"
    using i(2) blocks_A by (metis drop_map take_map)
  show ?thesis
  proof (cases r1)
    case (Inl e)
    then have "r = Inl e" "W' = W" "w' = w1"
      using run io bk by (simp_all add: QueryWriter_flush_def prep)
    moreover obtain m' where "m \<le> m'" "m' \<le> n + ?k" "index_ok X start A m' (rows w1) (blobs w1)"
      "state_row X start A m' (rows w1)" using safe by auto
    ultimately show ?thesis
      using inv safe T by (auto simp: writer_inv_def durable_def intro!: exI [of _ m'])
  next
    case (Inr u)
    have nl: "n < length blocks" using k i(3) by linarith
    then have ne: "take ?k (drop n A) \<noteq> []" using False by simp
    have "ab_block (last (take ?k (drop n A))) = blocks ! (n + ?k - 1)"
    proof -
      have "ab_block (last (take ?k (drop n A))) = last (map ab_block (take ?k (drop n A)))"
        using ne by (simp add: last_map)
      also have "\<dots> = last (take ?k (drop n blocks))" using bk i(2) by simp
      also have "\<dots> = blocks ! (n + ?k - 1)"
      proof (cases ?k)
        case (Suc j)
        then show ?thesis using nl i(3) by (simp add: last_conv_nth)
      qed (use k in simp)
      finally show ?thesis .
    qed
    then have W': "r = Inr ()" "w' = w1" "W' = ?W1\<lparr>qw_last_block_hash := Some (block_hash X (blocks ! (n + ?k - 1))),
        qw_state := state_at X start A (n + ?k)\<rparr>"
      using run io ne Inr by (auto simp: QueryWriter_flush_def prep)
    with safe Inr i(3) k T show ?thesis
      by (auto simp: writer_inv_def durable_def writer_state_def last_hash_ok_def)
  qed
qed

end

context chain
begin

lemma number_inject:
  "\<lbrakk>i < length blocks; j < length blocks\<rbrakk> \<Longrightarrow>
     block_number X (blocks ! i) = block_number X (blocks ! j) \<longleftrightarrow> i = j"
  using unat_number [of i] unat_number [of j] by (metis add_left_cancel)

lemma next_number:
  assumes "writer_inv X start blocks A n m W R B"
  shows "next_block_number W = Inr (start + of_nat (n + length (qw_pending W)))"
proof -
  have n: "n + length (qw_pending W) \<le> length blocks" "writer_state X start A n (qw_state W)"
    using assms by (simp_all add: writer_inv_def)
  have nb: "next_block_id (qw_state W) = start + of_nat n" "unat (start + of_nat n) = unat start + n"
    using n start_bound base_header [of n]
    by (auto simp: writer_state_def state_at_def StateIndex_default_def unat_add_nat)
  have len: "unat (of_nat (length (qw_pending W)) :: u64) = length (qw_pending W)"
    using n start_bound by (intro unat_of_nat_small) simp
  show ?thesis
    using n start_bound by (simp add: next_block_number_def checked_add_def nb len)
qed

lemma append_keeps:
  assumes inv: "writer_inv X start blocks A n m W R B"
    and b: "b \<in> set blocks" and run: "QueryWriter_append X W b = (Inr (), W')"
  shows "writer_inv X start blocks A n m W' R B"
    and "b = blocks ! (n + length (qw_pending W))"
proof -
  let ?k = "length (qw_pending W)"
  obtain j where j: "j < length blocks" "b = blocks ! j" using b by (auto simp: in_set_conv_nth)
  from run next_number [OF inv] have "block_number X b = start + of_nat (n + ?k)"
    and W': "W' = W\<lparr>qw_pending := qw_pending W @ [b]\<rparr>"
    by (auto simp: QueryWriter_append_def split: if_splits)
  then have "start + of_nat j = start + of_nat (n + ?k)"
    using j number_nth by simp
  then have "(of_nat j :: u64) = of_nat (n + ?k)" by simp
  moreover have nk: "n + ?k \<le> length blocks" using inv by (simp add: writer_inv_def)
  ultimately have "j = n + ?k"
  proof -
    have "unat (of_nat j :: u64) = j" "unat (of_nat (n + ?k) :: u64) = n + ?k"
      by (rule unat_of_nat_small; use j nk start_bound in simp)+
    with \<open>(of_nat j :: u64) = of_nat (n + ?k)\<close> show ?thesis by metis
  qed
  then show "b = blocks ! (n + ?k)" using j by simp
  have "qw_pending W @ [b] = take (Suc ?k) (drop n blocks)"
    using inv \<open>j = n + ?k\<close> j by (simp add: writer_inv_def take_Suc_conv_app_nth)
  then show "writer_inv X start blocks A n m W' R B"
    using inv \<open>j = n + ?k\<close> j by (auto simp: writer_inv_def W')
qed

lemma previous_hash_chain:
  assumes inv: "writer_inv X start blocks A n m W R B"
  defines "k \<equiv> n + length (qw_pending W)"
  shows "previous_hash X W = (if k = 0 then None else Some (block_hash X (blocks ! (k - 1))))"
proof -
  have p: "qw_pending W = take (length (qw_pending W)) (drop n blocks)" "k \<le> length blocks"
    "last_hash_ok X blocks n (qw_last_block_hash W)"
    using inv by (simp_all add: writer_inv_def k_def)
  show ?thesis
  proof (cases "qw_pending W = []")
    case True
    with p(3) show ?thesis by (simp add: previous_hash_def last_hash_ok_def k_def)
  next
    case False
    then obtain j where j: "length (qw_pending W) = Suc j" by (cases "length (qw_pending W)") auto
    have "last (qw_pending W) = qw_pending W ! j" using False j by (simp add: last_conv_nth)
    also have "\<dots> = blocks ! (n + j)"
      using p(2) j by (subst p(1)) (simp add: k_def)
    finally show ?thesis using False j by (simp add: previous_hash_def k_def)
  qed
qed

text \<open>What \<open>append\<close> decides on, for any block at all.\<close>

lemma append_block_cases:
  assumes inv: "writer_inv X start blocks A n m W R B"
  defines "k \<equiv> n + length (qw_pending W)"
  shows "QueryWriter_append X W b =
    (if block_number X b \<noteq> start + of_nat k
     then (Inl (Err (InvalidBlock ''finalized blocks must be appended in order'')), W)
     else if 0 < k \<and> parent_hash X b \<noteq> block_hash X (blocks ! (k - 1))
     then (Inl (Err (InvalidBlock ''finalized block does not extend the indexed chain'')), W)
     else (Inr (), W\<lparr>qw_pending := qw_pending W @ [b]\<rparr>))"
  using next_number [OF inv] previous_hash_chain [OF inv]
  by (auto simp: QueryWriter_append_def k_def [symmetric])

lemma append_accepts:
  assumes inv: "writer_inv X start blocks A n m W R B" and l: "linked X blocks"
    and k: "n + length (qw_pending W) < length blocks"
  shows "fst (QueryWriter_append X W (blocks ! (n + length (qw_pending W)))) = Inr ()"
proof -
  let ?k = "n + length (qw_pending W)"
  have par: "parent_hash X (blocks ! ?k) = block_hash X (blocks ! (?k - 1))" if "0 < ?k"
    using l [unfolded linked_def, rule_format, of "?k - 1"] k that by simp
  show ?thesis
    using append_block_cases [OF inv, of "blocks ! ?k"] number_nth [OF k] par by (cases "0 < ?k") simp_all
qed

lemma append_accepts_iff:
  assumes inv: "writer_inv X start blocks A n m W R B" and l: "linked X blocks" and j: "j < length blocks"
  shows "fst (QueryWriter_append X W (blocks ! j)) = Inr () \<longleftrightarrow> j = n + length (qw_pending W)"
proof
  let ?k = "length (qw_pending W)"
  assume a: "fst (QueryWriter_append X W (blocks ! j)) = Inr ()"
  then obtain W' where run: "QueryWriter_append X W (blocks ! j) = (Inr (), W')" by (metis prod.collapse)
  have nk: "n + ?k \<le> length blocks" using inv by (simp add: writer_inv_def)
  from run next_number [OF inv] have "start + of_nat j = start + of_nat (n + ?k)"
    using number_nth [OF j] by (auto simp: QueryWriter_append_def split: if_splits)
  then have "(of_nat j :: u64) = of_nat (n + ?k)" by simp
  moreover have "unat (of_nat j :: u64) = j" "unat (of_nat (n + ?k) :: u64) = n + ?k"
    by (rule unat_of_nat_small; use j nk start_bound in simp)+
  ultimately show "j = n + ?k" by metis
qed (use append_accepts [OF inv l] j in simp)

lemma start_at_keeps:
  assumes "durable X start A 0 R B" "qw_state W = StateIndex_default" "qw_pending W = []"
    "qw_last_block_hash W = None"
  shows "\<exists>W'. QueryWriter_start_at W start = (Inr (), W') \<and> writer_inv X start blocks A 0 0 W' R B"
proof -
  have "(StateIndex_default\<lparr>indexed_start := Some start, next_block_id := start\<rparr>) = state_at X start A 0"
    by (simp add: StateIndex_default_def state_at_def base_def first_base_def)
  then show ?thesis
    using assms by (auto simp: QueryWriter_start_at_def StateIndex_default_def writer_inv_def
        writer_state_def last_hash_ok_def)
qed

lemma hash_row:
  assumes "meta_ok X A m R" "i < m" "m \<le> length blocks"
  shows "R ''metadata_block_hash'' (BlockHash_key (MetadataBlockHashKey (start + of_nat i))) =
    Some (BlockHash_columns (block_hash X (blocks ! i)))"
proof -
  let ?k = "MetadataBlockHashKey (start + of_nat i)"
  have sel: "sch_key block_hash_schema = BlockHash_key" "sch_columns block_hash_schema = BlockHash_columns"
    by (simp_all add: block_hash_schema_def)
  have t: "tab_ok block_hash_schema (hash_puts X A) (hash_puts X (take m A)) R"
    using assms(1) by (simp add: meta_ok_def)
  have il: "i < length blocks" using assms by simp
  have "A ! i \<in> set (take m A)" using assms by (auto simp: in_set_conv_nth)
  then have "(?k, block_hash X (blocks ! i)) \<in> set (hash_puts X (take m A))"
    using number_nth [OF il] block_nth [OF il] by (force simp: hash_puts_def)
  then have "R ''metadata_block_hash'' (BlockHash_key ?k) \<noteq> None"
    using t unfolding tab_ok_def sel schema_tables by fastforce
  then obtain cs where cs: "R ''metadata_block_hash'' (BlockHash_key ?k) = Some cs" by auto
  then obtain kv where kv: "kv \<in> set (hash_puts X A)" "BlockHash_key ?k = BlockHash_key (fst kv)"
    "cs = BlockHash_columns (snd kv)"
    using t unfolding tab_ok_def sel schema_tables by blast
  then obtain j where j: "j < length blocks"
    "kv = (MetadataBlockHashKey (start + of_nat j), block_hash X (blocks ! j))"
    by (auto simp: hash_puts_def in_set_conv_nth block_nth number_nth)
  have "?k = fst kv" using kv(2) block_hash.key_inject [of ?k "fst kv"] by (simp add: sel)
  then have "i = j"
    using number_inject [OF il j(1)] number_nth [OF il] number_nth [OF j(1)] by (simp add: j(2))
  with cs kv(3) j(2) show ?thesis by simp
qed

end

context index_writer
begin

lemma init_same:
  assumes "winv w" "QueryTables_init (query_tables_on ms bs) w = (r, w')"
  shows "same w w'"
proof -
  have seq: "\<forall>w r w'. winv w \<longrightarrow> io_bind f (\<lambda>_. g) w = (r, w') \<longrightarrow> same w w'"
    if f: "\<forall>w r w'. winv w \<longrightarrow> f w = (r, w') \<longrightarrow> same w w'"
      and g: "\<forall>w r w'. winv w \<longrightarrow> g w = (r, w') \<longrightarrow> same w w'" for f g :: "('w, unit) query_io"
  proof (intro allI impI)
    fix v q v' assume "winv v" "io_bind f (\<lambda>_. g) v = (q, v')"
    from this(2) show "same v v'"
      by (cases rule: io_bind_cases) (use f g \<open>winv v\<close> same_trans in \<open>unfold same_def, metis+\<close>)
  qed
  have i: "\<forall>w r w'. winv w \<longrightarrow> ms_init ms t d w = (r, w') \<longrightarrow> same w w'" for t d
    using meta_init by (simp add: same_def)
  have "\<forall>w r w'. winv w \<longrightarrow> QueryTables_init (query_tables_on ms bs) w = (r, w') \<longrightarrow> same w w'"
    unfolding QueryTables_init_def MetadataTables_init_def BitmapTables_init_def
      PayloadTables_init_def StateTables_init_def MetaTable_init_def query_tables_on_sel
    by (intro seq i)
  then show ?thesis using assms by blast
qed

lemma last_block_state:
  assumes "m \<le> length blocks"
  shows "last_block_id (state_at X start A m) = (if 0 < m then Some (start + of_nat (m - 1)) else None)"
  using committed_id_state [of m "state_at X start A m" BlockHeader] assms base_header [OF assms]
  by (cases m) (simp_all add: writer_state_def committed_id_def first_base_def add.commute)

lemma last_block_default: "last_block_id StateIndex_default = None"
  by (simp add: last_block_id_def StateIndex_default_def checked_sub_one)

text \<open>
  What \<open>open\<close> returns on the stores of \<open>m\<close> committed blocks: a writer at \<open>m\<close>, or, when no
  state was ever written, an empty one.
\<close>

lemma open_gives:
  assumes w: "winv w" and d: "durable X start A m (rows w) (blobs w)"
    and run: "QueryWriter_open (query_tables_on ms bs) w = (r, w')"
  shows "same w w'"
    and "r = Inr W \<Longrightarrow> qw_tables W = query_tables_on ms bs \<and>
      (writer_inv X start blocks A m m W (rows w') (blobs w') \<or> m = 0 \<and> fresh_writer W)"
proof -
  have ml: "m \<le> length blocks" "meta_ok X A m (rows w)" "state_row X start A m (rows w)"
    using d by (simp_all add: durable_def index_ok_def)
  note lb = last_block_state [OF ml(1)] and lb0 = last_block_default
  have goal: "same w w' \<and> (\<forall>W. r = Inr W \<longrightarrow> qw_tables W = query_tables_on ms bs \<and>
      (writer_inv X start blocks A m m W (rows w') (blobs w') \<or> m = 0 \<and> fresh_writer W))"
    using run [unfolded QueryWriter_open_def query_tables_on_sel]
  proof (cases rule: io_bind_cases)
    case (fail e)
    then show ?thesis using init_same [OF w] by blast
  next
    case (ok u w1)
    then have s1: "same w w1" using init_same [OF w] by blast
    then have w1: "winv w1" "rows w1 = rows w" "blobs w1 = blobs w" by (simp_all add: same_def)
    note g = table_get_facts [OF state_table.meta_schema_axioms w1(1)]
    from ok(2) show ?thesis
    proof (cases rule: io_bind_cases)
      case (fail e)
      with g(1) s1 same_trans show ?thesis by blast
    next
      case ok2: (ok s w2)
      have s2: "same w w2" using g(1) [OF ok2(1)] s1 same_trans by blast
      then have w2: "winv w2" "rows w2 = rows w" "blobs w2 = blobs w" by (simp_all add: same_def)
      have dec: "sch_decode state_index_schema (sch_columns state_index_schema (state_at X start A m)) =
          Inr (state_at X start A m)"
        by (rule state_table.decode_columns) (simp add: state_at_def)
      let ?st = "case s of None \<Rightarrow> StateIndex_default | Some st \<Rightarrow> st"
      have st: "?st = state_at X start A m \<or> (m = 0 \<and> ?st = StateIndex_default)"
        using g(2) [OF ok2(1) refl] ml(3) dec unfolding w1(2) state_row_def holds_def by auto
      show ?thesis
      proof (cases "last_block_id ?st")
        case None
        then have m0: "m = 0" using st lb by (auto split: if_splits)
        from None ok2(2) have "r = Inr \<lparr>qw_tables = query_tables_on ms bs, qw_state = ?st,
            qw_last_block_hash = None, qw_pending = []\<rparr>" "w' = w2"
          by (simp_all add: Let_def)
        with s2 w2 st m0 d show ?thesis
          by (auto simp: writer_inv_def writer_state_def last_hash_ok_def fresh_writer_def)
      next
        case (Some h)
        then have mh: "0 < m" "h = start + of_nat (m - 1)" "?st = state_at X start A m"
          using st lb lb0 by (auto split: if_splits)
        let ?get = "MetaTable_get ms block_hash_schema (MetadataBlockHashKey h)"
        obtain r3 w3 where g3: "?get w2 = (r3, w3)" by (meson surj_pair)
        have s3: "same w w3"
          using table_get_facts(1) [OF block_hash.meta_schema_axioms w2(1) g3] s2 same_trans by blast
        have "rows w ''metadata_block_hash'' (BlockHash_key (MetadataBlockHashKey h)) =
            Some (BlockHash_columns (block_hash X (blocks ! (m - 1))))"
          using hash_row [OF ml(2) _ ml(1), of "m - 1"] mh by simp
        then have hash: "x = Some (block_hash X (blocks ! (m - 1)))" if "r3 = Inr x" for x
          using table_get_facts(2) [OF block_hash.meta_schema_axioms w2(1) g3 that]
            block_hash.decode_columns [of "block_hash X (blocks ! (m - 1))"]
          by (simp add: w2(2) block_hash_schema_def)
        have "w' = w3 \<and> (\<forall>W. r = Inr W \<longrightarrow> W = \<lparr>qw_tables = query_tables_on ms bs, qw_state = ?st,
            qw_last_block_hash = Some (block_hash X (blocks ! (m - 1))), qw_pending = []\<rparr>)"
        proof (cases r3)
          case (Inl e)
          with ok2(2) Some g3 show ?thesis by (auto simp: Let_def io_bind_def)
        next
          case (Inr x)
          with ok2(2) Some g3 hash [OF Inr] show ?thesis by (auto simp: Let_def io_bind_def)
        qed
        moreover have "rows w3 = rows w" "blobs w3 = blobs w" using s3 by (simp_all add: same_def)
        ultimately show ?thesis
          using s3 d mh ml(1) by (auto simp: writer_inv_def writer_state_def last_hash_ok_def)
      qed
    qed
  qed
  then show "same w w'" by blast
  from goal show "r = Inr W \<Longrightarrow> qw_tables W = query_tables_on ms bs \<and>
      (writer_inv X start blocks A m m W (rows w') (blobs w') \<or> m = 0 \<and> fresh_writer W)" by blast
qed

end

end
