(* ===== verification/Writer_Run.thy ===== *)
theory Writer_Run
  imports Writer_Correct
begin

text \<open>
  A writer process over its life: it boots on whatever the stores hold, may declare its
  start block, is fed blocks of a finalized chain in any order, flushes, and may crash at
  any time.  Any store call may fail before, during or after its effect (the stores only
  keep their contract), so a crash inside a flush is a failed call followed by a crash.
\<close>

section \<open>Steps\<close>

datatype ('w, 'h) process = Down 'w | Up "('w, 'h) query_writer" 'w

inductive writer_step ::
  "('h, 'b) externals \<Rightarrow> 'w meta_store \<Rightarrow> 'w blob_store \<Rightarrow> u64 \<Rightarrow> 'h writer_block list
     \<Rightarrow> ('w, 'h) process \<Rightarrow> ('w, 'h) process \<Rightarrow> bool"
  for X ms bs start blocks where
  boot: "QueryWriter_open (query_tables_on ms bs) w = (Inr W, w') \<Longrightarrow>
     writer_step X ms bs start blocks (Down w) (Up W w')"
| boot_fails: "QueryWriter_open (query_tables_on ms bs) w = (Inl e :: ('w, 'h) query_writer query_result, w') \<Longrightarrow>
     writer_step X ms bs start blocks (Down w) (Down w')"
| start_at: "QueryWriter_start_at W start = (r, W') \<Longrightarrow>
     writer_step X ms bs start blocks (Up W w) (Up W' w)"
| append: "\<lbrakk>b \<in> set blocks; QueryWriter_append X W b = (r, W')\<rbrakk> \<Longrightarrow>
     writer_step X ms bs start blocks (Up W w) (Up W' w)"
| flush: "QueryWriter_flush X W w = (r, W', w') \<Longrightarrow>
     writer_step X ms bs start blocks (Up W w) (Up W' w')"
| crash: "writer_step X ms bs start blocks (Up W w) (Down w)"

inductive_cases step_DownE: "writer_step X ms bs start blocks (Down w) s"
inductive_cases step_UpE: "writer_step X ms bs start blocks (Up W w) s"

abbreviation writer_run ::
  "('h, 'b) externals \<Rightarrow> 'w meta_store \<Rightarrow> 'w blob_store \<Rightarrow> u64 \<Rightarrow> 'h writer_block list
     \<Rightarrow> ('w, 'h) process \<Rightarrow> ('w, 'h) process \<Rightarrow> bool" where
  "writer_run X ms bs start blocks \<equiv> (writer_step X ms bs start blocks)\<^sup>*\<^sup>*"

fun proc_world :: "('w, 'h) process \<Rightarrow> 'w" where
  "proc_world (Down w) = w"
| "proc_world (Up W w) = w"

section \<open>Rejected calls change nothing\<close>

lemma append_Inl: "QueryWriter_append X W b = (Inl e, W') \<Longrightarrow> W' = W"
  by (auto simp: QueryWriter_append_def split: sum.splits if_splits)

lemma start_at_Inl: "QueryWriter_start_at W n = (Inl e, W') \<Longrightarrow> W' = W"
  by (auto simp: QueryWriter_start_at_def split: if_splits)

lemma flush_nothing: "qw_pending W = [] \<Longrightarrow> QueryWriter_flush X W w = (Inr (), W, w)"
  by (simp add: QueryWriter_flush_def prepare_flush_def)

lemma durable_empty:
  assumes "\<And>t k. R t k = None" "\<And>t k. B t k = None"
  shows "durable X start A 0 R B"
proof -
  have lp: "location_puts X start A 0 = []" by (simp add: location_puts_def base_def)
  have "payload_ok X start A 0 B"
    unfolding payload_ok_def pfam_ok_def
  proof (intro allI impI)
    fix f p
    have "payload_blob B f p = pbytes X start A f (plo start f p) (min (first_base start f) (phi p))"
      by (simp add: payload_blob_def assms plo_def)
    moreover have "min (first_base start f) (phi p) \<le> min (base X start A f (length A)) (phi p)"
      by (simp add: base_def)
    ultimately show "\<exists>j. min (base X start A f 0) (phi p) \<le> j \<and>
        j \<le> min (base X start A f (length A)) (phi p) \<and>
        payload_blob B f p = pbytes X start A f (plo start f p) j"
      by (intro exI [of _ "min (first_base start f) (phi p)"]) (simp add: base_def)
  qed
  moreover have "bitmap_ok X A 0 B"
    by (simp add: bitmap_ok_def page_ok_def assms bits_def chain_entries_def)
  ultimately show ?thesis
    using assms by (simp add: durable_def index_ok_def tab_ok_def lp meta_ok_def hash_puts_def
        family_puts_def block_index_puts_def state_row_def)
qed

section \<open>The invariant of a process\<close>

context index_writer
begin

fun proc_inv :: "nat \<Rightarrow> ('w, 'h) process \<Rightarrow> bool" where
  "proc_inv m (Down w) \<longleftrightarrow> winv w \<and> durable X start A m (rows w) (blobs w)"
| "proc_inv m (Up W w) \<longleftrightarrow> winv w \<and> durable X start A m (rows w) (blobs w) \<and>
     qw_tables W = query_tables_on ms bs \<and>
     ((\<exists>n. writer_inv X start blocks A n m W (rows w) (blobs w)) \<or> m = 0 \<and> fresh_writer W)"

lemma fresh_zero:
  "\<lbrakk>fresh_writer W; start = 0; durable X start A 0 R B\<rbrakk> \<Longrightarrow> writer_inv X start blocks A 0 0 W R B"
  by (simp add: writer_inv_def writer_state_def fresh_writer_def last_hash_ok_def)

lemma fresh_append_rejected:
  assumes "fresh_writer W" "start \<noteq> 0" "b \<in> set blocks"
  shows "\<exists>e. QueryWriter_append X W b = (Inl e, W)"
proof -
  obtain j where j: "j < length blocks" "b = blocks ! j" using assms(3) by (auto simp: in_set_conv_nth)
  have "unat (block_number X b) \<noteq> 0"
    using unat_number [OF j(1)] assms(2) j(2) by (simp add: unat_eq_0)
  then have "block_number X b \<noteq> 0" by auto
  with assms(1) show ?thesis
    by (simp add: QueryWriter_append_def next_block_number_def fresh_writer_def StateIndex_default_def
        checked_add_def)
qed

lemma step_inv:
  assumes "writer_step X ms bs start blocks s s'" "proc_inv m s"
  shows "\<exists>m' \<ge> m. proc_inv m' s'"
  using assms
proof (cases rule: writer_step.cases)
  case (boot w W w')
  with assms(2) have p: "winv w" "durable X start A m (rows w) (blobs w)" by auto
  note o = open_gives [OF p boot(3)]
  from o(1) p(2) have "winv w'" "durable X start A m (rows w') (blobs w')"
    by (simp_all add: same_def)
  with o(2) [OF refl] boot(2) show ?thesis by (auto intro!: exI [of _ m])
next
  case (boot_fails w e w')
  with assms(2) have p: "winv w" "durable X start A m (rows w) (blobs w)" by auto
  from open_gives(1) [OF p boot_fails(3)] p(2) boot_fails(2) show ?thesis
    by (auto simp: same_def intro!: exI [of _ m])
next
  case (start_at W r W' w)
  show ?thesis
  proof (cases r)
    case (Inl e)
    with start_at start_at_Inl assms(2) show ?thesis by blast
  next
    case (Inr u)
    with start_at(3) have st: "indexed_start (qw_state W) = None" "next_block_id (qw_state W) = 0" "qw_pending W = []"
      by (auto simp: QueryWriter_start_at_def split: if_splits)
    have W': "qw_tables W' = qw_tables W"
      using start_at(3) by (auto simp: QueryWriter_start_at_def split: if_splits)
    have "m = 0 \<and> fresh_writer W"
      using assms(2) st unfolding start_at(1)
      by (auto simp: writer_inv_def writer_state_def state_at_def fresh_writer_def last_hash_ok_def)
    with start_at_keeps [of "rows w" "blobs w" W] assms(2) start_at W' show ?thesis
      by (auto simp: fresh_writer_def)
  qed
next
  case (append b W r W' w)
  have W': "qw_tables W' = qw_tables W"
    using append(4) by (auto simp: QueryWriter_append_def split: sum.splits if_splits)
  show ?thesis
  proof (cases r)
    case (Inl e)
    with append append_Inl assms(2) show ?thesis by blast
  next
    case (Inr u)
    then have run: "QueryWriter_append X W b = (Inr (), W')" using append(4) by simp
    obtain n where "writer_inv X start blocks A n m W (rows w) (blobs w)"
      using assms(2) fresh_zero [of W "rows w" "blobs w"] fresh_append_rejected [OF _ _ append(3), of W] run
      unfolding append(1) by force
    then have "writer_inv X start blocks A n m W' (rows w) (blobs w)"
      by (rule append_keeps(1) [OF _ append(3) run])
    then have "proc_inv m s'" using assms(2) append(1,2) W' by auto
    then show ?thesis by blast
  qed
next
  case (flush W w r W' w')
  have p: "winv w" "qw_tables W = query_tables_on ms bs" using assms(2) flush(1) by auto
  consider (inv) n where "writer_inv X start blocks A n m W (rows w) (blobs w)" | (fresh) "m = 0" "fresh_writer W"
    using assms(2) flush(1) by auto
  then show ?thesis
  proof cases
    case inv
    note k = flush_keeps [OF p(1) inv p(2) flush(3)]
    have le: "m \<le> n + length (qw_pending W)" using inv by (simp add: writer_inv_def)
    show ?thesis
    proof (cases r)
      case (Inl e)
      then obtain m' where "m \<le> m'" "writer_inv X start blocks A n m' W' (rows w') (blobs w')"
        using k by auto
      then have "proc_inv m' s'" using k flush(2) by (auto simp: writer_inv_def)
      then show ?thesis using \<open>m \<le> m'\<close> by blast
    next
      case (Inr u)
      then have "writer_inv X start blocks A (n + length (qw_pending W)) (n + length (qw_pending W)) W' (rows w') (blobs w')"
        using k by auto
      then have "proc_inv (n + length (qw_pending W)) s'" using k flush(2) by (auto simp: writer_inv_def)
      then show ?thesis using le by blast
    qed
  next
    case fresh
    then have "W' = W" "w' = w" using flush(3) flush_nothing [of W X w] by (auto simp: fresh_writer_def)
    with flush(1,2) assms(2) show ?thesis by auto
  qed
next
  case (crash W w)
  with assms(2) show ?thesis by auto
qed

lemma run_inv:
  assumes "writer_run X ms bs start blocks s s'" "proc_inv m s"
  shows "\<exists>m' \<ge> m. proc_inv m' s'"
  using assms
proof (induction rule: rtranclp_induct)
  case (step y z)
  then obtain m1 where "m \<le> m1" "proc_inv m1 y" by blast
  with step_inv [OF step(2)] show ?case by (meson order.trans)
qed auto

lemma proc_inv_durable: "proc_inv m s \<Longrightarrow> winv (proc_world s) \<and> durable X start A m (rows (proc_world s)) (blobs (proc_world s))"
  by (cases s) auto

lemma run_durable:
  assumes "winv w" "\<And>t k. rows w t k = None" "\<And>t k. blobs w t k = None"
    and "writer_run X ms bs start blocks (Down w) s"
  shows "\<exists>m \<le> length blocks. durable X start A m (rows (proc_world s)) (blobs (proc_world s)) \<and>
    (\<forall>s'. writer_run X ms bs start blocks s s' \<longrightarrow>
       (\<exists>m' \<ge> m. durable X start A m' (rows (proc_world s')) (blobs (proc_world s'))))"
proof -
  have "proc_inv 0 (Down w)" using assms(1) durable_empty [of "rows w" "blobs w"] assms(2,3) by simp
  from run_inv [OF assms(4) this] obtain m where m: "proc_inv m s" by blast
  moreover have "m \<le> length blocks" using proc_inv_durable [OF m] by (simp add: durable_def)
  ultimately show ?thesis using proc_inv_durable run_inv by blast
qed

end

lemma index_writerI:
  "\<lbrakk>query_stores ms bs winv rows blobs; externals_ok X; chain_ok X start blocks A\<rbrakk> \<Longrightarrow>
     index_writer ms bs winv rows blobs X start blocks A"
  by (intro index_writer.intro chain.intro)

end
