(* ===== verification/Index_Reads.thy ===== *)
theory Index_Reads
  imports Writer_Run
begin

text \<open>
  What a reader finds in the index of \<open>m\<close> committed blocks: the hash and the id ranges of
  every block, the payload of every id through its location, and bitmap pages that hold an
  id exactly when the item under that id has the page's filter.
\<close>

section \<open>Rows\<close>

lemma tab_ok_row:
  assumes "meta_schema ts okv" "tab_ok ts all c R" "(k, v) \<in> set c"
    and "\<And>v'. (k, v') \<in> set all \<Longrightarrow> v' = v"
  shows "holds R ts k v"
proof -
  obtain cs where cs: "R (TABLE ts) (sch_key ts k) = Some cs"
    using assms(2,3) unfolding tab_ok_def by fastforce
  then obtain kv where kv: "kv \<in> set all" "sch_key ts k = sch_key ts (fst kv)" "cs = sch_columns ts (snd kv)"
    using assms(2) unfolding tab_ok_def by blast
  then have "k = fst kv" by (simp add: meta_schema.key_inject [OF assms(1)])
  then have "snd kv = v" using assms(4) [of "snd kv"] kv(1) by simp
  with cs kv(3) show ?thesis by (simp add: holds_def)
qed

section \<open>Entries by item\<close>

definition flt_of :: "bitmap_filter_value list query_result \<Rightarrow> bitmap_filter_value list" where
  "flt_of r = (case r of Inl _ \<Rightarrow> [] | Inr fs \<Rightarrow> fs)"

text \<open>The filters of the items of a block, family by family and in id order.\<close>

definition block_filters ::
  "('h, 'b) externals \<Rightarrow> family \<Rightarrow> 'h writer_block \<Rightarrow> bitmap_filter_value list list" where
  "block_filters X f b =
     (case f of
        BlockHeader \<Rightarrow> [flt_of (Block_bitmap_filters X (wb_header b))]
      | Transaction \<Rightarrow> map (\<lambda>tx. flt_of (Tx_bitmap_filters X (wt_envelope tx))) (wb_txs b)
      | Log \<Rightarrow> map (\<lambda>l. flt_of (Log_bitmap_filters l)) (block_logs b)
      | Trace \<Rightarrow> map (\<lambda>t. flt_of (Trace_bitmap_filters t))
                   (concat (map (\<lambda>tx. from_traces (wt_traces tx)) (wb_txs b))))"

definition fam_filters ::
  "('h, 'b) externals \<Rightarrow> family \<Rightarrow> 'h assigned_block list \<Rightarrow> bitmap_filter_value list list" where
  "fam_filters X f as = concat (map (\<lambda>a. block_filters X f (ab_block a)) as)"

fun tag_entries :: "family \<Rightarrow> u64 \<Rightarrow> bitmap_filter_value list list \<Rightarrow> bitmap_entry list" where
  "tag_entries f i [] = []"
| "tag_entries f i (fs # fss) = map (\<lambda>flt. (f, flt, i)) fs @ tag_entries f (i + 1) fss"

lemma tag_entries_append:
  "tag_entries f i (xs @ ys) = tag_entries f i xs @ tag_entries f (i + of_nat (length xs)) ys"
  by (induction xs arbitrary: i) (simp_all add: algebra_simps)

lemma tag_entries_mem:
  "(g, flt, x) \<in> set (tag_entries f i fss) \<longleftrightarrow>
     g = f \<and> (\<exists>q < length fss. x = i + of_nat q \<and> flt \<in> set (fss ! q))"
proof (induction fss arbitrary: i)
  case (Cons fs fss)
  have "(\<exists>q < length (fs # fss). x = i + of_nat q \<and> flt \<in> set ((fs # fss) ! q)) \<longleftrightarrow>
      (x = i \<and> flt \<in> set fs) \<or> (\<exists>q < length fss. x = i + 1 + of_nat q \<and> flt \<in> set (fss ! q))"
    unfolding list.size(4) add_Suc_right add_0_right Ex_less_Suc2 by (simp add: ac_simps)
  with Cons show ?case by auto
qed simp

lemma log_entries_tag: "log_entries i ls = Inr (tag_entries Log i (map (\<lambda>l. flt_of (Log_bitmap_filters l)) ls))"
  by (induction ls arbitrary: i) (simp_all add: Log_bitmap_filters_def flt_of_def)

lemma trace_entries_tag:
  "trace_entries i ts = Inr (tag_entries Trace i (map (\<lambda>t. flt_of (Trace_bitmap_filters t)) ts))"
  by (induction ts arbitrary: i) (simp_all add: Trace_bitmap_filters_def flt_of_def Let_def)

lemma tx_entries_tag:
  assumes "tx_entries X t l r txs = Inr es"
  shows "set es =
    set (tag_entries Transaction t (map (\<lambda>tx. flt_of (Tx_bitmap_filters X (wt_envelope tx))) txs)) \<union>
    set (tag_entries Log l (map (\<lambda>l. flt_of (Log_bitmap_filters l)) (concat (map wt_logs txs)))) \<union>
    set (tag_entries Trace r (map (\<lambda>t. flt_of (Trace_bitmap_filters t))
      (concat (map (\<lambda>tx. from_traces (wt_traces tx)) txs))))"
  using assms
proof (induction txs arbitrary: t l r es)
  case (Cons tx txs)
  from Cons.prems obtain fs rest where e: "Tx_bitmap_filters X (wt_envelope tx) = Inr fs"
    "tx_entries X (t + 1) (l + of_nat (length (wt_logs tx))) (r + of_nat (length (wt_traces tx))) txs = Inr rest"
    "es = map (\<lambda>flt. (Transaction, flt, t)) fs @
       tag_entries Log l (map (\<lambda>l. flt_of (Log_bitmap_filters l)) (wt_logs tx)) @
       tag_entries Trace r (map (\<lambda>t. flt_of (Trace_bitmap_filters t)) (from_traces (wt_traces tx))) @ rest"
    unfolding tx_entries.simps log_entries_tag trace_entries_tag by (auto simp: res_bind_Inr_iff)
  from Cons.IH [OF e(2)] e(1,3) show ?case
    by (auto simp: tag_entries_append flt_of_def length_from_traces)
qed simp

lemma block_entries_mem:
  assumes "block_entries X a = Inr es"
  shows "(f, flt, x) \<in> set es \<longleftrightarrow>
    (\<exists>q < length (block_filters X f (ab_block a)).
       x = fst (family_rows X f a) + of_nat q \<and> flt \<in> set (block_filters X f (ab_block a) ! q))"
proof -
  obtain fs rest where e: "Block_bitmap_filters X (wb_header (ab_block a)) = Inr fs"
    "tx_entries X (as_u64 (first_primary_id (ab_txs a))) (as_u64 (first_primary_id (ab_logs a)))
       (as_u64 (first_primary_id (ab_traces a))) (wb_txs (ab_block a)) = Inr rest"
    "es = map (\<lambda>flt. (BlockHeader, flt, block_number X (ab_block a))) fs @ rest"
    using assms by (auto simp: block_entries_def res_bind_Inr_iff)
  have "(f, flt, x) \<in> set es \<longleftrightarrow>
      (f, flt, x) \<in> set (tag_entries f (fst (family_rows X f a)) (block_filters X f (ab_block a)))"
    unfolding e(3) set_append set_map Un_iff tx_entries_tag [OF e(2)]
    by (cases f) (use e(1) in \<open>auto simp: tag_entries_mem block_filters_def family_rows_def Let_def
        flt_of_def block_logs_def\<close>)
  then show ?thesis by (simp add: tag_entries_mem)
qed

lemma length_block_filters: "length (block_filters X f (ab_block a)) = length (snd (family_rows X f a))"
proof -
  have "length (concat (map (\<lambda>tx. from_traces (wt_traces tx)) txs)) = length (concat (map wt_traces txs))" for txs
    by (induction txs) (simp_all add: length_from_traces)
  then show ?thesis
    by (cases f) (simp_all add: block_filters_def family_rows_def Let_def block_logs_def block_traces_def)
qed

section \<open>Items by id\<close>

context chain
begin

text \<open>The block and the position of an id.\<close>

lemma id_block:
  "\<lbrakk>first_base start f \<le> i; i < base X start A f m; m \<le> length blocks\<rbrakk> \<Longrightarrow>
     \<exists>j < m. \<exists>q < length (snd (family_rows X f (A ! j))). i = base X start A f j + q"
proof (induction m)
  case (Suc m)
  show ?case
  proof (cases "i < base X start A f m")
    case True
    with Suc show ?thesis using less_Suc_eq by auto
  next
    case False
    then have "i = base X start A f m + (i - base X start A f m)" by simp
    moreover have "i - base X start A f m < length (snd (family_rows X f (A ! m)))"
      using Suc.prems False base_Suc [of m f] by simp
    ultimately show ?thesis by blast
  qed
qed simp

lemma length_fam_filters: "length (fam_filters X f as) = length (fam_items X f as)"
  by (induction as) (simp_all add: fam_filters_def length_block_filters)

lemma fam_filters_nth:
  assumes "j < length blocks" "q < length (snd (family_rows X f (A ! j)))"
  shows "fam_filters X f A ! (base X start A f j + q - first_base start f) =
    block_filters X f (blocks ! j) ! q"
proof -
  have "A = take j A @ A ! j # drop (Suc j) A" using assms(1) by (simp add: id_take_nth_drop)
  then have "fam_filters X f A = fam_filters X f (take j A) @ block_filters X f (ab_block (A ! j))
      @ fam_filters X f (drop (Suc j) A)"
    by (metis (no_types, lifting) concat.simps(2) concat_append fam_filters_def list.simps(9) map_append)
  then show ?thesis
    using assms length_block_filters [of X f "A ! j"] length_fam_filters [of f "take j A"]
    by (simp add: base_def nth_append block_nth)
qed

lemma chain_entries_mem:
  assumes dec: "\<forall>a \<in> set (take m A). \<exists>es. block_entries X a = Inr es" and m: "m \<le> length blocks"
  shows "(f, flt, x) \<in> set (chain_entries X (take m A)) \<longleftrightarrow>
    first_base start f \<le> unat x \<and> unat x < base X start A f m \<and>
    flt \<in> set (fam_filters X f A ! (unat x - first_base start f))"
proof -
  have ent: "(f, flt, x) \<in> set (chain_entries X (take m A)) \<longleftrightarrow>
      (\<exists>j < m. \<exists>q < length (snd (family_rows X f (A ! j))).
         x = fst (family_rows X f (A ! j)) + of_nat q \<and> flt \<in> set (block_filters X f (blocks ! j) ! q))"
  proof -
    have "(f, flt, x) \<in> set (chain_entries X (take m A)) \<longleftrightarrow>
        (\<exists>j < m. (f, flt, x) \<in> set (case block_entries X (A ! j) of Inl _ \<Rightarrow> [] | Inr es \<Rightarrow> es))"
      unfolding chain_entries_def set_concat set_map nth_image [of m A, symmetric, unfolded length_A, OF m]
      by (simp add: atLeast0LessThan lessThan_iff Bex_def)
    also have "\<dots> \<longleftrightarrow> (\<exists>j < m. \<exists>q < length (snd (family_rows X f (A ! j))).
         x = fst (family_rows X f (A ! j)) + of_nat q \<and> flt \<in> set (block_filters X f (blocks ! j) ! q))"
    proof (intro ex_cong conj_cong refl)
      fix j assume j: "j < m"
      then have "A ! j \<in> set (take m A)" using m by (auto simp: in_set_conv_nth)
      then obtain es where es: "block_entries X (A ! j) = Inr es" using dec by blast
      show "(f, flt, x) \<in> set (case block_entries X (A ! j) of Inl _ \<Rightarrow> [] | Inr es \<Rightarrow> es) \<longleftrightarrow>
          (\<exists>q < length (snd (family_rows X f (A ! j))).
            x = fst (family_rows X f (A ! j)) + of_nat q \<and> flt \<in> set (block_filters X f (blocks ! j) ! q))"
        using block_entries_mem [OF es, of f flt x] j m length_block_filters [of X f "A ! j"]
        by (simp add: es block_nth)
    qed
    finally show ?thesis .
  qed
  have pos: "x = fst (family_rows X f (A ! j)) + of_nat q \<longleftrightarrow> unat x = base X start A f j + q"
    if "j < m" "q < length (snd (family_rows X f (A ! j)))" for j q
  proof -
    have j: "j < length blocks" using that m by simp
    have b: "base X start A f j + q < 2 ^ 64"
      using base_Suc [OF j, of f] that(2) base_bound [of f "Suc j"] by simp
    then have "unat (fst (family_rows X f (A ! j)) + of_nat q) = base X start A f j + q"
      using base_first [OF j, of f] by (simp add: unat_add_nat)
    then show ?thesis by (metis word_unat_eq_iff)
  qed
  show ?thesis
    unfolding ent
  proof (intro iffI)
    assume "\<exists>j < m. \<exists>q < length (snd (family_rows X f (A ! j))).
        x = fst (family_rows X f (A ! j)) + of_nat q \<and> flt \<in> set (block_filters X f (blocks ! j) ! q)"
    then obtain j q where j: "j < m" "q < length (snd (family_rows X f (A ! j)))"
      "unat x = base X start A f j + q" "flt \<in> set (block_filters X f (blocks ! j) ! q)"
      using pos by blast
    moreover have "first_base start f \<le> unat x" using j(3) first_base_le [of f j] by simp
    moreover have "unat x < base X start A f m"
      using j m base_Suc [of j f] base_mono [of "Suc j" m f] by simp
    ultimately show "first_base start f \<le> unat x \<and> unat x < base X start A f m \<and>
        flt \<in> set (fam_filters X f A ! (unat x - first_base start f))"
      using fam_filters_nth [of j q f] m by simp
  next
    assume a: "first_base start f \<le> unat x \<and> unat x < base X start A f m \<and>
        flt \<in> set (fam_filters X f A ! (unat x - first_base start f))"
    then obtain j q where j: "j < m" "q < length (snd (family_rows X f (A ! j)))"
      "unat x = base X start A f j + q" using id_block [of f "unat x" m] m by blast
    with a fam_filters_nth [of j q f] m show "\<exists>j < m. \<exists>q < length (snd (family_rows X f (A ! j))).
        x = fst (family_rows X f (A ! j)) + of_nat q \<and> flt \<in> set (block_filters X f (blocks ! j) ! q)"
      using pos [OF j(1,2)] by auto
  qed
qed

end

section \<open>What a reader finds\<close>

text \<open>Where an item starts in its partition: after the bytes of the ids before it.\<close>

definition item_start ::
  "('h, 'b) externals \<Rightarrow> u64 \<Rightarrow> 'h assigned_block list \<Rightarrow> family \<Rightarrow> nat \<Rightarrow> nat" where
  "item_start X start A f i = length (pbytes X start A f (plo start f (i div 1024)) i)"

context index_writer
begin

lemma hash_read:
  assumes w: "winv w" and d: "durable X start A m (rows w) (blobs w)" and i: "i < m"
    and g: "MetaTable_get ms block_hash_schema (MetadataBlockHashKey (start + of_nat i)) w = (r, w')"
  shows "r = Inr x \<Longrightarrow> x = Some (block_hash X (blocks ! i))"
proof -
  assume "r = Inr x"
  have ok: "meta_ok X A m (rows w)" "m \<le> length blocks"
    using d by (simp_all add: durable_def index_ok_def)
  show ?thesis
    using table_get_facts(2) [OF block_hash.meta_schema_axioms w g \<open>r = Inr x\<close>] hash_row [OF ok(1) i ok(2)]
      block_hash.decode_columns [of "block_hash X (blocks ! i)"]
    by (simp add: block_hash_schema_def)
qed

lemma family_row:
  assumes d: "durable X start A m R B" and i: "i < m"
  shows "holds R family_schema (MetadataFamilyKey f (start + of_nat i)) (family_range X f (A ! i))"
proof (rule tab_ok_row [OF family_table.meta_schema_axioms])
  have ml: "m \<le> length blocks" using d by (simp add: durable_def)
  show "tab_ok family_schema (family_puts X A) (family_puts X (take m A)) R"
    using d by (simp add: durable_def index_ok_def meta_ok_def)
  have nb: "block_number X (ab_block (A ! j)) = start + of_nat j" if "j < length blocks" for j
    using that by (simp add: block_nth number_nth)
  show "(MetadataFamilyKey f (start + of_nat i), family_range X f (A ! i)) \<in> set (family_puts X (take m A))"
    using i ml nb [of i] by (auto simp: family_puts_def in_set_conv_nth image_iff intro!: bexI [of _ "A ! i"] exI [of _ i])
  fix v' assume "(MetadataFamilyKey f (start + of_nat i), v') \<in> set (family_puts X A)"
  then obtain j where j: "j < length blocks" "start + of_nat i = block_number X (ab_block (A ! j))"
    "v' = family_range X f (A ! j)" by (auto simp: family_puts_def in_set_conv_nth)
  have "i = j"
    using number_inject [of i j] i ml j nb [of i] by (simp add: block_nth)
  then show "v' = family_range X f (A ! i)" using j(3) by simp
qed

lemma family_read:
  assumes w: "winv w" and d: "durable X start A m (rows w) (blobs w)" and i: "i < m"
    and g: "MetaTable_get ms family_schema (MetadataFamilyKey f (start + of_nat i)) w = (Inr x, w')"
  shows "x = Some \<lparr>first_primary_id = PrimaryId (of_nat (bas f i)), fm_count = of_nat (bas f (Suc i) - bas f i)\<rparr>"
proof -
  have il: "i < length blocks" using d i by (simp add: durable_def)
  have x: "x = Some (family_range X f (A ! i))"
    using table_get_facts(2) [OF family_table.meta_schema_axioms w g refl]
      family_row [OF d i, of f] family_table.decode_columns [of "family_range X f (A ! i)"]
    by (simp add: holds_def)
  have "as_u64 (first_primary_id (family_range X f (A ! i))) = of_nat (bas f i)"
    by (metis first_range base_first [OF il] of_nat_unat ucast_id)
  then have 1: "first_primary_id (family_range X f (A ! i)) = PrimaryId (of_nat (bas f i))"
    by (metis primary_id.collapse)
  have 2: "fm_count (family_range X f (A ! i)) = of_nat (bas f (Suc i) - bas f i)"
    using base_count [OF il, of f] base_Suc [OF il, of f] by (metis add_diff_cancel_left' of_nat_unat ucast_id)
  show ?thesis using x 1 2 by (simp add: family_metadata.equality)
qed

text \<open>The byte range of an item, as a reader computes it from the two neighbouring locations.\<close>

abbreviation "start_of f i \<equiv> item_start X start A f i"

lemma start_of_first: "i = plo start f (i div 1024) \<Longrightarrow> start_of f i = 0"
  by (simp add: item_start_def)

lemma start_of_next:
  assumes "plo start f (i div 1024) < i"
  shows "start_of f i = end_of X start A f (i - 1)"
proof -
  have "i div 1024 * 1024 < i" using assms by (simp add: plo_def)
  then have "(i - 1) div 1024 = i div 1024" by linarith
  moreover have "Suc (i - 1) = i" using assms by simp
  ultimately show ?thesis by (simp add: item_start_def end_of_def)
qed

lemma location_read:
  assumes w: "winv w" and d: "durable X start A m (rows w) (blobs w)"
    and i: "first_base start f \<le> i" "i < bas f m"
    and g: "MetaTable_get ms payload_location_schema (PayloadLocationKey f (PrimaryId (of_nat i))) w = (Inr x, w')"
  shows "\<exists>l. x = Some l \<and> unat (payload_end l) = end_of X start A f i"
proof -
  have t: "tab_ok payload_location_schema (true_locations X start A) (location_puts X start A m) (rows w)"
    using d by (simp add: durable_def index_ok_def)
  note l = true_location [OF t i]
  have "unat (of_nat (end_of X start A f i) :: u64) = end_of X start A f i"
    using l(2) by (intro unat_of_nat_small) simp
  then show ?thesis
    using table_get_facts(2) [OF location_table.meta_schema_axioms w g refl] l(1)
      location_table.decode_columns [of "PayloadLocation (of_nat (end_of X start A f i))"]
    by (simp add: payload_location_schema_def)
qed

lemma payload_slice:
  assumes d: "durable X start A m R B" and i: "first_base start f \<le> i" "i < bas f m"
  shows "\<exists>b. B ''payload'' (PayloadKey_encode (PayloadKey_from_id f (of_nat i))) = Some b \<and>
      end_of X start A f i \<le> length b \<and> start_of f i < end_of X start A f i \<and>
      take (end_of X start A f i - start_of f i) (drop (start_of f i) b) =
        zstd_compress X (item_of X start A f i)"
proof -
  let ?p = "i div 1024"
  have ui: "unat (of_nat i :: u64) = i" using unat_below_base [of i f m] i(2) by simp
  have "i < 2 ^ 64" using i(2) base_bound [of f m] by simp
  then have p: "1024 * ?p < 2 ^ 64" using times_div_less_eq_dividend [of 1024 i] by linarith
  then have up: "unat (of_nat (1024 * ?p) :: u64) = 1024 * ?p" by (intro unat_of_nat_small) simp
  have key: "PayloadKey_from_id f (of_nat i) = pkey_of f ?p"
    unfolding from_id_eq ui up by simp
  have "pfam_ok X start A f m B" using d by (simp add: durable_def index_ok_def payload_ok_def)
  then obtain j where j: "min (bas f m) (phi ?p) \<le> j" "payload_blob B f ?p = pby f (plo start f ?p) j"
    using p unfolding pfam_ok_def by blast
  have "i < phi ?p" by (simp add: phi_def)
  then have ij: "i < j" using j(1) i(2) by simp
  have lo: "plo start f ?p \<le> i" using i(1) times_div_less_eq_dividend [of 1024 i] by (simp add: plo_def)
  let ?z = "zstd_compress X (item_of X start A f i)"
  have ext1: "pby f (plo start f ?p) (Suc i) = pby f (plo start f ?p) i @ ?z"
    using pbytes_append [OF lo, of "Suc i" X start A f] by (simp add: pbytes_def)
  have blob: "pby f (plo start f ?p) j = pby f (plo start f ?p) i @ ?z @ pby f (Suc i) j"
    using pbytes_append [of "plo start f ?p" "Suc i" j X start A f] lo ij ext1 by simp
  have z: "?z \<noteq> []" using ext by (simp add: externals_ok_def codec_laws_def)
  have "payload_blob B f ?p \<noteq> []" unfolding j(2) blob using z by simp
  then obtain b where b: "B ''payload'' (PayloadKey_encode (PayloadKey_from_id f (of_nat i))) = Some b"
    "payload_blob B f ?p = b"
    unfolding key payload_blob_def by (auto split: option.splits)
  then have "b = pby f (plo start f ?p) i @ ?z @ pby f (Suc i) j" using j(2) blob by simp
  moreover have "end_of X start A f i = start_of f i + length ?z"
    by (simp add: end_of_def item_start_def ext1)
  ultimately show ?thesis using b(1) z by (simp add: item_start_def)
qed

lemma payload_read:
  assumes w: "winv w" and d: "durable X start A m (rows w) (blobs w)"
    and i: "first_base start f \<le> i" "i < bas f m" and sz: "length (item_of X start A f i) \<le> MAX_PAYLOAD_SIZE"
    and g: "Partition_get_many payload_T (payload_codec X) (PayloadKey_from_id f (of_nat i))
        [(start_of f i, end_of X start A f i)] w = (Inr vs, w')"
  shows "vs = Some [PayloadItem (item_of X start A f i)]"
proof -
  obtain b where b: "blobs w ''payload'' (PayloadKey_encode (PayloadKey_from_id f (of_nat i))) = Some b"
    "end_of X start A f i \<le> length b" "start_of f i < end_of X start A f i"
    "take (end_of X start A f i - start_of f i) (drop (start_of f i) b) = zstd_compress X (item_of X start A f i)"
    using payload_slice [OF d i] by blast
  show ?thesis
    using pt.get_many_ranges [OF w _ _ _ g, of b "start_of f i" "end_of X start A f i" "[PayloadItem (item_of X start A f i)]"]
      b sz by (simp add: payload_codec_def PayloadItem_encode_def boundaries_range_def)
qed

text \<open>A bitmap page answers exactly for every committed id.\<close>

lemma page_offset_inj:
  assumes "page_of i = page_of j" "(ucast (i - page_of i) :: u32) = ucast (j - page_of j)"
  shows "i = j"
proof -
  have "unat (i - page_of i) = unat (j - page_of j)"
    using assms(2) ucast_small [of "i - page_of i"] ucast_small [of "j - page_of j"] page_offset [of i] page_offset [of j]
    by (metis mod_less_divisor zero_less_numeral)
  then have "i - page_of i = j - page_of j" by (subst word_unat_eq_iff)
  with assms(1) show ?thesis by simp
qed

lemma bitmap_read:
  assumes w: "winv w" and d: "durable X start A m (rows w) (blobs w)"
    and dec: "\<forall>a \<in> set (take m A). \<exists>es. block_entries X a = Inr es"
    and i: "first_base start f \<le> i" "i < bas f m"
    and g: "CodecBlobTable_get \<lparr>cbt_table = ''bitmap_index'', cbt_store = bs\<rparr> (bitmap_codec X)
        (BitmapIndexKey f flt (page_of (of_nat i))) w = (Inr x, w')"
  shows "(\<exists>v. x = Some v \<and> rb_contains X (biv_bitmap v) (ucast (of_nat i - page_of (of_nat i)))) \<longleftrightarrow>
    flt \<in> set (fam_filters X f A ! (i - first_base start f))"
proof -
  let ?i = "of_nat i :: u64" and ?k = "BitmapIndexKey f flt (page_of (of_nat i))"
  have ml: "m \<le> length blocks" using d by (simp add: durable_def)
  have ui: "unat ?i = i" using unat_below_base [of i f m] i(2) by simp
  have in_bits: "ucast (?i - page_of ?i) \<in> bits X as ?k \<longleftrightarrow> (f, flt, ?i) \<in> set (chain_entries X as)" for as
    using page_offset_inj [of ?i] by (auto simp: bits_def) metis
  have later: "(f, flt, ?i) \<in> set (chain_entries X A) \<longleftrightarrow> (f, flt, ?i) \<in> set (chain_entries X (take m A))"
  proof
    assume "(f, flt, ?i) \<in> set (chain_entries X A)"
    then obtain j es where j: "j < length blocks" "block_entries X (A ! j) = Inr es" "(f, flt, ?i) \<in> set es"
      by (auto simp: chain_entries_def in_set_conv_nth split: sum.splits)
         (metis in_set_conv_nth old.sum.exhaust sum.simps(5,6) emptyE list.set(1))
    have "base X start A f j \<le> i" using entry_range [OF j] by (simp add: ui)
    then have "j < m" using i(2) base_mono [of m j f] by (meson leD le_trans not_less)
    then have "A ! j \<in> set (take m A)" using ml by (auto simp: in_set_conv_nth intro!: exI [of _ j])
    with j(2,3) show "(f, flt, ?i) \<in> set (chain_entries X (take m A))"
      by (force simp: chain_entries_def)
  qed (use puts_mono(4) [of "take m A" A X] set_take_subset [of m A] in blast)
  obtain r0 where r0: "bs_get bs ''bitmap_index'' (BitmapIndexKey_encode ?k) w = (Inr r0, w')"
    "map_transpose (BitmapIndexValue_decode X) r0 = Inr x"
    using g by (auto simp: CodecBlobTable_get_def bitmap_codec_def io_bind_Inr_iff)
  have r0': "r0 = blobs w ''bitmap_index'' (BitmapIndexKey_encode ?k)"
    using B.get [OF w r0(1)] by simp
  have pg: "page_ok X A (take m A) ?k r0"
    using d r0' by (simp add: durable_def index_ok_def bitmap_ok_def)
  have bl: "BitmapIndexValue_decode X (BitmapIndexValue_encode X v) = Inr v" for v
    using BitmapIndexValue_roundtrip bitmap_laws by blast
  have "(\<exists>v. x = Some v \<and> rb_contains X (biv_bitmap v) (ucast (?i - page_of ?i))) \<longleftrightarrow>
      (f, flt, ?i) \<in> set (chain_entries X (take m A))"
  proof (cases r0)
    case None
    then show ?thesis using pg r0(2) in_bits by (auto simp: page_ok_def)
  next
    case (Some b)
    with pg obtain bm where bm: "b = BitmapIndexValue_encode X (page_value (page_of ?i) bm)"
      "bits X (take m A) ?k \<subseteq> rb_set X bm" "rb_set X bm \<subseteq> bits X A ?k"
      by (auto simp: page_ok_def)
    then have "x = Some (page_value (page_of ?i) bm)" using r0(2) Some bl by auto
    then show ?thesis
      using bm(2,3) in_bits later by (auto simp: page_value_def rb_set_def)
  qed
  then show ?thesis using chain_entries_mem [OF dec ml, of f flt ?i] ui i by simp
qed

text \<open>The same reads never fail on a reliable store.\<close>

lemma hash_read_total:
  assumes "winv w" "durable X start A m (rows w) (blobs w)" "i < m"
  shows "case fst (MetaTable_get ms block_hash_schema (MetadataBlockHashKey (start + of_nat i)) w) of
      Inr x \<Rightarrow> x = Some (block_hash X (blocks ! i)) | Inl _ \<Rightarrow> \<not> reliable_meta_store ms winv rows"
proof -
  obtain r w' where g: "MetaTable_get ms block_hash_schema (MetadataBlockHashKey (start + of_nat i)) w = (r, w')"
    by (meson surj_pair)
  have "rows w ''metadata_block_hash'' (BlockHash_key (MetadataBlockHashKey (start + of_nat i))) =
      Some (BlockHash_columns (block_hash X (blocks ! i)))"
    using assms(2,3) by (intro hash_row [of m]) (simp_all add: durable_def index_ok_def)
  then have "\<exists>x. r = Inr x" if "reliable_meta_store ms winv rows"
    using reliable_meta_store.table_get_ok [OF that block_hash.meta_schema_axioms assms(1) g]
      block_hash.decode_columns [of "block_hash X (blocks ! i)"]
    by (auto simp: block_hash_schema_def)
  with hash_read [OF assms g] g show ?thesis by (cases r) auto
qed

lemma family_read_total:
  assumes "winv w" "durable X start A m (rows w) (blobs w)" "i < m"
  shows "case fst (MetaTable_get ms family_schema (MetadataFamilyKey f (start + of_nat i)) w) of
      Inr x \<Rightarrow> x = Some \<lparr>first_primary_id = PrimaryId (of_nat (bas f i)), fm_count = of_nat (bas f (Suc i) - bas f i)\<rparr>
    | Inl _ \<Rightarrow> \<not> reliable_meta_store ms winv rows"
proof -
  obtain r w' where g: "MetaTable_get ms family_schema (MetadataFamilyKey f (start + of_nat i)) w = (r, w')"
    by (meson surj_pair)
  have "\<exists>x. r = Inr x" if "reliable_meta_store ms winv rows"
    using reliable_meta_store.table_get_ok [OF that family_table.meta_schema_axioms assms(1) g]
      family_row [OF assms(2,3), of f] family_table.decode_columns by (auto simp: holds_def)
  with family_read [OF assms] g show ?thesis by (cases r) auto
qed

lemma location_read_total:
  assumes "winv w" "durable X start A m (rows w) (blobs w)" "first_base start f \<le> i" "i < bas f m"
  shows "case fst (MetaTable_get ms payload_location_schema (PayloadLocationKey f (PrimaryId (of_nat i))) w) of
      Inr x \<Rightarrow> \<exists>l. x = Some l \<and> unat (payload_end l) = end_of X start A f i
    | Inl _ \<Rightarrow> \<not> reliable_meta_store ms winv rows"
proof -
  obtain r w' where g: "MetaTable_get ms payload_location_schema (PayloadLocationKey f (PrimaryId (of_nat i))) w = (r, w')"
    by (meson surj_pair)
  have "tab_ok payload_location_schema (true_locations X start A) (location_puts X start A m) (rows w)"
    using assms(2) by (simp add: durable_def index_ok_def)
  note row = true_location(1) [OF this assms(3,4)]
    location_table.decode_columns [of "PayloadLocation (of_nat (end_of X start A f i))"]
  have "\<exists>x. r = Inr x" if "reliable_meta_store ms winv rows"
    using reliable_meta_store.table_get_ok [OF that location_table.meta_schema_axioms assms(1) g] row
    by (auto simp: payload_location_schema_def)
  with location_read [OF assms] g show ?thesis by (cases r) auto
qed

lemma payload_read_total:
  assumes w: "winv w" and d: "durable X start A m (rows w) (blobs w)"
    and i: "first_base start f \<le> i" "i < bas f m" and sz: "length (item_of X start A f i) \<le> MAX_PAYLOAD_SIZE"
  shows "case fst (Partition_get_many payload_T (payload_codec X) (PayloadKey_from_id f (of_nat i))
        [(start_of f i, end_of X start A f i)] w) of
      Inr vs \<Rightarrow> vs = Some [PayloadItem (item_of X start A f i)] | Inl _ \<Rightarrow> \<not> reliable_blob_store bs winv blobs"
proof -
  let ?k = "PayloadKey_encode (PayloadKey_from_id f (of_nat i))"
  let ?s = "start_of f i" and ?e = "end_of X start A f i"
  obtain r w' where g: "Partition_get_many payload_T (payload_codec X) (PayloadKey_from_id f (of_nat i))
        [(?s, ?e)] w = (r, w')" by (meson surj_pair)
  obtain b where b: "blobs w ''payload'' ?k = Some b" "?e \<le> length b" "?s < ?e"
    "take (?e - ?s) (drop ?s b) = zstd_compress X (item_of X start A f i)"
    using payload_slice [OF d i] by blast
  have "\<exists>x. r = Inr x" if rel: "reliable_blob_store bs winv blobs"
  proof -
    obtain x w1 where x: "bs_get_range bs ''payload'' ?k ?s ?e w = (Inr x, w1)"
      using reliable_blob_store.get_range_ok [OF rel w b(3)] b(1,2) by fastforce
    have "x = Some (zstd_compress X (item_of X start A f i))"
      using B.get_range [OF w x] b by auto
    moreover have "?e - ?s = length (zstd_compress X (item_of X start A f i))"
      using b by (metis length_drop length_take min.absorb2 diff_le_mono)
    moreover have "PayloadItem_decode X (zstd_compress X (item_of X start A f i)) = Inr (PayloadItem (item_of X start A f i))"
      using ext sz by (simp add: PayloadItem_decode_def externals_ok_def codec_laws_def)
    ultimately show ?thesis
      using g x by (auto simp: Partition_get_many_def boundaries_range_def CodecBlobTable_get_range_def
          raw_codec_def payload_codec_def io_bind_def slice_bytes_def)
  qed
  with payload_read [OF assms] g show ?thesis by (cases r) auto
qed

lemma bitmap_read_total:
  assumes w: "winv w" and d: "durable X start A m (rows w) (blobs w)"
    and dec: "\<forall>a \<in> set (take m A). \<exists>es. block_entries X a = Inr es"
    and i: "first_base start f \<le> i" "i < bas f m"
  shows "case fst (CodecBlobTable_get \<lparr>cbt_table = ''bitmap_index'', cbt_store = bs\<rparr> (bitmap_codec X)
        (BitmapIndexKey f flt (page_of (of_nat i))) w) of
      Inr x \<Rightarrow> (\<exists>v. x = Some v \<and> rb_contains X (biv_bitmap v) (ucast (of_nat i - page_of (of_nat i)))) \<longleftrightarrow>
        flt \<in> set (fam_filters X f A ! (i - first_base start f))
    | Inl _ \<Rightarrow> \<not> reliable_blob_store bs winv blobs"
proof -
  let ?k = "BitmapIndexKey f flt (page_of (of_nat i))"
  obtain r w' where g: "CodecBlobTable_get \<lparr>cbt_table = ''bitmap_index'', cbt_store = bs\<rparr> (bitmap_codec X) ?k w = (r, w')"
    by (meson surj_pair)
  have "\<exists>x. r = Inr x" if rel: "reliable_blob_store bs winv blobs"
  proof -
    obtain x w1 where x: "bs_get bs ''bitmap_index'' (BitmapIndexKey_encode ?k) w = (Inr x, w1)"
      using reliable_blob_store.get_ok [OF rel w] by blast
    have "page_ok X A (take m A) ?k x"
      using d B.get [OF w x] by (simp add: durable_def index_ok_def bitmap_ok_def)
    then have "\<exists>v. map_transpose (BitmapIndexValue_decode X) x = Inr v"
      by (cases x) (auto simp: page_ok_def BitmapIndexValue_roundtrip [OF bitmap_laws])
    with g x show ?thesis by (auto simp: CodecBlobTable_get_def bitmap_codec_def io_bind_def)
  qed
  with bitmap_read [OF assms] g show ?thesis by (cases r) auto
qed

lemma id_in_range:
  assumes "j < m" "m \<le> length blocks" "q < length (snd (family_rows X f (A ! j)))"
  shows "first_base start f \<le> bas f j + q" "bas f j + q < bas f m"
  using assms first_base_le [of f j] base_Suc [of j f] base_mono [of "Suc j" m f] by auto

end

end
