(* ===== verification/Flush_Live.thy ===== *)
theory Flush_Live
  imports Index_Reads
begin

text \<open>
  Progress: on stores that answer every well-formed request, a flush of blocks whose
  envelopes decode and whose payloads fit their limits succeeds, whatever an earlier
  interrupted flush left behind.
\<close>

text \<open>The payloads of blocks \<open>n\<close> to \<open>m\<close> are within the size limit and their partitions within a vector's.\<close>

definition writable ::
  "('h, 'b) externals \<Rightarrow> u64 \<Rightarrow> 'h assigned_block list \<Rightarrow> family \<Rightarrow> nat \<Rightarrow> nat \<Rightarrow> bool" where
  "writable X start A f n m \<longleftrightarrow>
     (\<forall>i. base X start A f n \<le> i \<and> i < base X start A f m \<longrightarrow>
        length (item_of X start A f i) \<le> MAX_PAYLOAD_SIZE \<and> end_of X start A f i < 2 ^ 63)"

locale reliable_index =
  index_writer ms bs winv rows blobs X start blocks A +
  RM: reliable_meta_store ms winv rows + RB: reliable_blob_store bs winv blobs
  for ms :: "'w meta_store" and bs :: "'w blob_store" and winv :: "'w \<Rightarrow> bool"
    and rows :: "'w \<Rightarrow> meta_rows" and blobs :: "'w \<Rightarrow> blobs"
    and X :: "('h, 'b) externals" and start :: u64
    and blocks :: "'h writer_block list" and A :: "'h assigned_block list"
begin

section \<open>Single calls\<close>

lemma table_put_batch_ok:
  assumes "meta_schema ts okv" "winv w" "MetaTable_put_batch ms ts kvs w = (r, w')"
  shows "r = Inr ()"
proof -
  note mt = meta_table.intro [OF M.meta_store_axioms assms(1)]
  show ?thesis
    using RM.put_batch_ok [OF assms(2) meta_table.canonical_rows [OF mt] meta_schema.batch_layout_ok [OF assms(1)],
        of "TABLE ts" kvs] assms(3) meta_table.put_batch_rows [OF mt, of kvs w] by auto
qed

lemma table_put_ok:
  assumes "meta_schema ts okv" "winv w" "MetaTable_put ms ts k v w = (r, w')"
  shows "r = Inr ()"
  using RM.put_ok [OF assms(2), of "meta_schema.row_of ts (k, v)" "TABLE ts"] assms(3)
  by (auto simp: MetaTable_put_def meta_schema.schema_row_total [OF assms(1)]
      meta_schema.row_of_def [OF assms(1)] meta_schema.key_canonical [OF assms(1)])

lemma blob_put_batch_ok: "\<lbrakk>winv w; bs_put_batch bs ps w = (r, w')\<rbrakk> \<Longrightarrow> r = Inr ()"
  using RB.put_batch_ok [of w ps] by auto

section \<open>Payloads\<close>

lemma group_committed_end_ok:
  assumes w: "winv w" and st: "writer_state X start A n st" "n \<le> length blocks"
    and loc: "tab_ok payload_location_schema (true_locations X start A) (location_puts X start A n) (rows w)"
    and vs: "vs \<noteq> []" and run: "group_committed_end ms st f vs w = (r, w')"
  shows "\<exists>ce. r = Inr ce"
proof -
  obtain i v vs' where vs': "vs = (i, v) # vs'" using vs by (cases vs) auto
  let ?c = "bas f n - 1"
  show ?thesis
  proof (cases "first_base start f < bas f n \<and>
      PayloadKey_from_id f (of_nat ?c) = PayloadKey_from_id f (as_u64 i)")
    case False
    with run show ?thesis
      by (auto simp: group_committed_end_def vs' committed_id_state [OF st] simp del: from_id_eq of_nat_diff
          split: if_splits)
  next
    case True
    then have c: "first_base start f \<le> ?c" "?c < bas f n" by auto
    let ?get = "MetaTable_get ms payload_location_schema (PayloadLocationKey f (PrimaryId (of_nat ?c))) w"
    obtain r1 w1 where g: "?get = (r1, w1)" by (meson surj_pair)
    note row = true_location(1) [OF loc c]
      location_table.decode_columns [of "PayloadLocation (of_nat (end_of X start A f ?c))"]
    obtain x where x: "r1 = Inr x"
      using RM.table_get_ok [OF location_table.meta_schema_axioms w g] row
      by (auto simp: payload_location_schema_def)
    have "x \<noteq> None"
      using table_get_facts(2) [OF location_table.meta_schema_axioms w g x] row
      by (auto simp: payload_location_schema_def)
    with x g run True show ?thesis
      by (auto simp: group_committed_end_def vs' committed_id_state [OF st] io_bind_def
          simp del: from_id_eq of_nat_diff)
  qed
qed

lemma entries_ok:
  assumes w: "winv w" and st: "writer_state X start A n st" "n \<le> m" "m \<le> length blocks"
    and loc: "tab_ok payload_location_schema (true_locations X start A) (location_puts X start A n) (rows w)"
    and run: "io_map (grouped_entry ms st f)
      (group_items (map (id_item f) [bas f n..<bas f m])) w = (r, w')"
  shows "\<exists>es. r = Inr es"
proof (rule io_map_ok [where P = "same w", OF _ same_refl [OF w] run])
  fix g w1 r1 w2
  assume g: "g \<in> set (group_items (map (id_item f) [bas f n..<bas f m]))"
    and s: "same w w1" and call: "grouped_entry ms st f g w1 = (r1, w2)"
  obtain key vs where kv: "g = (key, vs)" by force
  obtain p where p: "vs = map (\<lambda>i. (PrimaryId (of_nat i), PayloadItem (item_of X start A f i)))
            (group_range f p (bas f n) (bas f m))" "max (bas f n) (1024 * p) < min (bas f m) (phi p)"
    by (rule group_cases [OF g [unfolded kv] order.refl])
  then have ne: "vs \<noteq> []"
    unfolding group_range_def by (simp add: not_le)
  have w1: "winv w1" "rows w1 = rows w" using s by (simp_all add: same_def)
  have gl: "group_first f n p < group_last f m p"
    using p(2) unfolding group_first_def group_last_def .
  obtain r3 w3 where c: "group_committed_end ms st f vs w1 = (r3, w3)" by (meson surj_pair)
  have n: "n \<le> length blocks" using st by simp
  have "same w1 w3"
    using group_committed_end_value(1) [OF w1(1) st(1) n loc [folded w1(2)] gl
        c [unfolded p(1) group_range_def group_first_def [symmetric] group_last_def [symmetric]]] .
  moreover have "\<exists>ce. r3 = Inr ce"
    by (rule group_committed_end_ok [OF w1(1) st(1) n loc [folded w1(2)] ne c])
  ultimately show "same w w2 \<and> (\<exists>y. r1 = Inr y)"
    using call c same_trans [OF s] by (auto simp: grouped_entry_def kv io_bind_def)
qed

lemma extend_items_ok:
  assumes "\<forall>i. a \<le> i \<and> i < c \<longrightarrow> length (item_of X start A f i) \<le> MAX_PAYLOAD_SIZE \<and>
      length (pby f lo (Suc i)) < 2 ^ 63" "lo \<le> a" "a \<le> c"
  shows "\<exists>y. extend_items (PayloadItem_encode X) (pby f lo a)
    (map (\<lambda>i. PayloadItem (item_of X start A f i)) [a..<c]) = Inr y"
  using assms
proof (induction "c - a" arbitrary: a)
  case (Suc d)
  have upt: "[a..<c] = a # [Suc a..<c]" using Suc.hyps(2) by (simp add: upt_rec)
  have suc: "pby f lo a @ zstd_compress X (item_of X start A f a) = pby f lo (Suc a)"
    using Suc.prems(2) by (simp add: pbytes_def)
  have a: "length (item_of X start A f a) \<le> MAX_PAYLOAD_SIZE" "length (pby f lo (Suc a)) < 2 ^ 63"
    using Suc.prems(1) Suc.hyps(2) by auto
  have d: "d = c - Suc a" "Suc a \<le> c" "lo \<le> Suc a" using Suc.hyps(2) Suc.prems(2) by auto
  have "\<forall>i. Suc a \<le> i \<and> i < c \<longrightarrow> length (item_of X start A f i) \<le> MAX_PAYLOAD_SIZE \<and>
      length (pby f lo (Suc i)) < 2 ^ 63" using Suc.prems(1) by auto
  from Suc.hyps(1) [OF d(1) this d(3,2)]
  obtain y where "extend_items (PayloadItem_encode X) (pby f lo (Suc a))
      (map (\<lambda>i. PayloadItem (item_of X start A f i)) [Suc a..<c]) = Inr y" by blast
  moreover have "length (pby f lo a) + length (zstd_compress X (item_of X start A f a)) < 2 ^ 63"
    using a(2) unfolding suc [symmetric] by simp
  ultimately show ?case
    using a(1) by (auto simp: upt PayloadItem_encode_def extend_from_slice_def suc split: prod.splits)
qed simp

lemma append_prepared_ok:
  assumes w: "winv w" and n: "n \<le> m" and ok: "pfam_ok X start A f n (blobs w)"
    and e: "entry_of f n m p e" and wr: "writable X start A f n m"
    and run: "(\<lambda>(key, ids, ce, vs). prepare_append payload_T (payload_codec X) key ce vs) e w = (r, w')"
  shows "\<exists>y. r = Inr y"
proof -
  let ?g = "group_first f n p" and ?k = "pkey_of f p"
  from e obtain ce where v: "valid_group f n m p"
    and e': "e = (?k, map (\<lambda>i. PrimaryId (of_nat i)) [?g..<group_last f m p], ce,
            map (\<lambda>i. PayloadItem (item_of X start A f i)) [?g..<group_last f m p])"
      "unat ce = length (pby f (plo start f p) ?g)"
    by (auto simp: entry_of_def)
  have gl: "?g < phi p" "1024 * p < 2 ^ 64" "?g \<le> group_last f m p"
    using v by (auto simp: valid_group_def group_last_def)
  obtain x w1 where g: "bs_get bs ''payload'' (PayloadKey_encode ?k) w = (Inr x, w1)"
    using RB.get_ok [OF w] by blast
  have b: "(case x of None \<Rightarrow> [] | Some b \<Rightarrow> b) = payload_blob (blobs w) f p"
    using B.get [OF w g] by (simp add: payload_blob_def)
  have take: "take (unat ce) (payload_blob (blobs w) f p) = pby f (plo start f p) ?g"
    unfolding e'(2) by (rule committed_prefix [OF ok gl(2,1)])
  then have le: "unat ce \<le> length (payload_blob (blobs w) f p)"
    by (metis e'(2) length_take min.cobounded1)
  have rng: "\<forall>i. ?g \<le> i \<and> i < group_last f m p \<longrightarrow> length (item_of X start A f i) \<le> MAX_PAYLOAD_SIZE \<and>
      length (pby f (plo start f p) (Suc i)) < 2 ^ 63"
  proof (intro allI impI)
    fix i assume i: "?g \<le> i \<and> i < group_last f m p"
    then have "bas f n \<le> i" "i < bas f m" by (auto simp: group_first_def group_last_def)
    with wr i group_id_div [of f n p i m] show "length (item_of X start A f i) \<le> MAX_PAYLOAD_SIZE \<and>
        length (pby f (plo start f p) (Suc i)) < 2 ^ 63"
      unfolding writable_def end_of_def by auto
  qed
  obtain y where "extend_items (PayloadItem_encode X) (pby f (plo start f p) ?g)
      (map (\<lambda>i. PayloadItem (item_of X start A f i)) [?g..<group_last f m p]) = Inr y"
    using extend_items_ok [OF rng group_first_lo(1) gl(3)] by blast
  moreover have "CodecBlobTable_get payload_T (raw_codec (payload_codec X)) ?k w = (Inr x, w1)"
    using g by (cases x) (simp_all add: CodecBlobTable_get_def raw_codec_def payload_codec_def io_bind_def)
  ultimately show ?thesis
    using run le unfolding e'(1) prod.case prepare_append_def
    by (auto simp: io_bind_def Let_def b take payload_codec_def simp del: of_nat_mult split: prod.splits)
qed

lemma append_batch_ok:
  assumes w: "winv w" and n: "n \<le> m" and ok: "pfam_ok X start A f n (blobs w)" and wr: "writable X start A f n m"
    and es: "list_all2 (entry_of f n m) ps es"
    and run: "Partition_append_batch payload_T (payload_codec X)
      (map (\<lambda>(key, ids, ce, vs). (key, ce, vs)) es) w = (r, w')"
  shows "\<exists>ends. r = Inr ends"
proof -
  let ?prep = "\<lambda>(key, ids, ce, vs). prepare_append payload_T (payload_codec X) key ce vs"
  have run': "io_bind (io_map ?prep es) (\<lambda>prepared.
      io_bind (CodecBlobTable_put_batch payload_T (raw_codec (payload_codec X))
        (map (\<lambda>(key, b, ends). (key, b)) prepared)) (\<lambda>_.
      io_lift (Inr (map (\<lambda>(key, b, ends). (key, ends)) prepared)))) w = (r, w')"
    using run by (simp add: Partition_append_batch_def io_map_map case_prod_unfold)
  have each: "same w v' \<and> (\<exists>y. q = Inr y)" if mem: "e \<in> set es" and sv: "same w v" and call: "?prep e v = (q, v')" for e v q v'
  proof -
    obtain i where i: "i < length es" "e = es ! i" using mem by (auto simp: in_set_conv_nth)
    with es have p: "entry_of f n m (ps ! i) e" by (simp add: list_all2_nthD2)
    have v: "winv v" "pfam_ok X start A f n (blobs v)" using sv ok by (simp_all add: same_def)
    show ?thesis
      by (intro conjI same_trans [OF sv] append_prepared [OF v(1) n v(2) p call, THEN conjunct1]
          append_prepared_ok [OF v(1) n v(2) p wr call])
  qed
  from run' show ?thesis
  proof (cases rule: io_bind_cases)
    case (fail e)
    have "\<exists>ys. (Inl e :: fault + (payload_key \<times> bytes \<times> u64 list) list) = Inr ys"
      by (rule io_map_ok [where P = "same w", OF each same_refl [OF w] fail(1)])
    then show ?thesis by simp
  next
    case (ok prepared w1)
    have "same w w1"
      by (rule io_map_inv [where P = "same w" and Q = "\<lambda>_ _. True", OF _ same_refl [OF w] ok(1), THEN conjunct1])
         (simp add: each [THEN conjunct1])
    then have w1: "winv w1" by (simp add: same_def)
    from ok(2) show ?thesis
    proof (cases rule: io_bind_cases)
      case (fail e)
      then obtain ps where "bs_put_batch bs ps w1 = (Inl e, w')"
        unfolding put_batch_encoded [where c = "raw_codec (payload_codec X)" and enc = "\<lambda>b. b",
            OF raw_codec_def [THEN arg_cong [where f = value_encode], THEN fun_cong, simplified]]
        by auto
      with blob_put_batch_ok [OF w1] show ?thesis by blast
    qed auto
  qed
qed

lemma flush_family_ok:
  assumes w: "winv w" and st: "writer_state X start A n st" and n: "n + k \<le> length blocks"
    and loc: "tab_ok payload_location_schema (true_locations X start A) (location_puts X start A n) (rows w)"
    and ok: "pfam_ok X start A f n (blobs w)" and as: "fb_blocks batch = take k (drop n A)"
    and wr: "writable X start A f n (n + k)"
    and run: "flush_family X payload_T ms st batch f w = (r, w')"
  shows "\<exists>locs. r = Inr locs"
proof -
  let ?m = "n + k" and ?G = "group_items (map (id_item f) [bas f n..<bas f (n + k)])"
  have nm: "n \<le> ?m" using n by auto
  from run [unfolded flush_family_def as payload_items_range [OF n]] show ?thesis
  proof (cases rule: io_bind_cases)
    case (fail e)
    with entries_ok [OF w st nm n loc fail(1)] show ?thesis by blast
  next
    case (ok es w1)
    note rd = entries_read [OF w st nm n loc ok(1)]
    then have w1: "winv w1" "pfam_ok X start A f n (blobs w1)" using assms(5) by (auto simp: same_def)
    from rd obtain ps where ps: "list_all2 (\<lambda>p g. fst g = pkey_of f p) ps ?G"
      "list_all2 (entry_of f n ?m) ps es"
      using list_all2_choose [of "\<lambda>p g. fst g = pkey_of f p" "entry_of f n ?m" ?G es] by blast
    have "\<forall>p \<in> set ps. valid_group f n ?m p"
      using ps(2) by (auto simp: list_all2_conv_all_nth in_set_conv_nth entry_of_def)
    note parts = flush_parts_groups [OF ps(1) this]
    from ok(2) show ?thesis
    proof (cases rule: io_bind_cases)
      case (fail e)
      with append_batch_ok [OF w1(1) nm w1(2) wr ps(2) fail(1)] show ?thesis by blast
    next
      case ok2: (ok ends w2)
      note ap = append_batch_stage [OF w1(1) nm n w1(2) parts ps(2) ok2(1)]
      have "\<exists>ls. collect_locations f (map (\<lambda>(key, ids, _). (key, ids)) es) ends = Inr ls"
        using collect_ends [OF parts ps(2)] ap by auto
      with ok2(2) show ?thesis by auto
    qed
  qed
qed

lemma payload_flush_ok:
  assumes w: "winv w" and st: "writer_state X start A n st" and n: "n + k \<le> length blocks"
    and loc: "tab_ok payload_location_schema (true_locations X start A) (location_puts X start A n) (rows w)"
    and ok: "payload_ok X start A n (blobs w)" and as: "fb_blocks batch = take k (drop n A)"
    and wr: "\<And>f. writable X start A f n (n + k)"
    and run: "payload_flush X payload_T ms st batch w = (r, w')"
  shows "r = Inr ()"
proof -
  let ?P = "\<lambda>w. winv w \<and> payload_ok X start A n (blobs w) \<and>
    tab_ok payload_location_schema (true_locations X start A) (location_puts X start A n) (rows w)"
  have each: "?P v' \<and> (\<exists>y. q = Inr y)" if "?P v" "flush_family X payload_T ms st batch f v = (q, v')" for f v q v'
  proof -
    have P: "winv v" "pfam_ok X start A f n (blobs v)"
      "tab_ok payload_location_schema (true_locations X start A) (location_puts X start A n) (rows v)"
      using that(1) by (auto simp: payload_ok_def)
    note s = flush_family_stage [OF P(1) st n P(3,2) as that(2)]
      flush_family_ok [OF P(1) st n P(3,2) as wr that(2)]
    have "payload_ok X start A n (blobs v')"
      using s(1) that(1) by (auto simp: payload_ok_def)
    with s P(3) show ?thesis by auto
  qed
  have Pw: "?P w" using w ok loc by blast
  from run [unfolded payload_flush_def] show ?thesis
  proof (cases rule: io_bind_cases)
    case (fail e)
    have "\<exists>ys. (Inl e :: fault + (payload_location_key \<times> payload_location) list list) = Inr ys"
      by (rule io_map_ok [where P = ?P, OF each Pw fail(1)])
    then show ?thesis by simp
  next
    case (ok ls w1)
    have "winv w1" using families_stage [OF w st n loc assms(5) as ok(1)] by simp
    from table_put_batch_ok [OF location_table.meta_schema_axioms this ok(2)] show ?thesis .
  qed
qed

section \<open>Bitmaps, metadata, state\<close>

lemma page_update_total:
  assumes w: "winv w" and ok: "bitmap_ok X A n (blobs w)"
    and run: "page_update X bitmap_T batch p w = (r, w')"
  shows "\<exists>y. r = Inr y"
proof -
  obtain key pending where p: "p = (key, pending)" by force
  obtain x w1 where g: "bs_get bs ''bitmap_index'' (BitmapIndexKey_encode key) w = (Inr x, w1)"
    using RB.get_ok [OF w] by blast
  have "page_ok X A (take n A) key x"
    using ok B.get [OF w g] by (simp add: bitmap_ok_def)
  then have "\<exists>v. map_transpose (BitmapIndexValue_decode X) x = Inr v"
    by (cases x) (auto simp: page_ok_def BitmapIndexValue_roundtrip [OF bitmap_laws])
  with run g show ?thesis
    by (auto simp: p page_update_def load_committed_def CodecBlobTable_get_def bitmap_codec_def io_bind_def
        Let_def split: if_splits)
qed

lemma bitmap_flush_ok:
  assumes w: "winv w" and d: "0 < d" "n + d \<le> length blocks" and ok: "bitmap_ok X A n (blobs w)"
    and as: "fb_blocks batch = take d (drop n A)"
    and dec: "\<forall>a \<in> set (take d (drop n A)). \<exists>es. block_entries X a = Inr es"
    and run: "bitmap_flush X bitmap_T ms batch w = (r, w')"
  shows "r = Inr ()"
proof -
  let ?as = "take d (drop n A)"
  obtain pages where pages: "pending_pages X ?as = Inr pages"
  proof -
    have "map_res (block_entries X) ?as = Inr (map (\<lambda>a. projr (block_entries X a)) ?as)"
      by (rule map_res_total) (use dec in force)
    then show thesis using that by (simp add: pending_pages_def)
  qed
  note inv = pending_pages_entries [OF pages bitmap_laws]
  let ?ps = "hash_iter X pages"
  have sets: "set ?ps = set pages" using mset_hash_iter [OF local.ext, of pages] by (metis set_mset_mset)
  have each: "same w v' \<and> (\<exists>y. q = Inr y)"
    if mem: "p \<in> set ?ps" and s: "same w v" and c: "page_update X bitmap_T batch p v = (q, v')" for p v q v'
  proof -
    obtain key b where kb: "p = (key, b)" by force
    have v: "winv v" "bitmap_ok X A n (blobs v)" using s ok by (simp_all add: same_def)
    have "rb_set X b = bits X ?as key" using pages_mem(1) [OF inv] mem kb by (simp add: sets bits_ebits)
    from page_update_ok [OF v as d this c [unfolded kb]] page_update_total [OF v c] same_trans [OF s]
    show ?thesis by blast
  qed
  from run [unfolded bitmap_flush_def as pages io_bind_lift] show ?thesis
  proof (cases rule: io_bind_cases)
    case (fail e)
    have "\<exists>ys. Inl e = (Inr ys :: fault + ((bitmap_index_key \<times> 'b bitmap_index_value) \<times> (page_stats_key \<times> u32) option) list)"
      by (rule io_map_ok [where P = "same w", OF each same_refl [OF w] fail(1)])
    then show ?thesis by simp
  next
    case (ok us w1)
    have "same w w1"
      by (rule io_map_inv [where P = "same w" and Q = "\<lambda>_ _. True", OF _ same_refl [OF w] ok(1), THEN conjunct1])
         (simp add: each [THEN conjunct1])
    then have w1: "winv w1" by (simp add: same_def)
    have enc: "CodecBlobTable_put_batch bitmap_T (bitmap_codec X) kvs = bs_put_batch bs
        (map (\<lambda>(k, v). \<lparr>bp_table = ''bitmap_index'', bp_key = BitmapIndexKey_encode k,
           bp_value = BitmapIndexValue_encode X v\<rparr>) kvs)" for kvs
      by (subst put_batch_encoded [where enc = "BitmapIndexValue_encode X"]) (simp_all add: bitmap_codec_def)
    from ok(2) [unfolded Let_def enc] show ?thesis
    proof (cases rule: io_bind_cases)
      case (fail e)
      with blob_put_batch_ok [OF w1] show ?thesis by blast
    next
      case ok2: (ok u w2)
      have "winv w2" using B.put_batch [OF w1 ok2(1)] by simp
      from table_put_batch_ok [OF stats_table.meta_schema_axioms this ok2(2)] show ?thesis .
    qed
  qed
qed

lemma metadata_flush_ok:
  assumes w: "winv w" and run: "metadata_flush X ms ms ms batch w = (r, w')"
  shows "r = Inr ()"
proof -
  have step: "winv w2" if "meta_schema ts okv" "winv w1" "MetaTable_put_batch ms ts kvs w1 = (q, w2)"
    for ts :: "('k, 'v) meta_table_schema" and okv kvs w1 q w2
    using meta_table.table_put_batch(1) [OF meta_table.intro [OF M.meta_store_axioms that(1)] that(2,3)] .
  from run [unfolded metadata_flush_def] show ?thesis
  proof (cases rule: io_bind_cases)
    case (fail e)
    with table_put_batch_ok [OF block_hash.meta_schema_axioms w] show ?thesis by blast
  next
    case (ok u w1)
    note w1 = step [OF block_hash.meta_schema_axioms w ok(1)]
    from ok(2) show ?thesis
    proof (cases rule: io_bind_cases)
      case (fail e)
      with table_put_batch_ok [OF family_table.meta_schema_axioms w1] show ?thesis by blast
    next
      case ok2: (ok u w2)
      note w2 = step [OF family_table.meta_schema_axioms w1 ok2(1)]
      from table_put_batch_ok [OF fbi_table.meta_schema_axioms w2 ok2(2)] show ?thesis .
    qed
  qed
qed

section \<open>The flush\<close>

lemma flush_batch_ok:
  assumes w: "winv w" and st: "writer_state X start A n (qw_state W)"
    and T: "qw_tables W = query_tables_on ms bs"
    and k: "0 < k" "n + k \<le> length blocks" and m: "n \<le> m" "m \<le> n + k"
    and ok: "index_ok X start A m (rows w) (blobs w)" "state_row X start A m (rows w)"
    and batch: "fb_blocks batch = take k (drop n A)"
    and dec: "\<forall>a \<in> set (take k (drop n A)). \<exists>es. block_entries X a = Inr es"
    and wr: "\<And>f. writable X start A f n (n + k)"
    and run: "flush_batch_io X W batch w = (r, w')"
  shows "r = Inr ()"
proof -
  note p0 = progress_start [OF w ok]
  note p1 = payload_progress [OF st k(2) m batch p0]
  have n_ok: "tab_ok payload_location_schema (true_locations X start A) (location_puts X start A n) (rows w)"
    "payload_ok X start A n (blobs w)"
    using ok(1) location_ok_mono [OF _ m(1)] payload_ok_mono [OF _ m(1)] by (auto simp: index_ok_def)
  from run [unfolded flush_batch_io_def T Let_def query_tables_on_sel] show ?thesis
  proof (cases rule: io_bind_cases)
    case (fail e)
    with payload_flush_ok [OF w st k(2) n_ok batch wr] show ?thesis by blast
  next
    case (ok u w1)
    have q1: "progress m (n + k) m m w1" using p1 [OF ok(1)] by simp
    then have w1: "winv w1" "bitmap_ok X A n (blobs w1)"
      using bitmap_ok_mono [OF _ m(1)] by (auto simp: progress_def)
    note p2 = bitmap_progress [OF k m batch q1]
    from ok(2) show ?thesis
    proof (cases rule: io_bind_cases)
      case (fail e)
      with bitmap_flush_ok [OF w1(1) k w1(2) batch dec] show ?thesis by blast
    next
      case ok2: (ok u2 w2)
      then have q2: "progress m (n + k) (n + k) m w2" using p2 by auto
      then have w2: "winv w2" by (simp add: progress_def)
      from ok2(2) show ?thesis
      proof (cases rule: io_bind_cases)
        case (fail e)
        with metadata_flush_ok [OF w2] show ?thesis by blast
      next
        case ok3: (ok u3 w3)
        have "winv w3" using metadata_progress [OF m(1) batch q2 ok3(1)] by (simp add: progress_def)
        from table_put_ok [OF state_table.meta_schema_axioms this ok3(2)] show ?thesis .
      qed
    qed
  qed
qed

lemma flush_succeeds:
  assumes w: "winv w" and inv: "writer_inv X start blocks A n m W (rows w) (blobs w)"
    and T: "qw_tables W = query_tables_on ms bs"
    and dec: "\<forall>a \<in> set (take (length (qw_pending W)) (drop n A)). \<exists>es. block_entries X a = Inr es"
    and wr: "\<And>f. writable X start A f n (n + length (qw_pending W))"
  shows "fst (QueryWriter_flush X W w) = Inr ()"
proof (cases "qw_pending W = []")
  case True
  then show ?thesis by (simp add: flush_nothing)
next
  case False
  let ?k = "length (qw_pending W)"
  have i: "writer_state X start A n (qw_state W)" "qw_pending W = take ?k (drop n blocks)"
    "n + ?k \<le> length blocks" "n \<le> m" "m \<le> n + ?k"
    "index_ok X start A m (rows w) (blobs w)" "state_row X start A m (rows w)"
    using inv by (simp_all add: writer_inv_def durable_def)
  have k: "0 < ?k" using False by simp
  let ?batch = "\<lparr>fb_blocks = take ?k (drop n A), fb_state = state_at X start A (n + ?k)\<rparr>"
  let ?W1 = "W\<lparr>qw_pending := []\<rparr>"
  obtain r1 w1 where io: "flush_batch_io X ?W1 ?batch w = (r1, w1)" by (meson surj_pair)
  have st1: "writer_state X start A n (qw_state ?W1)" "qw_tables ?W1 = query_tables_on ms bs"
    using i(1) T by simp_all
  have "r1 = Inr ()"
    by (rule flush_batch_ok [OF w st1 k i(3-7) _ dec wr io]) simp
  with io show ?thesis
    by (simp add: QueryWriter_flush_def prepare_flush_chain [OF i(1,2) k i(3)])
qed

section \<open>Opening\<close>

lemma init_total:
  assumes "winv w" "QueryTables_init (query_tables_on ms bs) w = (r, w')"
  shows "r = Inr ()"
proof -
  define good where "good f \<longleftrightarrow> (\<forall>w r w'. winv w \<longrightarrow> f w = (r, w') \<longrightarrow> winv w' \<and> r = Inr ())"
    for f :: "('w, unit) query_io"
  have seq: "good (io_bind f (\<lambda>_. g))" if "good f" "good g" for f g
    unfolding good_def
  proof (intro allI impI)
    fix v q v' assume v: "winv v" "io_bind f (\<lambda>_. g) v = (q, v')"
    from v(2) show "winv v' \<and> q = Inr ()"
      by (cases rule: io_bind_cases) (use that v(1) in \<open>unfold good_def, blast+\<close>)
  qed
  have i: "good (ms_init ms t d)" for t d
    unfolding good_def using meta_init RM.init_ok by (metis prod.inject)
  have "good (QueryTables_init (query_tables_on ms bs))"
    unfolding QueryTables_init_def MetadataTables_init_def BitmapTables_init_def
      PayloadTables_init_def StateTables_init_def MetaTable_init_def query_tables_on_sel
    by (intro seq i)
  then show ?thesis using assms unfolding good_def by blast
qed

lemma open_succeeds:
  assumes w: "winv w" and d: "durable X start A m (rows w) (blobs w)"
  shows "\<exists>W w'. QueryWriter_open (query_tables_on ms bs) w = (Inr (W :: ('w, 'h) query_writer), w')"
proof -
  obtain r w' where run: "QueryWriter_open (query_tables_on ms bs) w = (r :: ('w, 'h) query_writer query_result, w')"
    by (meson surj_pair)
  have ml: "m \<le> length blocks" "meta_ok X A m (rows w)" "state_row X start A m (rows w)"
    using d by (simp_all add: durable_def index_ok_def)
  have dec: "sch_decode state_index_schema (sch_columns state_index_schema (state_at X start A m)) =
      Inr (state_at X start A m)"
    by (rule state_table.decode_columns) (simp add: state_at_def)
  have "\<exists>W. r = Inr W"
    using run [unfolded QueryWriter_open_def query_tables_on_sel]
  proof (cases rule: io_bind_cases)
    case (fail e)
    with init_total [OF w] show ?thesis by blast
  next
    case (ok u w1)
    then have w1: "winv w1" "rows w1 = rows w" using init_same [OF w] by (auto simp: same_def)
    have sr: "rows w1 (TABLE state_index_schema) (sch_key state_index_schema StateIndexKey) = Some cs \<Longrightarrow>
        cs = sch_columns state_index_schema (state_at X start A m)" for cs
      using ml(3) by (auto simp: state_row_def holds_def w1(2))
    from ok(2) show ?thesis
    proof (cases rule: io_bind_cases)
      case (fail e)
      then show ?thesis
        using RM.table_get_ok [OF state_table.meta_schema_axioms w1(1) fail(1)] sr dec by blast
    next
      case ok2: (ok s w2)
      have w2: "winv w2" "rows w2 = rows w"
        using table_get_facts(1) [OF state_table.meta_schema_axioms w1(1) ok2(1)] w1 by (auto simp: same_def)
      let ?st = "case s of None \<Rightarrow> StateIndex_default | Some st \<Rightarrow> st"
      have st: "?st = state_at X start A m \<or> (m = 0 \<and> ?st = StateIndex_default)"
        using table_get_facts(2) [OF state_table.meta_schema_axioms w1(1) ok2(1) refl] ml(3) dec
        unfolding w1(2) state_row_def holds_def by auto
      show ?thesis
      proof (cases "last_block_id ?st")
        case None
        with ok2(2) show ?thesis by (auto simp: Let_def)
      next
        case (Some h)
        then have mh: "0 < m" "h = start + of_nat (m - 1)"
          using st last_block_state [OF ml(1)] last_block_default by (auto split: if_splits)
        let ?get = "MetaTable_get ms block_hash_schema (MetadataBlockHashKey h)"
        have row: "rows w2 ''metadata_block_hash'' (BlockHash_key (MetadataBlockHashKey h)) =
            Some (BlockHash_columns (block_hash X (blocks ! (m - 1))))"
          using hash_row [OF ml(2) _ ml(1), of "m - 1"] mh w2 by simp
        obtain r3 w3 where g3: "?get w2 = (r3, w3)" by (meson surj_pair)
        obtain x where x: "r3 = Inr x"
          using RM.table_get_ok [OF block_hash.meta_schema_axioms w2(1) g3] row
            block_hash.decode_columns [of "block_hash X (blocks ! (m - 1))"]
          by (auto simp: block_hash_schema_def)
        then have "x \<noteq> None"
          using table_get_facts(2) [OF block_hash.meta_schema_axioms w2(1) g3 x] row
          by (auto simp: block_hash_schema_def)
        with ok2(2) Some g3 x show ?thesis by (auto simp: Let_def io_bind_def)
      qed
    qed
  qed
  with run show ?thesis by blast
qed

end

end
