(* ===== verification/In_Memory.thy ===== *)
theory In_Memory
  imports Writer_Stages
begin

text \<open>
  The in-memory stores (\<open>monad-query-store/src/meta/in_memory.rs\<close>,
  \<open>blob/in_memory.rs\<close>).  One world holds both maps and the read counter.  On the keys the
  schemas build, the stores meet the contracts of \<open>MetaStore\<close> and \<open>BlobStore\<close> and never
  fail; the interpretations at the end discharge them.
\<close>

section \<open>The world\<close>

type_synonym mem_rows = "(string \<times> meta_key, meta_row) btree"
type_synonym mem_blobs = "(string \<times> bytes, bytes) btree"

record mem_world =
  mem_rows :: mem_rows
  blob_store_map :: mem_blobs
  read_call_count :: u64

definition mem_empty :: mem_world where
  "mem_empty = \<lparr>mem_rows = [], blob_store_map = [], read_call_count = 0\<rparr>"

section \<open>The metadata store (meta/in\_memory.rs)\<close>

definition row_key_cmp :: "string \<times> meta_key \<Rightarrow> string \<times> meta_key \<Rightarrow> ordering" where
  "row_key_cmp = cmp_pair cmp_lin meta_key_cmp"

definition InMemoryMetaStore_get :: "string \<Rightarrow> meta_key \<Rightarrow> (mem_world, meta_row option) query_io" where
  "InMemoryMetaStore_get t k w = (Inr (bt_get row_key_cmp (t, k) (mem_rows w)), w)"

text \<open>\<open>BTreeMap::range\<close> panics when the start is greater than the end.\<close>

definition btree_range ::
  "('k \<Rightarrow> 'k \<Rightarrow> ordering) \<Rightarrow> 'k \<Rightarrow> 'k \<Rightarrow> ('k, 'v) btree \<Rightarrow> ('k, 'v) btree query_result" where
  "btree_range cmp lo hi m =
     (if cmp lo hi = Greater then panic ''range start is greater than range end in BTreeMap''
      else Inr (bt_range cmp lo hi m))"

definition InMemoryMetaStore_get_range ::
  "string \<Rightarrow> row_cells \<Rightarrow> row_cells \<Rightarrow> row_cells \<Rightarrow> meta_scan_order \<Rightarrow> nat option
     \<Rightarrow> (mem_world, meta_row list) query_io" where
  "InMemoryMetaStore_get_range t part start_c end_c order limit w =
     (let s = \<lparr>mk_partition = part, mk_clustering = start_c\<rparr>;
          e = \<lparr>mk_partition = part, mk_clustering = end_c\<rparr>;
          cut = (\<lambda>xs. case limit of None \<Rightarrow> xs | Some n \<Rightarrow> take n xs)
      in (res_bind (btree_range row_key_cmp (t, s) (t, e) (mem_rows w)) (\<lambda>range.
            Inr (map snd (cut (case order of Ascending \<Rightarrow> range | Descending \<Rightarrow> rev range)))), w))"

definition InMemoryMetaStore_seek_le ::
  "string \<Rightarrow> row_cells \<Rightarrow> row_cells \<Rightarrow> (mem_world, meta_row option) query_io" where
  "InMemoryMetaStore_seek_le t part clustering w =
     (let s = \<lparr>mk_partition = part, mk_clustering = []\<rparr>;
          e = \<lparr>mk_partition = part, mk_clustering = clustering\<rparr>
      in (res_bind (btree_range row_key_cmp (t, s) (t, e) (mem_rows w)) (\<lambda>range.
            Inr (if range = [] then None else Some (snd (last range)))), w))"

definition mem_insert :: "string \<Rightarrow> meta_row \<Rightarrow> mem_world \<Rightarrow> mem_world" where
  "mem_insert t row w = w\<lparr>mem_rows := bt_insert row_key_cmp (t, row_key row) row (mem_rows w)\<rparr>"

definition InMemoryMetaStore_put :: "string \<Rightarrow> meta_row \<Rightarrow> (mem_world, unit) query_io" where
  "InMemoryMetaStore_put t row w = (Inr (), mem_insert t row w)"

definition InMemoryMetaStore_put_batch :: "string \<Rightarrow> meta_row list \<Rightarrow> (mem_world, unit) query_io" where
  "InMemoryMetaStore_put_batch t rws w =
     (case MetaRow_validate_batch_layout rws of
        Inl e \<Rightarrow> (Inl e, w)
      | Inr _ \<Rightarrow> (Inr (), fold (mem_insert t) rws w))"

definition InMemoryMetaStore :: "mem_world meta_store" where
  "InMemoryMetaStore =
     \<lparr>ms_init = default_init, ms_get = InMemoryMetaStore_get,
      ms_get_many = default_get_many InMemoryMetaStore_get,
      ms_get_range = InMemoryMetaStore_get_range, ms_seek_le = InMemoryMetaStore_seek_le,
      ms_put = InMemoryMetaStore_put, ms_put_batch = InMemoryMetaStore_put_batch\<rparr>"

section \<open>The blob store (blob/in\_memory.rs)\<close>

definition InMemoryBlobStore_get :: "string \<Rightarrow> bytes \<Rightarrow> (mem_world, bytes option) query_io" where
  "InMemoryBlobStore_get t k w =
     (let w' = w\<lparr>read_call_count := read_call_count w + 1\<rparr>
      in (Inr (bt_get cmp_lin (t, k) (blob_store_map w')), w'))"

definition blob_insert :: "blob_put \<Rightarrow> mem_world \<Rightarrow> mem_world" where
  "blob_insert p w =
     w\<lparr>blob_store_map := bt_insert cmp_lin (bp_table p, bp_key p) (bp_value p) (blob_store_map w)\<rparr>"

definition InMemoryBlobStore_put :: "string \<Rightarrow> bytes \<Rightarrow> bytes \<Rightarrow> (mem_world, unit) query_io" where
  "InMemoryBlobStore_put t k v w =
     (Inr (), blob_insert \<lparr>bp_table = t, bp_key = k, bp_value = v\<rparr> w)"

definition InMemoryBlobStore_put_batch :: "blob_put list \<Rightarrow> (mem_world, unit) query_io" where
  "InMemoryBlobStore_put_batch writes w = (Inr (), fold blob_insert writes w)"

definition InMemoryBlobStore :: "mem_world blob_store" where
  "InMemoryBlobStore =
     \<lparr>bs_get = InMemoryBlobStore_get,
      bs_get_range = default_blob_get_range InMemoryBlobStore_get,
      bs_put = InMemoryBlobStore_put, bs_put_batch = InMemoryBlobStore_put_batch\<rparr>"

section \<open>Their contracts\<close>

abbreviation "row_keys \<equiv> UNIV \<times> {k. canonical_key k} :: (string \<times> meta_key) set"

interpretation row_order: comparator row_key_cmp row_keys
  unfolding row_key_cmp_def
  by (rule comparator_pair [OF lin.comparator_axioms meta_key_comparator])

definition rows_inv :: "mem_rows \<Rightarrow> bool" where
  "rows_inv m \<longleftrightarrow> row_order.bt_inv m \<and> (\<forall>((t, k), row) \<in> set m. row_key row = k)"

definition mem_inv :: "mem_world \<Rightarrow> bool" where
  "mem_inv w \<longleftrightarrow> rows_inv (mem_rows w) \<and> lin.bt_inv (blob_store_map w)"

text \<open>
  What the world stores.  Keys no schema can build hold nothing.
\<close>

definition rows_of :: "mem_world \<Rightarrow> meta_rows" where
  "rows_of w t k =
     (if canonical_key k then map_option row_columns (bt_get row_key_cmp (t, k) (mem_rows w)) else None)"

definition blobs_of :: "mem_world \<Rightarrow> blobs" where
  "blobs_of w t k = bt_get cmp_lin (t, k) (blob_store_map w)"

lemma mem_empty_inv [simp]: "mem_inv mem_empty" "rows_of mem_empty = (\<lambda>_ _. None)"
  "blobs_of mem_empty = (\<lambda>_ _. None)"
  by (auto simp: mem_inv_def mem_empty_def rows_inv_def rows_of_def blobs_of_def fun_eq_iff)

lemma insert_set:
  "set (bt_insert cmp k v m) \<subseteq> insert (k, v) (set m \<union> (\<lambda>k'. (k', v)) ` {k' \<in> fst ` set m. cmp k k' = Equal})"
proof (induction m)
  case (Cons p m)
  obtain k' v' where "p = (k', v')" by force
  with Cons show ?case by (cases "cmp k k'") auto
qed simp

lemma rows_inv_insert:
  assumes "rows_inv m" "canonical_key (row_key row)"
  shows "rows_inv (bt_insert row_key_cmp (t, row_key row) row m)"
proof -
  have K: "fst ` set m \<subseteq> row_keys" "row_order.bt_inv m"
    using assms(1) by (auto simp: rows_inv_def row_order.bt_inv_def)
  have "row_key r = k" if "((t', k), r) \<in> set (bt_insert row_key_cmp (t, row_key row) row m)" for t' k r
  proof -
    from that insert_set [of row_key_cmp "(t, row_key row)" row m]
    consider "k = row_key row" "r = row" | "((t', k), r) \<in> set m"
      | "r = row" "(t', k) \<in> fst ` set m" "row_key_cmp (t, row_key row) (t', k) = Equal" by blast
    then show ?thesis
    proof cases
      case 3
      then have "(t, row_key row) = (t', k)"
        using row_order.eq_iff [of "(t, row_key row)" "(t', k)"] K(1) assms(2) by auto
      with 3 show ?thesis by simp
    qed (use assms(1) in \<open>auto simp: rows_inv_def\<close>)
  qed
  with row_order.inv_insert [OF _ K(2), of "(t, row_key row)" row] assms(2) show ?thesis
    by (auto simp: rows_inv_def)
qed

lemma mem_insert_spec:
  assumes "mem_inv w" "canonical_key (row_key row)"
  shows "mem_inv (mem_insert t row w)" "rows_of (mem_insert t row w) = rows_put t row (rows_of w)"
proof -
  show "mem_inv (mem_insert t row w)"
    using assms rows_inv_insert by (simp add: mem_inv_def mem_insert_def)
  have "bt_get row_key_cmp (t', k) (bt_insert row_key_cmp (t, row_key row) row (mem_rows w)) =
      (if t' = t \<and> k = row_key row then Some row else bt_get row_key_cmp (t', k) (mem_rows w))"
    if "canonical_key k" for t' k
    using row_order.get_insert [of "(t, row_key row)" "(t', k)" "mem_rows w" row] assms that
    by (auto simp: mem_inv_def rows_inv_def)
  then show "rows_of (mem_insert t row w) = rows_put t row (rows_of w)"
    using assms(2) by (auto simp: fun_eq_iff rows_of_def mem_insert_def)
qed

lemma mem_insert_blobs:
  "blobs_of (mem_insert t row w) = blobs_of w" "blobs_of (fold (mem_insert t) rws w) = blobs_of w"
  by (induction rws arbitrary: w) (simp_all add: blobs_of_def mem_insert_def fun_eq_iff)

lemma mem_insert_all_spec:
  assumes "mem_inv w" "list_all (\<lambda>row. canonical_key (row_key row)) rws"
  shows "mem_inv (fold (mem_insert t) rws w)"
    "rows_of (fold (mem_insert t) rws w) = rows_put_all t rws (rows_of w)"
  using assms by (induction rws arbitrary: w) (auto simp: mem_insert_spec)

lemma blob_insert_spec:
  assumes "mem_inv w"
  shows "mem_inv (blob_insert p w)" "blobs_of (blob_insert p w) = blob_upd p (blobs_of w)"
    "rows_of (blob_insert p w) = rows_of w"
  using assms lin.inv_insert [of _ "blob_store_map w"] lin.get_insert [of _ _ "blob_store_map w"]
  by (auto simp: mem_inv_def blob_insert_def fun_eq_iff blobs_of_def rows_of_def)

lemma blob_insert_all_spec:
  assumes "mem_inv w"
  shows "mem_inv (fold blob_insert ps w)" "blobs_of (fold blob_insert ps w) = blob_upd_all ps (blobs_of w)"
    "rows_of (fold blob_insert ps w) = rows_of w"
  using assms by (induction ps arbitrary: w) (auto simp: blob_insert_spec)

lemma mem_get_row:
  assumes "mem_inv w" "canonical_key k"
  shows "bt_get row_key_cmp (t, k) (mem_rows w) =
    map_option (\<lambda>cs. \<lparr>row_key = k, row_columns = cs\<rparr>) (rows_of w t k)"
proof (cases "bt_get row_key_cmp (t, k) (mem_rows w)")
  case (Some row)
  then have "((t, k), row) \<in> set (mem_rows w)"
    using row_order.get_iff [of "mem_rows w" "(t, k)" row] assms by (auto simp: mem_inv_def rows_inv_def)
  then have "row_key row = k" using assms by (auto simp: mem_inv_def rows_inv_def)
  with Some assms show ?thesis by (auto simp: rows_of_def)
qed (simp add: rows_of_def)

lemmas mem_meta_defs = InMemoryMetaStore_def InMemoryMetaStore_get_def InMemoryMetaStore_put_def
  InMemoryMetaStore_put_batch_def default_init_def
lemmas mem_blob_defs = InMemoryBlobStore_def InMemoryBlobStore_get_def InMemoryBlobStore_put_def
  InMemoryBlobStore_put_batch_def

interpretation mem_meta: reliable_meta_store InMemoryMetaStore mem_inv rows_of
proof (unfold_locales, goal_cases)
  case (1 w k t r w')
  then show ?case by (auto simp: mem_meta_defs mem_get_row)
next
  case (2 w row t r w')
  then show ?case
    using rows_partial_put_all [of t "[row]" "rows_of w"]
    by (auto simp: mem_meta_defs mem_insert_spec)
next
  case (3 w rws t r w')
  then show ?case
    using rows_partial_put_all [of t rws "rows_of w"]
    by (auto simp: mem_meta_defs mem_insert_all_spec split: sum.splits)
next
  case (7 w rws t)
  then show ?case by (auto simp: mem_meta_defs)
qed (auto simp: mem_meta_defs)

lemma mem_read_count [simp]:
  "mem_inv (w\<lparr>read_call_count := n\<rparr>) = mem_inv w" "rows_of (w\<lparr>read_call_count := n\<rparr>) = rows_of w"
  "blobs_of (w\<lparr>read_call_count := n\<rparr>) = blobs_of w"
  by (simp_all add: mem_inv_def rows_of_def blobs_of_def fun_eq_iff)

lemma mem_blob_get:
  "InMemoryBlobStore_get t k w = (Inr (blobs_of w t k), w\<lparr>read_call_count := read_call_count w + 1\<rparr>)"
  by (simp add: InMemoryBlobStore_get_def blobs_of_def Let_def)

lemma mem_blob_get_range:
  "default_blob_get_range InMemoryBlobStore_get t k s e w =
     (if e \<le> s then (decode_err ''invalid blob range'', w)
      else (case blobs_of w t k of
              None \<Rightarrow> Inr None
            | Some b \<Rightarrow> if length b < e then decode_err ''blob range exceeds blob length''
                        else Inr (Some (take (e - s) (drop s b))),
            w\<lparr>read_call_count := read_call_count w + 1\<rparr>))"
  by (cases "blobs_of w t k")
     (simp_all add: default_blob_get_range_def io_bind_def mem_blob_get slice_bytes_def)

interpretation mem_blob: reliable_blob_store InMemoryBlobStore mem_inv blobs_of
proof (unfold_locales, goal_cases)
  case (1 w t k r w')
  then show ?case by (auto simp: InMemoryBlobStore_def mem_blob_get)
next
  case (2 w t k s e r w')
  then show ?case
    by (auto simp: InMemoryBlobStore_def mem_blob_get_range split: if_splits option.splits)
next
  case (3 w t k v r w')
  then show ?case
    using blobs_partial_all [of "[\<lparr>bp_table = t, bp_key = k, bp_value = v\<rparr>]" "blobs_of w"]
    by (auto simp: mem_blob_defs blob_insert_spec)
next
  case (4 w ps r w')
  then show ?case
    using blobs_partial_all [of ps "blobs_of w"] by (auto simp: mem_blob_defs blob_insert_all_spec)
next
  case (6 w s e t k)
  then show ?case
    by (cases "blobs_of w t k") (simp_all add: InMemoryBlobStore_def mem_blob_get_range)
qed (auto simp: mem_blob_defs)

interpretation mem: query_stores InMemoryMetaStore InMemoryBlobStore mem_inv rows_of blobs_of
  by unfold_locales
    (auto simp: mem_meta_defs mem_insert_blobs InMemoryBlobStore_def mem_blob_get
      mem_blob_get_range InMemoryBlobStore_put_def InMemoryBlobStore_put_batch_def blob_insert_spec
      blob_insert_all_spec split: sum.splits if_splits)

end
