(* ===== verification/Sample_Externals.thy ===== *)
theory Sample_Externals
  imports Flush_Live In_Memory
begin

text \<open>
  A concrete instance of the third-party parameters and a small chain over it.  They show
  that the hypotheses of the index theorems hold together: self-delimiting byte fields
  stand for RLP, a one-byte frame for zstd, and finite sets for RoaringBitmap.
\<close>

section \<open>Self-delimiting fields\<close>

definition enc_field :: "bytes \<Rightarrow> bytes" where
  "enc_field xs = concat (map (\<lambda>b. [1, b]) xs) @ [0]"

definition enc_fields :: "bytes list \<Rightarrow> bytes" where
  "enc_fields fs = concat (map enc_field fs)"

fun dec_fields :: "bytes \<Rightarrow> bytes \<Rightarrow> bytes list" where
  "dec_fields acc [] = []"
| "dec_fields acc [m] = (if m = 0 then [acc] else [])"
| "dec_fields acc (m # b # bs) =
     (if m = 0 then acc # dec_fields [] (b # bs) else dec_fields (acc @ [b]) bs)"

lemma dec_field: "dec_fields acc (enc_field xs @ rest) = (acc @ xs) # dec_fields [] rest"
proof (induction xs arbitrary: acc)
  case Nil
  show ?case by (cases rest) (simp_all add: enc_field_def)
next
  case (Cons x xs)
  then show ?case by (simp add: enc_field_def)
qed

lemma dec_enc_fields: "dec_fields [] (enc_fields fs) = fs"
  by (induction fs) (simp_all add: enc_fields_def dec_field)

text \<open>Lists of fixed-width words inside one field.\<close>

definition enc_words :: "'a::len word list \<Rightarrow> bytes" where
  "enc_words ws = concat (map word_to_be ws)"

fun dec_words :: "nat \<Rightarrow> bytes \<Rightarrow> 'a::len word list" where
  "dec_words k bs = (if k = 0 \<or> length bs < k then [] else word_from_be (take k bs) # dec_words k (drop k bs))"

declare dec_words.simps [simp del]

lemma dec_enc_words:
  assumes "8 dvd LENGTH('a::len)"
  shows "dec_words (LENGTH('a) div 8) (enc_words (ws :: 'a word list)) = ws"
proof -
  have "0 < LENGTH('a) div 8"
    using assms len_gt_0 [where 'a = 'a] by (metis dvd_div_eq_0_iff neq0_conv)
  then show ?thesis
  proof (induction ws)
    case Nil
    then show ?case by (simp add: enc_words_def dec_words.simps)
  next
    case (Cons w ws)
    then show ?case using assms by (simp add: enc_words_def dec_words.simps [of _ "word_to_be w @ _"])
  qed
qed

lemmas dec_enc_u32 = dec_enc_words [where 'a = 32, simplified]
lemmas dec_enc_b256 = dec_enc_words [where 'a = 256, simplified]

section \<open>Items\<close>

record sample_header =
  sh_number :: u64
  sh_parent :: b256
  sh_miner :: address

definition sample_encode_header :: "sample_header \<Rightarrow> bytes" where
  "sample_encode_header h = enc_fields [word_to_be (sh_number h), word_to_be (sh_parent h), word_to_be (sh_miner h)]"

definition sample_decode_header :: "bytes \<Rightarrow> sample_header option" where
  "sample_decode_header bs =
     (case dec_fields [] bs of
        [n, p, m] \<Rightarrow> Some \<lparr>sh_number = word_from_be n, sh_parent = word_from_be p, sh_miner = word_from_be m\<rparr>
      | _ \<Rightarrow> None)"

definition sample_encode_tx :: "stored_tx \<Rightarrow> bytes" where
  "sample_encode_tx t = enc_fields [word_to_be (tx_hash t), word_to_be (sender t), signed_tx_bytes t]"

definition sample_decode_tx :: "bytes \<Rightarrow> stored_tx option" where
  "sample_decode_tx bs =
     (case dec_fields [] bs of
        [h, s, e] \<Rightarrow> Some \<lparr>tx_hash = word_from_be h, sender = word_from_be s, signed_tx_bytes = e\<rparr>
      | _ \<Rightarrow> None)"

definition sample_encode_log :: "stored_log \<Rightarrow> bytes" where
  "sample_encode_log l = enc_fields [word_to_be (log_tx_index l), word_to_be (log_index l),
     word_to_be (log_address l), enc_words (log_topics l), log_data l]"

definition sample_decode_log :: "bytes \<Rightarrow> stored_log option" where
  "sample_decode_log bs =
     (case dec_fields [] bs of
        [t, i, a, ts, d] \<Rightarrow> Some \<lparr>log_tx_index = word_from_be t, log_index = word_from_be i,
          log_address = word_from_be a, log_topics = dec_words 32 ts, log_data = d\<rparr>
      | _ \<Rightarrow> None)"

definition sample_encode_trace :: "stored_trace_rlp \<Rightarrow> bytes" where
  "sample_encode_trace r = enc_fields [[type_bytes r], word_to_be (rlp_from r), to_bytes r,
     word_to_be (rlp_value r), word_to_be (rlp_gas r), word_to_be (rlp_gas_used r), rlp_input r,
     rlp_output r, [rlp_status r], word_to_be (rlp_depth r), word_to_be (rlp_tx_index r),
     enc_words (rlp_trace_address r), [if rlp_tx_status r then 1 else 0]]"

definition sample_decode_trace :: "bytes \<Rightarrow> stored_trace_rlp option" where
  "sample_decode_trace bs =
     (case dec_fields [] bs of
        [ty, fr, to, v, g, gu, inp, out, st, d, ti, ta, ts] \<Rightarrow>
          Some \<lparr>type_bytes = hd ty, rlp_from = word_from_be fr, to_bytes = to,
            rlp_value = word_from_be v, rlp_gas = word_from_be g, rlp_gas_used = word_from_be gu,
            rlp_input = inp, rlp_output = out, rlp_status = hd st, rlp_depth = word_from_be d,
            rlp_tx_index = word_from_be ti, rlp_trace_address = dec_words 4 ta,
            rlp_tx_status = (hd ts = 1)\<rparr>
      | _ \<Rightarrow> None)"

section \<open>Bitmaps as sets\<close>

definition set_serialize :: "u32 set \<Rightarrow> bytes" where
  "set_serialize b = enc_words (sorted_list_of_set b)"

definition set_deserialize :: "bytes \<Rightarrow> (u32 set \<times> nat) option" where
  "set_deserialize bs = Some (set (dec_words 4 bs), length bs)"

definition sample_X :: "(sample_header, u32 set) externals" where
  "sample_X = \<lparr>hdr_number = sh_number, hdr_parent_hash = sh_parent, hdr_beneficiary = sh_miner,
     hash_slow = (\<lambda>h. ucast (sh_number h) + 1000),
     decode_2718 = (\<lambda>bs. if bs = [] then None else Some (Some (word_from_be bs), None)),
     rlp_encode_header = sample_encode_header, rlp_encode_tx = sample_encode_tx,
     rlp_encode_log = sample_encode_log, rlp_encode_trace = sample_encode_trace,
     rlp_decode_header = sample_decode_header, rlp_decode_tx = sample_decode_tx,
     rlp_decode_log = sample_decode_log, rlp_decode_trace = sample_decode_trace,
     zstd_compress = Cons 40,
     zstd_decompress = (\<lambda>bs n. case bs of [] \<Rightarrow> None | _ # xs \<Rightarrow> if length xs \<le> n then Some xs else None),
     rb_new = {}, rb_insert = insert, rb_remove_from = (\<lambda>i b. {j \<in> b. j < i}), rb_union = (\<union>),
     rb_is_empty = (\<lambda>b. b = {}), rb_len = (\<lambda>b. of_nat (card b)), rb_contains = (\<lambda>b i. i \<in> b),
     rb_serialize = set_serialize, rb_deserialize = set_deserialize, hash_order = rev\<rparr>"

lemma card_u32: "card (b :: u32 set) < 2 ^ 64"
proof -
  have "card b \<le> card (UNIV :: u32 set)" by (intro card_mono) auto
  also have "\<dots> = 2 ^ 32" by (simp add: card_word)
  also have "\<dots> < (2 :: nat) ^ 64" by simp
  finally show ?thesis .
qed

lemma sample_bitmap_laws: "bitmap_laws sample_X"
  using card_u32
  by (auto simp: bitmap_laws_def rb_set_def sample_X_def set_deserialize_def set_serialize_def
      dec_enc_u32 unat_of_nat_small)

lemma sample_codec_laws: "codec_laws sample_X"
  by (simp add: codec_laws_def sample_X_def sample_encode_header_def sample_decode_header_def
      sample_encode_tx_def sample_decode_tx_def sample_encode_log_def sample_decode_log_def
      sample_encode_trace_def sample_decode_trace_def dec_enc_fields dec_enc_b256 dec_enc_u32)

lemma sample_externals_ok: "externals_ok sample_X"
  by (simp add: externals_ok_def sample_bitmap_laws sample_codec_laws) (simp add: sample_X_def)

section \<open>A chain of three blocks\<close>

definition sample_log :: stored_log where
  "sample_log = \<lparr>log_tx_index = 0, log_index = 0, log_address = 7, log_topics = [11, 12], log_data = [1]\<rparr>"

definition sample_call :: stored_trace where
  "sample_call = \<lparr>tr_type = Call, tr_from = 3, tr_to = Some 4, tr_value = 5, tr_gas = 100,
     tr_gas_used = 60, tr_input = [1, 2, 3, 4], tr_output = [], tr_status = 0, tr_depth = 0,
     tr_tx_index = 0, tr_trace_address = [], tr_tx_status = True\<rparr>"

definition sample_tx :: writer_tx where
  "sample_tx = \<lparr>wt_envelope = \<lparr>tx_hash = 99, sender = 3, signed_tx_bytes = [2, 9]\<rparr>,
     wt_logs = [sample_log, sample_log], wt_traces = [sample_call]\<rparr>"

definition sample_block :: "u64 \<Rightarrow> b256 \<Rightarrow> writer_tx list \<Rightarrow> sample_header writer_block" where
  "sample_block n p txs = \<lparr>wb_header = \<lparr>sh_number = n, sh_parent = p, sh_miner = 6\<rparr>, wb_txs = txs\<rparr>"

definition sample_blocks :: "sample_header writer_block list" where
  "sample_blocks = [sample_block 2048 5 [sample_tx], sample_block 2049 3048 [],
     sample_block 2050 3049 [sample_tx, sample_tx]]"

definition sample_A :: "sample_header assigned_block list" where
  "sample_A = snd (projr (assign_ids (0, 0, 0) sample_blocks))"

lemma sample_assigned:
  "assign_ids (0, 0, 0) sample_blocks = Inr ((3, 6, 3), sample_A)"
proof -
  have "\<exists>A. assign_ids (0, 0, 0) sample_blocks = Inr ((3, 6, 3), A)"
    by (simp add: sample_blocks_def sample_block_def sample_tx_def id_range_def advance_def
        checked_add_def block_logs_def block_traces_def)
  then show ?thesis by (auto simp: sample_A_def)
qed

lemma sample_chain_ok: "chain_ok sample_X 2048 sample_blocks sample_A"
proof -
  have "\<forall>i < length sample_blocks. block_number sample_X (sample_blocks ! i) = 2048 + of_nat i"
    by (auto simp: sample_blocks_def sample_block_def block_number_def sample_X_def less_Suc_eq
        numeral_eq_Suc)
  then show ?thesis
    using sample_assigned by (auto simp: chain_ok_def sample_blocks_def)
qed

lemma sample_linked: "linked sample_X sample_blocks"
  by (auto simp: linked_def sample_blocks_def sample_block_def parent_hash_def block_hash_def
      sample_X_def less_Suc_eq)

section \<open>Its payloads fit\<close>

lemma length_enc_field [simp]: "length (enc_field xs) = 2 * length xs + 1"
  by (induction xs) (simp_all add: enc_field_def)

lemma sample_items_small:
  assumes "x \<in> set (fam_items sample_X f sample_A)"
  shows "length x \<le> 1000"
proof -
  have "map ab_block sample_A = sample_blocks"
    using assign_ids_spec(1) [OF sample_assigned] .
  then have blk: "ab_block a \<in> set sample_blocks" if "a \<in> set sample_A" for a
    using that by (metis image_eqI list.set_map)
  from assms obtain a where a: "a \<in> set sample_A" "x \<in> set (snd (family_rows sample_X f a))"
    by (auto simp: fam_items_def)
  note defs = family_rows_def sample_X_def sample_block_def sample_tx_def sample_log_def sample_call_def
    enc_fields_def block_logs_def block_traces_def StoredTrace_encode_def trace_to_rlp_def
    sample_encode_header_def sample_encode_tx_def sample_encode_log_def sample_encode_trace_def enc_words_def
  show ?thesis
    using a(2) blk [OF a(1)] unfolding sample_blocks_def by (cases f) (auto simp: defs)
qed

lemma pbytes_length_bound:
  assumes "\<And>k. \<lbrakk>i \<le> k; k < j\<rbrakk> \<Longrightarrow> length (zstd_compress X (item_of X s A f k)) \<le> c"
  shows "length (pbytes X s A f i j) \<le> (j - i) * c"
proof -
  have "length (concat (map g ks)) \<le> length ks * c" if "\<forall>k \<in> set ks. length (g k) \<le> c"
    for g :: "nat \<Rightarrow> bytes" and ks
    using that by (induction ks) auto
  from this [of "[i..<j]" "\<lambda>k. zstd_compress X (item_of X s A f k)"] assms show ?thesis
    by (simp add: pbytes_def)
qed

lemma sample_writable:
  assumes "m \<le> length sample_blocks"
  shows "writable sample_X 2048 sample_A f n m"
  unfolding writable_def
proof (intro allI impI)
  fix i assume i: "base sample_X 2048 sample_A f n \<le> i \<and> i < base sample_X 2048 sample_A f m"
  have len: "length sample_A = length sample_blocks"
    using assign_ids_spec(1) [OF sample_assigned] by (metis length_map)
  have top: "base sample_X 2048 sample_A f m \<le> base sample_X 2048 sample_A f (length sample_A)"
    by (rule base_le) (simp add: len assms)
  have item: "length (item_of sample_X 2048 sample_A f k) \<le> 1000" if "first_base 2048 f \<le> k" "k \<le> i" for k
  proof -
    have "k - first_base 2048 f < length (fam_items sample_X f sample_A)"
      using that i top unfolding base_def take_all [OF order.refl] by linarith
    then show ?thesis unfolding item_of_def by (intro sample_items_small [of _ f] nth_mem)
  qed
  let ?lo = "plo 2048 f (i div 1024)"
  have "length (pbytes sample_X 2048 sample_A f ?lo (Suc i)) \<le> (Suc i - ?lo) * 1001"
    by (rule pbytes_length_bound) (use item in \<open>force simp: sample_X_def plo_def\<close>)
  also have "\<dots> \<le> 1024 * 1001"
  proof -
    have "Suc i - ?lo \<le> 1024" by (simp add: plo_def)
    then show ?thesis by (rule mult_right_mono) simp
  qed
  finally have "end_of sample_X 2048 sample_A f i < 2 ^ 63" by (simp add: end_of_def)
  moreover have "first_base 2048 f \<le> i" using i by (simp add: base_def)
  ultimately show "length (item_of sample_X 2048 sample_A f i) \<le> MAX_PAYLOAD_SIZE \<and>
      end_of sample_X 2048 sample_A f i < 2 ^ 63"
    using item [of i] by (simp add: MAX_PAYLOAD_SIZE_def)
qed

lemma sample_decodes: "a \<in> set sample_A \<Longrightarrow> \<exists>es. block_entries sample_X a = Inr es"
proof -
  assume "a \<in> set sample_A"
  moreover have "map ab_block sample_A = sample_blocks" using assign_ids_spec(1) [OF sample_assigned] .
  ultimately have "ab_block a \<in> set sample_blocks" by (metis image_eqI list.set_map)
  then show ?thesis
    unfolding sample_blocks_def
    by (auto simp: block_entries_def Block_bitmap_filters_def sample_block_def sample_tx_def
        Tx_bitmap_filters_def sample_X_def Log_bitmap_filters_def Trace_bitmap_filters_def from_traces_def Let_def)
qed

section \<open>Interpretations\<close>

interpretation sample: chain sample_X 2048 sample_blocks sample_A
  by unfold_locales (rule sample_chain_ok, rule sample_externals_ok)

interpretation mem_writer: index_writer InMemoryMetaStore InMemoryBlobStore mem_inv rows_of blobs_of
    sample_X 2048 sample_blocks sample_A
  by (rule index_writer.intro) unfold_locales

interpretation live: reliable_index InMemoryMetaStore InMemoryBlobStore mem_inv rows_of blobs_of
    sample_X 2048 sample_blocks sample_A
  by (rule reliable_index.intro) unfold_locales

interpretation mem_state: meta_table InMemoryMetaStore mem_inv rows_of state_index_schema
    "\<lambda>v. indexed_start v \<noteq> None"
  by unfold_locales

interpretation mem_hash: meta_table InMemoryMetaStore mem_inv rows_of block_hash_schema "\<lambda>_. True"
  by unfold_locales

interpretation mem_location: meta_table InMemoryMetaStore mem_inv rows_of payload_location_schema "\<lambda>_. True"
  by unfold_locales

end
