(* ===== verification/Index_Guarantees.thy ===== *)
theory Index_Guarantees
  imports Index_Reads Sample_Externals
begin

text \<open>
  The guarantees of the query index, stated over arbitrary stores that keep the contract
  \<open>query_stores\<close>, arbitrary third-party code that keeps \<open>externals_ok\<close>, and an arbitrary
  finalized chain.  Every theorem is applied to the in-memory stores and a sample chain.
\<close>

section \<open>A sample run\<close>

definition sample_open :: "(mem_world, sample_header) query_writer" where
  "sample_open = \<lparr>qw_tables = query_tables_on InMemoryMetaStore InMemoryBlobStore,
     qw_state = StateIndex_default, qw_last_block_hash = None, qw_pending = []\<rparr>"

definition sample_started :: "(mem_world, sample_header) query_writer" where
  "sample_started = snd (QueryWriter_start_at sample_open 2048)"

definition sample_appended :: "(mem_world, sample_header) query_writer" where
  "sample_appended = snd (QueryWriter_append sample_X sample_started (sample_blocks ! 0))"

definition sample_flushed :: "unit query_result \<times> (mem_world, sample_header) query_writer \<times> mem_world" where
  "sample_flushed = QueryWriter_flush sample_X sample_appended mem_empty"

lemma sample_boot:
  "QueryWriter_open (query_tables_on InMemoryMetaStore InMemoryBlobStore) mem_empty = (Inr sample_open, mem_empty)"
  by (simp add: QueryWriter_open_def QueryTables_init_def MetadataTables_init_def BitmapTables_init_def
      PayloadTables_init_def StateTables_init_def MetaTable_init_def MetaTable_get_def mem_meta_defs
      state_table.key_valid io_bind_def mem_empty_def last_block_id_def StateIndex_default_def
      checked_sub_one sample_open_def Let_def)

lemma sample_durable_0: "durable sample_X 2048 sample_A 0 (rows_of mem_empty) (blobs_of mem_empty)"
  by (rule durable_empty) simp_all

lemma sample_started_inv:
  "writer_inv sample_X 2048 sample_blocks sample_A 0 0 sample_started (rows_of mem_empty) (blobs_of mem_empty)"
  "QueryWriter_start_at sample_open 2048 = (Inr (), sample_started)"
  "qw_tables sample_started = query_tables_on InMemoryMetaStore InMemoryBlobStore"
  "qw_pending sample_started = []"
  using sample.start_at_keeps [OF sample_durable_0, of sample_open]
  by (auto simp: sample_open_def sample_started_def QueryWriter_start_at_def StateIndex_default_def)

lemma sample_appended_inv:
  "QueryWriter_append sample_X sample_started (sample_blocks ! 0) = (Inr (), sample_appended)"
  "writer_inv sample_X 2048 sample_blocks sample_A 0 0 sample_appended (rows_of mem_empty) (blobs_of mem_empty)"
  "qw_tables sample_appended = query_tables_on InMemoryMetaStore InMemoryBlobStore"
  "qw_pending sample_appended = [sample_blocks ! 0]"
proof -
  have "fst (QueryWriter_append sample_X sample_started (sample_blocks ! 0)) = Inr ()"
    using sample.append_accepts [OF sample_started_inv(1) sample_linked] sample_started_inv(4)
    by (simp add: sample_blocks_def)
  then show a: "QueryWriter_append sample_X sample_started (sample_blocks ! 0) = (Inr (), sample_appended)"
    by (simp add: sample_appended_def prod_eq_iff)
  have "sample_blocks ! 0 \<in> set sample_blocks" by (simp add: sample_blocks_def)
  from sample.append_keeps(1) [OF sample_started_inv(1) this a]
  show "writer_inv sample_X 2048 sample_blocks sample_A 0 0 sample_appended (rows_of mem_empty) (blobs_of mem_empty)" .
  from a have "sample_appended = sample_started\<lparr>qw_pending := qw_pending sample_started @ [sample_blocks ! 0]\<rparr>"
    by (auto simp: QueryWriter_append_def split: sum.splits if_splits)
  then show "qw_tables sample_appended = query_tables_on InMemoryMetaStore InMemoryBlobStore"
    "qw_pending sample_appended = [sample_blocks ! 0]" using sample_started_inv(3,4) by (metis append_Nil
        query_writer.select_convs(1,4) query_writer.surjective query_writer.update_convs(4))+
qed

lemma sample_run:
  "writer_run sample_X InMemoryMetaStore InMemoryBlobStore 2048 sample_blocks (Down mem_empty)
     (Up (fst (snd sample_flushed)) (snd (snd sample_flushed)))"
proof -
  let ?step = "writer_step sample_X InMemoryMetaStore InMemoryBlobStore 2048 sample_blocks"
  have "?step (Down mem_empty) (Up sample_open mem_empty)" by (rule writer_step.boot [OF sample_boot])
  moreover have "?step (Up sample_open mem_empty) (Up sample_started mem_empty)"
    by (rule writer_step.start_at [OF sample_started_inv(2)])
  moreover have "?step (Up sample_started mem_empty) (Up sample_appended mem_empty)"
    by (rule writer_step.append [OF _ sample_appended_inv(1)]) (simp add: sample_blocks_def)
  moreover have "?step (Up sample_appended mem_empty) (Up (fst (snd sample_flushed)) (snd (snd sample_flushed)))"
    by (rule writer_step.flush [where r = "fst sample_flushed"]) (simp add: sample_flushed_def)
  ultimately show ?thesis by (meson rtranclp.rtrancl_refl rtranclp.rtrancl_into_rtrancl)
qed

lemma sample_flush_ok:
  "fst sample_flushed = Inr ()"
  "mem_inv (snd (snd sample_flushed))"
  "durable sample_X 2048 sample_A 1 (rows_of (snd (snd sample_flushed))) (blobs_of (snd (snd sample_flushed)))"
proof -
  note a = sample_appended_inv
  show f: "fst sample_flushed = Inr ()"
    unfolding sample_flushed_def
    by (rule live.flush_succeeds [OF _ a(2,3)])
       (use sample_decodes in \<open>auto simp: a(4) sample_blocks_def intro: sample_writable dest: in_set_takeD\<close>)
  obtain W' w' where r: "QueryWriter_flush sample_X sample_appended mem_empty = (Inr (), W', w')"
    "W' = fst (snd sample_flushed)" "w' = snd (snd sample_flushed)"
    using f by (metis prod.collapse sample_flushed_def)
  from mem_writer.flush_keeps [OF _ a(2,3) r(1)] r(3) a(4)
  show "mem_inv (snd (snd sample_flushed))"
    "durable sample_X 2048 sample_A 1 (rows_of (snd (snd sample_flushed))) (blobs_of (snd (snd sample_flushed)))"
    by (simp_all add: writer_inv_def)
qed

section \<open>Guarantees\<close>

text \<open>
  C1: From empty stores, whatever a writer process does (boot, declare its start, be fed
  blocks of a finalized chain in any order, flush against stores that may fail part-way,
  crash and boot again), the stores always hold the complete index of some number \<open>m\<close> of
  blocks, and every later state holds the index of at least as many.
\<close>

theorem writer_run_durable:
  assumes "query_stores ms bs winv rows blobs" "externals_ok X" "chain_ok X start blocks A"
    and "winv w" "\<And>t k. rows w t k = None" "\<And>t k. blobs w t k = None"
    and "writer_run X ms bs start blocks (Down w) s"
  shows "\<exists>m \<le> length blocks. durable X start A m (rows (proc_world s)) (blobs (proc_world s)) \<and>
    (\<forall>s'. writer_run X ms bs start blocks s s' \<longrightarrow>
       (\<exists>m' \<ge> m. durable X start A m' (rows (proc_world s')) (blobs (proc_world s'))))"
  by (rule index_writer.run_durable [OF index_writerI [OF assms(1-3)] assms(4-7)])

theorem writer_run_durable_witness:
  "\<exists>m \<le> length sample_blocks. durable sample_X 2048 sample_A m
     (rows_of (snd (snd sample_flushed))) (blobs_of (snd (snd sample_flushed)))"
  using writer_run_durable [OF mem.query_stores_axioms sample_externals_ok sample_chain_ok
      _ _ _ sample_run] by auto

text \<open>
  C3: A flush that returns success has committed exactly the pending blocks: the stores
  hold the index of all of them, the page statistics of every touched page are exact, no
  block is pending any more and the writer expects the block after them.
\<close>

theorem flush_commits:
  assumes "query_stores ms bs winv rows blobs" "externals_ok X" "chain_ok X start blocks A"
    and "winv w" "writer_inv X start blocks A n m W (rows w) (blobs w)"
    and "qw_tables W = query_tables_on ms bs" "QueryWriter_flush X W w = (Inr u, W', w')"
    and "k = length (qw_pending W)"
  shows "durable X start A (n + k) (rows w') (blobs w') \<and>
    stats_ok X (take k (drop n A)) (rows w') (blobs w') \<and>
    qw_pending W' = [] \<and> next_block_number W' = Inr (start + of_nat (n + k))"
proof -
  note iw = index_writerI [OF assms(1-3)]
  note f = index_writer.flush_keeps [OF iw assms(4-7)]
  have "writer_inv X start blocks A (n + k) (n + k) W' (rows w') (blobs w')" "qw_pending W' = []"
    using f assms(8) by simp_all
  with chain.next_number [OF index_writer.axioms(2) [OF iw] this(1)] f assms(8) show ?thesis
    by (simp add: writer_inv_def)
qed

theorem flush_commits_witness:
  "durable sample_X 2048 sample_A 1 (rows_of (snd (snd sample_flushed))) (blobs_of (snd (snd sample_flushed))) \<and>
   next_block_number (fst (snd sample_flushed)) = Inr 2049"
proof -
  note a = sample_appended_inv
  have r: "QueryWriter_flush sample_X sample_appended mem_empty =
      (Inr (), fst (snd sample_flushed), snd (snd sample_flushed))"
    using sample_flush_ok(1) by (metis prod.collapse sample_flushed_def)
  show ?thesis
    using flush_commits [OF mem.query_stores_axioms sample_externals_ok sample_chain_ok _ a(2,3) r refl]
    by (simp add: a(4))
qed

text \<open>
  C6: A flush that fails leaves the writer exactly as it was, with every block still
  pending, and the stores with the complete index of at least the blocks they held before.
\<close>

theorem flush_failure_safe:
  assumes "query_stores ms bs winv rows blobs" "externals_ok X" "chain_ok X start blocks A"
    and "winv w" "writer_inv X start blocks A n m W (rows w) (blobs w)"
    and "qw_tables W = query_tables_on ms bs" "QueryWriter_flush X W w = (r, W', w')" "r = Inl e"
  shows "W' = W \<and> (\<exists>m'. m \<le> m' \<and> m' \<le> n + length (qw_pending W) \<and>
    durable X start A m' (rows w') (blobs w') \<and> writer_inv X start blocks A n m' W (rows w') (blobs w'))"
  using index_writer.flush_keeps [OF index_writerI [OF assms(1-3)] assms(4-7)] assms(8)
  by (auto simp: writer_inv_def)

text \<open>A store that refuses every request, and a writer on it.\<close>

definition refused :: "('w, 'a) query_io" where
  "refused = io_lift (Inl (Err (Backend ''unavailable'')))"

definition dead_meta :: "unit meta_store" where
  "dead_meta = \<lparr>ms_init = (\<lambda>_ _. refused), ms_get = (\<lambda>_ _. refused), ms_get_many = (\<lambda>_ _. refused),
     ms_get_range = (\<lambda>_ _ _ _ _ _. refused), ms_seek_le = (\<lambda>_ _ _. refused), ms_put = (\<lambda>_ _. refused),
     ms_put_batch = (\<lambda>_ _. refused)\<rparr>"

definition dead_blob :: "unit blob_store" where
  "dead_blob = \<lparr>bs_get = (\<lambda>_ _. refused), bs_get_range = (\<lambda>_ _ _ _. refused), bs_put = (\<lambda>_ _ _. refused),
     bs_put_batch = (\<lambda>_. refused)\<rparr>"

interpretation dead: query_stores dead_meta dead_blob "\<lambda>_. True" "\<lambda>_ _ _. None" "\<lambda>_ _ _. None"
  by unfold_locales (auto simp: dead_meta_def dead_blob_def refused_def)

definition dead_writer :: "(unit, sample_header) query_writer" where
  "dead_writer = \<lparr>qw_tables = query_tables_on dead_meta dead_blob, qw_state = state_at sample_X 2048 sample_A 0,
     qw_last_block_hash = None, qw_pending = [sample_blocks ! 0]\<rparr>"

lemma dead_writer_inv:
  "writer_inv sample_X 2048 sample_blocks sample_A 0 0 dead_writer (\<lambda>_ _. None) (\<lambda>_ _. None)"
  using durable_empty [of "\<lambda>_ _. None" "\<lambda>_ _. None" sample_X 2048 sample_A]
  by (auto simp: writer_inv_def dead_writer_def writer_state_def last_hash_ok_def sample_blocks_def)

theorem flush_failure_safe_witness:
  "\<exists>e. QueryWriter_flush sample_X dead_writer () = (Inl e, dead_writer, ())"
proof -
  obtain r W' where run: "QueryWriter_flush sample_X dead_writer () = (r, W', ())"
    by (metis old.unit.exhaust prod.collapse)
  have T: "qw_tables dead_writer = query_tables_on dead_meta dead_blob" by (simp add: dead_writer_def)
  have "r \<noteq> Inr u" for u
  proof
    assume "r = Inr u"
    then have "durable sample_X 2048 sample_A 1 (\<lambda>_ _. None) (\<lambda>_ _. None)"
      using index_writer.flush_keeps [OF index_writerI [OF dead.query_stores_axioms sample_externals_ok
            sample_chain_ok] _ dead_writer_inv T run]
      by (simp add: dead_writer_def writer_inv_def)
    then show False by (simp add: durable_def state_row_def holds_def)
  qed
  then obtain e where "r = Inl e" by (cases r) auto
  with flush_failure_safe [OF dead.query_stores_axioms sample_externals_ok sample_chain_ok _ dead_writer_inv T run]
    run show ?thesis by auto
qed

text \<open>
  C14: On stores that answer every well-formed request, a flush of blocks whose transaction
  envelopes decode and whose payloads are within the limits succeeds, also when an earlier
  flush was interrupted.
\<close>

theorem flush_progress:
  assumes "query_stores ms bs winv rows blobs" "reliable_meta_store ms winv rows"
    and "reliable_blob_store bs winv blobs" "externals_ok X" "chain_ok X start blocks A"
    and "winv w" "writer_inv X start blocks A n m W (rows w) (blobs w)"
    and "qw_tables W = query_tables_on ms bs"
    and "\<forall>a \<in> set (take (length (qw_pending W)) (drop n A)). \<exists>es. block_entries X a = Inr es"
    and "\<And>f. writable X start A f n (n + length (qw_pending W))"
  shows "fst (QueryWriter_flush X W w) = Inr ()"
proof -
  have "reliable_index ms bs winv rows blobs X start blocks A"
    by (intro reliable_index.intro index_writerI assms)
  from reliable_index.flush_succeeds [OF this assms(6-10)] show ?thesis .
qed

theorem flush_progress_witness:
  "fst (QueryWriter_flush sample_X sample_appended mem_empty) = Inr ()"
  by (rule flush_progress [OF mem.query_stores_axioms mem_meta.reliable_meta_store_axioms
        mem_blob.reliable_blob_store_axioms sample_externals_ok sample_chain_ok _ sample_appended_inv(2,3)])
     (use sample_decodes in \<open>auto simp: sample_appended_inv(4) sample_blocks_def intro: sample_writable
        dest: in_set_takeD\<close>)

text \<open>
  C16: A writer that holds the first \<open>k\<close> blocks of a chain accepts a block, of that chain or any other,
  exactly when it has the next number and, for \<open>k > 0\<close>, names the hash of the last block held as its
  parent.  A block with another number and one with another parent are refused with their own errors
  and leave the writer as it is; an accepted one is added to the pending blocks and nothing else
  changes.  So of a hash-linked chain exactly the next block is accepted, and it keeps the invariant.
\<close>

theorem append_accepts_next:
  assumes "externals_ok X" "chain_ok X start blocks A"
    and "writer_inv X start blocks A n m W R B" "k = n + length (qw_pending W)"
  shows "(case QueryWriter_append X W b of
      (Inr _, W') \<Rightarrow>
        block_number X b = start + of_nat k \<and> (0 < k \<longrightarrow> parent_hash X b = block_hash X (blocks ! (k - 1))) \<and>
        W' = W\<lparr>qw_pending := qw_pending W @ [b]\<rparr> \<and>
        (b \<in> set blocks \<longrightarrow> b = blocks ! k \<and> writer_inv X start blocks A n m W' R B)
    | (Inl e, W') \<Rightarrow> W' = W \<and>
        (if block_number X b \<noteq> start + of_nat k
         then e = Err (InvalidBlock ''finalized blocks must be appended in order'')
         else 0 < k \<and> parent_hash X b \<noteq> block_hash X (blocks ! (k - 1)) \<and>
           e = Err (InvalidBlock ''finalized block does not extend the indexed chain''))) \<and>
    (linked X blocks \<longrightarrow> (\<forall>j < length blocks. fst (QueryWriter_append X W (blocks ! j)) = Inr () \<longleftrightarrow> j = k))"
proof -
  note c = chain.intro [OF assms(2,1)]
  show ?thesis
    using chain.append_block_cases [OF c assms(3), of b] chain.append_keeps [OF c assms(3), of b]
      chain.append_accepts_iff [OF c assms(3)]
    by (auto simp: assms(4) split: prod.splits sum.splits if_splits)
qed

theorem append_accepts_next_witness:
  "QueryWriter_append sample_X sample_started (sample_blocks ! 1) = (Inl (Err (InvalidBlock
     ''finalized blocks must be appended in order'')), sample_started) \<and>
   fst (QueryWriter_append sample_X sample_appended (sample_blocks ! 1)) = Inr ()"
proof -
  have l: "length sample_blocks = 3" by (simp add: sample_blocks_def)
  note p = append_accepts_next [OF sample_externals_ok sample_chain_ok]
  have "QueryWriter_append sample_X sample_started (sample_blocks ! 1) = (Inl (Err (InvalidBlock
     ''finalized blocks must be appended in order'')), sample_started)"
    using p [OF sample_started_inv(1) refl, of "sample_blocks ! 1"] sample.number_nth [of 1]
    by (auto simp: l sample_started_inv(4) split: prod.splits sum.splits)
  moreover have "fst (QueryWriter_append sample_X sample_appended (sample_blocks ! 1)) = Inr ()"
    using p [OF sample_appended_inv(2) refl] sample_linked by (simp add: l sample_appended_inv(4))
  ultimately show ?thesis by blast
qed

text \<open>
  C15: Opening a writer on stores that hold \<open>m\<close> blocks changes nothing and yields a writer
  at block \<open>m\<close>; only when the stores hold no block can it be a fresh one, without a start.
\<close>

theorem open_recovers:
  assumes "query_stores ms bs winv rows blobs" "externals_ok X" "chain_ok X start blocks A"
    and "winv w" "durable X start A m (rows w) (blobs w)"
    and "QueryWriter_open (query_tables_on ms bs) w = (r, w')"
  shows "rows w' = rows w \<and> blobs w' = blobs w \<and>
    (\<forall>W. r = Inr W \<longrightarrow> writer_inv X start blocks A m m W (rows w') (blobs w') \<or> m = 0 \<and> fresh_writer W)"
proof -
  note o = index_writer.open_gives [OF index_writerI [OF assms(1-3)] assms(4-6)]
  show ?thesis using o by (auto simp: query_stores.same_def [OF assms(1)])
qed

theorem open_recovers_witness:
  "\<exists>W w'. QueryWriter_open (query_tables_on InMemoryMetaStore InMemoryBlobStore) (snd (snd sample_flushed)) = (Inr W, w') \<and>
     writer_inv sample_X 2048 sample_blocks sample_A 1 1 W (rows_of w') (blobs_of w')"
proof -
  let ?w = "snd (snd sample_flushed)"
  obtain W :: "(mem_world, sample_header) query_writer" and w' where
    run: "QueryWriter_open (query_tables_on InMemoryMetaStore InMemoryBlobStore) ?w = (Inr W, w')"
    using live.open_succeeds [OF sample_flush_ok(2,3)] by blast
  with open_recovers [OF mem.query_stores_axioms sample_externals_ok sample_chain_ok sample_flush_ok(2,3) run]
  show ?thesis by auto
qed

section \<open>What readers find\<close>

text \<open>
  C18: Once \<open>m\<close> blocks are committed, the hash of each of them is found under its number: a
  read returns it or fails, and it does not fail on a reliable store.
\<close>

theorem block_hash_readable:
  assumes "query_stores ms bs winv rows blobs" "externals_ok X" "chain_ok X start blocks A"
    and "winv w" "durable X start A m (rows w) (blobs w)" "i < m"
  shows "case fst (MetaTable_get ms block_hash_schema (MetadataBlockHashKey (start + of_nat i)) w) of
      Inr x \<Rightarrow> x = Some (block_hash X (blocks ! i)) | Inl _ \<Rightarrow> \<not> reliable_meta_store ms winv rows"
  by (rule index_writer.hash_read_total [OF index_writerI [OF assms(1-3)] assms(4-6)])

theorem block_hash_readable_witness:
  "fst (MetaTable_get InMemoryMetaStore block_hash_schema (MetadataBlockHashKey 2048) (snd (snd sample_flushed))) =
     Inr (Some 3048)"
  using block_hash_readable [OF mem.query_stores_axioms sample_externals_ok sample_chain_ok sample_flush_ok(2,3), of 0]
    mem_meta.reliable_meta_store_axioms
  by (auto simp: sample_blocks_def sample_block_def block_hash_def sample_X_def split: sum.splits)

text \<open>
  C17: The id range of every family is found for every committed block: it starts at the
  number of items of the earlier blocks (for headers, at the block number) and is as long
  as the block has items.
\<close>

theorem family_range_readable:
  assumes "query_stores ms bs winv rows blobs" "externals_ok X" "chain_ok X start blocks A"
    and "winv w" "durable X start A m (rows w) (blobs w)" "i < m"
  shows "case fst (MetaTable_get ms family_schema (MetadataFamilyKey f (start + of_nat i)) w) of
      Inr x \<Rightarrow> x = Some \<lparr>first_primary_id = PrimaryId (of_nat (base X start A f i)),
        fm_count = of_nat (base X start A f (Suc i) - base X start A f i)\<rparr>
    | Inl _ \<Rightarrow> \<not> reliable_meta_store ms winv rows"
  by (rule index_writer.family_read_total [OF index_writerI [OF assms(1-3)] assms(4-6)])

lemma sample_first_items:
  "length (snd (family_rows sample_X Log (sample_A ! 0))) = 2"
  "length (snd (family_rows sample_X Transaction (sample_A ! 0))) = 1"
  using sample.block_nth [of 0]
  by (simp_all add: family_rows_def block_logs_def sample_blocks_def sample_block_def sample_tx_def)

theorem family_range_readable_witness:
  "fst (MetaTable_get InMemoryMetaStore family_schema (MetadataFamilyKey Log 2048) (snd (snd sample_flushed))) =
     Inr (Some \<lparr>first_primary_id = PrimaryId 0, fm_count = 2\<rparr>)"
proof -
  have "base sample_X 2048 sample_A Log 0 = 0" "base sample_X 2048 sample_A Log (Suc 0) = 2"
    using sample.base_Suc [of 0 Log] sample_first_items
    by (simp_all add: base_def first_base_def sample_blocks_def)
  then show ?thesis
    using family_range_readable [OF mem.query_stores_axioms sample_externals_ok sample_chain_ok
        sample_flush_ok(2,3), of 0 Log] mem_meta.reliable_meta_store_axioms
    by (auto split: sum.splits)
qed

text \<open>
  C7: Every item of a committed block is read back from its partition: the location row of
  its id holds the end of its bytes, the bytes start where the previous id of the partition
  ends, and the range decodes to exactly the encoded item.
\<close>

theorem payload_readable:
  assumes "query_stores ms bs winv rows blobs" "externals_ok X" "chain_ok X start blocks A"
    and "winv w" "durable X start A m (rows w) (blobs w)"
    and "j < m" "q < length (snd (family_rows X f (A ! j)))" "i = base X start A f j + q"
    and "length (snd (family_rows X f (A ! j)) ! q) \<le> MAX_PAYLOAD_SIZE"
  shows "\<exists>s e. s = (if i = plo start f (i div 1024) then 0 else end_of X start A f (i - 1)) \<and>
      (case fst (MetaTable_get ms payload_location_schema (PayloadLocationKey f (PrimaryId (of_nat i))) w) of
         Inr x \<Rightarrow> \<exists>l. x = Some l \<and> unat (payload_end l) = e
       | Inl _ \<Rightarrow> \<not> reliable_meta_store ms winv rows) \<and>
      (case fst (Partition_get_many \<lparr>cbt_table = ''payload'', cbt_store = bs\<rparr> (payload_codec X)
           (PayloadKey_from_id f (of_nat i)) [(s, e)] w) of
         Inr vs \<Rightarrow> vs = Some [PayloadItem (snd (family_rows X f (A ! j)) ! q)]
       | Inl _ \<Rightarrow> \<not> reliable_blob_store bs winv blobs)"
proof -
  note iw = index_writerI [OF assms(1-3)] note c = index_writer.axioms(2) [OF iw]
  have m: "m \<le> length blocks" using assms(5) chain.length_A [OF c] by (simp add: durable_def)
  note r = index_writer.id_in_range [OF iw assms(6) m assms(7), folded assms(8)]
  have item: "item_of X start A f i = snd (family_rows X f (A ! j)) ! q"
    using chain.item_nth [OF c _ assms(7)] assms(6,8) m by simp
  have "plo start f (i div 1024) \<le> i" using r(1) times_div_less_eq_dividend [of 1024 i] by (simp add: plo_def)
  then have s: "item_start X start A f i = (if i = plo start f (i div 1024) then 0 else end_of X start A f (i - 1))"
    using index_writer.start_of_first [OF iw, of i f] index_writer.start_of_next [OF iw, of f i] by auto
  have sz: "length (item_of X start A f i) \<le> MAX_PAYLOAD_SIZE" using assms(9) item by simp
  show ?thesis
    by (intro exI [of _ "item_start X start A f i"] exI [of _ "end_of X start A f i"] conjI s
        index_writer.location_read_total [OF iw assms(4,5) r]
        index_writer.payload_read_total [OF iw assms(4,5) r sz, unfolded item])
qed

theorem payload_readable_witness:
  "\<exists>e. fst (Partition_get_many \<lparr>cbt_table = ''payload'', cbt_store = InMemoryBlobStore\<rparr> (payload_codec sample_X)
     (PayloadKey_from_id Log 0) [(0, e)] (snd (snd sample_flushed))) =
     Inr (Some [PayloadItem (sample_encode_log sample_log)])"
proof -
  have it: "snd (family_rows sample_X Log (sample_A ! 0)) ! 0 = sample_encode_log sample_log"
    using sample.block_nth [of 0]
    by (simp add: family_rows_def block_logs_def sample_blocks_def sample_block_def sample_tx_def sample_X_def)
  have sz: "length (sample_encode_log sample_log) \<le> MAX_PAYLOAD_SIZE"
    by (simp add: sample_encode_log_def enc_fields_def sample_log_def enc_words_def MAX_PAYLOAD_SIZE_def)
  have z: "plo 2048 Log 0 = 0" "base sample_X 2048 sample_A Log 0 = 0" by (simp_all add: plo_def first_base_def base_def)
  have "\<exists>s e. s = (if 0 = plo 2048 Log (0 div 1024) then 0 else end_of sample_X 2048 sample_A Log (0 - 1)) \<and>
      (case fst (MetaTable_get InMemoryMetaStore payload_location_schema (PayloadLocationKey Log (PrimaryId (of_nat 0)))
           (snd (snd sample_flushed))) of
         Inr x \<Rightarrow> \<exists>l. x = Some l \<and> unat (payload_end l) = e
       | Inl _ \<Rightarrow> \<not> reliable_meta_store InMemoryMetaStore mem_inv rows_of) \<and>
      (case fst (Partition_get_many \<lparr>cbt_table = ''payload'', cbt_store = InMemoryBlobStore\<rparr> (payload_codec sample_X)
           (PayloadKey_from_id Log (of_nat 0)) [(s, e)] (snd (snd sample_flushed))) of
         Inr vs \<Rightarrow> vs = Some [PayloadItem (snd (family_rows sample_X Log (sample_A ! 0)) ! 0)]
       | Inl _ \<Rightarrow> \<not> reliable_blob_store InMemoryBlobStore mem_inv blobs_of)"
    by (rule payload_readable [OF mem.query_stores_axioms sample_externals_ok sample_chain_ok sample_flush_ok(2,3)])
       (use sample_first_items it sz z in simp_all)
  then obtain e where "case fst (Partition_get_many \<lparr>cbt_table = ''payload'', cbt_store = InMemoryBlobStore\<rparr>
        (payload_codec sample_X) (PayloadKey_from_id Log 0) [(0, e)] (snd (snd sample_flushed))) of
         Inr vs \<Rightarrow> vs = Some [PayloadItem (sample_encode_log sample_log)]
       | Inl _ \<Rightarrow> \<not> reliable_blob_store InMemoryBlobStore mem_inv blobs_of"
    unfolding it using z by auto
  then have "fst (Partition_get_many \<lparr>cbt_table = ''payload'', cbt_store = InMemoryBlobStore\<rparr>
        (payload_codec sample_X) (PayloadKey_from_id Log 0) [(0, e)] (snd (snd sample_flushed))) =
      Inr (Some [PayloadItem (sample_encode_log sample_log)])"
    using mem_blob.reliable_blob_store_axioms by (simp split: sum.splits)
  then show ?thesis by blast
qed

text \<open>
  C4: Bitmap pages are exact for committed ids: the page of a filter contains the id of the
  \<open>q\<close>-th item of block \<open>j\<close> if and only if that item is indexed under the filter.
\<close>

theorem bitmap_exact:
  assumes "query_stores ms bs winv rows blobs" "externals_ok X" "chain_ok X start blocks A"
    and "winv w" "durable X start A m (rows w) (blobs w)"
    and "\<forall>a \<in> set (take m A). \<exists>es. block_entries X a = Inr es"
    and "j < m" "q < length (snd (family_rows X f (A ! j)))" "i = of_nat (base X start A f j + q)"
  shows "case fst (CodecBlobTable_get \<lparr>cbt_table = ''bitmap_index'', cbt_store = bs\<rparr> (bitmap_codec X)
        (BitmapIndexKey f flt (page_of i)) w) of
      Inr x \<Rightarrow> (\<exists>v. x = Some v \<and> rb_contains X (biv_bitmap v) (ucast (i - page_of i))) \<longleftrightarrow>
        flt \<in> set (block_filters X f (blocks ! j) ! q)
    | Inl _ \<Rightarrow> \<not> reliable_blob_store bs winv blobs"
proof -
  note iw = index_writerI [OF assms(1-3)] note c = index_writer.axioms(2) [OF iw]
  have m: "m \<le> length blocks" using assms(5) chain.length_A [OF c] by (simp add: durable_def)
  note r = index_writer.id_in_range [OF iw assms(7) m assms(8)]
  have jl: "j < length blocks" using assms(7) m by simp
  show ?thesis
    using index_writer.bitmap_read_total [OF iw assms(4-6) r, of flt]
    unfolding chain.fam_filters_nth [OF c jl assms(8)] assms(9) .
qed

theorem bitmap_exact_witness:
  "\<exists>v. fst (CodecBlobTable_get \<lparr>cbt_table = ''bitmap_index'', cbt_store = InMemoryBlobStore\<rparr> (bitmap_codec sample_X)
     (BitmapIndexKey Log (F_Address 7) 0) (snd (snd sample_flushed))) = Inr (Some v) \<and> rb_contains sample_X (biv_bitmap v) 1"
proof -
  have "F_Address 7 \<in> set (block_filters sample_X Log (sample_blocks ! 0) ! 1)"
    by (simp add: block_filters_def block_logs_def sample_blocks_def sample_block_def sample_tx_def
        flt_of_def Log_bitmap_filters_def sample_log_def)
  moreover have "base sample_X 2048 sample_A Log 0 = 0" by (simp add: first_base_def base_def)
  moreover have "page_of 1 = 0" by (simp add: page_of_def PAGE_SPAN_def)
  moreover have dec: "\<forall>a \<in> set (take 1 sample_A). \<exists>es. block_entries sample_X a = Inr es"
    using sample_decodes by (auto dest: in_set_takeD)
  have "case fst (CodecBlobTable_get \<lparr>cbt_table = ''bitmap_index'', cbt_store = InMemoryBlobStore\<rparr> (bitmap_codec sample_X)
        (BitmapIndexKey Log (F_Address 7) (page_of 1)) (snd (snd sample_flushed))) of
      Inr x \<Rightarrow> (\<exists>v. x = Some v \<and> rb_contains sample_X (biv_bitmap v) (ucast (1 - page_of 1))) \<longleftrightarrow>
        F_Address 7 \<in> set (block_filters sample_X Log (sample_blocks ! 0) ! 1)
    | Inl _ \<Rightarrow> \<not> reliable_blob_store InMemoryBlobStore mem_inv blobs_of"
    by (rule bitmap_exact [OF mem.query_stores_axioms sample_externals_ok sample_chain_ok sample_flush_ok(2,3) dec])
       (use sample_first_items calculation in simp_all)
  ultimately show ?thesis
    using mem_blob.reliable_blob_store_axioms by (auto split: sum.splits)
qed

end
