(* ===== verification/Archive_Prelude.thy ===== *)
theory Archive_Prelude
  imports Prelude
begin

text \<open>
  Vocabulary of the archive crate (\<open>monad-archive\<close>).  Errors are \<open>eyre::Report\<close> values, kept
  as the chain of their messages with the outermost context first; a panic aborts the
  process under the release profile and is a value of its own, and so is a call that never returns.  The release profile does not
  check arithmetic overflow, so \<open>+\<close> and \<open>-\<close> on \<open>usize\<close> and \<open>u64\<close> wrap in this model too.
\<close>

datatype report = Report "string list" | Crash string | Spin

type_synonym 'a eyre = "report + 'a"
type_synonym ('w, 'a) eyre_io = "('w, report, 'a) io"

abbreviation eyre_err :: "string \<Rightarrow> 'a eyre" where
  "eyre_err m \<equiv> Inl (Report [m])"

abbreviation crash :: "string \<Rightarrow> 'a eyre" where
  "crash m \<equiv> Inl (Crash m)"

text \<open>\<open>wrap_err\<close> on a failed result; a panic is not a result and passes through.\<close>

fun add_context :: "string \<Rightarrow> report \<Rightarrow> report" where
  "add_context m (Report ms) = Report (m # ms)"
| "add_context m (Crash s) = Crash s"
| "add_context m Spin = Spin"

definition wrap_err :: "string \<Rightarrow> 'a eyre \<Rightarrow> 'a eyre" where
  "wrap_err m r = map_err (add_context m) r"

definition io_wrap_err :: "string \<Rightarrow> ('w, 'a) eyre_io \<Rightarrow> ('w, 'a) eyre_io" where
  "io_wrap_err m f w = (let (r, w') = f w in (wrap_err m r, w'))"

lemma wrap_err_simps [simp, res_simps]:
  "wrap_err m (Inr a) = Inr a"
  "wrap_err m (Inl e) = Inl (add_context m e)"
  by (simp_all add: wrap_err_def)

lemma wrap_err_Inr_iff [simp]: "wrap_err m r = Inr a \<longleftrightarrow> r = Inr a"
  by (cases r) auto

lemma wrap_err_Inl_iff: "wrap_err m r = Inl e \<longleftrightarrow> (\<exists>e0. r = Inl e0 \<and> e = add_context m e0)"
  by (cases r) auto

lemma io_wrap_err_apply:
  "f w = (r, w') \<Longrightarrow> io_wrap_err m f w = (wrap_err m r, w')"
  by (simp add: io_wrap_err_def)

lemma io_wrap_err_iff:
  "io_wrap_err m f w = (r', w') \<longleftrightarrow> (\<exists>r. f w = (r, w') \<and> r' = wrap_err m r)"
  by (auto simp: io_wrap_err_def split: prod.splits)

lemma io_wrap_err_Inr_iff [simp]: "io_wrap_err m f w = (Inr a, w') \<longleftrightarrow> f w = (Inr a, w')"
  by (auto simp: io_wrap_err_def split: prod.splits)

definition aborted :: "'a eyre \<Rightarrow> bool" where
  "aborted r \<longleftrightarrow> (\<exists>s. r = Inl (Crash s)) \<or> r = Inl Spin"

lemma not_abortedE:
  assumes "\<not> aborted r"
  obtains (ok) a where "r = Inr a" | (err) ms where "r = Inl (Report ms)"
  using assms by (cases r) (auto simp: aborted_def intro: report.exhaust)

text \<open>
  Handling a failed call: an error is a value that the code looks at, a panic or a call that
  never returns is not.
\<close>

definition io_catch :: "('w, 'a) eyre_io \<Rightarrow> (string list \<Rightarrow> ('w, 'a) eyre_io) \<Rightarrow> ('w, 'a) eyre_io" where
  "io_catch m h w = (case m w of (Inl (Report ms), w') \<Rightarrow> h ms w' | x \<Rightarrow> x)"

definition io_try :: "('w, 'a) eyre_io \<Rightarrow> ('w, string list + 'a) eyre_io" where
  "io_try m = io_catch (io_bind m (\<lambda>a. io_lift (Inr (Inr a)))) (\<lambda>ms. io_lift (Inr (Inl ms)))"

lemma io_catch_cases:
  assumes "io_catch m h w = (r, w')"
  obtains (returns) "m w = (r, w')" "\<nexists>ms. r = Inl (Report ms)"
  | (err) ms w1 where "m w = (Inl (Report ms), w1)" "h ms w1 = (r, w')"
  using assms by (auto simp: io_catch_def split: prod.splits sum.splits report.splits)

lemma io_try_cases:
  assumes "io_try m w = (r, w')"
  obtains (ok) a where "m w = (Inr a, w')" "r = Inr (Inr a)"
  | (err) ms where "m w = (Inl (Report ms), w')" "r = Inr (Inl ms)"
  | (dead) e where "m w = (Inl e, w')" "r = Inl e" "\<nexists>ms. e = Report ms"
  using assms
  by (auto simp: io_try_def io_catch_def io_bind_def split: prod.splits sum.splits report.splits)

text \<open>
  What holds after a call however it ends: the invariant \<open>I\<close> is kept, the world moved along the
  order \<open>R\<close>, and a value that is returned has \<open>Q\<close> in the world reached.
\<close>

definition upholds ::
  "('w \<Rightarrow> bool) \<Rightarrow> ('w \<Rightarrow> 'w \<Rightarrow> bool) \<Rightarrow> ('w, 'a) eyre_io \<Rightarrow> ('a \<Rightarrow> 'w \<Rightarrow> bool) \<Rightarrow> bool" where
  "upholds I R f Q \<longleftrightarrow> (\<forall>w r w'. I w \<longrightarrow> f w = (r, w') \<longrightarrow>
     I w' \<and> R w w' \<and> (\<forall>a. r = Inr a \<longrightarrow> Q a w'))"

lemma upholdsD:
  assumes "upholds I R f Q" "I w" "f w = (r, w')"
  shows "I w'" "R w w'" "r = Inr a \<Longrightarrow> Q a w'"
  using assms by (auto simp: upholds_def)

lemma upholds_mono: "upholds I R f P \<Longrightarrow> (\<And>a w. P a w \<Longrightarrow> Q a w) \<Longrightarrow> upholds I R f Q"
  unfolding upholds_def by blast

lemma upholds_lift: "reflp R \<Longrightarrow> (\<And>a w. r = Inr a \<Longrightarrow> I w \<Longrightarrow> Q a w) \<Longrightarrow> upholds I R (io_lift r) Q"
  by (auto simp: upholds_def reflp_def)

lemma upholds_bind:
  assumes "transp R" and f: "upholds I R f P" and g: "\<And>a. upholds I R (g a) (\<lambda>b w. P a w \<longrightarrow> Q b w)"
    and stable: "\<And>a w w'. P a w \<Longrightarrow> R w w' \<Longrightarrow> P a w'"
  shows "upholds I R (io_bind f g) Q"
  unfolding upholds_def
proof (intro allI impI)
  fix w r w'
  assume w: "I w" "io_bind f g w = (r, w')"
  from w(2) show "I w' \<and> R w w' \<and> (\<forall>b. r = Inr b \<longrightarrow> Q b w')"
  proof (cases rule: io_bind_cases)
    case (fail e)
    with upholdsD [OF f w(1) fail(1)] show ?thesis by simp
  next
    case (ok a w1)
    note 1 = upholdsD [OF f w(1) ok(1)]
    note 2 = upholdsD [OF g 1(1) ok(2)]
    have "P a w'" by (rule stable [OF 1(3) [OF refl] 2(2)])
    moreover have "R w w'" using assms(1) 1(2) 2(2) by (rule transpD)
    ultimately show ?thesis using 2 by blast
  qed
qed

lemma upholds_bind_val:
  assumes "transp R" "upholds I R f (\<lambda>a _. P a)" "\<And>a. P a \<Longrightarrow> upholds I R (g a) Q"
  shows "upholds I R (io_bind f g) Q"
  unfolding upholds_def
proof (intro allI impI)
  fix w r w'
  assume w: "I w" "io_bind f g w = (r, w')"
  from w(2) show "I w' \<and> R w w' \<and> (\<forall>b. r = Inr b \<longrightarrow> Q b w')"
  proof (cases rule: io_bind_cases)
    case (fail e)
    with upholdsD [OF assms(2) w(1) fail(1)] show ?thesis by simp
  next
    case (ok a w1)
    note 1 = upholdsD [OF assms(2) w(1) ok(1)]
    from upholdsD [OF assms(3) [OF 1(3) [OF refl]] 1(1) ok(2)] 1(2) show ?thesis
      using transpD [OF assms(1)] by blast
  qed
qed

lemma upholds_catch:
  assumes "transp R" "upholds I R f Q" "\<And>ms. upholds I R (h ms) Q"
  shows "upholds I R (io_catch f h) Q"
  unfolding upholds_def
proof (intro allI impI)
  fix w r w'
  assume w: "I w" "io_catch f h w = (r, w')"
  from w(2) show "I w' \<and> R w w' \<and> (\<forall>b. r = Inr b \<longrightarrow> Q b w')"
  proof (cases rule: io_catch_cases)
    case returns
    with upholdsD [OF assms(2) w(1)] show ?thesis by blast
  next
    case (err ms w1)
    note 1 = upholdsD [OF assms(2) w(1) err(1)]
    from upholdsD [OF assms(3) 1(1) err(2)] 1(2) show ?thesis using transpD [OF assms(1)] by blast
  qed
qed

lemma upholds_try:
  assumes "reflp R" "transp R" "upholds I R f Q"
  shows "upholds I R (io_try f) (\<lambda>r w. case r of Inr a \<Rightarrow> Q a w | Inl _ \<Rightarrow> True)"
  unfolding io_try_def
proof (rule upholds_catch [OF assms(2)])
  show "upholds I R (io_bind f (\<lambda>a. io_lift (Inr (Inr a)))) (\<lambda>r w. case r of Inr a \<Rightarrow> Q a w | Inl _ \<Rightarrow> True)"
    using assms(3) unfolding upholds_def by (force simp: io_bind_def split: prod.splits sum.splits)
  show "upholds I R (io_lift (Inr (Inl ms))) (\<lambda>r w. case r of Inr a \<Rightarrow> Q a w | Inl _ \<Rightarrow> True)" for ms
    by (rule upholds_lift [OF assms(1)]) auto
qed

lemma upholds_wrap_err: "upholds I R f Q \<Longrightarrow> upholds I R (io_wrap_err m f) Q"
  unfolding upholds_def io_wrap_err_iff by (metis wrap_err_Inr_iff)

text \<open>Rust's \<open>checked_mul\<close>.\<close>

definition checked_mul :: "'a::len word \<Rightarrow> 'a word \<Rightarrow> 'a word option" where
  "checked_mul a b = (if unat a * unat b < 2 ^ LENGTH('a) then Some (a * b) else None)"

text \<open>The bytes of a slice \<open>&data[s..e]\<close>, which panics when the bounds are not in order.\<close>

definition slice :: "nat \<Rightarrow> nat \<Rightarrow> 'a list \<Rightarrow> 'a list eyre" where
  "slice s e xs = (if s \<le> e \<and> e \<le> length xs then Inr (take (e - s) (drop s xs))
                   else crash ''slice index out of range'')"

lemma slice_append [simp]:
  "slice (length xs) (length xs + length ys) (xs @ ys @ zs) = Inr ys"
  by (simp add: slice_def)

lemma unat_add_small:
  "unat (a :: 'a::len word) + unat b < 2 ^ LENGTH('a) \<Longrightarrow> unat (a + b) = unat a + unat b"
  by (simp add: unat_word_ariths)

lemma unat_u8_u64 [simp, width_simps]: "unat (ucast (b :: u8) :: u64) = unat b"
proof -
  have "unat b < 2 ^ 8" using unsigned_less [of b, where ?'a = nat] by simp
  then show ?thesis by (simp add: unsigned_ucast_eq take_bit_eq_mod)
qed

section \<open>Strings and their bytes\<close>

text \<open>A Rust string is its UTF-8 bytes, one character of a HOL string for each.\<close>

definition as_bytes :: "string \<Rightarrow> bytes" where
  "as_bytes s = map (\<lambda>c. of_nat (of_char c)) s"

definition cont_byte :: "u8 \<Rightarrow> bool" where
  "cont_byte b \<longleftrightarrow> 0x80 \<le> b \<and> b \<le> 0xbf"

text \<open>Well-formed UTF-8 (the table of the Unicode standard that \<open>String::from_utf8\<close> checks).\<close>

fun valid_utf8 :: "bytes \<Rightarrow> bool" where
  "valid_utf8 [] = True"
| "valid_utf8 (b # bs) =
     (if b < 0x80 then valid_utf8 bs
      else case bs of
        [] \<Rightarrow> False
      | c1 # bs1 \<Rightarrow>
          if 0xc2 \<le> b \<and> b \<le> 0xdf then cont_byte c1 \<and> valid_utf8 bs1
          else (case bs1 of
            [] \<Rightarrow> False
          | c2 # bs2 \<Rightarrow>
              if 0xe0 \<le> b \<and> b \<le> 0xef then
                cont_byte c1 \<and> (b = 0xe0 \<longrightarrow> 0xa0 \<le> c1) \<and> (b = 0xed \<longrightarrow> c1 \<le> 0x9f) \<and>
                cont_byte c2 \<and> valid_utf8 bs2
              else (case bs2 of
                [] \<Rightarrow> False
              | c3 # bs3 \<Rightarrow>
                  0xf0 \<le> b \<and> b \<le> 0xf4 \<and> cont_byte c1 \<and> (b = 0xf0 \<longrightarrow> 0x90 \<le> c1) \<and>
                  (b = 0xf4 \<longrightarrow> c1 \<le> 0x8f) \<and> cont_byte c2 \<and> cont_byte c3 \<and> valid_utf8 bs3)))"

definition from_utf8 :: "bytes \<Rightarrow> string option" where
  "from_utf8 bs = (if valid_utf8 bs then Some (map (\<lambda>b. char_of (unat b)) bs) else None)"

definition ascii :: "string \<Rightarrow> bool" where
  "ascii s \<longleftrightarrow> (\<forall>c \<in> set s. of_char c < (128 :: nat))"

lemma valid_utf8_ascii: "(\<forall>b \<in> set bs. b < 0x80) \<Longrightarrow> valid_utf8 bs"
  by (induction bs) simp_all

lemma unat_of_char [simp]: "unat (of_nat (of_char c) :: u8) = of_char c"
proof -
  have "of_char c < (256 :: nat)" by (simp add: nat_of_char_less_256)
  then show ?thesis by (simp add: unat_of_nat)
qed

lemma from_utf8_as_bytes [codec_simps]: "ascii s \<Longrightarrow> from_utf8 (as_bytes s) = Some s"
proof -
  assume a: "ascii s"
  then have "\<forall>b \<in> set (as_bytes s). b < 0x80"
    by (auto simp: ascii_def as_bytes_def word_less_nat_alt)
  then have "valid_utf8 (as_bytes s)" by (rule valid_utf8_ascii)
  then show ?thesis by (simp add: from_utf8_def) (simp add: as_bytes_def comp_def)
qed

text \<open>Zero-padded decimals (\<open>{:0width$}\<close>).\<close>

definition pad_decimal :: "nat \<Rightarrow> u64 \<Rightarrow> string" where
  "pad_decimal width n =
     (let s = word_to_string n in replicate (width - length s) CHR ''0'' @ s)"

lemma digits_value_zeros: "digits_value 0 (replicate k CHR ''0'' @ s) = digits_value 0 s"
proof (induction k)
  case (Suc k)
  have "char_digit CHR ''0'' = Some 0" by (simp add: char_digit_def Let_def)
  with Suc show ?case by simp
qed simp

lemma parse_pad_decimal [codec_simps]: "parse_word (pad_decimal width n) = Some n"
proof -
  let ?s = "to_decimal (unat n)" and ?k = "width - length (to_decimal (unat n))"
  have bound: "unat n < 2 ^ 64" using unsigned_less [of n, where ?'a = nat] by simp
  have "parse_unsigned (2 ^ 64) (replicate ?k CHR ''0'' @ ?s) = Some (unat n)"
  proof (cases ?k)
    case 0
    with bound show ?thesis by (simp add: parse_unsigned_to_decimal)
  next
    case (Suc j)
    have "digits_value 0 (replicate ?k CHR ''0'' @ ?s) = Some (unat n)"
      by (simp add: digits_value_zeros digits_value_to_decimal)
    with bound Suc show ?thesis by (simp add: parse_unsigned_def Let_def)
  qed
  then show ?thesis by (simp add: parse_word_def pad_decimal_def word_to_string_def Let_def)
qed

lemma pad_decimal_inject [simp]: "pad_decimal k m = pad_decimal k n \<longleftrightarrow> m = n"
  by (metis option.inject parse_pad_decimal)

lemma ascii_to_decimal: "ascii (to_decimal n)"
proof (induction n rule: to_decimal.induct)
  case (1 n)
  have "of_char (digit_char d) < (128 :: nat)" if "d < 10" for d
    using that by (simp add: digit_char_def)
  with 1 show ?case by (cases "n < 10") (auto simp: to_decimal.simps [of n] ascii_def)
qed

lemma ascii_word_to_string [simp]: "ascii (word_to_string n)"
  by (simp add: word_to_string_def ascii_to_decimal)

lemma ascii_pad_decimal [simp]: "ascii (pad_decimal k n)"
  using ascii_to_decimal [of "unat n"]
  by (auto simp: pad_decimal_def word_to_string_def ascii_def Let_def)

end
