(* ===== verification/Kv_Store.thy ===== *)
theory Kv_Store
  imports Archive_Prelude "HOL-Library.AList" "HOL-Library.Sublist"
begin

text \<open>
  The key-value stores of the archive (\<open>kvstore/mod.rs\<close>): the reader and writer traits with
  their bulk defaults, the contract that every backend promises (locale \<open>kv_contract\<close>) and the
  in-memory backend (\<open>kvstore/memory.rs\<close>), which meets it.
\<close>

section \<open>Traits (kvstore/mod.rs)\<close>

datatype kv_store_type = AwsS3 | AwsDynamoDB | Mongo | Memory | CloudProxy | TrieDb | FileSystem

fun KVStoreType_as_str :: "kv_store_type \<Rightarrow> string" where
  "KVStoreType_as_str AwsS3 = ''aws_s3''"
| "KVStoreType_as_str AwsDynamoDB = ''aws_dynamodb''"
| "KVStoreType_as_str Mongo = ''mongo''"
| "KVStoreType_as_str Memory = ''memory''"
| "KVStoreType_as_str CloudProxy = ''cloud_proxy''"
| "KVStoreType_as_str TrieDb = ''triedb''"
| "KVStoreType_as_str FileSystem = ''fs''"

datatype write_policy = AllowOverwrite | NoClobber

datatype put_result = Written | Skipped

record 'w kv_reader =
  kv_get :: "string \<Rightarrow> ('w, bytes option) eyre_io"
  kv_exists :: "string \<Rightarrow> ('w, bool) eyre_io"

record 'w kv_store = "'w kv_reader" +
  kv_put :: "string \<Rightarrow> bytes \<Rightarrow> write_policy \<Rightarrow> ('w, put_result) eyre_io"
  kv_scan_prefix :: "string \<Rightarrow> ('w, string list) eyre_io"
  kv_delete :: "string \<Rightarrow> ('w, unit) eyre_io"
  kv_bucket_name :: string

text \<open>\<open>bulk_put\<close>: the puts in some order, the first error ends the request.\<close>

definition bulk_put ::
  "('w, 'z) kv_store_scheme \<Rightarrow> (string \<times> bytes) list \<Rightarrow> write_policy \<Rightarrow> ('w, put_result) eyre_io" where
  "bulk_put st kvs policy =
     io_bind (io_map (\<lambda>(k, v). kv_put st k v policy) kvs) (\<lambda>results.
       io_lift (Inr (if \<exists>r \<in> set results. r = Skipped then Skipped else Written)))"

text \<open>\<open>bulk_get\<close>: the values found, by key.\<close>

definition bulk_get :: "('w, 'z) kv_reader_scheme \<Rightarrow> string list \<Rightarrow> ('w, string \<rightharpoonup> bytes) eyre_io" where
  "bulk_get st keys =
     io_bind (io_map (kv_get st) keys) (\<lambda>responses.
       io_lift (Inr (fold (\<lambda>(resp, key) out. case resp of None \<Rightarrow> out | Some b \<Rightarrow> out(key \<mapsto> b))
                          (zip responses keys) Map.empty)))"

section \<open>Contract of a backend\<close>

text \<open>
  \<open>kv w\<close> is the content of the store in world \<open>w\<close>.  Reads change nothing; a put that returns
  wrote its value unless the key is taken and the policy forbids it; a put that fails touches
  no other key, and no taken key under \<open>NoClobber\<close>.
\<close>

definition put_effect ::
  "string \<Rightarrow> bytes \<Rightarrow> write_policy \<Rightarrow> put_result eyre \<Rightarrow> (string \<rightharpoonup> bytes) \<Rightarrow> (string \<rightharpoonup> bytes) \<Rightarrow> bool" where
  "put_effect k d p r m m' =
     (case r of
        Inr Written \<Rightarrow> m' = m(k \<mapsto> d) \<and> (p = NoClobber \<longrightarrow> m k = None)
      | Inr Skipped \<Rightarrow> m' = m \<and> p = NoClobber \<and> m k \<noteq> None
      | Inl _ \<Rightarrow> (\<forall>k'. k' \<noteq> k \<longrightarrow> m' k' = m k') \<and> (p = NoClobber \<and> m k \<noteq> None \<longrightarrow> m' k = m k))"

locale kv_reading =
  fixes st :: "('w, 'z) kv_reader_scheme" and winv :: "'w \<Rightarrow> bool" and kv :: "'w \<Rightarrow> string \<rightharpoonup> bytes"
  assumes get: "winv w \<Longrightarrow> kv_get st k w = (r, w') \<Longrightarrow>
      winv w' \<and> kv w' = kv w \<and> (\<forall>v. r = Inr v \<longrightarrow> v = kv w k)"
    and exists: "winv w \<Longrightarrow> kv_exists st k w = (re, w') \<Longrightarrow>
      winv w' \<and> kv w' = kv w \<and> (\<forall>b. re = Inr b \<longrightarrow> b = (kv w k \<noteq> None))"
begin

lemma bulk_get_spec:
  assumes "winv w" "bulk_get st keys w = (r, w')"
  shows "winv w' \<and> kv w' = kv w \<and> (\<forall>m. r = Inr m \<longrightarrow> m = kv w |` set keys)"
proof -
  let ?P = "\<lambda>v. winv v \<and> kv v = kv w"
  let ?ins = "\<lambda>(resp, key) out. case resp of None \<Rightarrow> out | Some (b :: bytes) \<Rightarrow> out(key \<mapsto> b)"
  obtain r1 w1 where 1: "io_map (kv_get st) keys w = (r1, w1)" by (meson surj_pair)
  have 2: "?P w1 \<and> (\<forall>ys. r1 = Inr ys \<longrightarrow> list_all2 (\<lambda>k y. y = kv w k) keys ys)"
  proof (rule io_map_inv [OF _ _ 1])
    show "?P v' \<and> (\<forall>y. s = Inr y \<longrightarrow> y = kv w x)" if "?P v" "kv_get st x v = (s, v')" for x v s v'
      using get [of v x s v'] that by simp
  qed (use assms(1) in simp)
  have fold: "fold ?ins (zip (map (kv w) ks) ks) m = m ++ (kv w |` set ks)" for ks m
  proof (induction ks arbitrary: m)
    case (Cons k ks)
    then show ?case
      by (auto simp: fun_eq_iff map_add_def restrict_map_def split: option.splits)
  qed simp
  show ?thesis
  proof (cases r1)
    case (Inl e)
    with 1 2 assms(2) show ?thesis by (auto simp: bulk_get_def io_bind_def)
  next
    case (Inr ys)
    with 2 have "ys = map (kv w) keys"
      using list_all2_eq_map [of "kv w" "\<lambda>_. True" keys ys] by simp
    with 1 2 Inr assms(2) fold [of keys Map.empty] show ?thesis
      by (auto simp: bulk_get_def io_bind_def)
  qed
qed

end

locale kv_contract = kv_reading st winv kv
  for st :: "('w, 'z) kv_store_scheme" and winv :: "'w \<Rightarrow> bool" and kv :: "'w \<Rightarrow> string \<rightharpoonup> bytes" +
  assumes put: "winv w \<Longrightarrow> kv_put st k d p w = (rp, w') \<Longrightarrow> winv w' \<and> put_effect k d p rp (kv w) (kv w')"
    and scan: "winv w \<Longrightarrow> kv_scan_prefix st s w = (rs, w') \<Longrightarrow>
      winv w' \<and> kv w' = kv w \<and> (\<forall>ks. rs = Inr ks \<longrightarrow> set ks = {k \<in> dom (kv w). prefix s k})"
    and del: "winv w \<Longrightarrow> kv_delete st k w = (rd, w') \<Longrightarrow>
      winv w' \<and> (\<forall>k'. k' \<noteq> k \<longrightarrow> kv w' k' = kv w k') \<and> (\<forall>u. rd = Inr u \<longrightarrow> kv w' k = None)"
begin

text \<open>Keys outside a bulk put keep their values, whatever happens.\<close>

lemma puts_frame:
  assumes "winv w" "io_map (\<lambda>(k, v). kv_put st k v p) kvs w = (r, w')" "k \<notin> fst ` set kvs"
  shows "winv w' \<and> kv w' k = kv w k"
proof -
  have "(winv w' \<and> kv w' k = kv w k) \<and> (\<forall>ys. r = Inr ys \<longrightarrow> list_all2 (\<lambda>_ _. True) kvs ys)"
  proof (rule io_map_inv [where P = "\<lambda>v. winv v \<and> kv v k = kv w k", OF _ _ assms(2)])
    fix x v s v'
    assume x: "x \<in> set kvs" "winv v \<and> kv v k = kv w k" "(case x of (k, d) \<Rightarrow> kv_put st k d p) v = (s, v')"
    obtain k1 d where kd: "x = (k1, d)" by (cases x)
    have "k1 \<noteq> k" using assms(3) x(1) kd by (metis fst_conv image_eqI)
    then show "(winv v' \<and> kv v' k = kv w k) \<and> (\<forall>y. s = Inr y \<longrightarrow> True)"
      using put [of v k1 d p s v'] x(2,3) kd
      by (auto simp: put_effect_def split: sum.splits put_result.splits)
  qed (use assms(1) in simp)
  then show ?thesis by simp
qed

text \<open>A bulk put of fresh or identical values that returns has stored all of them.\<close>

lemma puts_store:
  assumes "winv w" "io_map (\<lambda>(k, v). kv_put st k v p) kvs w = (Inr rs, w')" "distinct (map fst kvs)"
    and "(k, v) \<in> set kvs"
  shows "kv w' k = (if p = NoClobber \<and> kv w k \<noteq> None then kv w k else Some v)"
  using assms
proof (induction kvs arbitrary: w rs)
  case (Cons x kvs)
  obtain k1 v1 where x: "x = (k1, v1)" by (cases x)
  obtain r1 w1 ys where 1: "kv_put st k1 v1 p w = (Inr r1, w1)"
    "io_map (\<lambda>(k, v). kv_put st k v p) kvs w1 = (Inr ys, w')"
    using Cons.prems(2) x by (auto simp: io_bind_Inr_iff)
  have 2: "winv w1" "put_effect k1 v1 p (Inr r1) (kv w) (kv w1)" using put [OF Cons.prems(1) 1(1)] by auto
  show ?case
  proof (cases "k = k1")
    case True
    then have "v = v1" "k \<notin> fst ` set kvs" using Cons.prems(3,4) x by (auto simp: image_iff)
    moreover from this have "kv w' k = kv w1 k" using puts_frame [OF 2(1) 1(2)] by blast
    ultimately show ?thesis using 2(2) True by (cases r1) (auto simp: put_effect_def)
  next
    case False
    then have "kv w1 k = kv w k" using 2(2) by (cases r1) (auto simp: put_effect_def)
    moreover have "kv w' k = (if p = NoClobber \<and> kv w1 k \<noteq> None then kv w1 k else Some v)"
      using Cons.IH [OF 2(1) 1(2)] Cons.prems(3,4) x False by auto
    ultimately show ?thesis by simp
  qed
qed simp

lemma bulk_put_store:
  assumes "winv w" "bulk_put st kvs p w = (Inr u, w')" "distinct (map fst kvs)" "(k, v) \<in> set kvs"
  shows "kv w' k = (if p = NoClobber \<and> kv w k \<noteq> None then kv w k else Some v)"
  using assms puts_store by (auto simp: bulk_put_def io_bind_Inr_iff)

lemma bulk_put_frame:
  assumes "winv w" "bulk_put st kvs p w = (r, w')" "k \<notin> fst ` set kvs"
  shows "winv w' \<and> kv w' k = kv w k"
  using assms(2) unfolding bulk_put_def
  by (cases rule: io_bind_cases) (use puts_frame [OF assms(1)] assms(3) in auto)

lemma bulk_put_inv:
  assumes "winv w" "bulk_put st kvs p w = (r, w')"
  shows "winv w'"
proof -
  have "finite (fst ` set kvs)" by simp
  then obtain k where "k \<notin> fst ` set kvs"
    using ex_new_if_finite [OF infinite_UNIV_listI, of "fst ` set kvs"] by blast
  from bulk_put_frame [OF assms this] show ?thesis by simp
qed

text \<open>A taken key under \<open>NoClobber\<close> keeps its value through any put.\<close>

lemma put_no_clobber:
  assumes "winv w" "kv_put st k d NoClobber w = (r, w')" "kv w k' = Some v"
  shows "kv w' k' = Some v"
  using put [OF assms(1,2)] assms(3)
  by (cases "k' = k") (auto simp: put_effect_def split: sum.splits put_result.splits)

end

text \<open>A backend whose failed puts wrote nothing or all of their value.\<close>

locale atomic_kv = kv_contract +
  assumes put_atomic: "winv w \<Longrightarrow> kv_put st k d p w = (Inl e, w') \<Longrightarrow> kv w' = kv w \<or> kv w' = (kv w)(k \<mapsto> d)"
begin

text \<open>What any put can do to the content: nothing, or store the value under its key.\<close>

lemma put_cases:
  assumes "winv w" "kv_put st k d p w = (r, w')"
  shows "winv w' \<and> (kv w' = kv w \<or> kv w' = (kv w)(k \<mapsto> d)) \<and> (\<forall>u. r = Inr u \<longrightarrow> kv w' k \<noteq> None)"
  using put [OF assms] put_atomic [OF assms(1)] assms(2)
  by (cases r) (auto simp: put_effect_def split: put_result.splits)

end

text \<open>A backend that answers every request.\<close>

locale reliable_kv = kv_contract +
  assumes get_ok: "winv w \<Longrightarrow> \<exists>v w'. kv_get st k w = (Inr v, w')"
    and put_ok: "winv w \<Longrightarrow> \<exists>u w'. kv_put st k d p w = (Inr u, w')"

sublocale reliable_kv \<subseteq> atomic_kv
  by unfold_locales (metis Inl_Inr_False prod.inject put_ok)

context reliable_kv
begin

lemma get_total:
  assumes "winv w"
  obtains w' where "kv_get st k w = (Inr (kv w k), w')" "winv w'" "kv w' = kv w"
  using get_ok [OF assms, of k] get [OF assms, of k] by blast

lemma put_overwrites:
  assumes "winv w"
  obtains u w' where "kv_put st k d AllowOverwrite w = (Inr u, w')" "winv w'" "kv w' = (kv w)(k \<mapsto> d)"
proof -
  obtain u w' where 1: "kv_put st k d AllowOverwrite w = (Inr u, w')" using put_ok [OF assms] by blast
  then show thesis
    using put [OF assms 1] that by (cases u) (auto simp: put_effect_def)
qed

end

context reliable_kv
begin

lemma bulk_put_ok:
  assumes "winv w"
  shows "\<exists>u w'. bulk_put st kvs p w = (Inr u, w')"
proof -
  obtain r w' where 1: "io_map (\<lambda>(k, v). kv_put st k v p) kvs w = (r, w')" by (meson surj_pair)
  have "\<exists>ys. r = Inr ys"
  proof (rule io_map_ok [where P = winv, OF _ assms 1])
    fix x v s v'
    assume "winv v" "(case x of (k, d) \<Rightarrow> kv_put st k d p) v = (s, v')"
    then show "winv v' \<and> (\<exists>y. s = Inr y)"
      using put_ok [of v "fst x" "snd x" p] put [of v "fst x" "snd x" p s v'] by (auto split: prod.splits)
  qed
  with 1 show ?thesis by (auto simp: bulk_put_def io_bind_def)
qed

end

section \<open>The in-memory store (kvstore/memory.rs)\<close>

text \<open>The hash map is an association list: the order in which it yields its keys is arbitrary.\<close>

record memory_storage =
  ms_db :: "(string \<times> bytes) list"
  ms_should_fail :: bool
  ms_name :: string

definition MemoryStorage_new :: "string \<Rightarrow> memory_storage" where
  "MemoryStorage_new name = \<lparr>ms_db = [], ms_should_fail = False, ms_name = name\<rparr>"

abbreviation simulated_failure :: "'a eyre" where
  "simulated_failure \<equiv> eyre_err ''MemoryStorage simulated failure''"

definition MemoryStorage_get :: "string \<Rightarrow> (memory_storage, bytes option) eyre_io" where
  "MemoryStorage_get key s =
     (if ms_should_fail s then (simulated_failure, s) else (Inr (map_of (ms_db s) key), s))"

definition MemoryStorage_exists :: "string \<Rightarrow> (memory_storage, bool) eyre_io" where
  "MemoryStorage_exists key s =
     (if ms_should_fail s then (simulated_failure, s) else (Inr (map_of (ms_db s) key \<noteq> None), s))"

definition MemoryStorage_put ::
  "string \<Rightarrow> bytes \<Rightarrow> write_policy \<Rightarrow> (memory_storage, put_result) eyre_io" where
  "MemoryStorage_put key data policy s =
     (if ms_should_fail s then (simulated_failure, s)
      else if policy = NoClobber \<and> map_of (ms_db s) key \<noteq> None then (Inr Skipped, s)
      else (Inr Written, s\<lparr>ms_db := AList.update key data (ms_db s)\<rparr>))"

definition MemoryStorage_scan_prefix :: "string \<Rightarrow> (memory_storage, string list) eyre_io" where
  "MemoryStorage_scan_prefix pre s =
     (if ms_should_fail s then (simulated_failure, s)
      else (Inr (filter (prefix pre) (map fst (ms_db s))), s))"

definition MemoryStorage_delete :: "string \<Rightarrow> (memory_storage, unit) eyre_io" where
  "MemoryStorage_delete key s = (Inr (), s\<lparr>ms_db := AList.delete key (ms_db s)\<rparr>)"

definition MemoryStorage :: "string \<Rightarrow> memory_storage kv_store" where
  "MemoryStorage name =
     \<lparr>kv_get = MemoryStorage_get, kv_exists = MemoryStorage_exists, kv_put = MemoryStorage_put,
      kv_scan_prefix = MemoryStorage_scan_prefix, kv_delete = MemoryStorage_delete,
      kv_bucket_name = name\<rparr>"

definition memory_kv :: "memory_storage \<Rightarrow> string \<rightharpoonup> bytes" where
  "memory_kv s = map_of (ms_db s)"

interpretation memory: kv_contract "MemoryStorage name" "\<lambda>s. distinct (map fst (ms_db s))" memory_kv
proof
  fix w k w' d p s
  show "distinct (map fst (ms_db w)) \<Longrightarrow> kv_get (MemoryStorage name) k w = (r, w') \<Longrightarrow>
      distinct (map fst (ms_db w')) \<and> memory_kv w' = memory_kv w \<and> (\<forall>v. r = Inr v \<longrightarrow> v = memory_kv w k)" for r
    by (auto simp: MemoryStorage_def MemoryStorage_get_def memory_kv_def split: if_splits)
  show "distinct (map fst (ms_db w)) \<Longrightarrow> kv_exists (MemoryStorage name) k w = (r, w') \<Longrightarrow>
      distinct (map fst (ms_db w')) \<and> memory_kv w' = memory_kv w \<and>
      (\<forall>b. r = Inr b \<longrightarrow> b = (memory_kv w k \<noteq> None))" for r
    by (auto simp: MemoryStorage_def MemoryStorage_exists_def memory_kv_def split: if_splits)
  show "distinct (map fst (ms_db w)) \<Longrightarrow> kv_put (MemoryStorage name) k d p w = (r, w') \<Longrightarrow>
      distinct (map fst (ms_db w')) \<and> put_effect k d p r (memory_kv w) (memory_kv w')" for r
    by (auto simp: MemoryStorage_def MemoryStorage_put_def memory_kv_def put_effect_def
        update_conv' distinct_update map_of_eq_None_iff split: if_splits)
  show "distinct (map fst (ms_db w)) \<Longrightarrow> kv_scan_prefix (MemoryStorage name) s w = (r, w') \<Longrightarrow>
      distinct (map fst (ms_db w')) \<and> memory_kv w' = memory_kv w \<and>
      (\<forall>ks. r = Inr ks \<longrightarrow> set ks = {k \<in> dom (memory_kv w). prefix s k})" for r
    by (force simp: MemoryStorage_def MemoryStorage_scan_prefix_def memory_kv_def
        dom_map_of_conv_image_fst split: if_splits)
  show "distinct (map fst (ms_db w)) \<Longrightarrow> kv_delete (MemoryStorage name) k w = (r, w') \<Longrightarrow>
      distinct (map fst (ms_db w')) \<and> (\<forall>k'. k' \<noteq> k \<longrightarrow> memory_kv w' k' = memory_kv w k') \<and>
      (\<forall>u. r = Inr u \<longrightarrow> memory_kv w' k = None)" for r
    by (auto simp: MemoryStorage_def MemoryStorage_delete_def memory_kv_def delete_conv' distinct_delete)
qed

definition memory_ok :: "memory_storage \<Rightarrow> bool" where
  "memory_ok s \<longleftrightarrow> distinct (map fst (ms_db s)) \<and> \<not> ms_should_fail s"

lemma flag_kept:
  "ms_should_fail (snd (kv_get (MemoryStorage name) k w)) = ms_should_fail w"
  "ms_should_fail (snd (kv_exists (MemoryStorage name) k w)) = ms_should_fail w"
  "ms_should_fail (snd (kv_put (MemoryStorage name) k d p w)) = ms_should_fail w"
  "ms_should_fail (snd (kv_scan_prefix (MemoryStorage name) s w)) = ms_should_fail w"
  "ms_should_fail (snd (kv_delete (MemoryStorage name) k w)) = ms_should_fail w"
  by (simp_all add: MemoryStorage_def MemoryStorage_get_def MemoryStorage_exists_def
      MemoryStorage_put_def MemoryStorage_scan_prefix_def MemoryStorage_delete_def)

interpretation memory_rel: reliable_kv "MemoryStorage name" memory_ok memory_kv
proof -
  show "reliable_kv (MemoryStorage name) memory_ok memory_kv"
  proof
    fix w k w' d p s
    assume "memory_ok w"
    then have w: "distinct (map fst (ms_db w))" "\<not> ms_should_fail w" by (simp_all add: memory_ok_def)
    show "kv_get (MemoryStorage name) k w = (r, w') \<Longrightarrow>
        memory_ok w' \<and> memory_kv w' = memory_kv w \<and> (\<forall>v. r = Inr v \<longrightarrow> v = memory_kv w k)" for r
      using memory.get [OF w(1), of name k r w'] w(2) flag_kept(1) [of name k w] by (auto simp: memory_ok_def)
    show "kv_exists (MemoryStorage name) k w = (r, w') \<Longrightarrow>
        memory_ok w' \<and> memory_kv w' = memory_kv w \<and> (\<forall>b. r = Inr b \<longrightarrow> b = (memory_kv w k \<noteq> None))" for r
      using memory.exists [OF w(1), of name k r w'] w(2) flag_kept(2) [of name k w] by (auto simp: memory_ok_def)
    show "kv_put (MemoryStorage name) k d p w = (r, w') \<Longrightarrow>
        memory_ok w' \<and> put_effect k d p r (memory_kv w) (memory_kv w')" for r
      using memory.put [OF w(1), of name k d p r w'] w(2) flag_kept(3) [of name k d p w] by (auto simp: memory_ok_def)
    show "kv_scan_prefix (MemoryStorage name) s w = (r, w') \<Longrightarrow>
        memory_ok w' \<and> memory_kv w' = memory_kv w \<and>
        (\<forall>ks. r = Inr ks \<longrightarrow> set ks = {k \<in> dom (memory_kv w). prefix s k})" for r
      using memory.scan [OF w(1), of name s r w'] w(2) flag_kept(4) [of name s w] by (auto simp: memory_ok_def)
    show "kv_delete (MemoryStorage name) k w = (r, w') \<Longrightarrow>
        memory_ok w' \<and> (\<forall>k'. k' \<noteq> k \<longrightarrow> memory_kv w' k' = memory_kv w k') \<and>
        (\<forall>u. r = Inr u \<longrightarrow> memory_kv w' k = None)" for r
      using memory.del [OF w(1), of name k r w'] w(2) flag_kept(5) [of name k w] by (auto simp: memory_ok_def)
    show "\<exists>v w'. kv_get (MemoryStorage name) k w = (Inr v, w')"
      using w(2) by (simp add: MemoryStorage_def MemoryStorage_get_def)
    show "\<exists>u w'. kv_put (MemoryStorage name) k d p w = (Inr u, w')"
      using w(2) by (simp add: MemoryStorage_def MemoryStorage_put_def)
  qed
qed

section \<open>Two stores side by side\<close>

text \<open>A deployment has several stores; a call to one of them does not touch the others.\<close>

definition io_fst :: "('w, 'a) eyre_io \<Rightarrow> ('w \<times> 'v, 'a) eyre_io" where
  "io_fst f w = (let (r, w') = f (fst w) in (r, (w', snd w)))"

definition io_snd :: "('v, 'a) eyre_io \<Rightarrow> ('w \<times> 'v, 'a) eyre_io" where
  "io_snd f w = (let (r, v') = f (snd w) in (r, (fst w, v')))"

definition store_fst :: "'w kv_store \<Rightarrow> ('w \<times> 'v) kv_store" where
  "store_fst st =
     \<lparr>kv_get = (\<lambda>k. io_fst (kv_get st k)), kv_exists = (\<lambda>k. io_fst (kv_exists st k)),
      kv_put = (\<lambda>k d p. io_fst (kv_put st k d p)), kv_scan_prefix = (\<lambda>s. io_fst (kv_scan_prefix st s)),
      kv_delete = (\<lambda>k. io_fst (kv_delete st k)), kv_bucket_name = kv_bucket_name st\<rparr>"

definition store_snd :: "'v kv_store \<Rightarrow> ('w \<times> 'v) kv_store" where
  "store_snd st =
     \<lparr>kv_get = (\<lambda>k. io_snd (kv_get st k)), kv_exists = (\<lambda>k. io_snd (kv_exists st k)),
      kv_put = (\<lambda>k d p. io_snd (kv_put st k d p)), kv_scan_prefix = (\<lambda>s. io_snd (kv_scan_prefix st s)),
      kv_delete = (\<lambda>k. io_snd (kv_delete st k)), kv_bucket_name = kv_bucket_name st\<rparr>"

lemma io_fst_iff: "io_fst f w = (r, w') \<longleftrightarrow> f (fst w) = (r, fst w') \<and> snd w' = snd w"
  by (cases w') (auto simp: io_fst_def split: prod.splits)

lemma io_snd_iff: "io_snd f w = (r, w') \<longleftrightarrow> f (snd w) = (r, snd w') \<and> fst w' = fst w"
  by (cases w') (auto simp: io_snd_def split: prod.splits)

lemma reliable_fst:
  assumes "reliable_kv st winv kv"
  shows "reliable_kv (store_fst st) (\<lambda>w. winv (fst w) \<and> Q (snd w)) (\<lambda>w. kv (fst w))"
proof -
  have con: "kv_contract st winv kv" using assms by (simp add: reliable_kv_def)
  then have rd: "kv_reading st winv kv" by (simp add: kv_contract_def)
  show ?thesis
  proof
    fix w w' k d p s
    assume w: "winv (fst w) \<and> Q (snd w)"
    show "kv_get (store_fst st) k w = (r, w') \<Longrightarrow> (winv (fst w') \<and> Q (snd w')) \<and> kv (fst w') = kv (fst w) \<and>
        (\<forall>v. r = Inr v \<longrightarrow> v = kv (fst w) k)" for r
      using kv_reading.get [OF rd, of "fst w" k r "fst w'"] w by (auto simp: store_fst_def io_fst_iff)
    show "kv_exists (store_fst st) k w = (r, w') \<Longrightarrow> (winv (fst w') \<and> Q (snd w')) \<and> kv (fst w') = kv (fst w) \<and>
        (\<forall>b. r = Inr b \<longrightarrow> b = (kv (fst w) k \<noteq> None))" for r
      using kv_reading.exists [OF rd, of "fst w" k r "fst w'"] w by (auto simp: store_fst_def io_fst_iff)
    show "kv_put (store_fst st) k d p w = (r, w') \<Longrightarrow> (winv (fst w') \<and> Q (snd w')) \<and>
        put_effect k d p r (kv (fst w)) (kv (fst w'))" for r
      using kv_contract.put [OF con, of "fst w" k d p r "fst w'"] w by (auto simp: store_fst_def io_fst_iff)
    show "kv_scan_prefix (store_fst st) s w = (r, w') \<Longrightarrow> (winv (fst w') \<and> Q (snd w')) \<and>
        kv (fst w') = kv (fst w) \<and> (\<forall>ks. r = Inr ks \<longrightarrow> set ks = {k \<in> dom (kv (fst w)). prefix s k})" for r
      using kv_contract.scan [OF con, of "fst w" s r "fst w'"] w by (auto simp: store_fst_def io_fst_iff)
    show "kv_delete (store_fst st) k w = (r, w') \<Longrightarrow> (winv (fst w') \<and> Q (snd w')) \<and>
        (\<forall>k'. k' \<noteq> k \<longrightarrow> kv (fst w') k' = kv (fst w) k') \<and> (\<forall>u. r = Inr u \<longrightarrow> kv (fst w') k = None)" for r
      using kv_contract.del [OF con, of "fst w" k r "fst w'"] w by (auto simp: store_fst_def io_fst_iff)
    show "\<exists>v w'. kv_get (store_fst st) k w = (Inr v, w')"
      using reliable_kv.get_ok [OF assms, of "fst w" k] w by (auto simp: store_fst_def io_fst_def)
    show "\<exists>u w'. kv_put (store_fst st) k d p w = (Inr u, w')"
      using reliable_kv.put_ok [OF assms, of "fst w" k d p] w by (auto simp: store_fst_def io_fst_def)
  qed
qed

end
