(* ===== verification/Rlp_Scanner.thy ===== *)
theory Rlp_Scanner
  imports Archive_Prelude
begin

text \<open>
  The RLP offset scanner (\<open>rlp_offset_scanner.rs\<close>): byte ranges of the transactions,
  receipts and traces of a block inside its RLP encodings.  The scanner is compared with a
  reference encoding of RLP items (\<open>rlp_encode\<close>), so that on every well-formed encoding
  the ranges are those of the items.  The loops may spin forever on a crafted length, so
  they are partial functions.
\<close>

section \<open>The scanner\<close>

record rlp_scanner =
  scan_data :: bytes
  scan_position :: u64

definition RlpScanner_new :: "bytes \<Rightarrow> rlp_scanner" where
  "RlpScanner_new data = \<lparr>scan_data = data, scan_position = 0\<rparr>"

definition uint_step :: "u64 \<Rightarrow> u8 \<Rightarrow> u64 eyre" where
  "uint_step result byte =
     res_bind (ok_or (checked_mul result 256) (Report [''uint overflow''])) (\<lambda>r.
       ok_or (checked_add r (ucast byte)) (Report [''uint overflow'']))"

definition decode_uint :: "bytes \<Rightarrow> u64 eyre" where
  "decode_uint bs =
     (if bs = [] then eyre_err ''empty bytes for uint''
      else if hd bs = 0 \<and> length bs > 1 then eyre_err ''leading zero in uint''
      else fold_res uint_step 0 bs)"

definition decode_length :: "rlp_scanner \<Rightarrow> (u64 \<times> u64) eyre" where
  "decode_length s =
     (if unat (scan_position s) > length (scan_data s) then crash ''range start index out of range''
      else case drop (unat (scan_position s)) (scan_data s) of
        [] \<Rightarrow> eyre_err ''unexpected end of input''
      | first_byte # rest \<Rightarrow>
          if first_byte \<le> 0x7f then Inr (1, 1)
          else if first_byte \<le> 0xb7 then
            let len = ucast (first_byte - 0x80) in Inr (len, len + 1)
          else if first_byte \<le> 0xbf then
            let length_of_length = ucast (first_byte - 0xb7) :: u64 in
            if 1 + length rest < 1 + unat length_of_length then
              eyre_err ''input too short for string length''
            else res_bind (decode_uint (take (unat length_of_length) rest)) (\<lambda>len.
              Inr (len, 1 + length_of_length + len))
          else if first_byte \<le> 0xf7 then
            let len = ucast (first_byte - 0xc0) in Inr (len, len + 1)
          else
            let length_of_length = ucast (first_byte - 0xf7) :: u64 in
            if 1 + length rest < 1 + unat length_of_length then
              eyre_err ''input too short for list length''
            else res_bind (decode_uint (take (unat length_of_length) rest)) (\<lambda>len.
              Inr (len, 1 + length_of_length + len)))"

section \<open>Ranges of list items\<close>

record range_rlp =
  rr_start :: u64
  rr_end :: u64

partial_function (option) scan_items ::
  "bytes \<Rightarrow> u64 \<Rightarrow> u64 \<Rightarrow> (u64 \<times> u64) list \<Rightarrow> (u64 \<times> u64) list eyre option" where
  "scan_items data items_end pos ranges =
     (if pos < items_end then
        (case decode_length \<lparr>scan_data = data, scan_position = pos\<rparr> of
           Inl e \<Rightarrow> Some (Inl e)
         | Inr (_, item_len) \<Rightarrow>
             scan_items data items_end (pos + item_len) (ranges @ [(pos, pos + item_len)]))
      else Some (Inr ranges))"

text \<open>Sequencing of results that may not come: \<open>None\<close> is a loop that never ends.\<close>

definition opt_bind :: "'a eyre option \<Rightarrow> ('a \<Rightarrow> 'b eyre option) \<Rightarrow> 'b eyre option" where
  "opt_bind m k = (case m of None \<Rightarrow> None | Some (Inl e) \<Rightarrow> Some (Inl e) | Some (Inr a) \<Rightarrow> k a)"

lemma opt_bind_simps [simp, res_simps]:
  "opt_bind None k = None"
  "opt_bind (Some (Inl e)) k = Some (Inl e)"
  "opt_bind (Some (Inr a)) k = k a"
  by (simp_all add: opt_bind_def)

definition get_transaction_ranges :: "bytes \<Rightarrow> (u64 \<times> u64) list eyre option" where
  "get_transaction_ranges block_rlp =
     opt_bind (Some (decode_length (RlpScanner_new block_rlp))) (\<lambda>(block_content_len, block_prefix_len).
     let p1 = block_prefix_len - block_content_len in
     opt_bind (Some (decode_length \<lparr>scan_data = block_rlp, scan_position = p1\<rparr>)) (\<lambda>(_, header_len).
     let p2 = p1 + header_len in
     opt_bind (Some (decode_length \<lparr>scan_data = block_rlp, scan_position = p2\<rparr>))
       (\<lambda>(txs_content_len, txs_prefix_len).
     let txs_start = p2 + (txs_prefix_len - txs_content_len) in
     scan_items block_rlp (txs_start + txs_content_len) txs_start [])))"

definition get_rlp_list_ranges :: "bytes \<Rightarrow> range_rlp list eyre option" where
  "get_rlp_list_ranges data =
     opt_bind (Some (decode_length (RlpScanner_new data))) (\<lambda>(content_len, prefix_len).
     let items_start = prefix_len - content_len in
     opt_bind (scan_items data (items_start + content_len) items_start []) (\<lambda>ranges.
     Some (Inr (map (\<lambda>(s, e). \<lparr>rr_start = s, rr_end = e\<rparr>) ranges))))"

record tx_byte_offsets =
  off_tx :: range_rlp
  off_receipt :: range_rlp
  off_trace :: range_rlp

definition get_all_tx_offsets :: "bytes \<Rightarrow> bytes \<Rightarrow> bytes \<Rightarrow> tx_byte_offsets list eyre option" where
  "get_all_tx_offsets block_rlp receipts_rlp traces_rlp =
     opt_bind (Some (decode_length (RlpScanner_new block_rlp))) (\<lambda>(block_content_len, block_prefix_len).
     let p1 = block_prefix_len - block_content_len in
     opt_bind (Some (decode_length \<lparr>scan_data = block_rlp, scan_position = p1\<rparr>)) (\<lambda>(_, header_len).
     let txs_start = p1 + header_len in
     opt_bind (Some (decode_length \<lparr>scan_data = block_rlp, scan_position = txs_start\<rparr>)) (\<lambda>(_, txs_prefix_len).
     let txs_end = txs_start + txs_prefix_len in
     opt_bind (Some (slice (unat txs_start) (unat txs_end) block_rlp)) (\<lambda>txs_rlp.
     opt_bind (get_rlp_list_ranges txs_rlp) (\<lambda>tx_ranges0.
     opt_bind (get_rlp_list_ranges receipts_rlp) (\<lambda>receipt_ranges.
     opt_bind (get_rlp_list_ranges traces_rlp) (\<lambda>trace_ranges.
     let tx_ranges = map (\<lambda>r. \<lparr>rr_start = rr_start r + txs_start, rr_end = rr_end r + txs_start\<rparr>)
                         tx_ranges0 in
     Some (if length tx_ranges \<noteq> length receipt_ranges \<or> length tx_ranges \<noteq> length trace_ranges
           then eyre_err ''Mismatched counts''
           else Inr (map (\<lambda>((tx, receipt), trace). \<lparr>off_tx = tx, off_receipt = receipt, off_trace = trace\<rparr>)
                         (zip (zip tx_ranges receipt_ranges) trace_ranges))))))))))"

section \<open>Reference encoding\<close>

text \<open>RLP items and their encoding, as the format defines it.\<close>

datatype rlp = RStr bytes | RList "rlp list"

fun be_min :: "nat \<Rightarrow> bytes" where
  "be_min n = (if n = 0 then [] else be_min (n div 256) @ [of_nat n])"

declare be_min.simps [simp del]

definition rlp_prefix :: "u8 \<Rightarrow> nat \<Rightarrow> bytes" where
  "rlp_prefix base n =
     (if n < 56 then [base + of_nat n] else (base + 55 + of_nat (length (be_min n))) # be_min n)"

fun rlp_payload :: "rlp \<Rightarrow> bytes" and rlp_encode :: "rlp \<Rightarrow> bytes" where
  "rlp_payload (RStr bs) = bs"
| "rlp_payload (RList xs) = concat (map rlp_encode xs)"
| "rlp_encode (RStr bs) =
     (if length bs = 1 \<and> hd bs < 0x80 then bs else rlp_prefix 0x80 (length bs) @ bs)"
| "rlp_encode (RList xs) =
     rlp_prefix 0xc0 (length (concat (map rlp_encode xs))) @ concat (map rlp_encode xs)"

lemma from_be_be_min [codec_simps]: "from_be (be_min n) = n"
proof (induction n rule: be_min.induct)
  case (1 n)
  have "unat (of_nat n :: u8) = n mod 256" by (simp add: unat_of_nat)
  with 1 show ?case by (simp add: be_min.simps [of n])
qed

lemma be_min_Nil_iff [simp]: "be_min n = [] \<longleftrightarrow> n = 0"
  by (simp add: be_min.simps [of n])

lemma be_min_hd: "0 < n \<Longrightarrow> hd (be_min n) \<noteq> 0"
proof (induction n rule: be_min.induct)
  case (1 n)
  show ?case
  proof (cases "n < 256")
    case True
    then have "unat (of_nat n :: u8) = n" by (simp add: unat_of_nat)
    with True 1 show ?thesis by (auto simp: be_min.simps [of n] be_min.simps [of 0])
  next
    case False
    with 1 have "hd (be_min (n div 256)) \<noteq> 0" "be_min (n div 256) \<noteq> []" by auto
    with False show ?thesis by (simp add: be_min.simps [of n])
  qed
qed

lemma length_be_min: "n < 256 ^ k \<Longrightarrow> length (be_min n) \<le> k"
proof (induction k arbitrary: n)
  case (Suc k)
  then have "n div 256 < 256 ^ k" by (simp add: less_mult_imp_div_less)
  with Suc.IH have "length (be_min (n div 256)) \<le> k" by blast
  then show ?case by (simp add: be_min.simps [of n])
qed (simp add: be_min.simps)

lemma fold_uint_step:
  "from_be bs < 2 ^ 64 \<Longrightarrow> fold_res uint_step 0 bs = Inr (of_nat (from_be bs))"
proof (induction bs rule: rev_induct)
  case (snoc b bs)
  then have le: "from_be bs * 256 + unat b < 2 ^ 64" by simp
  then have "from_be bs < 2 ^ 64" by simp
  moreover from this have "unat (of_nat (from_be bs) :: u64) = from_be bs"
    by (simp add: unat_of_nat_small)
  moreover have "unat (of_nat (from_be bs) * 256 :: u64) = from_be bs * 256"
    using le calculation by (simp add: unat_word_ariths)
  moreover have "(of_nat (unat b) :: u64) = ucast b"
    by simp
  ultimately show ?case
    using snoc.IH le by (simp add: fold_res_append uint_step_def checked_mul_def checked_add_def)
qed simp

lemma decode_uint_be_min:
  "0 < n \<Longrightarrow> n < 2 ^ 64 \<Longrightarrow> decode_uint (be_min n) = Inr (of_nat n)"
  by (simp add: decode_uint_def be_min_hd fold_uint_step from_be_be_min)

section \<open>One item at a position\<close>

text \<open>What \<open>decode_length\<close> reports of an item: its content length and its whole length.\<close>

definition item_lengths :: "rlp \<Rightarrow> u64 \<times> u64" where
  "item_lengths r = (of_nat (length (rlp_payload r)), of_nat (length (rlp_encode r)))"

lemma unat_add_u8: "unat (a :: u8) + n < 256 \<Longrightarrow> unat (a + of_nat n) = unat a + n"
  by (rule unat_add_nat) simp

lemma ucast_u8_of_nat: "n < 256 \<Longrightarrow> (ucast (of_nat n :: u8) :: u64) = of_nat n"
  by (simp add: word_unat_eq_iff unat_of_nat)

lemma decode_short:
  assumes "base = 0x80 \<or> base = 0xc0" "n < 56" "drop (unat p) d = (base + of_nat n) # rest"
  shows "decode_length \<lparr>scan_data = d, scan_position = p\<rparr> = Inr (of_nat n, of_nat n + 1)"
proof -
  have u: "unat (base + of_nat n) = unat base + n" using assms(1,2) by (auto simp: unat_add_u8)
  have le: "\<not> length d < unat p" using assms(3) by (metis drop_all less_imp_le list.distinct(1))
  have "base + of_nat n - base = of_nat n" by simp
  moreover have "(ucast (of_nat n :: u8) :: u64) = of_nat n"
    using assms(2) by (simp add: ucast_u8_of_nat)
  ultimately show ?thesis
    using assms u le by (auto simp: decode_length_def word_le_nat_alt Let_def)
qed

lemma decode_long:
  assumes "base = 0x80 \<or> base = 0xc0" "56 \<le> n" "n < 2 ^ 64"
    and "drop (unat p) d = (base + 55 + of_nat (length (be_min n))) # be_min n @ rest"
  shows "decode_length \<lparr>scan_data = d, scan_position = p\<rparr>
           = Inr (of_nat n, of_nat (1 + length (be_min n) + n))"
proof -
  let ?k = "length (be_min n)"
  have k: "?k \<le> 8" "0 < ?k" using assms(2,3) length_be_min [of n 8] by (auto simp: length_greater_0_conv [symmetric] simp del: length_greater_0_conv)
  have u: "unat (base + 55 + of_nat ?k) = unat base + 55 + ?k"
    using assms(1) k by (auto simp: unat_add_u8)
  have le: "\<not> length d < unat p" using assms(4) by (metis drop_all less_imp_le list.distinct(1))
  have "(ucast (of_nat ?k :: u8) :: u64) = of_nat ?k"
    using k by (simp add: ucast_u8_of_nat)
  moreover have "base + 55 + of_nat ?k - (base + 55) = of_nat ?k" by simp
  moreover have "unat (of_nat ?k :: u8) = ?k" "unat (of_nat ?k :: u64) = ?k"
    using k by (simp_all add: unat_of_nat)
  ultimately have "decode_length \<lparr>scan_data = d, scan_position = p\<rparr> =
      (let len = (of_nat ?k :: u64) in
       if 1 + length (be_min n @ rest) < 1 + ?k then
         eyre_err (if base = 0x80 then ''input too short for string length''
                   else ''input too short for list length'')
       else res_bind (decode_uint (take ?k (be_min n @ rest))) (\<lambda>m. Inr (m, 1 + len + m)))"
    using assms(1,4) u le k
    by (elim disjE) (simp_all add: decode_length_def word_le_nat_alt Let_def)
  then show ?thesis using assms(2,3) decode_uint_be_min [of n] by (simp add: Let_def)
qed

lemma rlp_encode_nonempty [simp]: "rlp_encode r \<noteq> []"
  by (cases r) (auto simp: rlp_prefix_def)

lemma decode_prefix:
  assumes "base = 0x80 \<or> base = 0xc0" "n < 2 ^ 64"
    and "drop (unat p) d = rlp_prefix base n @ rest"
  shows "decode_length \<lparr>scan_data = d, scan_position = p\<rparr>
           = Inr (of_nat n, of_nat (length (rlp_prefix base n) + n))"
  using assms decode_short [of base n p d rest] decode_long [of base n p d rest]
  by (cases "n < 56") (auto simp: rlp_prefix_def ac_simps)

lemma decode_item:
  assumes "drop (unat p) d = rlp_encode r @ rest" "length (rlp_encode r) < 2 ^ 64"
  shows "decode_length \<lparr>scan_data = d, scan_position = p\<rparr> = Inr (item_lengths r)"
proof (cases r)
  case (RStr bs)
  show ?thesis
  proof (cases "length bs = 1 \<and> hd bs < 0x80")
    case True
    then obtain b where b: "bs = [b]" "b < 0x80" by (cases bs) auto
    then have "b \<le> 0x7f" by (simp add: word_le_nat_alt word_less_nat_alt)
    moreover have "\<not> length d < unat p"
      using assms(1) by (metis Nil_is_append_conv drop_all less_imp_le rlp_encode_nonempty)
    ultimately show ?thesis
      using assms(1) b RStr by (simp add: decode_length_def item_lengths_def)
  next
    case False
    then have e: "rlp_encode r = rlp_prefix 0x80 (length bs) @ bs" using RStr by auto
    then show ?thesis
      using assms RStr decode_prefix [of "0x80" "length bs" p d "bs @ rest"]
      by (simp add: item_lengths_def del: rlp_encode.simps)
  qed
next
  case (RList xs)
  let ?b = "concat (map rlp_encode xs)"
  show ?thesis
    using assms RList decode_prefix [of "0xc0" "length ?b" p d "?b @ rest"]
    by (simp add: item_lengths_def)
qed

section \<open>Ranges of a well-formed list\<close>

lemma drop_length_append: "drop (length xs) (xs @ ys) = ys"
  by simp

fun ranges_from :: "u64 \<Rightarrow> rlp list \<Rightarrow> (u64 \<times> u64) list" where
  "ranges_from p [] = []"
| "ranges_from p (r # rs) =
     (let q = p + of_nat (length (rlp_encode r)) in (p, q) # ranges_from q rs)"

abbreviation rlp_encode_all :: "rlp list \<Rightarrow> bytes" where
  "rlp_encode_all xs \<equiv> concat (map rlp_encode xs)"

lemma scan_items_ranges:
  assumes "drop (unat pos) data = rlp_encode_all xs @ rest"
    and "unat pos + length (rlp_encode_all xs) < 2 ^ 64"
    and "items_end = pos + of_nat (length (rlp_encode_all xs))"
  shows "scan_items data items_end pos acc = Some (Inr (acc @ ranges_from pos xs))"
  using assms
proof (induction xs arbitrary: pos acc)
  case Nil
  then show ?case by (simp add: scan_items.simps [of data])
next
  case (Cons r rs)
  let ?n = "length (rlp_encode r)"
  let ?q = "pos + of_nat ?n"
  have q: "unat ?q = unat pos + ?n" using Cons.prems(2) by (intro unat_add_nat) simp
  have e: "unat items_end = unat pos + length (rlp_encode_all (r # rs))"
    using Cons.prems(2,3) unat_add_nat [of pos "length (rlp_encode_all (r # rs))"] by simp
  have lt: "pos < items_end" using e by (simp add: word_less_nat_alt)
  have d: "decode_length \<lparr>scan_data = data, scan_position = pos\<rparr> = Inr (item_lengths r)"
    by (rule decode_item [of _ _ _ "rlp_encode_all rs @ rest"])
       (use Cons.prems(1,2) in simp_all)
  have "scan_items data items_end ?q (acc @ [(pos, ?q)]) =
      Some (Inr ((acc @ [(pos, ?q)]) @ ranges_from ?q rs))"
  proof (rule Cons.IH)
    have "drop (unat ?q) data = drop ?n (drop (unat pos) data)"
      using q by (simp add: add.commute)
    then show "drop (unat ?q) data = rlp_encode_all rs @ rest" using Cons.prems(1) by simp
  qed (use q Cons.prems(2,3) in \<open>simp_all add: ac_simps\<close>)
  with lt d show ?case
    by (simp add: scan_items.simps [of data items_end pos] item_lengths_def Let_def)
qed

text \<open>A range delimits the encoding of its item.\<close>

definition delimits :: "bytes \<Rightarrow> range_rlp \<Rightarrow> rlp \<Rightarrow> bool" where
  "delimits data r x \<longleftrightarrow> slice (unat (rr_start r)) (unat (rr_end r)) data = Inr (rlp_encode x)"

definition to_range :: "u64 \<times> u64 \<Rightarrow> range_rlp" where
  "to_range p = (case p of (s, e) \<Rightarrow> \<lparr>rr_start = s, rr_end = e\<rparr>)"

lemma length_ranges_from [simp]: "length (ranges_from p xs) = length xs"
  by (induction xs arbitrary: p) (simp_all add: Let_def)

lemma ranges_delimit:
  assumes "drop (unat p) data = rlp_encode_all xs @ rest" "unat p \<le> length data"
    and "unat p + length (rlp_encode_all xs) < 2 ^ 64"
  shows "list_all2 (delimits data) (map to_range (ranges_from p xs)) xs"
  using assms
proof (induction xs arbitrary: p)
  case (Cons r rs)
  let ?n = "length (rlp_encode r)"
  let ?q = "p + of_nat ?n"
  have q: "unat ?q = unat p + ?n" using Cons.prems(3) by (intro unat_add_nat) simp
  have len: "length data = unat p + ?n + length (rlp_encode_all rs @ rest)"
    using arg_cong [OF Cons.prems(1), of length] Cons.prems(2) by simp
  have 1: "delimits data (to_range (p, ?q)) r"
    using Cons.prems(1) q len by (simp add: delimits_def to_range_def slice_def)
  have "drop (unat ?q) data = drop ?n (drop (unat p) data)" using q by (simp add: add.commute)
  then have "list_all2 (delimits data) (map to_range (ranges_from ?q rs)) rs"
    by (intro Cons.IH) (use Cons.prems q len in simp_all)
  with 1 show ?case by (simp add: Let_def)
qed simp

lemma list_payload_drop:
  assumes "unat p = length pre" "data = pre @ rlp_encode (RList xs) @ rest"
  shows "drop (unat p + length (rlp_prefix 0xc0 (length (rlp_encode_all xs)))) data
           = rlp_encode_all xs @ rest"
  using assms by simp

lemma get_rlp_list_ranges_encode:
  assumes "length (rlp_encode (RList xs)) < 2 ^ 64"
  defines "start \<equiv> of_nat (length (rlp_prefix 0xc0 (length (rlp_encode_all xs))))"
  shows "get_rlp_list_ranges (rlp_encode (RList xs) @ rest)
           = Some (Inr (map to_range (ranges_from start xs)))"
    and "list_all2 (delimits (rlp_encode (RList xs) @ rest)) (map to_range (ranges_from start xs)) xs"
proof -
  let ?pre = "rlp_prefix 0xc0 (length (rlp_encode_all xs))"
  have u: "unat start = length ?pre" using assms(1) by (simp add: start_def unat_of_nat)
  have d: "drop (unat start) (rlp_encode (RList xs) @ rest) = rlp_encode_all xs @ rest"
    using u by simp
  have "decode_length (RlpScanner_new (rlp_encode (RList xs) @ rest)) = Inr (item_lengths (RList xs))"
    unfolding RlpScanner_new_def by (rule decode_item) (use assms(1) in simp_all)
  then show "get_rlp_list_ranges (rlp_encode (RList xs) @ rest)
      = Some (Inr (map to_range (ranges_from start xs)))"
    using scan_items_ranges [OF d] u assms(1)
    by (simp add: get_rlp_list_ranges_def item_lengths_def Let_def start_def to_range_def [abs_def]
        case_prod_unfold)
  show "list_all2 (delimits (rlp_encode (RList xs) @ rest)) (map to_range (ranges_from start xs)) xs"
    by (rule ranges_delimit [OF d]) (use u assms(1) in simp_all)
qed

section \<open>Offsets of a block\<close>

definition shift_range :: "u64 \<Rightarrow> range_rlp \<Rightarrow> range_rlp" where
  "shift_range k r = \<lparr>rr_start = rr_start r + k, rr_end = rr_end r + k\<rparr>"

lemma delimits_shift:
  assumes "delimits mid r x" "unat k = length pre" "length (pre @ mid @ post) < 2 ^ 64"
  shows "delimits (pre @ mid @ post) (shift_range k r) x"
proof -
  have b: "unat (rr_start r) \<le> unat (rr_end r)" "unat (rr_end r) \<le> length mid"
    using assms(1) by (auto simp: delimits_def slice_def split: if_splits)
  then have "unat (rr_start r + k) = unat (rr_start r) + length pre"
    "unat (rr_end r + k) = unat (rr_end r) + length pre"
    using assms(2,3) by (simp_all add: unat_add_small)
  with b assms(1) show ?thesis by (auto simp: delimits_def shift_range_def slice_def)
qed

text \<open>Where the parts of an encoded block lie: prefix, header, transaction list, the rest.\<close>

lemma block_layout:
  assumes "length (rlp_encode (RList (header # RList txs # others))) < 2 ^ 64"
  defines "pre \<equiv> rlp_prefix 0xc0 (length (rlp_encode_all (header # RList txs # others)))"
    and "block \<equiv> rlp_encode (RList (header # RList txs # others))"
  shows "block = (pre @ rlp_encode header) @ rlp_encode (RList txs) @ rlp_encode_all others"
    and "decode_length (RlpScanner_new block)
           = Inr (of_nat (length block - length pre), of_nat (length block))"
    and "of_nat (length block) - of_nat (length block - length pre) = (of_nat (length pre) :: u64)"
    and "decode_length \<lparr>scan_data = block, scan_position = of_nat (length pre)\<rparr>
           = Inr (item_lengths header)"
    and "decode_length \<lparr>scan_data = block,
             scan_position = of_nat (length pre) + of_nat (length (rlp_encode header))\<rparr>
           = Inr (item_lengths (RList txs))"
    and "unat (of_nat (length pre) + of_nat (length (rlp_encode header)) :: u64)
           = length (pre @ rlp_encode header)"
proof -
  show b: "block = (pre @ rlp_encode header) @ rlp_encode (RList txs) @ rlp_encode_all others"
    by (simp add: block_def pre_def)
  have len: "length pre + length (rlp_encode header) + length (rlp_encode (RList txs)) +
      length (rlp_encode_all others) < 2 ^ 64" using assms(1) b by (simp add: block_def)
  show "decode_length (RlpScanner_new block)
      = Inr (of_nat (length block - length pre), of_nat (length block))"
    unfolding RlpScanner_new_def
    using decode_item [of 0 block "RList (header # RList txs # others)" "[]"] assms(1)
    by (simp add: item_lengths_def block_def pre_def)
  show "of_nat (length block) - of_nat (length block - length pre) = (of_nat (length pre) :: u64)"
    using b by (simp add: of_nat_diff)
  have u1: "unat (of_nat (length pre) :: u64) = length pre" using len by (simp add: unat_of_nat)
  show "decode_length \<lparr>scan_data = block, scan_position = of_nat (length pre)\<rparr>
      = Inr (item_lengths header)"
    by (rule decode_item [of _ _ _ "rlp_encode (RList txs) @ rlp_encode_all others"])
       (use b u1 len in simp_all)
  show u2: "unat (of_nat (length pre) + of_nat (length (rlp_encode header)) :: u64)
      = length (pre @ rlp_encode header)"
    using unat_add_nat [of "of_nat (length pre) :: u64" "length (rlp_encode header)"] u1 len by simp
  show "decode_length \<lparr>scan_data = block,
      scan_position = of_nat (length pre) + of_nat (length (rlp_encode header))\<rparr>
      = Inr (item_lengths (RList txs))"
    by (rule decode_item [of _ _ _ "rlp_encode_all others"])
       (use b u2 len in \<open>simp_all del: rlp_encode.simps\<close>)
qed

text \<open>
  C10: Offsets of a block are the byte ranges of its transactions, receipts and traces.  On
  RLP encodings of a block (a list whose second item is the list of transactions), of a list
  of receipts and of a list of traces, with equally many of each, the scanner returns one
  entry per transaction, and each of its three ranges delimits, in its encoding, exactly the
  encoding of the transaction, of its receipt and of its trace.
\<close>

theorem get_all_tx_offsets_correct:
  assumes "block = rlp_encode (RList (header # RList txs # others))" "length block < 2 ^ 64"
    and "receipts = rlp_encode (RList rs)" "length receipts < 2 ^ 64"
    and "traces = rlp_encode (RList ts)" "length traces < 2 ^ 64"
    and "length rs = length txs" "length ts = length txs"
  shows "\<exists>offs. get_all_tx_offsets block receipts traces = Some (Inr offs) \<and>
    list_all2 (\<lambda>r x. delimits block (off_tx r) x) offs txs \<and>
    list_all2 (\<lambda>r x. delimits receipts (off_receipt r) x) offs rs \<and>
    list_all2 (\<lambda>r x. delimits traces (off_trace r) x) offs ts"
proof -
  let ?pre = "rlp_prefix 0xc0 (length (rlp_encode_all (header # RList txs # others)))"
  let ?p = "?pre @ rlp_encode header" and ?T = "rlp_encode (RList txs)"
  let ?k = "of_nat (length ?pre) + of_nat (length (rlp_encode header)) :: u64"
  note L = block_layout [OF assms(2) [unfolded assms(1)], folded assms(1)]
  have lenT: "length ?T < 2 ^ 64" using assms(2) L(1) by simp
  obtain rt where rt: "get_rlp_list_ranges ?T = Some (Inr rt)" "list_all2 (delimits ?T) rt txs"
    using get_rlp_list_ranges_encode [OF lenT, of "[]"] by (auto simp del: rlp_encode.simps)
  obtain rr where rr: "get_rlp_list_ranges receipts = Some (Inr rr)" "list_all2 (delimits receipts) rr rs"
    using get_rlp_list_ranges_encode [of rs "[]"] assms(3,4) by (auto simp del: rlp_encode.simps)
  obtain rc where rc: "get_rlp_list_ranges traces = Some (Inr rc)" "list_all2 (delimits traces) rc ts"
    using get_rlp_list_ranges_encode [of ts "[]"] assms(5,6) by (auto simp del: rlp_encode.simps)
  have shifted: "list_all2 (delimits block) (map (shift_range ?k) rt) txs"
    unfolding list_all2_map1 L(1)
    by (rule list_all2_mono [OF rt(2)])
       (rule delimits_shift, use L(1,6) assms(2) in \<open>simp_all del: rlp_encode.simps\<close>)
  have lens: "length rt = length txs" "length rr = length txs" "length rc = length txs"
    using rt(2) rr(2) rc(2) assms(7,8) by (auto dest: list_all2_lengthD)
  have e: "unat (?k + of_nat (length ?T)) = length ?p + length ?T"
    using unat_add_nat [of ?k "length ?T"] L(1,6) assms(2) by simp
  have sl: "slice (length ?p) (length ?p + length ?T) block = Inr ?T"
    unfolding L(1) by (rule slice_append)
  let ?offs = "map (\<lambda>((tx, receipt), trace). \<lparr>off_tx = tx, off_receipt = receipt, off_trace = trace\<rparr>)
      (zip (zip (map (shift_range ?k) rt) rr) rc)"
  have "get_all_tx_offsets block receipts traces = Some (Inr ?offs)"
    unfolding get_all_tx_offsets_def Let_def
    using L(2-6) sl e rt(1) rr(1) rc(1) lens
    by (simp add: item_lengths_def shift_range_def [abs_def] del: rlp_encode.simps)
  then show ?thesis
    using shifted rr(2) rc(2) lens by (auto simp: list_all2_conv_all_nth)
qed

lemma get_all_tx_offsets_witness:
  "\<exists>offs. get_all_tx_offsets (rlp_encode (RList [RStr [1, 2], RList [RStr [3], RStr [4, 5]], RList []]))
      (rlp_encode (RList [RList [], RStr [9]])) (rlp_encode (RList [RStr [7, 7], RStr []]))
      = Some (Inr offs) \<and>
    list_all2 (\<lambda>r x. delimits (rlp_encode (RList [RStr [1, 2], RList [RStr [3], RStr [4, 5]], RList []]))
      (off_tx r) x) offs [RStr [3], RStr [4, 5]]"
proof -
  have "length (rlp_encode (RList [RStr [1, 2], RList [RStr [3], RStr [4, 5]], RList []])) < 2 ^ 64"
    "length (rlp_encode (RList [RList [], RStr [9]])) < 2 ^ 64"
    "length (rlp_encode (RList [RStr [7, 7], RStr []])) < 2 ^ 64"
    by (simp_all add: rlp_prefix_def)
  then show ?thesis
    using get_all_tx_offsets_correct [OF refl _ refl _ refl _ , of "RStr [1, 2]"
        "[RStr [3], RStr [4, 5]]" "[RList []]" "[RList [], RStr [9]]" "[RStr [7, 7], RStr []]"]
    by (auto simp del: rlp_encode.simps)
qed

text \<open>
  Receipts or traces in another number than the transactions are refused, on the same
  well-formed encodings, with an error and never with a list of offsets.
\<close>

theorem get_all_tx_offsets_mismatch:
  assumes "block = rlp_encode (RList (header # RList txs # others))" "length block < 2 ^ 64"
    and "receipts = rlp_encode (RList rs)" "length receipts < 2 ^ 64"
    and "traces = rlp_encode (RList ts)" "length traces < 2 ^ 64"
    and "length rs \<noteq> length txs \<or> length ts \<noteq> length txs"
  shows "get_all_tx_offsets block receipts traces = Some (eyre_err ''Mismatched counts'')"
proof -
  let ?pre = "rlp_prefix 0xc0 (length (rlp_encode_all (header # RList txs # others)))"
  let ?p = "?pre @ rlp_encode header" and ?T = "rlp_encode (RList txs)"
  let ?k = "of_nat (length ?pre) + of_nat (length (rlp_encode header)) :: u64"
  note L = block_layout [OF assms(2) [unfolded assms(1)], folded assms(1)]
  have lenT: "length ?T < 2 ^ 64" using assms(2) L(1) by simp
  have e: "unat (?k + of_nat (length ?T)) = length ?p + length ?T"
    using unat_add_nat [of ?k "length ?T"] L(1,6) assms(2) by simp
  have sl: "slice (length ?p) (length ?p + length ?T) block = Inr ?T"
    unfolding L(1) by (rule slice_append)
  note R = get_rlp_list_ranges_encode(1) [where rest = "[]", unfolded append_Nil2]
  show ?thesis
    unfolding get_all_tx_offsets_def Let_def
    using L(2-6) sl e R [OF lenT] R [of rs] R [of ts] assms(3-7)
    by (auto simp: item_lengths_def simp del: rlp_encode.simps)
qed

lemma get_all_tx_offsets_mismatch_witness:
  "get_all_tx_offsets (rlp_encode (RList [RStr [1, 2], RList [RStr [3], RStr [4, 5]], RList []]))
     (rlp_encode (RList [RStr [9]])) (rlp_encode (RList [RStr [7, 7], RStr []]))
     = Some (eyre_err ''Mismatched counts'')"
proof -
  have "length (rlp_encode (RList [RStr [1, 2], RList [RStr [3], RStr [4, 5]], RList []])) < 2 ^ 64"
    "length (rlp_encode (RList [RStr [9]])) < 2 ^ 64"
    "length (rlp_encode (RList [RStr [7, 7], RStr []])) < 2 ^ 64"
    by (simp_all add: rlp_prefix_def)
  then show ?thesis
    by (rule get_all_tx_offsets_mismatch [OF refl _ refl _ refl]) simp
qed

text \<open>The ranges of the transactions alone, in an encoded block.\<close>

lemma get_transaction_ranges_encode:
  assumes "block = rlp_encode (RList (header # RList txs # others))" "length block < 2 ^ 64"
  shows "\<exists>ranges. get_transaction_ranges block = Some (Inr ranges) \<and>
    list_all2 (\<lambda>r x. delimits block (to_range r) x) ranges txs"
proof -
  let ?pre = "rlp_prefix 0xc0 (length (rlp_encode_all (header # RList txs # others)))"
  let ?p = "?pre @ rlp_encode header" and ?T = "rlp_encode (RList txs)"
  let ?q = "rlp_prefix 0xc0 (length (rlp_encode_all txs))"
  let ?k = "of_nat (length ?pre) + of_nat (length (rlp_encode header)) :: u64"
  let ?s = "?k + of_nat (length ?q)"
  note L = block_layout [OF assms(2) [unfolded assms(1)], folded assms(1)]
  have b: "block = (?p @ ?q) @ rlp_encode_all txs @ rlp_encode_all others" using L(1) by simp
  have us: "unat ?s = length (?p @ ?q)"
    using unat_add_nat [of ?k "length ?q"] L(6) assms(2) b by simp
  have d: "drop (unat ?s) block = rlp_encode_all txs @ rlp_encode_all others"
    unfolding us b by (rule drop_length_append)
  have bound: "unat ?s + length (rlp_encode_all txs) < 2 ^ 64" "unat ?s \<le> length block"
    using us b assms(2) by simp_all
  obtain bc bt where 1: "decode_length (RlpScanner_new block) = Inr (bc, bt)"
    "bt - bc = of_nat (length ?pre)" using L(2,3) by blast
  obtain hc where 2: "item_lengths header = (hc, of_nat (length (rlp_encode header)))"
    by (simp add: item_lengths_def)
  obtain tc tt where 3: "item_lengths (RList txs) = (tc, tt)" "tt - tc = of_nat (length ?q)"
    "tc = of_nat (length (rlp_encode_all txs))" by (simp add: item_lengths_def)
  have "get_transaction_ranges block = Some (Inr (ranges_from ?s txs))"
    unfolding get_transaction_ranges_def Let_def opt_bind_simps 1 prod.case L(4,5) 2 3(1,2)
    unfolding 3(3) using scan_items_ranges [OF d bound(1) refl, of "[]"] by (simp only: append_Nil)
  then show ?thesis using ranges_delimit [OF d bound(2,1)] by (auto simp: list_all2_map1)
qed

section \<open>A length that wraps\<close>

lemma scan_items_stuck:
  assumes "scan_items data items_end pos acc = Some y"
  shows "\<not> (pos < items_end \<and> decode_length \<lparr>scan_data = data, scan_position = pos\<rparr> = Inr (c, 0))"
  by (rule scan_items.raw_induct [where
        P = "\<lambda>d e p a y. \<not> (p < e \<and> decode_length \<lparr>scan_data = d, scan_position = p\<rparr> = Inr (c, 0))",
        OF _ assms]) auto

text \<open>
  C29: A crafted length makes the scanner spin: the item header \<open>ff ff..ff f7\<close> announces
  \<open>2^64 - 9\<close> bytes of content, the whole length \<open>1 + 8 + (2^64 - 9)\<close> wraps to zero, and the
  scan of this ten-byte list never advances and never returns.
\<close>

theorem get_rlp_list_ranges_spins:
  "get_rlp_list_ranges [0xc9, 0xff, 0xff, 0xff, 0xff, 0xff, 0xff, 0xff, 0xff, 0xf7] = None"
proof -
  let ?d = "[0xc9, 0xff, 0xff, 0xff, 0xff, 0xff, 0xff, 0xff, 0xff, 0xf7] :: bytes"
  have 0: "decode_length (RlpScanner_new ?d) = Inr (9, 10)"
    by (simp add: decode_length_def RlpScanner_new_def Let_def)
  have 1: "decode_length \<lparr>scan_data = ?d, scan_position = 1\<rparr> = Inr (0xfffffffffffffff7, 0)"
    by (simp add: decode_length_def decode_uint_def uint_step_def checked_mul_def checked_add_def)
  have "scan_items ?d 10 1 [] = None"
    using scan_items_stuck [of ?d 10 1 "[]"] 1 by (cases "scan_items ?d 10 1 []") auto
  with 0 show ?thesis by (simp add: get_rlp_list_ranges_def)
qed

end
