(* ===== verification/Alloy_Data.thy ===== *)
theory Alloy_Data
  imports Archive_Prelude
begin

text \<open>
  Blocks, transactions and receipts as the archive handles them (\<open>monad_eth_types\<close> and the Alloy
  crates).  Their values and RLP codecs are not part of the repository: they are the fields of
  \<open>alloy\<close>, used through \<open>alloy_laws\<close>.  The last section gives an instance that satisfies the laws.
\<close>

section \<open>Blocks, receipts and their codecs\<close>

record 't tx_envelope_with_sender =
  tx_sender :: address
  tx_envelope :: 't

record ('h, 't, 'wd) alloy_block =
  blk_header :: 'h
  blk_transactions :: "'t list"
  blk_ommers :: "'h list"
  blk_withdrawals :: "'wd option"

type_synonym ('h, 't, 'wd) block = "('h, 't tx_envelope_with_sender, 'wd) alloy_block"

record 'r receipt_with_log_index =
  rcp_receipt :: 'r
  rcp_starting_log_index :: u64

type_synonym 'r block_receipts = "'r receipt_with_log_index list"
type_synonym block_traces = "bytes list"

record ('h, 't, 'r, 'wd) alloy =
  al_number :: "'h \<Rightarrow> u64"
  al_timestamp :: "'h \<Rightarrow> u64"
  al_base_fee_per_gas :: "'h \<Rightarrow> u64 option"
  al_hash_slow :: "'h \<Rightarrow> b256"
  al_tx_hash :: "'t \<Rightarrow> b256"
  al_recover_signer :: "'t \<Rightarrow> address eyre"
  al_logs_len :: "'r \<Rightarrow> nat"
  al_cumulative_gas_used :: "'r \<Rightarrow> u64"
  al_default_withdrawals :: 'wd
  al_hex :: "b256 \<Rightarrow> string"
  al_encode_raw :: "('h, 't, 'wd) alloy_block \<Rightarrow> bytes"
  al_decode_raw :: "bytes \<Rightarrow> ('h, 't, 'wd) alloy_block eyre"
  al_encode_block :: "('h, 't, 'wd) block \<Rightarrow> bytes"
  al_decode_block :: "bytes \<Rightarrow> ('h, 't, 'wd) block eyre"
  al_encode_receipts0 :: "'r list \<Rightarrow> bytes"
  al_decode_receipts0 :: "bytes \<Rightarrow> 'r list eyre"
  al_encode_receipts :: "'r block_receipts \<Rightarrow> bytes"
  al_decode_receipts :: "bytes \<Rightarrow> 'r block_receipts eyre"
  al_encode_traces :: "block_traces \<Rightarrow> bytes"
  al_decode_traces :: "bytes \<Rightarrow> block_traces eyre"

text \<open>
  What the archive relies on: the decoders read back what the encoders wrote (and leave what
  follows); an encoding is an RLP list, so its first byte is at least \<open>0xc0\<close>, it is that byte
  alone when the list is empty and has a second byte otherwise; hexadecimal printing is
  injective.
\<close>

definition alloy_laws :: "('h, 't, 'r, 'wd) alloy \<Rightarrow> bool" where
  "alloy_laws A \<longleftrightarrow>
     (\<forall>b rest. al_decode_raw A (al_encode_raw A b @ rest) = Inr b) \<and>
     (\<forall>b rest. al_decode_block A (al_encode_block A b @ rest) = Inr b) \<and>
     (\<forall>r rest. al_decode_receipts0 A (al_encode_receipts0 A r @ rest) = Inr r) \<and>
     (\<forall>r rest. al_decode_receipts A (al_encode_receipts A r @ rest) = Inr r) \<and>
     (\<forall>t rest. al_decode_traces A (al_encode_traces A t @ rest) = Inr t) \<and>
     (\<forall>b. \<exists>c d cs. al_encode_raw A b = c # d # cs \<and> 0xc0 \<le> c) \<and>
     (\<forall>r. r \<noteq> [] \<longrightarrow> (\<exists>c d cs. al_encode_receipts0 A r = c # d # cs \<and> 0xc0 \<le> c)) \<and>
     al_encode_receipts0 A [] = [0xc0] \<and>
     (\<forall>h h'. al_hex A h = al_hex A h' \<longrightarrow> h = h')"

lemma alloy_lawsD:
  assumes "alloy_laws A"
  shows "al_decode_raw A (al_encode_raw A b @ rest) = Inr b"
    and "al_decode_block A (al_encode_block A c @ rest) = Inr c"
    and "al_decode_receipts0 A (al_encode_receipts0 A r @ rest) = Inr r"
    and "al_decode_receipts A (al_encode_receipts A q @ rest) = Inr q"
    and "al_decode_traces A (al_encode_traces A t @ rest) = Inr t"
    and "al_hex A h = al_hex A h' \<longleftrightarrow> h = h'"
  using assms by (auto simp: alloy_laws_def)

lemmas alloy_decodes = alloy_lawsD(1-5) [where rest = "[]", unfolded append_Nil2]

section \<open>A sample instance\<close>

text \<open>
  Self-delimiting codecs from combinators: a pair of a printer and a parser that returns what
  follows.  Numbers are in unary, lists start with their length.
\<close>

type_synonym 'a codec = "('a \<Rightarrow> bytes) \<times> (bytes \<Rightarrow> ('a \<times> bytes) option)"

definition codec_ok :: "'a codec \<Rightarrow> bool" where
  "codec_ok c \<longleftrightarrow> (\<forall>x rest. snd c (fst c x @ rest) = Some (x, rest))"

fun dec_nat :: "bytes \<Rightarrow> (nat \<times> bytes) option" where
  "dec_nat [] = None"
| "dec_nat (b # bs) = (if b = 0 then Some (0, bs) else map_option (apfst Suc) (dec_nat bs))"

definition nat_codec :: "nat codec" where
  "nat_codec = (\<lambda>n. replicate n 1 @ [0], dec_nat)"

definition map_codec :: "('b \<Rightarrow> 'a) \<Rightarrow> ('a \<Rightarrow> 'b) \<Rightarrow> 'a codec \<Rightarrow> 'b codec" where
  "map_codec f g c = (\<lambda>x. fst c (f x), \<lambda>bs. map_option (apfst g) (snd c bs))"

definition pair_codec :: "'a codec \<Rightarrow> 'b codec \<Rightarrow> ('a \<times> 'b) codec" where
  "pair_codec c d =
     (\<lambda>(x, y). fst c x @ fst d y,
      \<lambda>bs. case snd c bs of None \<Rightarrow> None | Some (x, bs') \<Rightarrow> map_option (apfst (Pair x)) (snd d bs'))"

fun dec_items :: "(bytes \<Rightarrow> ('a \<times> bytes) option) \<Rightarrow> nat \<Rightarrow> bytes \<Rightarrow> ('a list \<times> bytes) option" where
  "dec_items d 0 bs = Some ([], bs)"
| "dec_items d (Suc n) bs =
     (case d bs of None \<Rightarrow> None | Some (x, bs') \<Rightarrow> map_option (apfst (Cons x)) (dec_items d n bs'))"

definition list_codec :: "'a codec \<Rightarrow> 'a list codec" where
  "list_codec c =
     (\<lambda>xs. fst nat_codec (length xs) @ concat (map (fst c) xs),
      \<lambda>bs. case dec_nat bs of None \<Rightarrow> None | Some (n, bs') \<Rightarrow> dec_items (snd c) n bs')"

definition option_codec :: "'a codec \<Rightarrow> 'a option codec" where
  "option_codec c = map_codec (\<lambda>x. case x of None \<Rightarrow> [] | Some a \<Rightarrow> [a])
     (\<lambda>xs. case xs of [] \<Rightarrow> None | a # _ \<Rightarrow> Some a) (list_codec c)"

definition word_codec :: "'a::len word codec" where
  "word_codec = map_codec unat of_nat nat_codec"

definition unit_codec :: "unit codec" where
  "unit_codec = (\<lambda>_. [], \<lambda>bs. Some ((), bs))"

lemma codec_okD: "codec_ok c \<Longrightarrow> snd c (fst c x @ rest) = Some (x, rest)"
  by (simp add: codec_ok_def)

lemma nat_codec_ok: "codec_ok nat_codec"
proof -
  have "dec_nat (replicate n 1 @ 0 # rest) = Some (n, rest)" for n rest
    by (induction n) simp_all
  then show ?thesis by (simp add: codec_ok_def nat_codec_def)
qed

lemma map_codec_ok: "codec_ok c \<Longrightarrow> (\<And>x. g (f x) = x) \<Longrightarrow> codec_ok (map_codec f g c)"
  by (simp add: codec_ok_def map_codec_def)

lemma pair_codec_ok: "codec_ok c \<Longrightarrow> codec_ok d \<Longrightarrow> codec_ok (pair_codec c d)"
  by (simp add: codec_ok_def pair_codec_def)

lemma list_codec_ok: "codec_ok c \<Longrightarrow> codec_ok (list_codec c)"
proof -
  assume c: "codec_ok c"
  have "dec_items (snd c) (length xs) (concat (map (fst c) xs) @ rest) = Some (xs, rest)" for xs rest
    by (induction xs) (simp_all add: codec_okD [OF c])
  moreover have "dec_nat (fst nat_codec n @ rest) = Some (n, rest)" for n rest
    using codec_okD [OF nat_codec_ok] by (simp add: nat_codec_def)
  ultimately show ?thesis by (simp add: codec_ok_def list_codec_def)
qed

lemma option_codec_ok: "codec_ok c \<Longrightarrow> codec_ok (option_codec c)"
  unfolding option_codec_def by (intro map_codec_ok list_codec_ok) (simp_all split: option.splits)

lemma word_codec_ok: "codec_ok word_codec"
  unfolding word_codec_def by (intro map_codec_ok nat_codec_ok) simp

lemma unit_codec_ok: "codec_ok unit_codec"
  by (simp add: codec_ok_def unit_codec_def)

lemmas codec_intros =
  map_codec_ok pair_codec_ok list_codec_ok option_codec_ok word_codec_ok unit_codec_ok nat_codec_ok

definition alloy_block_codec :: "'t codec \<Rightarrow> (u64, 't, unit) alloy_block codec" where
  "alloy_block_codec c =
     map_codec (\<lambda>b. (blk_header b, blk_transactions b, blk_ommers b, blk_withdrawals b))
       (\<lambda>(h, ts, os, ws). \<lparr>blk_header = h, blk_transactions = ts, blk_ommers = os, blk_withdrawals = ws\<rparr>)
       (pair_codec word_codec (pair_codec (list_codec c) (pair_codec (list_codec word_codec)
          (option_codec unit_codec))))"

definition sender_codec :: "u64 tx_envelope_with_sender codec" where
  "sender_codec = map_codec (\<lambda>t. (tx_sender t, tx_envelope t)) (\<lambda>(s, e). \<lparr>tx_sender = s, tx_envelope = e\<rparr>)
     (pair_codec word_codec word_codec)"

definition log_index_codec :: "u64 receipt_with_log_index codec" where
  "log_index_codec =
     map_codec (\<lambda>r. (rcp_receipt r, rcp_starting_log_index r))
       (\<lambda>(r, i). \<lparr>rcp_receipt = r, rcp_starting_log_index = i\<rparr>) (pair_codec word_codec word_codec)"

definition decode_all :: "'a codec \<Rightarrow> bytes \<Rightarrow> 'a eyre" where
  "decode_all c bs = ok_or (map_option fst (snd c bs)) (Report [''decode''])"

lemma decode_all_encode: "codec_ok c \<Longrightarrow> decode_all c (fst c x @ rest) = Inr x"
  by (simp add: decode_all_def codec_okD)

lemma alloy_block_codec_ok: "codec_ok c \<Longrightarrow> codec_ok (alloy_block_codec c)"
  unfolding alloy_block_codec_def by (intro codec_intros) simp_all

lemma sender_codec_ok: "codec_ok sender_codec"
  unfolding sender_codec_def by (intro codec_intros) simp

lemma log_index_codec_ok: "codec_ok log_index_codec"
  unfolding log_index_codec_def by (intro codec_intros) simp

lemmas sample_codecs_ok = alloy_block_codec_ok sender_codec_ok log_index_codec_ok codec_intros

text \<open>Headers are block numbers, transactions and receipts are numbers.\<close>

definition sample_alloy :: "(u64, u64, u64, unit) alloy" where
  "sample_alloy =
     \<lparr>al_number = (\<lambda>h. h), al_timestamp = (\<lambda>h. h), al_base_fee_per_gas = (\<lambda>h. Some 1),
      al_hash_slow = ucast, al_tx_hash = ucast, al_recover_signer = (\<lambda>t. Inr (ucast t)),
      al_logs_len = (\<lambda>r. 1), al_cumulative_gas_used = (\<lambda>r. r), al_default_withdrawals = (),
      al_hex = (\<lambda>h. to_decimal (unat h)),
      al_encode_raw = (\<lambda>b. [0xc0, 0] @ fst (alloy_block_codec word_codec) b),
      al_decode_raw = (\<lambda>bs. decode_all (alloy_block_codec word_codec) (drop 2 bs)),
      al_encode_block = fst (alloy_block_codec sender_codec),
      al_decode_block = decode_all (alloy_block_codec sender_codec),
      al_encode_receipts0 = (\<lambda>rs. if rs = [] then [0xc0] else [0xc1, 0] @ fst (list_codec word_codec) rs),
      al_decode_receipts0 =
        (\<lambda>bs. if take 1 bs = [0xc0] then Inr [] else decode_all (list_codec word_codec) (drop 2 bs)),
      al_encode_receipts = fst (list_codec log_index_codec),
      al_decode_receipts = decode_all (list_codec log_index_codec),
      al_encode_traces = fst (list_codec (list_codec word_codec)),
      al_decode_traces = decode_all (list_codec (list_codec word_codec))\<rparr>"

lemma sample_alloy_laws [simp]: "alloy_laws sample_alloy"
  unfolding alloy_laws_def sample_alloy_def
  by (intro conjI allI impI; simp add: decode_all_encode sample_codecs_ok) (simp add: word_unat_eq_iff)

end
