(* ===== verification/Block_Archive.thy ===== *)
theory Block_Archive
  imports Kv_Store Rlp_Scanner Alloy_Data
begin

text \<open>
  The archive of block data (\<open>model/block_data_archive.rs\<close> and the reader trait of
  \<open>model/mod.rs\<close>): the versioned representations of blocks and receipts, the keys under which
  blocks, receipts, traces and the progress markers are stored, and the operations that write
  and read them.
\<close>

section \<open>Storage representations\<close>

datatype ('h, 't, 'wd) block_storage_repr =
    BlockV0 "('h, 't, 'wd) alloy_block"
  | BlockV1 "('h, 't, 'wd) block"
  | BlockV2 "('h, 't, 'wd) block"

definition BLOCK_SENTINEL :: u8 where "BLOCK_SENTINEL = 55"

fun BlockStorageRepr_encode :: "('h, 't, 'r, 'wd) alloy \<Rightarrow> ('h, 't, 'wd) block_storage_repr \<Rightarrow> bytes" where
  "BlockStorageRepr_encode A (BlockV0 b) = [BLOCK_SENTINEL, 0] @ al_encode_raw A b"
| "BlockStorageRepr_encode A (BlockV1 b) = [BLOCK_SENTINEL, 1] @ al_encode_block A b"
| "BlockStorageRepr_encode A (BlockV2 b) = [BLOCK_SENTINEL, 2] @ al_encode_block A b"

definition encode_block :: "('h, 't, 'r, 'wd) alloy \<Rightarrow> ('h, 't, 'wd) block \<Rightarrow> bytes" where
  "encode_block A b = BlockStorageRepr_encode A (BlockV2 b)"

definition recover_sender :: "('h, 't, 'r, 'wd) alloy \<Rightarrow> 't \<Rightarrow> 't tx_envelope_with_sender eyre" where
  "recover_sender A tx =
     res_bind (al_recover_signer A tx) (\<lambda>s. Inr \<lparr>tx_sender = s, tx_envelope = tx\<rparr>)"

fun BlockStorageRepr_convert ::
  "('h, 't, 'r, 'wd) alloy \<Rightarrow> ('h, 't, 'wd) block_storage_repr \<Rightarrow> ('h, 't, 'wd) block eyre" where
  "BlockStorageRepr_convert A (BlockV0 b) =
     res_bind (if blk_transactions b = [] then Inr [] else map_res (recover_sender A) (blk_transactions b))
       (\<lambda>txs. Inr \<lparr>blk_header = blk_header b, blk_transactions = txs, blk_ommers = blk_ommers b,
                   blk_withdrawals = Some (al_default_withdrawals A)\<rparr>)"
| "BlockStorageRepr_convert A (BlockV1 b) =
     Inr (if blk_withdrawals b = None then b\<lparr>blk_withdrawals := Some (al_default_withdrawals A)\<rparr> else b)"
| "BlockStorageRepr_convert A (BlockV2 b) = Inr b"

definition marker_bytes :: "bytes \<Rightarrow> u8 \<times> u8" where
  "marker_bytes buf = (buf ! 0, buf ! 1)"

definition BlockStorageRepr_decode_and_convert ::
  "('h, 't, 'r, 'wd) alloy \<Rightarrow> bytes \<Rightarrow> ('h, 't, 'wd) block eyre" where
  "BlockStorageRepr_decode_and_convert A buf =
     (if length buf < 2 then eyre_err ''Cannot decode block, len must be > 2''
      else
        let decoding_result =
              (if marker_bytes buf = (BLOCK_SENTINEL, 0) then
                 map_sum id BlockV0 (al_decode_raw A (drop 2 buf))
               else if marker_bytes buf = (BLOCK_SENTINEL, 1) then
                 map_sum id BlockV1 (al_decode_block A (drop 2 buf))
               else if marker_bytes buf = (BLOCK_SENTINEL, 2) then
                 map_sum id BlockV2 (al_decode_block A (drop 2 buf))
               else map_sum id BlockV0 (al_decode_raw A buf))
        in case decoding_result of
             Inr decoded \<Rightarrow> BlockStorageRepr_convert A decoded
           | Inl e \<Rightarrow> res_bind (al_decode_raw A buf) (\<lambda>b. BlockStorageRepr_convert A (BlockV0 b)))"

definition BlockStorageRepr_rlp_list_slice :: "bytes \<Rightarrow> bytes" where
  "BlockStorageRepr_rlp_list_slice buf =
     (if length buf < 2 then buf
      else if marker_bytes buf = (BLOCK_SENTINEL, 0) \<or> marker_bytes buf = (BLOCK_SENTINEL, 1)
      then drop 2 buf else buf)"

datatype 'r receipt_storage_repr = ReceiptV0 "'r list" | ReceiptV1 "'r block_receipts"

definition RECEIPT_SENTINEL :: u8 where "RECEIPT_SENTINEL = 88"

definition EMPTY_LIST_CODE :: u8 where "EMPTY_LIST_CODE = 0xc0"

fun ReceiptStorageRepr_encode :: "('h, 't, 'r, 'wd) alloy \<Rightarrow> 'r receipt_storage_repr \<Rightarrow> bytes" where
  "ReceiptStorageRepr_encode A (ReceiptV0 rs) = [RECEIPT_SENTINEL, 0] @ al_encode_receipts0 A rs"
| "ReceiptStorageRepr_encode A (ReceiptV1 rs) = [RECEIPT_SENTINEL, 1] @ al_encode_receipts A rs"

text \<open>Log indices of old receipts: each starts after the logs of those before it.\<close>

fun with_log_index :: "('h, 't, 'r, 'wd) alloy \<Rightarrow> u64 \<Rightarrow> 'r list \<Rightarrow> 'r block_receipts" where
  "with_log_index A pre [] = []"
| "with_log_index A pre (r # rs) =
     \<lparr>rcp_receipt = r, rcp_starting_log_index = pre\<rparr> # with_log_index A (pre + of_nat (al_logs_len A r)) rs"

fun ReceiptStorageRepr_convert :: "('h, 't, 'r, 'wd) alloy \<Rightarrow> 'r receipt_storage_repr \<Rightarrow> 'r block_receipts eyre" where
  "ReceiptStorageRepr_convert A (ReceiptV0 rs) = Inr (with_log_index A 0 rs)"
| "ReceiptStorageRepr_convert A (ReceiptV1 rs) = Inr rs"

definition ReceiptStorageRepr_decode_and_convert ::
  "('h, 't, 'r, 'wd) alloy \<Rightarrow> bytes \<Rightarrow> 'r block_receipts eyre" where
  "ReceiptStorageRepr_decode_and_convert A buf =
     (if buf = [EMPTY_LIST_CODE] then Inr []
      else if length buf < 2 then eyre_err ''Cannot decode receipt, len must be > 2''
      else
        let decoding_result =
              (if marker_bytes buf = (RECEIPT_SENTINEL, 0) then
                 map_sum id ReceiptV0 (al_decode_receipts0 A (drop 2 buf))
               else if marker_bytes buf = (RECEIPT_SENTINEL, 1) then
                 map_sum id ReceiptV1 (al_decode_receipts A (drop 2 buf))
               else map_sum id ReceiptV0 (al_decode_receipts0 A buf))
        in case decoding_result of
             Inr decoded \<Rightarrow> ReceiptStorageRepr_convert A decoded
           | Inl e \<Rightarrow> res_bind (al_decode_receipts0 A buf) (\<lambda>rs. ReceiptStorageRepr_convert A (ReceiptV0 rs)))"

definition ReceiptStorageRepr_rlp_list_slice :: "bytes \<Rightarrow> bytes" where
  "ReceiptStorageRepr_rlp_list_slice buf =
     (if length buf < 2 then buf
      else if marker_bytes buf = (RECEIPT_SENTINEL, 0) \<or> marker_bytes buf = (RECEIPT_SENTINEL, 1)
      then drop 2 buf else buf)"

section \<open>Reading block data (model/mod.rs)\<close>

datatype latest_kind = Uploaded | Indexed | UploadedAsyncBackfill | IndexedAsyncBackfill

record ('h, 't, 'r, 'wd) block_data_with_offsets =
  bd_block :: "('h, 't, 'wd) block"
  bd_receipts :: "'r block_receipts"
  bd_traces :: block_traces
  bd_offsets :: "tx_byte_offsets list option"

record ('w, 'h, 't, 'r, 'wd) block_data_reader =
  br_get_block_data_with_offsets :: "u64 \<Rightarrow> ('w, ('h, 't, 'r, 'wd) block_data_with_offsets) eyre_io"
  br_get_latest :: "latest_kind \<Rightarrow> ('w, u64 option) eyre_io"
  br_try_get_block_number_by_hash :: "b256 \<Rightarrow> ('w, u64 option) eyre_io"
  br_get_block_number_by_hash :: "b256 \<Rightarrow> ('w, u64) eyre_io"
  br_try_get_block_by_hash :: "b256 \<Rightarrow> ('w, ('h, 't, 'wd) block option) eyre_io"
  br_get_block_by_hash :: "b256 \<Rightarrow> ('w, ('h, 't, 'wd) block) eyre_io"
  br_try_get_block_by_number :: "u64 \<Rightarrow> ('w, ('h, 't, 'wd) block option) eyre_io"
  br_get_block_by_number :: "u64 \<Rightarrow> ('w, ('h, 't, 'wd) block) eyre_io"
  br_try_get_block_receipts :: "u64 \<Rightarrow> ('w, 'r block_receipts option) eyre_io"
  br_get_block_receipts :: "u64 \<Rightarrow> ('w, 'r block_receipts) eyre_io"
  br_try_get_block_traces :: "u64 \<Rightarrow> ('w, block_traces option) eyre_io"
  br_get_block_traces :: "u64 \<Rightarrow> ('w, block_traces) eyre_io"

text \<open>The default \<open>get\<close> methods of the trait: \<open>None\<close> becomes an error.\<close>

definition or_missing :: "string \<Rightarrow> ('w, 'a option) eyre_io \<Rightarrow> ('w, 'a) eyre_io" where
  "or_missing m f = io_bind f (\<lambda>x. io_lift (ok_or x (Report [m])))"

section \<open>The archive\<close>

record 'w block_data_archive =
  bda_store :: "'w kv_store"
  latest_uploaded_table_key :: string
  latest_indexed_table_key :: string
  latest_uploaded_async_backfill_table_key :: string
  latest_indexed_async_backfill_table_key :: string
  block_table_prefix :: string
  block_hash_table_prefix :: string
  receipts_table_prefix :: string
  traces_table_prefix :: string

definition BlockDataArchive_new :: "'w kv_store \<Rightarrow> 'w block_data_archive" where
  "BlockDataArchive_new st =
     \<lparr>bda_store = st,
      latest_uploaded_table_key = ''latest'',
      latest_indexed_table_key = ''latest_indexed'',
      latest_uploaded_async_backfill_table_key = ''latest_uploaded_async_backfill'',
      latest_indexed_async_backfill_table_key = ''latest_indexed_async_backfill'',
      block_table_prefix = ''block'',
      block_hash_table_prefix = ''block_hash'',
      receipts_table_prefix = ''receipts'',
      traces_table_prefix = ''traces''\<rparr>"

definition BLOCK_PADDING_WIDTH :: nat where "BLOCK_PADDING_WIDTH = 12"

definition block_key :: "'w block_data_archive \<Rightarrow> u64 \<Rightarrow> string" where
  "block_key a n = block_table_prefix a @ ''/'' @ pad_decimal BLOCK_PADDING_WIDTH n"

definition receipts_key :: "'w block_data_archive \<Rightarrow> u64 \<Rightarrow> string" where
  "receipts_key a n = receipts_table_prefix a @ ''/'' @ pad_decimal BLOCK_PADDING_WIDTH n"

definition traces_key :: "'w block_data_archive \<Rightarrow> u64 \<Rightarrow> string" where
  "traces_key a n = traces_table_prefix a @ ''/'' @ pad_decimal BLOCK_PADDING_WIDTH n"

definition archive_block_hash_key :: "('h, 't, 'r, 'wd) alloy \<Rightarrow> 'w block_data_archive \<Rightarrow> b256 \<Rightarrow> string" where
  "archive_block_hash_key A a h = block_hash_table_prefix a @ ''/'' @ al_hex A h"

fun latest_key :: "'w block_data_archive \<Rightarrow> latest_kind \<Rightarrow> string" where
  "latest_key a Uploaded = latest_uploaded_table_key a"
| "latest_key a Indexed = latest_indexed_table_key a"
| "latest_key a UploadedAsyncBackfill = latest_uploaded_async_backfill_table_key a"
| "latest_key a IndexedAsyncBackfill = latest_indexed_async_backfill_table_key a"

text \<open>A stored decimal: UTF-8, then \<open>parse::<u64>\<close>.\<close>

definition parse_number :: "bytes \<Rightarrow> u64 eyre" where
  "parse_number value =
     res_bind (ok_or (from_utf8 value) (Report [''Invalid UTF-8 sequence''])) (\<lambda>s.
       ok_or (parse_word s) (Report [''Unable to convert block_number string to number (u64)'']))"

text \<open>An entry that is looked up and, when it is there, decoded.\<close>

definition read_entry ::
  "string \<Rightarrow> ('w, 'z) kv_reader_scheme \<Rightarrow> string \<Rightarrow> (bytes \<Rightarrow> 'a eyre) \<Rightarrow> ('w, 'a option) eyre_io" where
  "read_entry ctx st key decode =
     io_bind (io_wrap_err ctx (kv_get st key)) (\<lambda>v. io_lift (map_transpose decode v))"

definition archive_get_latest :: "'w block_data_archive \<Rightarrow> latest_kind \<Rightarrow> ('w, u64 option) eyre_io" where
  "archive_get_latest a kind =
     read_entry ''No latest block found'' (bda_store a) (latest_key a kind) parse_number"

definition archive_try_get_block_number_by_hash ::
  "('h, 't, 'r, 'wd) alloy \<Rightarrow> 'w block_data_archive \<Rightarrow> b256 \<Rightarrow> ('w, u64 option) eyre_io" where
  "archive_try_get_block_number_by_hash A a h =
     read_entry ''Error getting block hash'' (bda_store a) (archive_block_hash_key A a h) parse_number"

definition archive_try_get_block_by_number ::
  "('h, 't, 'r, 'wd) alloy \<Rightarrow> 'w block_data_archive \<Rightarrow> u64 \<Rightarrow> ('w, ('h, 't, 'wd) block option) eyre_io" where
  "archive_try_get_block_by_number A a n =
     read_entry ''Error getting block'' (bda_store a) (block_key a n) (\<lambda>bs. wrap_err ''Failed to decode block'' (BlockStorageRepr_decode_and_convert A bs))"

definition archive_try_get_block_by_hash ::
  "('h, 't, 'r, 'wd) alloy \<Rightarrow> 'w block_data_archive \<Rightarrow> b256 \<Rightarrow> ('w, ('h, 't, 'wd) block option) eyre_io" where
  "archive_try_get_block_by_hash A a h =
     io_bind (archive_try_get_block_number_by_hash A a h) (\<lambda>n.
       case n of None \<Rightarrow> io_lift (Inr None) | Some n \<Rightarrow> archive_try_get_block_by_number A a n)"

definition archive_try_get_block_receipts ::
  "('h, 't, 'r, 'wd) alloy \<Rightarrow> 'w block_data_archive \<Rightarrow> u64 \<Rightarrow> ('w, 'r block_receipts option) eyre_io" where
  "archive_try_get_block_receipts A a n =
     read_entry ''Error getting receipts'' (bda_store a) (receipts_key a n) (\<lambda>bs. wrap_err ''Failed to decode block receipts'' (ReceiptStorageRepr_decode_and_convert A bs))"

definition archive_try_get_block_traces ::
  "('h, 't, 'r, 'wd) alloy \<Rightarrow> 'w block_data_archive \<Rightarrow> u64 \<Rightarrow> ('w, block_traces option) eyre_io" where
  "archive_try_get_block_traces A a n =
     read_entry ''Error getting traces'' (bda_store a) (traces_key a n) (\<lambda>bs. wrap_err ''Cannot decode block'' (al_decode_traces A bs))"

definition archive_get_block_data_with_offsets ::
  "('h, 't, 'r, 'wd) alloy \<Rightarrow> 'w block_data_archive \<Rightarrow> u64
     \<Rightarrow> ('w, ('h, 't, 'r, 'wd) block_data_with_offsets) eyre_io" where
  "archive_get_block_data_with_offsets A a n =
     (let st = bda_store a; ctx = ''Error getting block data'' in
      io_bind (io_wrap_err ctx (kv_get st (block_key a n))) (\<lambda>b.
      io_bind (io_wrap_err ctx (kv_get st (traces_key a n))) (\<lambda>t.
      io_bind (io_wrap_err ctx (kv_get st (receipts_key a n))) (\<lambda>r.
      io_lift (
        res_bind (ok_or b (Report [''No block found''])) (\<lambda>block_rlp.
        res_bind (ok_or t (Report [''No trace found''])) (\<lambda>traces_rlp.
        res_bind (ok_or r (Report [''No receipt found''])) (\<lambda>receipts_rlp.
        res_bind (case get_all_tx_offsets (BlockStorageRepr_rlp_list_slice block_rlp)
                         (ReceiptStorageRepr_rlp_list_slice receipts_rlp) traces_rlp of
                    None \<Rightarrow> Inl Spin | Some x \<Rightarrow> x) (\<lambda>offsets.
        res_bind (wrap_err ''Failed to decode block''
                    (BlockStorageRepr_decode_and_convert A block_rlp)) (\<lambda>block.
        res_bind (wrap_err ''Failed to decode receipts''
                    (ReceiptStorageRepr_decode_and_convert A receipts_rlp)) (\<lambda>receipts.
        res_bind (wrap_err ''Failed to decode traces'' (al_decode_traces A traces_rlp)) (\<lambda>traces.
        Inr \<lparr>bd_block = block, bd_receipts = receipts, bd_traces = traces,
             bd_offsets = Some offsets\<rparr>))))))))))))"

definition archive_reader ::
  "('h, 't, 'r, 'wd) alloy \<Rightarrow> 'w block_data_archive \<Rightarrow> ('w, 'h, 't, 'r, 'wd) block_data_reader" where
  "archive_reader A a =
     \<lparr>br_get_block_data_with_offsets = archive_get_block_data_with_offsets A a,
      br_get_latest = archive_get_latest a,
      br_try_get_block_number_by_hash = archive_try_get_block_number_by_hash A a,
      br_get_block_number_by_hash =
        (\<lambda>h. or_missing ''Block hash not found'' (archive_try_get_block_number_by_hash A a h)),
      br_try_get_block_by_hash = archive_try_get_block_by_hash A a,
      br_get_block_by_hash = (\<lambda>h. or_missing ''Block not found'' (archive_try_get_block_by_hash A a h)),
      br_try_get_block_by_number = archive_try_get_block_by_number A a,
      br_get_block_by_number = (\<lambda>n. or_missing ''Block not found'' (archive_try_get_block_by_number A a n)),
      br_try_get_block_receipts = archive_try_get_block_receipts A a,
      br_get_block_receipts = (\<lambda>n. or_missing ''Receipt not found'' (archive_try_get_block_receipts A a n)),
      br_try_get_block_traces = archive_try_get_block_traces A a,
      br_get_block_traces = (\<lambda>n. or_missing ''Traces not found'' (archive_try_get_block_traces A a n))\<rparr>"

text \<open>Writing.\<close>

definition update_latest :: "'w block_data_archive \<Rightarrow> u64 \<Rightarrow> latest_kind \<Rightarrow> ('w, unit) eyre_io" where
  "update_latest a n kind =
     io_bind (kv_put (bda_store a) (latest_key a kind) (as_bytes (pad_decimal BLOCK_PADDING_WIDTH n))
                AllowOverwrite) (\<lambda>_. io_lift (Inr ()))"

definition archive_block ::
  "('h, 't, 'r, 'wd) alloy \<Rightarrow> 'w block_data_archive \<Rightarrow> ('h, 't, 'wd) block \<Rightarrow> write_policy \<Rightarrow> ('w, unit) eyre_io" where
  "archive_block A a block policy =
     (let block_num = al_number A (blk_header block);
          hash_key = archive_block_hash_key A a (al_hash_slow A (blk_header block));
          encoded_block = BlockStorageRepr_encode A (BlockV1 block) in
      io_bind (kv_put (bda_store a) (block_key a block_num) encoded_block policy) (\<lambda>_.
      io_bind (kv_put (bda_store a) hash_key (as_bytes (word_to_string block_num)) policy) (\<lambda>_.
      io_lift (Inr ()))))"

definition archive_receipts ::
  "('h, 't, 'r, 'wd) alloy \<Rightarrow> 'w block_data_archive \<Rightarrow> 'r block_receipts \<Rightarrow> u64 \<Rightarrow> write_policy \<Rightarrow> ('w, unit) eyre_io" where
  "archive_receipts A a receipts n policy =
     io_bind (kv_put (bda_store a) (receipts_key a n) (ReceiptStorageRepr_encode A (ReceiptV1 receipts)) policy)
       (\<lambda>_. io_lift (Inr ()))"

definition archive_traces ::
  "('h, 't, 'r, 'wd) alloy \<Rightarrow> 'w block_data_archive \<Rightarrow> block_traces \<Rightarrow> u64 \<Rightarrow> write_policy \<Rightarrow> ('w, unit) eyre_io" where
  "archive_traces A a traces n policy =
     io_bind (kv_put (bda_store a) (traces_key a n) (al_encode_traces A traces) policy) (\<lambda>_. io_lift (Inr ()))"

section \<open>Every representation is read back\<close>

lemmas marker_defs = marker_bytes_def BLOCK_SENTINEL_def RECEIPT_SENTINEL_def EMPTY_LIST_CODE_def

lemma raw_block_no_marker:
  assumes "alloy_laws A"
  shows "\<not> length (al_encode_raw A b) < 2" "fst (marker_bytes (al_encode_raw A b)) \<noteq> BLOCK_SENTINEL"
proof -
  have "\<forall>b. \<exists>c d cs. al_encode_raw A b = c # d # cs \<and> 0xc0 \<le> c"
    using assms unfolding alloy_laws_def by (elim conjE)
  then obtain c d cs where "al_encode_raw A b = c # d # cs" "0xc0 \<le> c" by blast
  then show "\<not> length (al_encode_raw A b) < 2" "fst (marker_bytes (al_encode_raw A b)) \<noteq> BLOCK_SENTINEL"
    by (auto simp: marker_defs word_le_nat_alt)
qed

lemma raw_receipts_no_marker:
  assumes "alloy_laws A" "rs \<noteq> []"
  shows "\<not> length (al_encode_receipts0 A rs) < 2"
    and "fst (marker_bytes (al_encode_receipts0 A rs)) \<noteq> RECEIPT_SENTINEL"
    and "al_encode_receipts0 A rs \<noteq> [EMPTY_LIST_CODE]"
proof -
  have "\<forall>r. r \<noteq> [] \<longrightarrow> (\<exists>c d cs. al_encode_receipts0 A r = c # d # cs \<and> 0xc0 \<le> c)"
    using assms(1) unfolding alloy_laws_def by (elim conjE)
  with assms(2) obtain c d cs where "al_encode_receipts0 A rs = c # d # cs" "0xc0 \<le> c" by blast
  then show "\<not> length (al_encode_receipts0 A rs) < 2"
    "fst (marker_bytes (al_encode_receipts0 A rs)) \<noteq> RECEIPT_SENTINEL"
    "al_encode_receipts0 A rs \<noteq> [EMPTY_LIST_CODE]"
    by (auto simp: marker_defs word_le_nat_alt)
qed

lemma decode_and_convert_encode:
  assumes "alloy_laws A"
  shows "BlockStorageRepr_decode_and_convert A (BlockStorageRepr_encode A r) = BlockStorageRepr_convert A r"
  by (cases r)
     (simp_all add: BlockStorageRepr_decode_and_convert_def marker_defs alloy_decodes [OF assms]
        del: BlockStorageRepr_convert.simps)

lemma receipts_decode_encode:
  assumes "alloy_laws A"
  shows "ReceiptStorageRepr_decode_and_convert A (ReceiptStorageRepr_encode A r) = ReceiptStorageRepr_convert A r"
  by (cases r)
     (simp_all add: ReceiptStorageRepr_decode_and_convert_def marker_defs alloy_decodes [OF assms]
        del: ReceiptStorageRepr_convert.simps)

text \<open>
  C21: Whatever version a block was stored in, reading it back converts exactly that version:
  each marked representation, and the unmarked encoding of the oldest one, which carries no
  sentinel and cannot be mistaken for a marked one.
\<close>

theorem block_repr_roundtrip:
  assumes "alloy_laws A"
  shows "BlockStorageRepr_decode_and_convert A (BlockStorageRepr_encode A r) = BlockStorageRepr_convert A r \<and>
    BlockStorageRepr_decode_and_convert A (al_encode_raw A raw) = BlockStorageRepr_convert A (BlockV0 raw)"
proof
  show "BlockStorageRepr_decode_and_convert A (al_encode_raw A raw) = BlockStorageRepr_convert A (BlockV0 raw)"
    using raw_block_no_marker [OF assms, of raw] alloy_decodes(1) [OF assms, of raw]
    by (auto simp: BlockStorageRepr_decode_and_convert_def simp del: BlockStorageRepr_convert.simps)
qed (rule decode_and_convert_encode [OF assms])

lemma block_repr_roundtrip_witness:
  "BlockStorageRepr_decode_and_convert sample_alloy
     (BlockStorageRepr_encode sample_alloy
        (BlockV1 \<lparr>blk_header = 7, blk_transactions = [], blk_ommers = [], blk_withdrawals = None\<rparr>)) =
   Inr \<lparr>blk_header = 7, blk_transactions = [], blk_ommers = [], blk_withdrawals = Some ()\<rparr>"
  using block_repr_roundtrip [OF sample_alloy_laws,
      of "BlockV1 \<lparr>blk_header = 7, blk_transactions = [], blk_ommers = [], blk_withdrawals = None\<rparr>"]
  by (simp add: sample_alloy_def)

text \<open>The receipts of an old list, and the index each starts at, without the running sum of the code.\<close>

lemma with_log_index_spec:
  "map rcp_receipt (with_log_index A pre rs) = rs"
  "i < length rs \<Longrightarrow> rcp_starting_log_index (with_log_index A pre rs ! i) =
     pre + of_nat (sum_list (map (al_logs_len A) (take i rs)))"
proof -
  show "map rcp_receipt (with_log_index A pre rs) = rs" by (induction rs arbitrary: pre) auto
  show "rcp_starting_log_index (with_log_index A pre rs ! i) =
      pre + of_nat (sum_list (map (al_logs_len A) (take i rs)))" if "i < length rs"
    using that by (induction rs arbitrary: pre i) (auto simp: nth_Cons' take_Cons' split: nat.split)
qed

lemma raw_receipts_decode:
  assumes "alloy_laws A"
  shows "ReceiptStorageRepr_decode_and_convert A (al_encode_receipts0 A rs) = Inr (with_log_index A 0 rs)"
proof (cases "rs = []")
  case True
  have "al_encode_receipts0 A [] = [0xc0]" using assms by (simp add: alloy_laws_def)
  with True show ?thesis
    by (simp add: ReceiptStorageRepr_decode_and_convert_def EMPTY_LIST_CODE_def)
next
  case False
  show ?thesis
    using raw_receipts_no_marker [OF assms False] alloy_decodes [OF assms]
    by (auto simp: ReceiptStorageRepr_decode_and_convert_def)
qed

text \<open>
  C22: The same for receipts.  The current version reads back as the receipts with the indices they
  were written with.  The old version, with its marker and without (where an empty list is a single
  byte), reads back as its receipts in their order, each starting at the number of logs in the
  receipts before it.
\<close>

theorem receipt_repr_roundtrip:
  assumes "alloy_laws A"
  shows "ReceiptStorageRepr_decode_and_convert A (ReceiptStorageRepr_encode A (ReceiptV1 qs)) = Inr qs \<and>
    (\<exists>xs. ReceiptStorageRepr_decode_and_convert A (ReceiptStorageRepr_encode A (ReceiptV0 rs)) = Inr xs \<and>
       ReceiptStorageRepr_decode_and_convert A (al_encode_receipts0 A rs) = Inr xs \<and>
       map rcp_receipt xs = rs \<and>
       (\<forall>i < length rs. rcp_starting_log_index (xs ! i) =
          of_nat (sum_list (map (al_logs_len A) (take i rs)))))"
  using receipts_decode_encode [OF assms, of "ReceiptV1 qs"] receipts_decode_encode [OF assms, of "ReceiptV0 rs"]
    raw_receipts_decode [OF assms, of rs] with_log_index_spec [where A = A and pre = 0 and rs = rs]
  by (simp del: ReceiptStorageRepr_encode.simps)

lemma receipt_repr_roundtrip_witness:
  "\<exists>xs. ReceiptStorageRepr_decode_and_convert sample_alloy (al_encode_receipts0 sample_alloy [3, 4]) = Inr xs \<and>
     map rcp_receipt xs = [3, 4] \<and> rcp_starting_log_index (xs ! 1) = 1"
proof -
  have "sum_list (map (al_logs_len sample_alloy) (take 1 [3, 4])) = 1" by (simp add: sample_alloy_def)
  moreover from receipt_repr_roundtrip [OF sample_alloy_laws, of "[]" "[3, 4]"] obtain xs
    where xs: "ReceiptStorageRepr_decode_and_convert sample_alloy (al_encode_receipts0 sample_alloy [3, 4]) = Inr xs"
      "map rcp_receipt xs = [3, 4]"
      "\<forall>i < length [3, 4 :: u64]. rcp_starting_log_index (xs ! i) =
         of_nat (sum_list (map (al_logs_len sample_alloy) (take i [3, 4])))"
    by (elim conjE exE)
  moreover from xs(3) have "rcp_starting_log_index (xs ! 1) =
      of_nat (sum_list (map (al_logs_len sample_alloy) (take 1 [3, 4])))" by simp
  ultimately have "rcp_starting_log_index (xs ! 1) = 1" by (simp only: of_nat_1)
  with xs(1,2) show ?thesis by (intro exI [of _ xs] conjI)
qed

section \<open>Keys\<close>

datatype archive_entry =
    BlockEntry u64 | HashEntry b256 | ReceiptsEntry u64 | TracesEntry u64 | LatestEntry latest_kind

fun entry_key :: "('h, 't, 'r, 'wd) alloy \<Rightarrow> 'w block_data_archive \<Rightarrow> archive_entry \<Rightarrow> string" where
  "entry_key A a (BlockEntry n) = block_key a n"
| "entry_key A a (HashEntry h) = archive_block_hash_key A a h"
| "entry_key A a (ReceiptsEntry n) = receipts_key a n"
| "entry_key A a (TracesEntry n) = traces_key a n"
| "entry_key A a (LatestEntry k) = latest_key a k"

lemmas key_defs = block_key_def receipts_key_def traces_key_def archive_block_hash_key_def BlockDataArchive_new_def

lemma archive_keys:
  "block_key (BlockDataArchive_new st) n = ''block/'' @ pad_decimal BLOCK_PADDING_WIDTH n"
  "receipts_key (BlockDataArchive_new st) n = ''receipts/'' @ pad_decimal BLOCK_PADDING_WIDTH n"
  "traces_key (BlockDataArchive_new st) n = ''traces/'' @ pad_decimal BLOCK_PADDING_WIDTH n"
  "archive_block_hash_key A (BlockDataArchive_new st) h = ''block_hash/'' @ al_hex A h"
  by (simp_all add: key_defs)

lemma entry_key_eq_iff:
  assumes "alloy_laws A"
  shows "entry_key A (BlockDataArchive_new st) e = entry_key A (BlockDataArchive_new st) e' \<longleftrightarrow> e = e'"
proof -
  let ?a = "BlockDataArchive_new st"
  have "\<forall>k. \<exists>cs. latest_key ?a k = CHR ''l'' # cs"
  proof
    show "\<exists>cs. latest_key ?a k = CHR ''l'' # cs" for k
      by (cases k) (simp_all add: BlockDataArchive_new_def)
  qed
  then obtain tl where tl: "\<And>k. latest_key ?a k = CHR ''l'' # tl k" by metis
  have "latest_key ?a k = latest_key ?a k' \<longleftrightarrow> k = k'" for k k'
    by (cases k; cases k') (simp_all add: BlockDataArchive_new_def)
  then have "tl k = tl k' \<longleftrightarrow> k = k'" for k k' by (simp add: tl)
  with alloy_lawsD(6) [OF assms] show ?thesis
    by (cases e; cases e') (simp_all add: tl archive_keys)
qed

text \<open>
  No two entries of the archive share a key: block, hash, receipts and traces entries of
  any block numbers and hashes, and the four progress markers, are kept under different keys.
\<close>

theorem entry_key_injective:
  assumes "alloy_laws A"
  shows "inj (entry_key A (BlockDataArchive_new st))"
  using entry_key_eq_iff [OF assms] by (auto simp: inj_def)

lemma entry_key_injective_witness:
  "inj (entry_key sample_alloy (BlockDataArchive_new (MemoryStorage [])))"
  by (rule entry_key_injective [OF sample_alloy_laws])

section \<open>Sources of one chain\<close>

lemma bda_store_new [simp]: "bda_store (BlockDataArchive_new st) = st"
  by (simp add: BlockDataArchive_new_def)

text \<open>
  A source serves one chain: block \<open>n\<close> is \<open>blk n\<close>, its receipts \<open>rcp n\<close>, its traces \<open>trc n\<close>.
  A read may fail; it does not write to the stores (\<open>kv\<close>).
\<close>

locale chain_source =
  fixes winv :: "'w \<Rightarrow> bool" and kv :: "'w \<Rightarrow> string \<rightharpoonup> bytes"
    and rd :: "('w, 'h, 't, 'r, 'wd) block_data_reader"
    and blk :: "u64 \<Rightarrow> ('h, 't, 'wd) block" and rcp :: "u64 \<Rightarrow> 'r block_receipts" and trc :: "u64 \<Rightarrow> block_traces"
  assumes src_block: "winv w \<Longrightarrow> br_get_block_by_number rd n w = (rb, w') \<Longrightarrow>
      winv w' \<and> kv w' = kv w \<and> (\<forall>b. rb = Inr b \<longrightarrow> b = blk n)"
    and src_receipts: "winv w \<Longrightarrow> br_get_block_receipts rd n w = (rr, w') \<Longrightarrow>
      winv w' \<and> kv w' = kv w \<and> (\<forall>b. rr = Inr b \<longrightarrow> b = rcp n)"
    and src_traces: "winv w \<Longrightarrow> br_get_block_traces rd n w = (rt, w') \<Longrightarrow>
      winv w' \<and> kv w' = kv w \<and> (\<forall>b. rt = Inr b \<longrightarrow> b = trc n)"
    and src_data: "winv w \<Longrightarrow> br_get_block_data_with_offsets rd n w = (ro, w') \<Longrightarrow>
      winv w' \<and> kv w' = kv w \<and>
      (\<forall>d. ro = Inr d \<longrightarrow> bd_block d = blk n \<and> bd_receipts d = rcp n \<and> bd_traces d = trc n)"
    and src_latest: "winv w \<Longrightarrow> br_get_latest rd k w = (rl, w') \<Longrightarrow> winv w' \<and> kv w' = kv w"

text \<open>An archive whose content is the chain's.\<close>

definition archive_faithful ::
  "('h, 't, 'r, 'wd) alloy \<Rightarrow> 'w block_data_archive \<Rightarrow> (u64 \<Rightarrow> ('h, 't, 'wd) block) \<Rightarrow> (u64 \<Rightarrow> 'r block_receipts)
     \<Rightarrow> (u64 \<Rightarrow> block_traces) \<Rightarrow> (string \<rightharpoonup> bytes) \<Rightarrow> bool" where
  "archive_faithful A ar blk rcp trc m \<longleftrightarrow> (\<forall>n v.
     (m (block_key ar n) = Some v \<longrightarrow> v = BlockStorageRepr_encode A (BlockV1 (blk n))) \<and>
     (m (receipts_key ar n) = Some v \<longrightarrow> v = ReceiptStorageRepr_encode A (ReceiptV1 (rcp n))) \<and>
     (m (traces_key ar n) = Some v \<longrightarrow> v = al_encode_traces A (trc n)))"

context kv_reading
begin

lemma read_entry_spec:
  assumes "winv w" "read_entry ctx st k dec w = (r, w')"
  shows "winv w' \<and> kv w' = kv w \<and> (\<forall>x. r = Inr x \<longrightarrow> map_transpose dec (kv w k) = Inr x)"
  using assms(2) [unfolded read_entry_def]
proof (cases rule: io_bind_cases)
  case (fail e)
  then obtain r1 where "kv_get st k w = (r1, w')" by (auto simp: io_wrap_err_iff)
  from get [OF assms(1) this] fail(2) show ?thesis by simp
next
  case (ok v w1)
  then have "kv_get st k w = (Inr v, w1)"
    by (auto simp: io_wrap_err_iff dest: sym [of "Inr v"])
  from get [OF assms(1) this] ok(2) show ?thesis by auto
qed

lemma or_missing_spec:
  assumes "\<And>r w'. f w = (r, w') \<Longrightarrow> winv w' \<and> kv w' = kv w \<and> (\<forall>x. r = Inr x \<longrightarrow> P x)"
    and "or_missing m f w = (r, w')"
  shows "winv w' \<and> kv w' = kv w \<and> (\<forall>x. r = Inr x \<longrightarrow> P (Some x))"
  using assms(2) [unfolded or_missing_def]
  by (cases rule: io_bind_cases) (use assms(1) in auto)

lemma get_wrapped:
  assumes "winv w" "io_wrap_err m (kv_get st k) w = (r, w')"
  shows "winv w' \<and> kv w' = kv w \<and> (\<forall>v. r = Inr v \<longrightarrow> v = kv w k)"
proof -
  obtain r1 where "kv_get st k w = (r1, w')" "r = wrap_err m r1"
    using assms(2) by (auto simp: io_wrap_err_iff)
  with get [OF assms(1), of k r1 w'] show ?thesis by (auto dest: sym [of "Inr _"])
qed

text \<open>An entry whose stored value, if there is one, decodes to \<open>x0\<close>, is read as \<open>x0\<close> or not at all.\<close>

lemma fetch_entry:
  assumes "winv w" "or_missing m (read_entry ctx st k dec) w = (r, w')"
    and "\<And>v x. kv w k = Some v \<Longrightarrow> dec v = Inr x \<Longrightarrow> x = x0"
  shows "winv w' \<and> kv w' = kv w \<and> (\<forall>x. r = Inr x \<longrightarrow> x = x0)"
proof -
  have "winv w' \<and> kv w' = kv w \<and> (\<forall>x. r = Inr x \<longrightarrow> map_transpose dec (kv w k) = Inr (Some x))"
    by (rule or_missing_spec [OF read_entry_spec [OF assms(1)] assms(2)])
  then show ?thesis
    using assms(3) by (cases "kv w k") (auto simp: map_transpose_def res_bind_Inr_iff)
qed

end

text \<open>
  Reading from an archive with the chain's content serves the chain, provided its blocks carry
  withdrawals, which the stored version 1 fills in.
\<close>

lemma archive_faithful_decodes:
  assumes "archive_faithful A ar blk rcp trc m" "alloy_laws A" "\<And>n. blk_withdrawals (blk n) \<noteq> None"
  shows "m (block_key ar n) = Some v \<Longrightarrow> BlockStorageRepr_decode_and_convert A v = Inr (blk n)"
    and "m (receipts_key ar n) = Some v \<Longrightarrow> ReceiptStorageRepr_decode_and_convert A v = Inr (rcp n)"
    and "m (traces_key ar n) = Some v \<Longrightarrow> al_decode_traces A v = Inr (trc n)"
proof -
  note f = assms(1) [unfolded archive_faithful_def, rule_format, of n v]
  show "m (block_key ar n) = Some v \<Longrightarrow> BlockStorageRepr_decode_and_convert A v = Inr (blk n)"
    using f decode_and_convert_encode [OF assms(2), of "BlockV1 (blk n)"] assms(3) [of n]
    by (simp del: BlockStorageRepr_encode.simps)
  show "m (receipts_key ar n) = Some v \<Longrightarrow> ReceiptStorageRepr_decode_and_convert A v = Inr (rcp n)"
    using f receipts_decode_encode [OF assms(2), of "ReceiptV1 (rcp n)"]
    by (simp del: ReceiptStorageRepr_encode.simps)
  show "m (traces_key ar n) = Some v \<Longrightarrow> al_decode_traces A v = Inr (trc n)"
    using f alloy_decodes(5) [OF assms(2), of "trc n"] by simp
qed

lemma archive_reader_serves:
  fixes st :: "'w kv_store"
  assumes "kv_reading st winv kv" "alloy_laws A"
    and faith: "\<And>w. winv w \<Longrightarrow> archive_faithful A (BlockDataArchive_new st) blk rcp trc (kv w)"
    and withdrawals: "\<And>n. blk_withdrawals (blk n) \<noteq> None"
  shows "chain_source winv kv (archive_reader A (BlockDataArchive_new st)) blk rcp trc"
proof -
  let ?ar = "BlockDataArchive_new st"
  note fetch = kv_reading.fetch_entry [OF assms(1)] and got = kv_reading.get_wrapped [OF assms(1)]
  note dec = archive_faithful_decodes [OF faith assms(2) withdrawals]
  note tries = archive_try_get_block_by_number_def archive_try_get_block_receipts_def archive_try_get_block_traces_def
  show ?thesis
  proof
    fix w n w' k
    assume w: "winv w"
    show "winv w' \<and> kv w' = kv w \<and> (\<forall>b. r = Inr b \<longrightarrow> b = blk n)"
      if "br_get_block_by_number (archive_reader A ?ar) n w = (r, w')" for r
      by (rule fetch [OF w that [simplified archive_reader_def tries, simplified]]) (simp add: dec(1) [OF w])
    show "winv w' \<and> kv w' = kv w \<and> (\<forall>b. r = Inr b \<longrightarrow> b = rcp n)"
      if "br_get_block_receipts (archive_reader A ?ar) n w = (r, w')" for r
      by (rule fetch [OF w that [simplified archive_reader_def tries, simplified]]) (simp add: dec(2) [OF w])
    show "winv w' \<and> kv w' = kv w \<and> (\<forall>b. r = Inr b \<longrightarrow> b = trc n)"
      if "br_get_block_traces (archive_reader A ?ar) n w = (r, w')" for r
      by (rule fetch [OF w that [simplified archive_reader_def tries, simplified]]) (simp add: dec(3) [OF w])
    show "winv w' \<and> kv w' = kv w" if "br_get_latest (archive_reader A ?ar) k w = (r, w')" for r
      using kv_reading.read_entry_spec [OF assms(1) w that [simplified archive_reader_def, simplified, unfolded archive_get_latest_def bda_store_new]]
      by simp
    show "winv w' \<and> kv w' = kv w \<and>
        (\<forall>d. r = Inr d \<longrightarrow> bd_block d = blk n \<and> bd_receipts d = rcp n \<and> bd_traces d = trc n)"
      if read: "br_get_block_data_with_offsets (archive_reader A ?ar) n w = (r, w')" for r
      using read [simplified archive_reader_def, simplified,
        unfolded archive_get_block_data_with_offsets_def Let_def bda_store_new]
    proof (cases rule: io_bind_cases)
      case (fail e)
      from got [OF w fail(1)] fail(2) show ?thesis by simp
    next
      case (ok b w1)
      note 1 = got [OF w ok(1)]
      from ok(2) show ?thesis
      proof (cases rule: io_bind_cases)
        case (fail e)
        with 1 got [OF _ fail(1)] show ?thesis by simp
      next
        case (ok t w2)
        have 2: "winv w2 \<and> kv w2 = kv w \<and> t = kv w (traces_key ?ar n)" using 1 got [OF _ ok(1)] by simp
        from ok(2) show ?thesis
        proof (cases rule: io_bind_cases)
          case (fail e)
          with 2 got [OF _ fail(1)] show ?thesis by simp
        next
          case (ok rr w3)
          have 3: "winv w3 \<and> kv w3 = kv w \<and> rr = kv w (receipts_key ?ar n)" using 2 got [OF _ ok(1)] by simp
          from ok(2) 1 2 3 show ?thesis
            using dec [OF w, of n]
            by (auto simp: res_bind_Inr_iff ok_or_def split: option.splits)
        qed
      qed
    qed
  qed
qed

end
