(* ===== verification/Archive_Worker.thy ===== *)
theory Archive_Worker
  imports Block_Archive
begin

text \<open>
  The archiver (\<open>bin/monad-archiver/block\_archive\_worker.rs\<close>): it copies block, receipts and
  traces of each block from a source to the archive and checkpoints its progress.  The blocks
  of one iteration run concurrently in the program; here they run in order, and the first
  failure in order ends the iteration, which is what the ordered stream reports.
\<close>

section \<open>Options\<close>

record archive_worker_opts =
  max_blocks_per_iteration :: u64
  max_concurrent_blocks :: nat
  stop_block :: "u64 option"
  unsafe_skip_bad_blocks :: bool
  require_traces :: bool
  traces_only :: bool
  async_backfill :: bool
  blocks_write_policy :: write_policy
  receipts_write_policy :: write_policy
  traces_write_policy :: write_policy

definition worker_latest_kind :: "archive_worker_opts \<Rightarrow> latest_kind" where
  "worker_latest_kind opts = (if async_backfill opts then UploadedAsyncBackfill else Uploaded)"

section \<open>One block\<close>

text \<open>A read from the primary source, or from the fallback when that fails and there is one.\<close>

definition read_or_fallback ::
  "(('w, 'h, 't, 'r, 'wd) block_data_reader \<Rightarrow> ('w, 'a) eyre_io) \<Rightarrow> ('w, 'h, 't, 'r, 'wd) block_data_reader
     \<Rightarrow> ('w, 'h, 't, 'r, 'wd) block_data_reader option \<Rightarrow> ('w, 'a) eyre_io" where
  "read_or_fallback f rd fb =
     io_catch (f rd) (\<lambda>ms. case fb of None \<Rightarrow> io_lift (Inl (Report ms)) | Some b \<Rightarrow> f b)"

definition copy_block ::
  "('h, 't, 'r, 'wd) alloy \<Rightarrow> archive_worker_opts \<Rightarrow> ('w, 'h, 't, 'r, 'wd) block_data_reader
     \<Rightarrow> ('w, 'h, 't, 'r, 'wd) block_data_reader option \<Rightarrow> 'w block_data_archive \<Rightarrow> u64 \<Rightarrow> ('w, unit) eyre_io" where
  "copy_block A opts rd fb ar n =
     (if traces_only opts then io_lift (Inr ())
      else io_bind (read_or_fallback (\<lambda>s. br_get_block_by_number s n) rd fb)
             (\<lambda>block. archive_block A ar block (blocks_write_policy opts)))"

definition copy_receipts ::
  "('h, 't, 'r, 'wd) alloy \<Rightarrow> archive_worker_opts \<Rightarrow> ('w, 'h, 't, 'r, 'wd) block_data_reader
     \<Rightarrow> ('w, 'h, 't, 'r, 'wd) block_data_reader option \<Rightarrow> 'w block_data_archive \<Rightarrow> u64 \<Rightarrow> ('w, unit) eyre_io" where
  "copy_receipts A opts rd fb ar n =
     (if traces_only opts then io_lift (Inr ())
      else io_bind (read_or_fallback (\<lambda>s. br_get_block_receipts s n) rd fb)
             (\<lambda>receipts. archive_receipts A ar receipts n (receipts_write_policy opts)))"

definition copy_traces ::
  "('h, 't, 'r, 'wd) alloy \<Rightarrow> archive_worker_opts \<Rightarrow> ('w, 'h, 't, 'r, 'wd) block_data_reader
     \<Rightarrow> ('w, 'h, 't, 'r, 'wd) block_data_reader option \<Rightarrow> 'w block_data_archive \<Rightarrow> u64 \<Rightarrow> ('w, unit) eyre_io" where
  "copy_traces A opts rd fb ar n =
     io_bind (read_or_fallback (\<lambda>s. br_get_block_traces s n) rd fb)
       (\<lambda>traces. archive_traces A ar traces n (traces_write_policy opts))"

text \<open>The three copies are joined: all run, then their results are looked at in order.\<close>

definition worker_archive_block ::
  "('h, 't, 'r, 'wd) alloy \<Rightarrow> archive_worker_opts \<Rightarrow> ('w, 'h, 't, 'r, 'wd) block_data_reader
     \<Rightarrow> ('w, 'h, 't, 'r, 'wd) block_data_reader option \<Rightarrow> 'w block_data_archive \<Rightarrow> u64 \<Rightarrow> ('w, unit) eyre_io" where
  "worker_archive_block A opts rd fb ar n =
     io_bind (io_try (copy_block A opts rd fb ar n)) (\<lambda>block.
     io_bind (io_try (copy_receipts A opts rd fb ar n)) (\<lambda>receipts.
     io_bind (io_try (copy_traces A opts rd fb ar n)) (\<lambda>traces.
     io_lift
       (case (block, receipts, traces) of
          (Inl ms, _, _) \<Rightarrow> Inl (Report ms)
        | (Inr _, Inl ms, _) \<Rightarrow> Inl (Report ms)
        | (Inr _, Inr _, Inl ms) \<Rightarrow>
            if require_traces opts \<or> traces_only opts
            then Inl (Report (''Archiver requires traces to be present for all blocks'' # ms))
            else Inr ()
        | (Inr _, Inr _, Inr _) \<Rightarrow> Inr ()))))"

section \<open>A range of blocks\<close>

text \<open>Blocks in order up to the first failure, whose number is the result.\<close>

fun archive_range ::
  "('h, 't, 'r, 'wd) alloy \<Rightarrow> archive_worker_opts \<Rightarrow> ('w, 'h, 't, 'r, 'wd) block_data_reader
     \<Rightarrow> ('w, 'h, 't, 'r, 'wd) block_data_reader option \<Rightarrow> 'w block_data_archive \<Rightarrow> u64 list
     \<Rightarrow> ('w, u64 option) eyre_io" where
  "archive_range A opts rd fb ar [] = io_lift (Inr None)"
| "archive_range A opts rd fb ar (n # ns) =
     io_bind (io_try (worker_archive_block A opts rd fb ar n)) (\<lambda>r.
       case r of
         Inr _ \<Rightarrow> archive_range A opts rd fb ar ns
       | Inl _ \<Rightarrow> if unsafe_skip_bad_blocks opts then archive_range A opts rd fb ar ns
                   else io_lift (Inr (Some n)))"

definition range_inclusive :: "u64 \<Rightarrow> u64 \<Rightarrow> u64 list" where
  "range_inclusive s e = map of_nat [unat s ..< Suc (unat e)]"

definition checkpoint_latest :: "'w block_data_archive \<Rightarrow> u64 \<Rightarrow> latest_kind \<Rightarrow> ('w, unit) eyre_io" where
  "checkpoint_latest ar n kind = io_bind (io_try (update_latest ar n kind)) (\<lambda>_. io_lift (Inr ()))"

definition archive_blocks ::
  "('h, 't, 'r, 'wd) alloy \<Rightarrow> archive_worker_opts \<Rightarrow> ('w, 'h, 't, 'r, 'wd) block_data_reader
     \<Rightarrow> ('w, 'h, 't, 'r, 'wd) block_data_reader option \<Rightarrow> 'w block_data_archive \<Rightarrow> u64 \<Rightarrow> u64
     \<Rightarrow> ('w, u64) eyre_io" where
  "archive_blocks A opts rd fb ar range_start range_end =
     io_bind (archive_range A opts rd fb ar (range_inclusive range_start range_end)) (\<lambda>res.
     let new_latest_uploaded = (case res of None \<Rightarrow> range_end | Some err_block \<Rightarrow> saturating_sub err_block 1) in
     if new_latest_uploaded \<noteq> 0 then
       io_bind (checkpoint_latest ar new_latest_uploaded (worker_latest_kind opts))
         (\<lambda>_. io_lift (Inr new_latest_uploaded))
     else io_lift (Inr new_latest_uploaded))"

lemma set_range_inclusive [simp]: "set (range_inclusive s e) = {s..e}"
proof
  show "set (range_inclusive s e) \<subseteq> {s..e}"
  proof
    fix x
    assume "x \<in> set (range_inclusive s e)"
    then obtain i where i: "x = of_nat i" "unat s \<le> i" "i \<le> unat e"
      by (auto simp: range_inclusive_def less_Suc_eq_le)
    moreover have "i < 2 ^ 64" using i(3) unsigned_less [of e, where ?'a = nat] by simp
    ultimately have "unat x = i" by (simp add: unat_of_nat)
    with i show "x \<in> {s..e}" by (simp add: word_le_nat_alt)
  qed
  show "{s..e} \<subseteq> set (range_inclusive s e)"
  proof
    fix x
    assume "x \<in> {s..e}"
    then have "unat x \<in> set [unat s ..< Suc (unat e)]" by (auto simp: word_le_nat_alt)
    then have "(of_nat (unat x) :: u64) \<in> set (range_inclusive s e)"
      unfolding range_inclusive_def set_map by (rule imageI)
    then show "x \<in> set (range_inclusive s e)" by simp
  qed
qed

lemma sorted_range_inclusive: "sorted_wrt (<) (range_inclusive s e)"
proof -
  have "sorted_wrt (\<lambda>i j. (of_nat i :: u64) < of_nat j) [unat s ..< Suc (unat e)]"
  proof (rule sorted_wrt_mono_rel [OF _ sorted_wrt_upt])
    fix i j :: nat
    assume "i \<in> set [unat s ..< Suc (unat e)]" "j \<in> set [unat s ..< Suc (unat e)]" "i < j"
    then have "j < 2 ^ 64" "i < 2 ^ 64" using unsigned_less [of e, where ?'a = nat] by auto
    with \<open>i < j\<close> show "(of_nat i :: u64) < of_nat j" by (simp add: word_less_nat_alt unat_of_nat)
  qed
  then show ?thesis by (simp add: range_inclusive_def sorted_wrt_map)
qed

text \<open>The blocks before the one at which a range broke off.\<close>

lemma range_split:
  assumes "range_inclusive s e = ps @ x # qs"
  shows "set ps = {s..<x}" "s \<le> x" "x \<le> e"
proof -
  have sorted: "\<forall>p \<in> set ps. p < x" "\<forall>q \<in> set qs. x < q"
    using sorted_range_inclusive [of s e] by (auto simp: assms sorted_wrt_append)
  have all: "set ps \<union> {x} \<union> set qs = {s..e}" using set_range_inclusive [of s e] assms by auto
  then show "s \<le> x" "x \<le> e" by auto
  with sorted all show "set ps = {s..<x}" by fastforce
qed

section \<open>The worker loop\<close>

definition next_start :: "u64 \<Rightarrow> u64" where
  "next_start latest = (if latest = 0 then 0 else latest + 1)"

text \<open>Start: the stored marker, zero when it is missing or cannot be read.\<close>

definition archive_worker_init ::
  "archive_worker_opts \<Rightarrow> 'w block_data_archive \<Rightarrow> ('w, u64) eyre_io" where
  "archive_worker_init opts ar =
     io_bind (io_try (archive_get_latest ar (worker_latest_kind opts))) (\<lambda>r.
       io_lift (Inr (next_start
         (case r of Inl _ \<Rightarrow> 0 | Inr None \<Rightarrow> 0 | Inr (Some n) \<Rightarrow> n))))"

text \<open>One turn of the loop from \<open>start_block\<close>: \<open>None\<close> when the worker stops.\<close>

definition archive_worker_turn ::
  "('h, 't, 'r, 'wd) alloy \<Rightarrow> archive_worker_opts \<Rightarrow> ('w, 'h, 't, 'r, 'wd) block_data_reader
     \<Rightarrow> ('w, 'h, 't, 'r, 'wd) block_data_reader option \<Rightarrow> 'w block_data_archive \<Rightarrow> u64
     \<Rightarrow> ('w, u64 option) eyre_io" where
  "archive_worker_turn A opts rd fb ar start_block =
     io_bind (io_try (br_get_latest rd Uploaded)) (\<lambda>r.
       case r of
         Inl _ \<Rightarrow> io_lift (Inr (Some start_block))
       | Inr number \<Rightarrow>
           let latest_source = (case number of None \<Rightarrow> 0 | Some n \<Rightarrow> n) in
           if (case stop_block opts of None \<Rightarrow> False | Some s \<Rightarrow> s < start_block) then io_lift (Inr None)
           else
             let end_block = min latest_source (start_block + max_blocks_per_iteration opts - 1) in
             if end_block < start_block then io_lift (Inr (Some start_block))
             else io_bind (archive_blocks A opts rd fb ar start_block end_block) (\<lambda>latest_uploaded.
                    io_lift (Inr (Some (next_start latest_uploaded)))))"

text \<open>The states of a worker between turns.\<close>

inductive archive_worker_reach ::
  "('h, 't, 'r, 'wd) alloy \<Rightarrow> archive_worker_opts \<Rightarrow> ('w, 'h, 't, 'r, 'wd) block_data_reader
     \<Rightarrow> ('w, 'h, 't, 'r, 'wd) block_data_reader option \<Rightarrow> 'w block_data_archive \<Rightarrow> 'w \<Rightarrow> u64 \<Rightarrow> 'w \<Rightarrow> bool"
  for A opts rd fb ar w0 where
  init: "archive_worker_init opts ar w0 = (Inr start_block, w) \<Longrightarrow>
    archive_worker_reach A opts rd fb ar w0 start_block w"
| turn: "archive_worker_reach A opts rd fb ar w0 start_block w \<Longrightarrow>
    archive_worker_turn A opts rd fb ar start_block w = (Inr (Some next_block), w') \<Longrightarrow>
    archive_worker_reach A opts rd fb ar w0 next_block w'"
| restart: "archive_worker_reach A opts rd fb ar w0 start_block w \<Longrightarrow>
    archive_worker_turn A opts rd fb ar start_block w = (Inl e, w1) \<Longrightarrow>
    archive_worker_init opts ar w1 = (Inr next_block, w') \<Longrightarrow>
    archive_worker_reach A opts rd fb ar w0 next_block w'"

section \<open>What copying keeps\<close>

text \<open>The entries that copying block \<open>n\<close> of the chain writes.\<close>

definition chain_entries ::
  "('h, 't, 'r, 'wd) alloy \<Rightarrow> 'w block_data_archive \<Rightarrow> (u64 \<Rightarrow> ('h, 't, 'wd) block) \<Rightarrow> (u64 \<Rightarrow> 'r block_receipts)
     \<Rightarrow> (u64 \<Rightarrow> block_traces) \<Rightarrow> u64 \<Rightarrow> (string \<times> bytes) set" where
  "chain_entries A ar blk rcp trc n =
     {(block_key ar n, BlockStorageRepr_encode A (BlockV1 (blk n))),
      (archive_block_hash_key A ar (al_hash_slow A (blk_header (blk n))), as_bytes (word_to_string n)),
      (receipts_key ar n, ReceiptStorageRepr_encode A (ReceiptV1 (rcp n))),
      (traces_key ar n, al_encode_traces A (trc n))}"

text \<open>One content grows into another by entries of the chain only.\<close>

definition grows ::
  "('h, 't, 'r, 'wd) alloy \<Rightarrow> 'w block_data_archive \<Rightarrow> (u64 \<Rightarrow> ('h, 't, 'wd) block) \<Rightarrow> (u64 \<Rightarrow> 'r block_receipts)
     \<Rightarrow> (u64 \<Rightarrow> block_traces) \<Rightarrow> (string \<rightharpoonup> bytes) \<Rightarrow> (string \<rightharpoonup> bytes) \<Rightarrow> bool" where
  "grows A ar blk rcp trc m m' \<longleftrightarrow>
     (\<forall>k. m' k = m k \<or> (\<exists>n v. m' k = Some v \<and> (k, v) \<in> chain_entries A ar blk rcp trc n))"

lemma grows_refl [simp]: "grows A ar blk rcp trc m m"
  by (simp add: grows_def)

lemma grows_trans: "grows A ar blk rcp trc a b \<Longrightarrow> grows A ar blk rcp trc b c \<Longrightarrow> grows A ar blk rcp trc a c"
  unfolding grows_def by metis

lemma grows_present: "grows A ar blk rcp trc m m' \<Longrightarrow> m k \<noteq> None \<Longrightarrow> m' k \<noteq> None"
  unfolding grows_def by (metis option.distinct(1))

lemma grows_entry: "(k, v) \<in> chain_entries A ar blk rcp trc n \<Longrightarrow> grows A ar blk rcp trc m (m(k \<mapsto> v))"
  by (auto simp: grows_def)

text \<open>What the worker promises of a block it passed.\<close>

definition block_copied ::
  "('h, 't, 'r, 'wd) alloy \<Rightarrow> archive_worker_opts \<Rightarrow> 'w block_data_archive \<Rightarrow> (u64 \<Rightarrow> ('h, 't, 'wd) block)
     \<Rightarrow> (string \<rightharpoonup> bytes) \<Rightarrow> u64 \<Rightarrow> bool" where
  "block_copied A opts ar blk m n \<longleftrightarrow>
     (\<not> traces_only opts \<longrightarrow>
        m (block_key ar n) \<noteq> None \<and>
        m (archive_block_hash_key A ar (al_hash_slow A (blk_header (blk n)))) \<noteq> None \<and>
        m (receipts_key ar n) \<noteq> None) \<and>
     (require_traces opts \<or> traces_only opts \<longrightarrow> m (traces_key ar n) \<noteq> None)"

lemma block_copied_grows:
  "block_copied A opts ar blk m n \<Longrightarrow> grows A ar blk rcp trc m m' \<Longrightarrow> block_copied A opts ar blk m' n"
  unfolding block_copied_def using grows_present by (metis (no_types, lifting))

text \<open>The blocks up to the progress marker are copied.\<close>

definition marker_sound ::
  "('h, 't, 'r, 'wd) alloy \<Rightarrow> archive_worker_opts \<Rightarrow> 'w block_data_archive \<Rightarrow> (u64 \<Rightarrow> ('h, 't, 'wd) block)
     \<Rightarrow> (string \<rightharpoonup> bytes) \<Rightarrow> bool" where
  "marker_sound A opts ar blk m \<longleftrightarrow> (\<forall>v. m (latest_key ar (worker_latest_kind opts)) = Some v \<longrightarrow>
     (\<exists>n. v = as_bytes (pad_decimal BLOCK_PADDING_WIDTH n) \<and> (\<forall>i \<le> n. block_copied A opts ar blk m i)))"

locale archiver = atomic_kv st winv kv + chain_source winv kv rd blk rcp trc
  for st :: "'w kv_store" and winv :: "'w \<Rightarrow> bool" and kv :: "'w \<Rightarrow> string \<rightharpoonup> bytes"
    and rd :: "('w, 'h, 't, 'r, 'wd) block_data_reader"
    and blk :: "u64 \<Rightarrow> ('h, 't, 'wd) block" and rcp :: "u64 \<Rightarrow> 'r block_receipts" and trc :: "u64 \<Rightarrow> block_traces" +
  fixes A :: "('h, 't, 'r, 'wd) alloy" and opts :: archive_worker_opts
    and fb :: "('w, 'h, 't, 'r, 'wd) block_data_reader option"
  assumes laws: "alloy_laws A"
    and fallback: "fb = Some f \<Longrightarrow> chain_source winv kv f blk rcp trc"
    and numbered: "al_number A (blk_header (blk n)) = n"
    and careful: "\<not> unsafe_skip_bad_blocks opts"
begin

abbreviation "ar \<equiv> BlockDataArchive_new st"

abbreviation "ext \<equiv> grows A ar blk rcp trc"

definition steps_ok :: "('w, 'a) eyre_io \<Rightarrow> ('a \<Rightarrow> (string \<rightharpoonup> bytes) \<Rightarrow> bool) \<Rightarrow> bool" where
  "steps_ok f Q \<longleftrightarrow> (\<forall>w r w'. winv w \<longrightarrow> f w = (r, w') \<longrightarrow>
     winv w' \<and> ext (kv w) (kv w') \<and> (\<forall>a. r = Inr a \<longrightarrow> Q a (kv w')))"

lemma steps_okD:
  assumes "steps_ok f Q" "winv w" "f w = (r, w')"
  shows "winv w'" "ext (kv w) (kv w')" "r = Inr a \<Longrightarrow> Q a (kv w')"
  using assms by (auto simp: steps_ok_def)

lemma steps_lift: "(\<And>m a. r = Inr a \<Longrightarrow> Q a m) \<Longrightarrow> steps_ok (io_lift r) Q"
  by (auto simp: steps_ok_def)

lemma steps_bind:
  assumes f: "steps_ok f P" and g: "\<And>a. steps_ok (g a) (\<lambda>b m. P a m \<longrightarrow> Q b m)"
    and stable: "\<And>a m m'. P a m \<Longrightarrow> ext m m' \<Longrightarrow> P a m'"
  shows "steps_ok (io_bind f g) Q"
  unfolding steps_ok_def
proof (intro allI impI)
  fix w r w'
  assume w: "winv w" "io_bind f g w = (r, w')"
  from w(2) show "winv w' \<and> ext (kv w) (kv w') \<and> (\<forall>a. r = Inr a \<longrightarrow> Q a (kv w'))"
  proof (cases rule: io_bind_cases)
    case (fail e)
    with steps_okD [OF f w(1) fail(1)] show ?thesis by simp
  next
    case (ok a w1)
    note 1 = steps_okD [OF f w(1) ok(1)]
    note 2 = steps_okD [OF g 1(1) ok(2)]
    have "P a (kv w')" using stable [OF 1(3) [OF refl] 2(2)] .
    with 1 2 show ?thesis by (auto intro: grows_trans)
  qed
qed

lemma steps_bind_val:
  assumes f: "steps_ok f (\<lambda>a _. R a)" and g: "\<And>a. R a \<Longrightarrow> steps_ok (g a) Q"
  shows "steps_ok (io_bind f g) Q"
  unfolding steps_ok_def
proof (intro allI impI)
  fix w r w'
  assume w: "winv w" "io_bind f g w = (r, w')"
  from w(2) show "winv w' \<and> ext (kv w) (kv w') \<and> (\<forall>a. r = Inr a \<longrightarrow> Q a (kv w'))"
  proof (cases rule: io_bind_cases)
    case (fail e)
    with steps_okD [OF f w(1) fail(1)] show ?thesis by simp
  next
    case (ok a w1)
    note 1 = steps_okD [OF f w(1) ok(1)]
    note 2 = steps_okD [OF g [OF 1(3) [OF refl]] 1(1) ok(2)]
    with 1 show ?thesis by (auto intro: grows_trans)
  qed
qed

lemma steps_try:
  assumes "steps_ok f Q"
  shows "steps_ok (io_try f) (\<lambda>r m. case r of Inr a \<Rightarrow> Q a m | Inl _ \<Rightarrow> True)"
  unfolding steps_ok_def
proof (intro allI impI)
  fix w r w'
  assume w: "winv w" "io_try f w = (r, w')"
  from w(2) show "winv w' \<and> ext (kv w) (kv w') \<and>
      (\<forall>a. r = Inr a \<longrightarrow> (case a of Inr a \<Rightarrow> Q a (kv w') | Inl _ \<Rightarrow> True))"
    by (cases rule: io_try_cases) (use steps_okD [OF assms w(1)] in auto)
qed

lemma steps_put:
  assumes "(k, v) \<in> chain_entries A ar blk rcp trc n"
  shows "steps_ok (kv_put st k v p) (\<lambda>_ m. m k \<noteq> None)"
  unfolding steps_ok_def
proof (intro allI impI)
  fix w r w'
  assume "winv w" "kv_put st k v p w = (r, w')"
  from put_cases [OF this] show "winv w' \<and> ext (kv w) (kv w') \<and> (\<forall>a. r = Inr a \<longrightarrow> kv w' k \<noteq> None)"
    using grows_entry [OF assms, of "kv w"] by auto
qed

lemma steps_read:
  assumes "\<And>s w r w'. \<lbrakk>chain_source winv kv s blk rcp trc; winv w; f s w = (r, w')\<rbrakk> \<Longrightarrow>
      winv w' \<and> kv w' = kv w \<and> (\<forall>b. r = Inr b \<longrightarrow> b = x)"
  shows "steps_ok (read_or_fallback f rd fb) (\<lambda>b _. b = x)"
  unfolding steps_ok_def
proof (intro allI impI)
  fix w r w'
  assume w: "winv w" "read_or_fallback f rd fb w = (r, w')"
  from w(2) [unfolded read_or_fallback_def]
  show "winv w' \<and> ext (kv w) (kv w') \<and> (\<forall>b. r = Inr b \<longrightarrow> b = x)"
  proof (cases rule: io_catch_cases)
    case returns
    with assms [OF chain_source_axioms w(1)] show ?thesis by simp
  next
    case (err ms w1)
    have 1: "winv w1 \<and> kv w1 = kv w" using assms [OF chain_source_axioms w(1) err(1)] by simp
    show ?thesis
    proof (cases fb)
      case None
      with err 1 show ?thesis by auto
    next
      case (Some s)
      with err(2) have "f s w1 = (r, w')" by simp
      with assms [OF fallback [OF Some], of w1] 1 show ?thesis by simp
    qed
  qed
qed

lemma steps_entry:
  assumes "(k, v) \<in> chain_entries A ar blk rcp trc n"
  shows "steps_ok (io_bind (kv_put st k v p) (\<lambda>_. io_lift (Inr ()))) (\<lambda>_ m. m k \<noteq> None)"
  by (rule steps_bind [OF steps_put [OF assms]]) (auto intro: steps_lift dest: grows_present)

lemma steps_archive_block:
  "steps_ok (archive_block A ar (blk n) p)
     (\<lambda>_ m. m (block_key ar n) \<noteq> None \<and>
        m (archive_block_hash_key A ar (al_hash_slow A (blk_header (blk n)))) \<noteq> None)"
  unfolding archive_block_def Let_def numbered bda_store_new
proof (rule steps_bind [OF steps_put])
  show "(block_key ar n, BlockStorageRepr_encode A (BlockV1 (blk n))) \<in> chain_entries A ar blk rcp trc n"
    by (simp add: chain_entries_def)
  show "steps_ok (io_bind (kv_put st (archive_block_hash_key A ar (al_hash_slow A (blk_header (blk n))))
      (as_bytes (word_to_string n)) p) (\<lambda>_. io_lift (Inr ())))
      (\<lambda>_ m. m (block_key ar n) \<noteq> None \<longrightarrow> m (block_key ar n) \<noteq> None \<and>
        m (archive_block_hash_key A ar (al_hash_slow A (blk_header (blk n)))) \<noteq> None)"
    using steps_entry [of "archive_block_hash_key A ar (al_hash_slow A (blk_header (blk n)))" "as_bytes (word_to_string n)" n p]
    by (auto simp: chain_entries_def steps_ok_def)
qed (auto dest: grows_present)

lemma steps_copy_block:
  "steps_ok (copy_block A opts rd fb ar n)
     (\<lambda>_ m. traces_only opts \<or> m (block_key ar n) \<noteq> None \<and>
        m (archive_block_hash_key A ar (al_hash_slow A (blk_header (blk n)))) \<noteq> None)"
proof (cases "traces_only opts")
  case True
  then show ?thesis by (simp add: copy_block_def steps_lift)
next
  case False
  have "steps_ok (copy_block A opts rd fb ar n) (\<lambda>_ m. m (block_key ar n) \<noteq> None \<and>
      m (archive_block_hash_key A ar (al_hash_slow A (blk_header (blk n)))) \<noteq> None)"
    unfolding copy_block_def if_not_P [OF False]
    using steps_archive_block [of n "blocks_write_policy opts"]
    by (intro steps_bind_val [OF steps_read [of _ "blk n"]]) (auto dest: chain_source.src_block)
  then show ?thesis by (simp add: steps_ok_def)
qed

lemma steps_copy_receipts:
  "steps_ok (copy_receipts A opts rd fb ar n) (\<lambda>_ m. traces_only opts \<or> m (receipts_key ar n) \<noteq> None)"
proof (cases "traces_only opts")
  case True
  then show ?thesis by (simp add: copy_receipts_def steps_lift)
next
  case False
  have "steps_ok (archive_receipts A ar (rcp n) n p) (\<lambda>_ m. m (receipts_key ar n) \<noteq> None)" for p
    unfolding archive_receipts_def bda_store_new by (rule steps_entry [of _ _ n]) (simp add: chain_entries_def)
  then have "steps_ok (copy_receipts A opts rd fb ar n) (\<lambda>_ m. m (receipts_key ar n) \<noteq> None)"
    unfolding copy_receipts_def if_not_P [OF False]
    by (intro steps_bind_val [OF steps_read [of _ "rcp n"]])
       (auto dest: chain_source.src_receipts)
  then show ?thesis by (simp add: steps_ok_def)
qed

lemma steps_copy_traces:
  "steps_ok (copy_traces A opts rd fb ar n) (\<lambda>_ m. m (traces_key ar n) \<noteq> None)"
proof -
  have "steps_ok (archive_traces A ar (trc n) n p) (\<lambda>_ m. m (traces_key ar n) \<noteq> None)" for p
    unfolding archive_traces_def bda_store_new by (rule steps_entry [of _ _ n]) (simp add: chain_entries_def)
  then show ?thesis
    unfolding copy_traces_def
    by (intro steps_bind_val [OF steps_read [of _ "trc n"]])
       (auto dest: chain_source.src_traces)
qed

text \<open>A block that the worker passes is copied.\<close>

lemma steps_worker_archive_block:
  "steps_ok (worker_archive_block A opts rd fb ar n) (\<lambda>_ m. block_copied A opts ar blk m n)"
  unfolding worker_archive_block_def
proof (rule steps_bind [OF steps_try [OF steps_copy_block]], goal_cases)
  case (1 b)
  show ?case
  proof (rule steps_bind [OF steps_try [OF steps_copy_receipts]], goal_cases)
    case (1 r)
    show ?case
      by (rule steps_bind [OF steps_try [OF steps_copy_traces]])
         (auto intro!: steps_lift simp: block_copied_def dest: grows_present
           split: sum.splits if_splits)
  qed (auto dest: grows_present split: sum.splits)
qed (auto dest: grows_present split: sum.splits)

text \<open>A range: all of it is copied, or all blocks before the one that failed.\<close>

lemma steps_archive_range:
  "steps_ok (archive_range A opts rd fb ar ns)
     (\<lambda>res m. case res of
        None \<Rightarrow> (\<forall>n \<in> set ns. block_copied A opts ar blk m n)
      | Some e \<Rightarrow> \<exists>ps qs. ns = ps @ e # qs \<and> (\<forall>n \<in> set ps. block_copied A opts ar blk m n))"
proof (induction ns)
  case Nil
  show ?case unfolding archive_range.simps by (rule steps_lift) auto
next
  case (Cons n ns)
  show ?case
    unfolding archive_range.simps
  proof (rule steps_bind [OF steps_try [OF steps_worker_archive_block]], goal_cases)
    case (1 r)
    show ?case
    proof (cases r)
      case (Inl ms)
      have "\<exists>ps qs. n # ns = ps @ n # qs \<and> (\<forall>i \<in> set ps. block_copied A opts ar blk m i)" for m
        by (rule exI [of _ "[]"]) simp
      then show ?thesis
        unfolding Inl sum.case if_not_P [OF careful] by (intro steps_lift) auto
    next
      case (Inr u)
      show ?thesis
        unfolding steps_ok_def Inr sum.case
      proof (intro allI impI conjI)
        fix w s w' res
        assume w: "winv w" "archive_range A opts rd fb ar ns w = (s, w')"
        note d = steps_okD [OF Cons.IH w]
        show "winv w'" "ext (kv w) (kv w')" by (fact d)+
        assume "s = Inr res" "block_copied A opts ar blk (kv w') n"
        with d(3) [of res] show "case res of None \<Rightarrow> \<forall>n \<in> set (n # ns). block_copied A opts ar blk (kv w') n
          | Some e \<Rightarrow> \<exists>ps qs. n # ns = ps @ e # qs \<and> (\<forall>n \<in> set ps. block_copied A opts ar blk (kv w') n)"
          by (cases res) (auto, metis append_Cons set_ConsD)
      qed
    qed
  qed (auto dest: block_copied_grows split: sum.splits)
qed

text \<open>
  The invariant between turns: the content of the archive is the chain's, a marker's blocks
  are all copied, and so are the blocks before the next one.
\<close>

abbreviation "faithful \<equiv> archive_faithful A ar blk rcp trc"

abbreviation "marker_ok \<equiv> marker_sound A opts ar blk"

definition worker_inv :: "u64 \<Rightarrow> 'w \<Rightarrow> bool" where
  "worker_inv s w \<longleftrightarrow> winv w \<and> faithful (kv w) \<and> marker_ok (kv w) \<and>
     (\<forall>i < s. block_copied A opts ar blk (kv w) i)"

lemmas key_eqs = entry_key_eq_iff [OF laws, where st = st]

lemma entries_at:
  "(latest_key ar k, v) \<notin> chain_entries A ar blk rcp trc n'"
  "(block_key ar n, v) \<in> chain_entries A ar blk rcp trc n' \<Longrightarrow> v = BlockStorageRepr_encode A (BlockV1 (blk n))"
  "(receipts_key ar n, v) \<in> chain_entries A ar blk rcp trc n' \<Longrightarrow> v = ReceiptStorageRepr_encode A (ReceiptV1 (rcp n))"
  "(traces_key ar n, v) \<in> chain_entries A ar blk rcp trc n' \<Longrightarrow> v = al_encode_traces A (trc n)"
  using key_eqs [of "LatestEntry k" "BlockEntry n'"] key_eqs [of "LatestEntry k" "ReceiptsEntry n'"]
    key_eqs [of "LatestEntry k" "TracesEntry n'"] key_eqs [of "BlockEntry n" "BlockEntry n'"]
    key_eqs [of "BlockEntry n" "ReceiptsEntry n'"] key_eqs [of "BlockEntry n" "TracesEntry n'"]
    key_eqs [of "ReceiptsEntry n" "BlockEntry n'"] key_eqs [of "ReceiptsEntry n" "ReceiptsEntry n'"]
    key_eqs [of "ReceiptsEntry n" "TracesEntry n'"] key_eqs [of "TracesEntry n" "BlockEntry n'"]
    key_eqs [of "TracesEntry n" "ReceiptsEntry n'"] key_eqs [of "TracesEntry n" "TracesEntry n'"]
    key_eqs [of "LatestEntry k" "HashEntry (al_hash_slow A (blk_header (blk n')))"]
    key_eqs [of "BlockEntry n" "HashEntry (al_hash_slow A (blk_header (blk n')))"]
    key_eqs [of "ReceiptsEntry n" "HashEntry (al_hash_slow A (blk_header (blk n')))"]
    key_eqs [of "TracesEntry n" "HashEntry (al_hash_slow A (blk_header (blk n')))"]
  by (auto simp: chain_entries_def)

lemma grows_at:
  assumes "ext m m'"
  shows "m' k = m k \<or> (\<exists>n v. m' k = Some v \<and> (k, v) \<in> chain_entries A ar blk rcp trc n)"
  using assms by (simp add: grows_def)

lemma marker_grows: "marker_ok m \<Longrightarrow> ext m m' \<Longrightarrow> marker_ok m'"
  using grows_at [of m m' "latest_key ar (worker_latest_kind opts)"] entries_at(1) block_copied_grows
  unfolding marker_sound_def by metis

lemma faithful_grows: "faithful m \<Longrightarrow> ext m m' \<Longrightarrow> faithful m'"
proof -
  assume m: "faithful m" "ext m m'"
  show "faithful m'"
    unfolding archive_faithful_def
  proof (intro allI conjI impI)
    fix n v
    show "m' (block_key ar n) = Some v \<Longrightarrow> v = BlockStorageRepr_encode A (BlockV1 (blk n))"
      using grows_at [OF m(2), of "block_key ar n"] m(1) entries_at(2) [of n] by (auto simp: archive_faithful_def)
    show "m' (receipts_key ar n) = Some v \<Longrightarrow> v = ReceiptStorageRepr_encode A (ReceiptV1 (rcp n))"
      using grows_at [OF m(2), of "receipts_key ar n"] m(1) entries_at(3) [of n] by (auto simp: archive_faithful_def)
    show "m' (traces_key ar n) = Some v \<Longrightarrow> v = al_encode_traces A (trc n)"
      using grows_at [OF m(2), of "traces_key ar n"] m(1) entries_at(4) [of n] by (auto simp: archive_faithful_def)
  qed
qed

lemma worker_inv_grows: "worker_inv s w \<Longrightarrow> winv w' \<Longrightarrow> ext (kv w) (kv w') \<Longrightarrow> worker_inv s w'"
  unfolding worker_inv_def using marker_grows faithful_grows block_copied_grows by blast

text \<open>Writing a marker whose blocks are copied.\<close>

lemma latest_neq:
  "block_key ar n \<noteq> latest_key ar k" "receipts_key ar n \<noteq> latest_key ar k" "traces_key ar n \<noteq> latest_key ar k"
  using key_eqs [of "BlockEntry n" "LatestEntry k"] key_eqs [of "ReceiptsEntry n" "LatestEntry k"]
    key_eqs [of "TracesEntry n" "LatestEntry k"] by simp_all

lemma faithful_latest: "faithful m \<Longrightarrow> faithful (m(latest_key ar k \<mapsto> v))"
  by (simp add: archive_faithful_def latest_neq)

lemma copied_update: "block_copied A opts ar blk m i \<Longrightarrow> block_copied A opts ar blk (m(k \<mapsto> v)) i"
  by (auto simp: block_copied_def)

lemma checkpoint_inv:
  assumes "worker_inv s w" "\<forall>i \<le> n. block_copied A opts ar blk (kv w) i"
    and "checkpoint_latest ar n (worker_latest_kind opts) w = (r, w')"
  shows "worker_inv s w'"
proof -
  let ?v = "as_bytes (pad_decimal BLOCK_PADDING_WIDTH n)" and ?k = "latest_key ar (worker_latest_kind opts)"
  obtain r1 where 1: "kv_put st ?k ?v AllowOverwrite w = (r1, w')"
    using assms(3) by (auto simp: checkpoint_latest_def update_latest_def io_bind_def io_try_def
        io_catch_def split: prod.splits sum.splits report.splits)
  have w: "winv w" "faithful (kv w)" "marker_ok (kv w)" "\<forall>i < s. block_copied A opts ar blk (kv w) i"
    using assms(1) by (auto simp: worker_inv_def)
  have "worker_inv s v" if "winv v" "kv v = (kv w)(?k \<mapsto> ?v)" for v
    unfolding worker_inv_def
  proof (intro conjI)
    show "marker_ok (kv v)"
      unfolding that(2) marker_sound_def using assms(2) by (auto intro!: exI [of _ n] copied_update)
  qed (use that w in \<open>simp_all add: faithful_latest copied_update\<close>)
  moreover have "worker_inv s v" if "winv v" "kv v = kv w" for v
    using that w by (auto simp: worker_inv_def)
  ultimately show ?thesis using put_cases [OF w(1) 1] by blast
qed

lemma checkpoint_keeps:
  assumes "worker_inv s w" "checkpoint_latest ar n (worker_latest_kind opts) w = (r, w')"
    and "block_copied A opts ar blk (kv w) i"
  shows "block_copied A opts ar blk (kv w') i"
proof -
  obtain r1 where "kv_put st (latest_key ar (worker_latest_kind opts))
      (as_bytes (pad_decimal BLOCK_PADDING_WIDTH n)) AllowOverwrite w = (r1, w')"
    using assms(2) by (auto simp: checkpoint_latest_def update_latest_def io_bind_def io_try_def
        io_catch_def split: prod.splits sum.splits report.splits)
  then show ?thesis using put_cases assms(1,3) copied_update unfolding worker_inv_def by metis
qed

lemma next_start_copied:
  assumes "\<forall>i \<le> n. P i" "i < next_start n"
  shows "P i"
proof (cases "n = 0")
  case True
  with assms(2) show ?thesis by (simp add: next_start_def)
next
  case False
  show ?thesis
  proof (cases "n + 1 = 0")
    case True
    with False assms(2) show ?thesis by (simp add: next_start_def)
  next
    case False
    have "i \<le> n"
    proof (rule ccontr)
      assume "\<not> i \<le> n"
      then have "unat n < unat i" by (simp add: word_le_nat_alt)
      moreover have "unat i < unat (n + 1)"
        using assms(2) False by (auto simp: next_start_def word_less_nat_alt split: if_splits)
      moreover have "unat (n + 1) = unat n + 1"
        using False by (metis add.commute unatSuc Suc_eq_plus1)
      ultimately show False by simp
    qed
    with assms(1) show ?thesis by blast
  qed
qed

lemma archive_blocks_inv:
  assumes inv: "worker_inv s w" and run: "archive_blocks A opts rd fb ar s e w = (r, w')" and "s \<le> e"
  shows "winv w' \<and> faithful (kv w') \<and> marker_ok (kv w') \<and> (\<forall>n. r = Inr n \<longrightarrow> worker_inv (next_start n) w')"
proof -
  have w: "winv w" using inv by (simp add: worker_inv_def)
  from run [unfolded archive_blocks_def] show ?thesis
  proof (cases rule: io_bind_cases)
    case (fail err)
    note d = steps_okD [OF steps_archive_range w fail(1)]
    have "worker_inv s w'" by (rule worker_inv_grows [OF inv d(1,2)])
    with fail(2) show ?thesis by (simp add: worker_inv_def)
  next
    case (ok res w1)
    note d = steps_okD [OF steps_archive_range w ok(1)]
    let ?n = "case res of None \<Rightarrow> e | Some err_block \<Rightarrow> saturating_sub err_block 1"
    have inv1: "worker_inv s w1" by (rule worker_inv_grows [OF inv d(1,2)])
    have copied: "\<forall>i \<le> ?n. block_copied A opts ar blk (kv w1) i" if "?n \<noteq> 0"
    proof (intro allI impI)
      fix i
      assume i: "i \<le> ?n"
      show "block_copied A opts ar blk (kv w1) i"
      proof (cases "i < s")
        case True
        with inv1 show ?thesis by (simp add: worker_inv_def)
      next
        case False
        show ?thesis
        proof (cases res)
          case None
          with False i d(3) [OF refl] show ?thesis by (simp add: not_less)
        next
          case (Some x)
          from d(3) [OF refl] Some obtain ps qs where
            ps: "range_inclusive s e = ps @ x # qs" "\<forall>n \<in> set ps. block_copied A opts ar blk (kv w1) n"
            by auto
          have "x \<noteq> 0" "i \<le> x - 1" using i that Some by (auto simp: saturating_sub_def split: if_splits)
          then have "i < x" by (simp add: word_le_nat_alt word_less_nat_alt unat_sub_one word_unat_eq_iff)
          with False ps(2) range_split(1) [OF ps(1)] show ?thesis by auto
        qed
      qed
    qed
    show ?thesis
    proof (cases "?n = 0")
      case True
      with ok(2) have "r = Inr 0" "w' = w1" by (simp_all add: Let_def)
      with inv1 show ?thesis by (simp add: worker_inv_def next_start_def)
    next
      case False
      with ok(2) obtain r1 where chk: "checkpoint_latest ar ?n (worker_latest_kind opts) w1 = (r1, w')"
        "r = map_sum id (\<lambda>_. ?n) r1"
        by (auto simp: Let_def io_bind_def split: prod.splits sum.splits)
      have inv2: "worker_inv s w'" by (rule checkpoint_inv [OF inv1 copied [OF False] chk(1)])
      have "worker_inv (next_start ?n) w'"
      proof -
        have "\<forall>i \<le> ?n. block_copied A opts ar blk (kv w') i"
          using checkpoint_keeps [OF inv1 chk(1)] copied [OF False] by blast
        then show ?thesis using inv2 next_start_copied unfolding worker_inv_def by blast
      qed
      with inv2 chk(2) show ?thesis by (cases r1) (auto simp: worker_inv_def)
    qed
  qed
qed

text \<open>Start and turns keep the invariant.\<close>

lemma init_inv:
  assumes "winv w" "faithful (kv w)" "marker_ok (kv w)" "archive_worker_init opts ar w = (Inr s, w')"
  shows "worker_inv s w'"
proof -
  let ?k = "latest_key ar (worker_latest_kind opts)"
  obtain r1 where 1: "kv_get st ?k w = (r1, w')"
    and s: "s = next_start (case r1 of Inr (Some v) \<Rightarrow>
        (case parse_number v of Inr n \<Rightarrow> n | Inl _ \<Rightarrow> 0) | _ \<Rightarrow> 0)"
    using assms(4)
    by (auto simp: archive_worker_init_def archive_get_latest_def read_entry_def io_bind_def io_try_def
        io_catch_def io_wrap_err_def map_transpose_def res_bind_def wrap_err_Inl_iff
        split: prod.splits sum.splits report.splits option.splits)
  have g: "winv w'" "kv w' = kv w" "\<forall>v. r1 = Inr v \<longrightarrow> v = kv w ?k" using get [OF assms(1) 1] by auto
  have "\<forall>i < s. block_copied A opts ar blk (kv w) i"
  proof (cases "\<exists>v. r1 = Inr (Some v)")
    case True
    then obtain v where v: "r1 = Inr (Some v)" "kv w ?k = Some v" using g(3) by auto
    with assms(3) obtain n where n: "v = as_bytes (pad_decimal BLOCK_PADDING_WIDTH n)"
      "\<forall>i \<le> n. block_copied A opts ar blk (kv w) i" by (auto simp: marker_sound_def)
    have "parse_number v = Inr n"
      by (simp add: n(1) parse_number_def from_utf8_as_bytes parse_pad_decimal)
    with v(1) s n(2) show ?thesis using next_start_copied by auto
  next
    case False
    then have "s = 0" using s by (cases r1) (auto simp: next_start_def split: option.splits)
    then show ?thesis by simp
  qed
  with g assms show ?thesis by (simp add: worker_inv_def)
qed

lemma turn_inv:
  assumes inv: "worker_inv s w" and run: "archive_worker_turn A opts rd fb ar s w = (r, w')"
  shows "winv w' \<and> faithful (kv w') \<and> marker_ok (kv w') \<and>
    (\<forall>s'. r = Inr (Some s') \<longrightarrow> worker_inv s' w')"
proof -
  have w: "winv w" using inv by (simp add: worker_inv_def)
  have keep: "worker_inv s v" if "br_get_latest rd Uploaded w = (x, v)" for x v
    using src_latest [OF w that] inv by (simp add: worker_inv_def)
  have base: "winv v \<and> faithful (kv v) \<and> marker_ok (kv v)" if "worker_inv s v" for v
    using that by (simp add: worker_inv_def)
  from run [unfolded archive_worker_turn_def] show ?thesis
  proof (cases rule: io_bind_cases)
    case (fail e)
    from fail(1) obtain x where "br_get_latest rd Uploaded w = (x, w')"
      by (cases rule: io_try_cases) auto
    from base [OF keep [OF this]] fail(2) show ?thesis by simp
  next
    case (ok a w1)
    from ok(1) obtain x where x: "br_get_latest rd Uploaded w = (x, w1)"
      by (cases rule: io_try_cases) auto
    note inv1 = keep [OF x]
    show ?thesis
    proof (cases a)
      case (Inl ms)
      with ok(2) inv1 base [OF inv1] show ?thesis by auto
    next
      case (Inr number)
      let ?latest = "case number of None \<Rightarrow> 0 | Some n \<Rightarrow> n"
      let ?e = "min ?latest (s + max_blocks_per_iteration opts - 1)"
      consider (idle) "r = Inr None \<or> r = Inr (Some s)" "w' = w1"
        | (work) "s \<le> ?e" "io_bind (archive_blocks A opts rd fb ar s ?e)
            (\<lambda>n. io_lift (Inr (Some (next_start n)))) w1 = (r, w')"
        using ok(2) Inr by (auto simp: Let_def not_less split: if_splits)
      then show ?thesis
      proof cases
        case idle
        with inv1 base [OF inv1] show ?thesis by auto
      next
        case work
        from work(2) show ?thesis
        proof (cases rule: io_bind_cases)
          case (fail err)
          with archive_blocks_inv [OF inv1 fail(1) work(1)] show ?thesis by simp
        next
          case (ok n w2)
          with archive_blocks_inv [OF inv1 ok(1) work(1)] show ?thesis by auto
        qed
      qed
    qed
  qed
qed

lemma reach_inv:
  assumes "archive_worker_reach A opts rd fb ar w0 s w" "winv w0" "faithful (kv w0)" "marker_ok (kv w0)"
  shows "worker_inv s w"
  using assms
  by (induction rule: archive_worker_reach.induct) (auto dest: init_inv turn_inv)

end

end
