(* ===== verification/Triedb_Reader.thy ===== *)
theory Triedb_Reader
  imports Block_Archive
begin

text \<open>
  Reading block data from the execution database (\<open>kvstore/triedb\_reader.rs\<close>).  The database
  is not part of the repository: its reads are the fields of \<open>triedb\<close>.
\<close>

record ('w, 'h, 't, 'r) triedb =
  tdb_latest_finalized :: "'w \<Rightarrow> u64 \<times> 'w"
  tdb_block_number_by_hash :: "u64 \<Rightarrow> b256 \<Rightarrow> ('w, u64 option) eyre_io"
  tdb_block_header :: "u64 \<Rightarrow> ('w, 'h option) eyre_io"
  tdb_transactions :: "u64 \<Rightarrow> ('w, 't tx_envelope_with_sender list) eyre_io"
  tdb_receipts :: "u64 \<Rightarrow> ('w, 'r block_receipts) eyre_io"
  tdb_call_frames :: "u64 \<Rightarrow> ('w, block_traces) eyre_io"

text \<open>\<open>map_err(|e| eyre!(..))\<close>: a new report in place of the database's error.\<close>

definition io_map_report :: "string \<Rightarrow> ('w, 'a) eyre_io \<Rightarrow> ('w, 'a) eyre_io" where
  "io_map_report m f = io_catch f (\<lambda>_. io_lift (Inl (Report [m])))"

definition triedb_get_latest :: "('w, 'h, 't, 'r) triedb \<Rightarrow> latest_kind \<Rightarrow> ('w, u64 option) eyre_io" where
  "triedb_get_latest db kind w = (let (n, w') = tdb_latest_finalized db w in (Inr (Some n), w'))"

definition triedb_get_block_number_by_hash :: "('w, 'h, 't, 'r) triedb \<Rightarrow> b256 \<Rightarrow> ('w, u64) eyre_io" where
  "triedb_get_block_number_by_hash db h w =
     (let (n, w') = tdb_latest_finalized db w in
      or_missing ''Block number for hash not found in triedb''
        (io_map_report ''triedb error'' (tdb_block_number_by_hash db n h)) w')"

definition triedb_get_block_by_number ::
  "('h, 't, 'r, 'wd) alloy \<Rightarrow> ('w, 'h, 't, 'r) triedb \<Rightarrow> u64 \<Rightarrow> ('w, ('h, 't, 'wd) block) eyre_io" where
  "triedb_get_block_by_number A db n =
     io_bind (or_missing ''Can't find block in triedb''
                (io_map_report ''triedb error'' (tdb_block_header db n))) (\<lambda>header.
     io_bind (io_map_report ''Header exists but not transactions, block might be statesynced''
                (tdb_transactions db n)) (\<lambda>transactions.
     io_lift (Inr \<lparr>blk_header = header, blk_transactions = transactions, blk_ommers = [],
                   blk_withdrawals = Some (al_default_withdrawals A)\<rparr>)))"

definition triedb_get_block_receipts ::
  "('w, 'h, 't, 'r) triedb \<Rightarrow> u64 \<Rightarrow> ('w, 'r block_receipts) eyre_io" where
  "triedb_get_block_receipts db n = io_map_report ''triedb error'' (tdb_receipts db n)"

definition triedb_get_block_traces :: "('w, 'h, 't, 'r) triedb \<Rightarrow> u64 \<Rightarrow> ('w, block_traces) eyre_io" where
  "triedb_get_block_traces db n = io_map_report ''triedb error'' (tdb_call_frames db n)"

definition triedb_get_block_by_hash ::
  "('h, 't, 'r, 'wd) alloy \<Rightarrow> ('w, 'h, 't, 'r) triedb \<Rightarrow> b256 \<Rightarrow> ('w, ('h, 't, 'wd) block) eyre_io" where
  "triedb_get_block_by_hash A db h =
     io_bind (triedb_get_block_number_by_hash db h) (triedb_get_block_by_number A db)"

definition triedb_get_block_data_with_offsets ::
  "('h, 't, 'r, 'wd) alloy \<Rightarrow> ('w, 'h, 't, 'r) triedb \<Rightarrow> u64
     \<Rightarrow> ('w, ('h, 't, 'r, 'wd) block_data_with_offsets) eyre_io" where
  "triedb_get_block_data_with_offsets A db n =
     io_bind (triedb_get_block_by_number A db n) (\<lambda>block.
     io_bind (triedb_get_block_traces db n) (\<lambda>traces.
     io_bind (triedb_get_block_receipts db n) (\<lambda>receipts.
     io_lift (Inr \<lparr>bd_block = block, bd_receipts = receipts, bd_traces = traces, bd_offsets = None\<rparr>))))"

text \<open>The \<open>try\<close> methods never answer \<open>None\<close>: what is missing is an error.\<close>

definition found :: "('w, 'a) eyre_io \<Rightarrow> ('w, 'a option) eyre_io" where
  "found f = io_bind f (\<lambda>x. io_lift (Inr (Some x)))"

definition triedb_reader ::
  "('h, 't, 'r, 'wd) alloy \<Rightarrow> ('w, 'h, 't, 'r) triedb \<Rightarrow> ('w, 'h, 't, 'r, 'wd) block_data_reader" where
  "triedb_reader A db =
     \<lparr>br_get_block_data_with_offsets = triedb_get_block_data_with_offsets A db,
      br_get_latest = triedb_get_latest db,
      br_try_get_block_number_by_hash = (\<lambda>h. found (triedb_get_block_number_by_hash db h)),
      br_get_block_number_by_hash = triedb_get_block_number_by_hash db,
      br_try_get_block_by_hash = (\<lambda>h. found (triedb_get_block_by_hash A db h)),
      br_get_block_by_hash = triedb_get_block_by_hash A db,
      br_try_get_block_by_number = (\<lambda>n. found (triedb_get_block_by_number A db n)),
      br_get_block_by_number = triedb_get_block_by_number A db,
      br_try_get_block_receipts = (\<lambda>n. found (triedb_get_block_receipts db n)),
      br_get_block_receipts = triedb_get_block_receipts db,
      br_try_get_block_traces = (\<lambda>n. found (triedb_get_block_traces db n)),
      br_get_block_traces = triedb_get_block_traces db\<rparr>"

section \<open>The execution database as a source\<close>

text \<open>A read that keeps the stores and can only answer values with \<open>P\<close>.\<close>

definition reads :: "('w \<Rightarrow> bool) \<Rightarrow> ('w \<Rightarrow> 'k) \<Rightarrow> ('w, 'a) eyre_io \<Rightarrow> ('a \<Rightarrow> bool) \<Rightarrow> bool" where
  "reads winv kv f P \<longleftrightarrow> (\<forall>w r w'. winv w \<longrightarrow> f w = (r, w') \<longrightarrow>
     winv w' \<and> kv w' = kv w \<and> (\<forall>a. r = Inr a \<longrightarrow> P a))"

lemma reads_lift: "(\<And>a. r = Inr a \<Longrightarrow> P a) \<Longrightarrow> reads winv kv (io_lift r) P"
  by (auto simp: reads_def)

lemma reads_bind:
  assumes f: "reads winv kv f P" and g: "\<And>a. P a \<Longrightarrow> reads winv kv (g a) Q"
  shows "reads winv kv (io_bind f g) Q"
  unfolding reads_def
proof (intro allI impI)
  fix w r w'
  assume w: "winv w" "io_bind f g w = (r, w')"
  from w(2) show "winv w' \<and> kv w' = kv w \<and> (\<forall>a. r = Inr a \<longrightarrow> Q a)"
  proof (cases rule: io_bind_cases)
    case (fail e)
    with f w(1) show ?thesis by (auto simp: reads_def)
  next
    case (ok a w1)
    with f w(1) have 1: "winv w1" "kv w1 = kv w" "P a" by (auto simp: reads_def)
    with g [OF 1(3)] ok(2) show ?thesis by (auto simp: reads_def)
  qed
qed

lemma reads_map_report: "reads winv kv f P \<Longrightarrow> reads winv kv (io_map_report m f) P"
  unfolding io_map_report_def
  by (auto simp: reads_def io_catch_def split: prod.splits sum.splits report.splits)

lemma reads_or_missing: "reads winv kv f (\<lambda>x. \<forall>a. x = Some a \<longrightarrow> P a) \<Longrightarrow> reads winv kv (or_missing m f) P"
  unfolding or_missing_def by (erule reads_bind) (auto intro!: reads_lift)

text \<open>
  A database of one chain: whatever it answers is the chain's, and reading it does not touch the
  archive's stores.
\<close>

definition triedb_of ::
  "('w \<Rightarrow> bool) \<Rightarrow> ('w \<Rightarrow> string \<rightharpoonup> bytes) \<Rightarrow> ('w, 'h, 't, 'r) triedb \<Rightarrow> (u64 \<Rightarrow> 'h)
     \<Rightarrow> (u64 \<Rightarrow> 't tx_envelope_with_sender list) \<Rightarrow> (u64 \<Rightarrow> 'r block_receipts) \<Rightarrow> (u64 \<Rightarrow> block_traces) \<Rightarrow> bool" where
  "triedb_of winv kv db hdr txs rcp trc \<longleftrightarrow> (\<forall>n.
     reads winv kv (tdb_block_header db n) (\<lambda>x. \<forall>h. x = Some h \<longrightarrow> h = hdr n) \<and>
     reads winv kv (tdb_transactions db n) (\<lambda>x. x = txs n) \<and>
     reads winv kv (tdb_receipts db n) (\<lambda>x. x = rcp n) \<and>
     reads winv kv (tdb_call_frames db n) (\<lambda>x. x = trc n)) \<and>
     (\<forall>w. winv w \<longrightarrow> winv (snd (tdb_latest_finalized db w)) \<and> kv (snd (tdb_latest_finalized db w)) = kv w)"

lemma triedb_ofD:
  assumes "triedb_of winv kv db hdr txs rcp trc"
  shows "reads winv kv (tdb_block_header db n) (\<lambda>x. \<forall>h. x = Some h \<longrightarrow> h = hdr n)"
    and "reads winv kv (tdb_transactions db n) (\<lambda>x. x = txs n)"
    and "reads winv kv (tdb_receipts db n) (\<lambda>x. x = rcp n)"
    and "reads winv kv (tdb_call_frames db n) (\<lambda>x. x = trc n)"
    and "winv w \<Longrightarrow> winv (snd (tdb_latest_finalized db w)) \<and> kv (snd (tdb_latest_finalized db w)) = kv w"
  using assms by (simp_all only: triedb_of_def simp_thms)

lemma chain_sourceI:
  assumes "\<And>n. reads winv kv (br_get_block_by_number rd n) (\<lambda>b. b = blk n)"
    and "\<And>n. reads winv kv (br_get_block_receipts rd n) (\<lambda>x. x = rcp n)"
    and "\<And>n. reads winv kv (br_get_block_traces rd n) (\<lambda>x. x = trc n)"
    and "\<And>n. reads winv kv (br_get_block_data_with_offsets rd n)
           (\<lambda>d. bd_block d = blk n \<and> bd_receipts d = rcp n \<and> bd_traces d = trc n)"
    and "\<And>k. reads winv kv (br_get_latest rd k) (\<lambda>_. True)"
  shows "chain_source winv kv rd blk rcp trc"
proof
  fix w n w' k
  assume w: "winv w"
  show "br_get_block_by_number rd n w = (r, w') \<Longrightarrow> winv w' \<and> kv w' = kv w \<and> (\<forall>b. r = Inr b \<longrightarrow> b = blk n)" for r
    using assms(1) [of n] w unfolding reads_def by blast
  show "br_get_block_receipts rd n w = (r, w') \<Longrightarrow> winv w' \<and> kv w' = kv w \<and> (\<forall>b. r = Inr b \<longrightarrow> b = rcp n)" for r
    using assms(2) [of n] w unfolding reads_def by blast
  show "br_get_block_traces rd n w = (r, w') \<Longrightarrow> winv w' \<and> kv w' = kv w \<and> (\<forall>b. r = Inr b \<longrightarrow> b = trc n)" for r
    using assms(3) [of n] w unfolding reads_def by blast
  show "br_get_block_data_with_offsets rd n w = (r, w') \<Longrightarrow> winv w' \<and> kv w' = kv w \<and>
      (\<forall>d. r = Inr d \<longrightarrow> bd_block d = blk n \<and> bd_receipts d = rcp n \<and> bd_traces d = trc n)" for r
    using assms(4) [of n] w unfolding reads_def by blast
  show "br_get_latest rd k w = (r, w') \<Longrightarrow> winv w' \<and> kv w' = kv w" for r
    using assms(5) [of k] w unfolding reads_def by blast
qed

definition triedb_chain ::
  "('h, 't, 'r, 'wd) alloy \<Rightarrow> (u64 \<Rightarrow> 'h) \<Rightarrow> (u64 \<Rightarrow> 't tx_envelope_with_sender list) \<Rightarrow> u64 \<Rightarrow> ('h, 't, 'wd) block" where
  "triedb_chain A hdr txs n =
     \<lparr>blk_header = hdr n, blk_transactions = txs n, blk_ommers = [],
      blk_withdrawals = Some (al_default_withdrawals A)\<rparr>"

lemma triedb_block_reads:
  assumes "triedb_of winv kv db hdr txs rcp trc"
  shows "reads winv kv (triedb_get_block_by_number A db n) (\<lambda>b. b = triedb_chain A hdr txs n)"
  unfolding triedb_get_block_by_number_def
  by (rule reads_bind [OF reads_or_missing [OF reads_map_report [OF triedb_ofD(1) [OF assms]]]],
      rule reads_bind [OF reads_map_report [OF triedb_ofD(2) [OF assms]]])
     (auto intro!: reads_lift simp: triedb_chain_def)

lemma triedb_serves:
  assumes db: "triedb_of winv kv db hdr txs rcp trc"
  shows "chain_source winv kv (triedb_reader A db) (triedb_chain A hdr txs) rcp trc"
proof -
  note block = triedb_block_reads [OF db]
  have receipts: "reads winv kv (triedb_get_block_receipts db n) (\<lambda>x. x = rcp n)" for n
    unfolding triedb_get_block_receipts_def by (rule reads_map_report [OF triedb_ofD(3) [OF db]])
  have traces: "reads winv kv (triedb_get_block_traces db n) (\<lambda>x. x = trc n)" for n
    unfolding triedb_get_block_traces_def by (rule reads_map_report [OF triedb_ofD(4) [OF db]])
  have data: "reads winv kv (triedb_get_block_data_with_offsets A db n)
      (\<lambda>d. bd_block d = triedb_chain A hdr txs n \<and> bd_receipts d = rcp n \<and> bd_traces d = trc n)" for n
    unfolding triedb_get_block_data_with_offsets_def
    by (rule reads_bind [OF block], rule reads_bind [OF traces], rule reads_bind [OF receipts])
       (auto intro!: reads_lift)
  have "reads winv kv (triedb_get_latest db k) (\<lambda>_. True)" for k
    using triedb_ofD(5) [OF db] by (auto simp: reads_def triedb_get_latest_def case_prod_beta)
  with block receipts traces data show ?thesis
    by (intro chain_sourceI) (simp_all add: triedb_reader_def)
qed

section \<open>An instance\<close>

text \<open>A database of blocks with one transaction each, read without failure.\<close>

definition sample_header :: "u64 \<Rightarrow> u64" where "sample_header n = n"

definition sample_txs :: "u64 \<Rightarrow> u64 tx_envelope_with_sender list" where
  "sample_txs n = [\<lparr>tx_sender = ucast n, tx_envelope = n\<rparr>]"

definition sample_receipts :: "u64 \<Rightarrow> u64 block_receipts" where
  "sample_receipts n = [\<lparr>rcp_receipt = 21000, rcp_starting_log_index = 0\<rparr>]"

definition sample_traces :: "u64 \<Rightarrow> block_traces" where
  "sample_traces n = [[1, 2]]"

definition sample_triedb :: "u64 \<Rightarrow> ('w, u64, u64, u64) triedb" where
  "sample_triedb tip =
     \<lparr>tdb_latest_finalized = (\<lambda>w. (tip, w)),
      tdb_block_number_by_hash = (\<lambda>n h w. (Inr (Some (ucast h)), w)),
      tdb_block_header = (\<lambda>n w. (Inr (Some (sample_header n)), w)),
      tdb_transactions = (\<lambda>n w. (Inr (sample_txs n), w)),
      tdb_receipts = (\<lambda>n w. (Inr (sample_receipts n), w)),
      tdb_call_frames = (\<lambda>n w. (Inr (sample_traces n), w))\<rparr>"

abbreviation sample_source :: "u64 \<Rightarrow> ('w, u64, u64, u64, unit) block_data_reader" where
  "sample_source tip \<equiv> triedb_reader sample_alloy (sample_triedb tip)"

abbreviation sample_chain :: "u64 \<Rightarrow> (u64, u64, unit) block" where
  "sample_chain \<equiv> triedb_chain sample_alloy sample_header sample_txs"

lemma sample_triedb_of: "triedb_of winv kv (sample_triedb tip) sample_header sample_txs
    sample_receipts sample_traces"
  by (simp add: triedb_of_def reads_def sample_triedb_def)

interpretation triedb_source: chain_source memory_ok memory_kv "sample_source tip" sample_chain
    sample_receipts sample_traces
  by (rule triedb_serves [OF sample_triedb_of])

end
