(* ===== verification/Archive_Guarantees.thy ===== *)
theory Archive_Guarantees
  imports Archive_Worker Triedb_Reader
begin

text \<open>
  What the archiver guarantees, for any store and any source that keep their contracts, and an
  instance of those contracts: the reader of the execution database as the source and the
  in-memory store as the archive.
\<close>

section \<open>Progress of the archiver\<close>

text \<open>
  With a source that answers for the blocks up to \<open>tip\<close> and a store that answers every request,
  no turn fails.
\<close>

locale live_archiver = archiver st winv kv rd blk rcp trc A opts fb
  for st :: "'w kv_store" and winv kv and rd :: "('w, 'h, 't, 'r, 'wd) block_data_reader"
    and blk rcp trc A opts fb +
  fixes tip :: u64
  assumes put_ok: "winv w \<Longrightarrow> \<exists>u w'. kv_put st k d p w = (Inr u, w')"
    and latest_ok: "winv w \<Longrightarrow> \<exists>w'. br_get_latest rd Uploaded w = (Inr (Some tip), w')"
    and block_ok: "winv w \<Longrightarrow> n \<le> tip \<Longrightarrow> \<exists>b w'. br_get_block_by_number rd n w = (Inr b, w')"
    and receipts_ok: "winv w \<Longrightarrow> n \<le> tip \<Longrightarrow> \<exists>b w'. br_get_block_receipts rd n w = (Inr b, w')"
    and traces_ok: "winv w \<Longrightarrow> n \<le> tip \<Longrightarrow> \<exists>b w'. br_get_block_traces rd n w = (Inr b, w')"
begin

definition total :: "('w, 'a) eyre_io \<Rightarrow> ('a \<Rightarrow> bool) \<Rightarrow> bool" where
  "total f P \<longleftrightarrow> (\<forall>w. winv w \<longrightarrow> (\<exists>a w'. f w = (Inr a, w') \<and> winv w' \<and> P a))"

lemma total_lift [simp]: "P a \<Longrightarrow> total (io_lift (Inr a)) P"
  by (simp add: total_def)

lemma total_bind:
  assumes "total f P" "\<And>a. P a \<Longrightarrow> total (g a) Q"
  shows "total (io_bind f g) Q"
  unfolding total_def
proof (intro allI impI)
  fix w
  assume "winv w"
  then obtain a w1 where 1: "f w = (Inr a, w1)" "winv w1" "P a" using assms(1) by (auto simp: total_def)
  then obtain b w2 where "g a w1 = (Inr b, w2)" "winv w2" "Q b" using assms(2) by (fastforce simp: total_def)
  with 1 show "\<exists>b w'. io_bind f g w = (Inr b, w') \<and> winv w' \<and> Q b" by (auto simp: io_bind_def)
qed

lemma total_try: "total f P \<Longrightarrow> total (io_try f) (\<lambda>r. \<exists>a. r = Inr a \<and> P a)"
  unfolding total_def io_try_def io_catch_def io_bind_def by fastforce

lemma total_put: "total (kv_put st k d p) (\<lambda>_. True)"
  unfolding total_def using put_ok put by blast

lemma total_stored: "total (io_bind (kv_put st k d p) (\<lambda>_. io_lift (Inr ()))) (\<lambda>_. True)"
  by (rule total_bind [OF total_put]) (rule total_lift, simp)

lemma total_read:
  assumes "\<And>w. winv w \<Longrightarrow> \<exists>b w'. f rd w = (Inr b, w') \<and> winv w'"
  shows "total (read_or_fallback f rd fb) (\<lambda>_. True)"
  unfolding total_def read_or_fallback_def io_catch_def using assms by fastforce

lemma total_copies:
  assumes "n \<le> tip"
  shows "total (copy_block A opts rd fb ar n) (\<lambda>_. True)"
    and "total (copy_receipts A opts rd fb ar n) (\<lambda>_. True)"
    and "total (copy_traces A opts rd fb ar n) (\<lambda>_. True)"
proof -
  have b: "total (read_or_fallback (\<lambda>s. br_get_block_by_number s n) rd fb) (\<lambda>_. True)"
    by (rule total_read) (use block_ok [OF _ assms] src_block in blast)
  have r: "total (read_or_fallback (\<lambda>s. br_get_block_receipts s n) rd fb) (\<lambda>_. True)"
    by (rule total_read) (use receipts_ok [OF _ assms] src_receipts in blast)
  have t: "total (read_or_fallback (\<lambda>s. br_get_block_traces s n) rd fb) (\<lambda>_. True)"
    by (rule total_read) (use traces_ok [OF _ assms] src_traces in blast)
  have "total (archive_block A ar x p) (\<lambda>_. True)" for x p
    unfolding archive_block_def Let_def bda_store_new by (rule total_bind [OF total_put total_stored])
  then show "total (copy_block A opts rd fb ar n) (\<lambda>_. True)"
    by (auto simp: copy_block_def intro!: total_bind [OF b])
  have "total (archive_receipts A ar x n p) (\<lambda>_. True)" for x p
    unfolding archive_receipts_def bda_store_new by (rule total_stored)
  then show "total (copy_receipts A opts rd fb ar n) (\<lambda>_. True)"
    by (auto simp: copy_receipts_def intro!: total_bind [OF r])
  have "total (archive_traces A ar x n p) (\<lambda>_. True)" for x p
    unfolding archive_traces_def bda_store_new by (rule total_stored)
  then show "total (copy_traces A opts rd fb ar n) (\<lambda>_. True)"
    by (auto simp: copy_traces_def intro!: total_bind [OF t])
qed

lemma total_block: "n \<le> tip \<Longrightarrow> total (worker_archive_block A opts rd fb ar n) (\<lambda>_. True)"
  unfolding worker_archive_block_def
  by (rule total_bind [OF total_try [OF total_copies(1)]], assumption,
      rule total_bind [OF total_try [OF total_copies(2)]], assumption,
      rule total_bind [OF total_try [OF total_copies(3)]], assumption)
     (auto intro!: total_lift)

lemma total_range: "\<forall>n \<in> set ns. n \<le> tip \<Longrightarrow> total (archive_range A opts rd fb ar ns) (\<lambda>res. res = None)"
proof (induction ns)
  case (Cons n ns)
  then show ?case
    unfolding archive_range.simps by (intro total_bind [OF total_try [OF total_block]]) auto
qed simp

lemma total_archive_blocks:
  assumes "e \<le> tip"
  shows "total (archive_blocks A opts rd fb ar s e) (\<lambda>n. n = e)"
proof -
  have "total (checkpoint_latest ar n k) (\<lambda>_. True)" for n k
    unfolding checkpoint_latest_def update_latest_def bda_store_new
    by (rule total_bind [OF total_try [OF total_stored]]) (rule total_lift, simp)
  then have "total (io_bind (checkpoint_latest ar n k) (\<lambda>_. io_lift (Inr n))) (\<lambda>m. m = n)" for n k
    by (rule total_bind) (rule total_lift, simp)
  then show ?thesis
    unfolding archive_blocks_def
    by (intro total_bind [OF total_range]) (use assms in \<open>auto simp: Let_def\<close>)
qed

text \<open>A turn with work to do reaches its last block.\<close>

lemma turn_total:
  assumes inv: "worker_inv s w" and work: "s \<le> tip" "0 < max_blocks_per_iteration opts"
      "unat s + unat (max_blocks_per_iteration opts) \<le> 2 ^ 64"
    and go: "\<And>b. stop_block opts = Some b \<Longrightarrow> s \<le> b"
  defines "e \<equiv> min tip (s + max_blocks_per_iteration opts - 1)"
  shows "s \<le> e \<and> (\<exists>w'. archive_worker_turn A opts rd fb ar s w = (Inr (Some (next_start e)), w') \<and>
    worker_inv (next_start e) w')"
proof -
  let ?m = "max_blocks_per_iteration opts"
  have "s \<le> s + ?m - 1"
  proof -
    have "unat (?m - 1) = unat ?m - 1" "0 < unat ?m"
      using work(2) by (simp_all add: unat_minus_one word_less_nat_alt unat_gt_0)
    moreover have "unat (s + (?m - 1)) = unat s + unat (?m - 1)"
      using work(3) calculation by (intro unat_add_small) simp
    ultimately have "s \<le> s + (?m - 1)" by (simp add: word_le_nat_alt)
    then show ?thesis by (simp add: add_diff_eq)
  qed
  with work(1) have se: "s \<le> e" by (simp add: e_def)
  have w: "winv w" using inv by (simp add: worker_inv_def)
  obtain w1 where 1: "br_get_latest rd Uploaded w = (Inr (Some tip), w1)" using latest_ok [OF w] by blast
  then have "winv w1" using src_latest [OF w] by blast
  moreover have "e \<le> tip" by (simp add: e_def)
  ultimately obtain w2 where 2: "archive_blocks A opts rd fb ar s e w1 = (Inr e, w2)"
    using total_archive_blocks [of e s] by (auto simp: total_def)
  have "\<not> (case stop_block opts of None \<Rightarrow> False | Some b \<Rightarrow> b < s)"
    using go by (auto split: option.splits)
  moreover have "\<not> e < s" using se by simp
  ultimately have "archive_worker_turn A opts rd fb ar s w = (Inr (Some (next_start e)), w2)"
    using 1 2 unfolding archive_worker_turn_def e_def
    by (simp add: io_bind_def io_try_def io_catch_def Let_def del: min_less_iff_disj)
  with turn_inv [OF inv] se show ?thesis by blast
qed

end

section \<open>An instance\<close>

definition sample_opts :: archive_worker_opts where
  "sample_opts =
     \<lparr>max_blocks_per_iteration = 3, max_concurrent_blocks = 1, stop_block = None,
      unsafe_skip_bad_blocks = False, require_traces = True, traces_only = False, async_backfill = False,
      blocks_write_policy = NoClobber, receipts_write_policy = NoClobber, traces_write_policy = NoClobber\<rparr>"

abbreviation sample_archive :: "memory_storage block_data_archive" where
  "sample_archive \<equiv> BlockDataArchive_new (MemoryStorage [])"

interpretation memory_archiver: live_archiver "MemoryStorage []" memory_ok memory_kv "sample_source tip"
    sample_chain sample_receipts sample_traces sample_alloy sample_opts None tip
proof -
  have "al_number sample_alloy h = h" for h by (simp add: sample_alloy_def)
  then have "archiver (MemoryStorage []) memory_ok memory_kv (sample_source tip)
      sample_chain sample_receipts sample_traces sample_alloy sample_opts None"
    by (intro archiver.intro archiver_axioms.intro memory_rel.atomic_kv_axioms triedb_source.chain_source_axioms)
       (simp_all add: triedb_chain_def sample_header_def sample_opts_def)
  moreover have "live_archiver_axioms (MemoryStorage []) memory_ok (sample_source tip) tip"
    by (intro live_archiver_axioms.intro memory_rel.put_ok)
       (simp_all add: triedb_reader_def sample_triedb_def triedb_get_latest_def triedb_get_block_by_number_def
         triedb_get_block_receipts_def triedb_get_block_traces_def or_missing_def io_map_report_def io_catch_def
         io_bind_def)
  ultimately show "live_archiver (MemoryStorage []) memory_ok memory_kv (sample_source tip)
      sample_chain sample_receipts sample_traces sample_alloy sample_opts None tip"
    by (rule live_archiver.intro)
qed

section \<open>Properties\<close>

text \<open>
  C2: Whatever sequence of turns and restarts the archiver went through, with reads and writes
  failing at any point, the archive holds nothing but the chain's own encodings under its block,
  receipts and traces keys; every block up to the stored progress marker, and every block before
  the one the worker continues with, has its block, hash and receipts entries, and its traces
  when they are required.
\<close>

theorem archive_worker_sound:
  assumes "archiver st winv kv rd blk rcp trc A opts fb"
    and "archive_worker_reach A opts rd fb (BlockDataArchive_new st) w0 s w"
    and "winv w0" "archive_faithful A (BlockDataArchive_new st) blk rcp trc (kv w0)"
    and "marker_sound A opts (BlockDataArchive_new st) blk (kv w0)"
  shows "archive_faithful A (BlockDataArchive_new st) blk rcp trc (kv w) \<and>
    marker_sound A opts (BlockDataArchive_new st) blk (kv w) \<and>
    (\<forall>i < s. block_copied A opts (BlockDataArchive_new st) blk (kv w) i)"
  using archiver.reach_inv [OF assms] archiver.worker_inv_def [OF assms(1)] by blast

text \<open>A start on an empty store, and the blocks it goes on to copy.\<close>

definition sample_world :: memory_storage where
  "sample_world = MemoryStorage_new []"

lemma sample_world_ok:
  "memory_ok sample_world" "memory_kv sample_world = Map.empty"
  "archive_faithful A ar blk rcp trc Map.empty" "marker_sound A opts ar blk Map.empty"
  by (simp_all add: sample_world_def MemoryStorage_new_def memory_ok_def memory_kv_def archive_faithful_def
      marker_sound_def)

lemma sample_init: "archive_worker_init sample_opts sample_archive sample_world = (Inr 0, sample_world)"
  by (simp add: archive_worker_init_def archive_get_latest_def read_entry_def io_bind_def io_wrap_err_def
      io_try_def io_catch_def MemoryStorage_def MemoryStorage_get_def sample_world_def MemoryStorage_new_def
      next_start_def)

lemma sample_reach:
  "archive_worker_reach sample_alloy sample_opts (sample_source 5) None sample_archive sample_world 0 sample_world"
  by (rule archive_worker_reach.init [OF sample_init])

lemma sample_reach_3:
  obtains w where "archive_worker_reach sample_alloy sample_opts (sample_source 5) None sample_archive sample_world 3 w"
proof -
  have inv: "memory_archiver.worker_inv 0 sample_world"
    by (simp add: memory_archiver.worker_inv_def sample_world_ok)
  have "\<exists>w. archive_worker_turn sample_alloy sample_opts (sample_source 5) None sample_archive 0 sample_world =
      (Inr (Some 3), w)"
    using memory_archiver.turn_total [OF inv, where tip = 5]
    by (auto simp: sample_opts_def next_start_def)
  then show thesis using archive_worker_reach.turn [OF sample_reach] that by blast
qed

lemma archive_worker_sound_witness:
  "\<exists>w. archive_worker_reach sample_alloy sample_opts (sample_source 5) None sample_archive sample_world 3 w \<and>
     (\<forall>i < 3. block_copied sample_alloy sample_opts sample_archive sample_chain (memory_kv w) i)"
proof -
  obtain w where w: "archive_worker_reach sample_alloy sample_opts (sample_source 5) None sample_archive
      sample_world 3 w" by (rule sample_reach_3)
  have "\<forall>i < 3. block_copied sample_alloy sample_opts sample_archive sample_chain (memory_kv w) i"
    using archive_worker_sound [OF memory_archiver.archiver_axioms w] by (simp add: sample_world_ok)
  with w show ?thesis by blast
qed

text \<open>
  C5: When the source answers for the blocks up to its latest one and the store answers every
  request, a turn that has work to do succeeds: it copies every block from the start block to the
  end of its range, stores the marker and moves on to the next block.
\<close>

theorem archive_turn_complete:
  assumes "live_archiver st winv kv rd blk rcp trc A opts fb tip"
    and "winv w" "archive_faithful A (BlockDataArchive_new st) blk rcp trc (kv w)"
    and "marker_sound A opts (BlockDataArchive_new st) blk (kv w)"
    and "\<forall>i < s. block_copied A opts (BlockDataArchive_new st) blk (kv w) i"
    and "s \<le> tip" "0 < max_blocks_per_iteration opts"
    and "unat s + unat (max_blocks_per_iteration opts) \<le> 2 ^ 64"
    and "\<forall>b. stop_block opts = Some b \<longrightarrow> s \<le> b"
  shows "\<exists>e w'. e = min tip (s + max_blocks_per_iteration opts - 1) \<and> s \<le> e \<and>
    archive_worker_turn A opts rd fb (BlockDataArchive_new st) s w = (Inr (Some (next_start e)), w') \<and>
    (\<forall>i < next_start e. block_copied A opts (BlockDataArchive_new st) blk (kv w') i)"
proof -
  have ar: "archiver st winv kv rd blk rcp trc A opts fb" by (rule live_archiver.axioms(1) [OF assms(1)])
  note inv = archiver.worker_inv_def [OF ar]
  have "archiver.worker_inv st winv kv blk rcp trc A opts s w" using assms(2-5) by (simp add: inv)
  from live_archiver.turn_total [OF assms(1) this assms(6-8)] assms(9) show ?thesis
    by (auto simp: inv)
qed

lemma archive_turn_complete_witness:
  "\<exists>w'. archive_worker_turn sample_alloy sample_opts (sample_source 5) None sample_archive 0 sample_world =
      (Inr (Some 3), w') \<and>
    (\<forall>i < 3. block_copied sample_alloy sample_opts sample_archive sample_chain (memory_kv w') i)"
  using archive_turn_complete [OF memory_archiver.live_archiver_axioms, of sample_world 0 5]
  by (auto simp: sample_world_ok sample_opts_def next_start_def)

text \<open>
  C8: A block the archiver has passed is there for readers: the archive reader returns exactly
  the chain's block, and its receipts, for every number below the one the worker continues with.
\<close>

theorem archived_block_readable:
  assumes "archiver st winv kv rd blk rcp trc A opts fb"
    and "archive_worker_reach A opts rd fb (BlockDataArchive_new st) w0 s w"
    and "winv w0" "archive_faithful A (BlockDataArchive_new st) blk rcp trc (kv w0)"
    and "marker_sound A opts (BlockDataArchive_new st) blk (kv w0)"
    and "reliable_kv st winv kv" "\<not> traces_only opts" "blk_withdrawals (blk i) \<noteq> None" "i < s"
  shows "\<exists>w1 w2.
    br_try_get_block_by_number (archive_reader A (BlockDataArchive_new st)) i w = (Inr (Some (blk i)), w1) \<and>
    br_try_get_block_receipts (archive_reader A (BlockDataArchive_new st)) i w = (Inr (Some (rcp i)), w2)"
proof -
  let ?ar = "BlockDataArchive_new st"
  note inv = archiver.reach_inv [OF assms(1-5), unfolded archiver.worker_inv_def [OF assms(1)]]
  have laws: "alloy_laws A" using assms(1) by (simp add: archiver_def archiver_axioms_def)
  have "kv w (block_key ?ar i) = Some (BlockStorageRepr_encode A (BlockV1 (blk i)))"
    "kv w (receipts_key ?ar i) = Some (ReceiptStorageRepr_encode A (ReceiptV1 (rcp i)))"
    using inv assms(7,9) by (auto simp: archive_faithful_def block_copied_def)
  moreover obtain w1 w2 where "kv_get st (block_key ?ar i) w = (Inr (kv w (block_key ?ar i)), w1)"
    "kv_get st (receipts_key ?ar i) w = (Inr (kv w (receipts_key ?ar i)), w2)"
    using reliable_kv.get_total [OF assms(6)] inv by metis
  ultimately show ?thesis
    using assms(8) decode_and_convert_encode [OF laws, of "BlockV1 (blk i)"]
      receipts_decode_encode [OF laws, of "ReceiptV1 (rcp i)"]
    by (simp add: archive_reader_def archive_try_get_block_by_number_def archive_try_get_block_receipts_def
        read_entry_def io_bind_def io_wrap_err_def
        del: BlockStorageRepr_encode.simps ReceiptStorageRepr_encode.simps)
qed

lemma archived_block_readable_witness:
  "\<exists>w w1. archive_worker_reach sample_alloy sample_opts (sample_source 5) None sample_archive sample_world 3 w \<and>
     br_try_get_block_by_number (archive_reader sample_alloy sample_archive) 2 w = (Inr (Some (sample_chain 2)), w1)"
proof -
  obtain w where w: "archive_worker_reach sample_alloy sample_opts (sample_source 5) None sample_archive
      sample_world 3 w" by (rule sample_reach_3)
  have "\<not> traces_only sample_opts" "blk_withdrawals (sample_chain 2) \<noteq> None" "(2 :: u64) < 3"
    by (simp_all add: sample_opts_def triedb_chain_def)
  then show ?thesis
    using archived_block_readable [OF memory_archiver.archiver_axioms w _ _ _ memory_rel.reliable_kv_axioms, of 2] w
    by (auto simp: sample_world_ok)
qed

end
