(* ===== verification/Tx_Index.thy ===== *)
theory Tx_Index
  imports Triedb_Reader
begin

text \<open>
  The transaction index of the archive (\<open>model/index\_repr.rs\<close>, \<open>model/tx\_index\_archive.rs\<close>):
  the three stored representations of an indexed transaction, their conversion to the latest
  one, the archiver that indexes a block and the reader that looks transactions up by hash.
  The RLP codecs that are derived for the three structures are the fields of \<open>index_codecs\<close>.
\<close>

section \<open>Indexed data\<close>

record header_subset =
  hs_block_hash :: b256
  hs_block_number :: u64
  hs_block_timestamp :: u64
  hs_tx_index :: u64
  hs_gas_used :: u64
  hs_base_fee_per_gas :: "u64 option"

record header_subset_v0 =
  h0_block_hash :: b256
  h0_block_number :: u64
  h0_tx_index :: u64
  h0_gas_used :: u64
  h0_base_fee_per_gas :: "u64 option"

record ('t, 'r) tx_indexed_data =
  td_tx :: "'t tx_envelope_with_sender"
  td_trace :: bytes
  td_receipt :: "'r receipt_with_log_index"
  td_header_subset :: header_subset

record ('t, 'r) inline_v0 =
  iv_tx :: 't
  iv_trace :: bytes
  iv_receipt :: 'r
  iv_header_subset :: header_subset_v0

record reference_v0 =
  ref_block_number :: u64
  ref_header_subset :: header_subset
  ref_offsets :: "tx_byte_offsets option"

definition HeaderSubsetV0_convert :: "header_subset_v0 \<Rightarrow> u64 \<Rightarrow> header_subset" where
  "HeaderSubsetV0_convert h block_timestamp =
     \<lparr>hs_block_hash = h0_block_hash h, hs_block_number = h0_block_number h,
      hs_block_timestamp = block_timestamp, hs_tx_index = h0_tx_index h, hs_gas_used = h0_gas_used h,
      hs_base_fee_per_gas = h0_base_fee_per_gas h\<rparr>"

datatype ('t, 'r) index_data_storage_repr =
    InlineV0 "('t, 'r) inline_v0"
  | InlineV1 "('t, 'r) tx_indexed_data"
  | ReferenceV0 reference_v0

section \<open>Codecs\<close>

record ('t, 'r) index_codecs =
  ic_encode_inline0 :: "('t, 'r) inline_v0 \<Rightarrow> bytes"
  ic_decode_inline0 :: "bytes \<Rightarrow> ('t, 'r) inline_v0 eyre"
  ic_encode_inline1 :: "('t, 'r) tx_indexed_data \<Rightarrow> bytes"
  ic_decode_inline1 :: "bytes \<Rightarrow> ('t, 'r) tx_indexed_data eyre"
  ic_encode_reference :: "reference_v0 \<Rightarrow> bytes"
  ic_decode_reference :: "bytes \<Rightarrow> reference_v0 eyre"

text \<open>
  The derived decoders read back what the encoders wrote.  A trailing optional number is only
  promised back when it is not zero: zero is encoded as the empty string, which is also how an
  absent optional field is written.  An encoding is an RLP list of several items.
\<close>

definition index_codec_laws :: "('t, 'r) index_codecs \<Rightarrow> bool" where
  "index_codec_laws C \<longleftrightarrow>
     (\<forall>x. h0_base_fee_per_gas (iv_header_subset x) \<noteq> Some 0 \<longrightarrow> ic_decode_inline0 C (ic_encode_inline0 C x) = Inr x) \<and>
     (\<forall>x. hs_base_fee_per_gas (td_header_subset x) \<noteq> Some 0 \<longrightarrow> ic_decode_inline1 C (ic_encode_inline1 C x) = Inr x) \<and>
     (\<forall>x. hs_base_fee_per_gas (ref_header_subset x) \<noteq> Some 0 \<longrightarrow>
        ic_decode_reference C (ic_encode_reference C x) = Inr x) \<and>
     (\<forall>x. \<exists>c d cs. ic_encode_inline0 C x = c # d # cs \<and> 0xc0 \<le> c)"

definition INDEX_SENTINEL :: u8 where "INDEX_SENTINEL = 50"

fun marker_byte :: "('t, 'r) index_data_storage_repr \<Rightarrow> u8" where
  "marker_byte (InlineV0 _) = 0"
| "marker_byte (InlineV1 _) = 1"
| "marker_byte (ReferenceV0 _) = 2"

definition IndexDataStorageRepr_encode ::
  "('t, 'r) index_codecs \<Rightarrow> ('t, 'r) index_data_storage_repr \<Rightarrow> bytes" where
  "IndexDataStorageRepr_encode C r =
     [INDEX_SENTINEL, marker_byte r] @
     (case r of InlineV0 x \<Rightarrow> ic_encode_inline0 C x | InlineV1 x \<Rightarrow> ic_encode_inline1 C x
      | ReferenceV0 x \<Rightarrow> ic_encode_reference C x)"

definition IndexDataStorageRepr_decode ::
  "('t, 'r) index_codecs \<Rightarrow> bytes \<Rightarrow> ('t, 'r) index_data_storage_repr eyre" where
  "IndexDataStorageRepr_decode C buf =
     (if length buf < 2 then eyre_err ''Cannot decode IndexStorageRepr len too small''
      else
        let result =
              (if marker_bytes buf = (INDEX_SENTINEL, 0) then map_sum id InlineV0 (ic_decode_inline0 C (drop 2 buf))
               else if marker_bytes buf = (INDEX_SENTINEL, 1) then
                 map_sum id InlineV1 (ic_decode_inline1 C (drop 2 buf))
               else if marker_bytes buf = (INDEX_SENTINEL, 2) then
                 map_sum id ReferenceV0 (ic_decode_reference C (drop 2 buf))
               else map_sum id InlineV0 (ic_decode_inline0 C buf))
        in case result of
             Inr d \<Rightarrow> Inr d
           | Inl e \<Rightarrow> map_sum id InlineV0 (ic_decode_inline0 C buf))"

section \<open>Conversion\<close>

text \<open>\<open>Vec::swap_remove\<close> as a read: it panics past the end.\<close>

definition swap_remove :: "nat \<Rightarrow> 'a list \<Rightarrow> 'a eyre" where
  "swap_remove i xs = (if i < length xs then Inr (xs ! i) else crash ''swap_remove index out of bounds'')"

definition ensure_index :: "string \<Rightarrow> nat \<Rightarrow> 'a list \<Rightarrow> unit eyre" where
  "ensure_index m i xs = (if i < length xs then Inr () else eyre_err m)"

definition try_get :: "nat \<Rightarrow> 'a list \<Rightarrow> 'a option" where
  "try_get i xs = (if i < length xs then Some (xs ! i) else None)"

fun IndexDataStorageRepr_convert ::
  "('h, 't, 'r, 'wd) alloy \<Rightarrow> ('w, 'h, 't, 'r, 'wd) block_data_reader \<Rightarrow> ('t, 'r) index_data_storage_repr
     \<Rightarrow> ('w, ('t, 'r) tx_indexed_data) eyre_io" where
  "IndexDataStorageRepr_convert A rd (InlineV0 v) =
     (let h = iv_header_subset v; n = h0_block_number h;
          ctx = ''Failed to fetch block or receipts when converting from old to latest representation'' in
      io_bind (io_wrap_err ctx (br_get_block_by_number rd n)) (\<lambda>block.
      io_bind (io_wrap_err ctx (br_get_block_receipts rd n)) (\<lambda>receipts.
      io_lift (
        res_bind (al_recover_signer A (iv_tx v)) (\<lambda>sender.
        res_bind (ok_or (try_get (unat (h0_tx_index h)) receipts) (Report [''Failed to find receipt in block data'']))
          (\<lambda>receipt.
        Inr \<lparr>td_tx = \<lparr>tx_sender = sender, tx_envelope = iv_tx v\<rparr>, td_trace = iv_trace v, td_receipt = receipt,
             td_header_subset = HeaderSubsetV0_convert h (al_timestamp A (blk_header block))\<rparr>))))))"
| "IndexDataStorageRepr_convert A rd (InlineV1 d) = io_lift (Inr d)"
| "IndexDataStorageRepr_convert A rd (ReferenceV0 x) =
     (let h = ref_header_subset x; n = hs_block_number h; idx = unat (hs_tx_index h);
          ctx = ''Failed to fetch block, traces or receipts when converting from old to latest representation'' in
      io_bind (io_wrap_err ctx (br_get_block_by_number rd n)) (\<lambda>block.
      io_bind (io_wrap_err ctx (br_get_block_receipts rd n)) (\<lambda>receipts.
      io_bind (io_wrap_err ctx (br_get_block_traces rd n)) (\<lambda>traces.
      io_lift (
        res_bind (ensure_index ''Block does not contain tx index'' idx (blk_transactions block)) (\<lambda>_.
        res_bind (ensure_index ''traces does not contain tx index'' idx traces) (\<lambda>_.
        res_bind (ensure_index ''receipts does not contain tx index'' idx receipts) (\<lambda>_.
        res_bind (swap_remove idx (blk_transactions block)) (\<lambda>tx.
        res_bind (swap_remove idx traces) (\<lambda>trace.
        res_bind (swap_remove idx receipts) (\<lambda>receipt.
        Inr \<lparr>td_tx = tx, td_trace = trace, td_receipt = receipt, td_header_subset = h\<rparr>)))))))))))"

fun IndexDataStorageRepr_get_trace ::
  "('h, 't, 'r, 'wd) alloy \<Rightarrow> ('w, 'h, 't, 'r, 'wd) block_data_reader \<Rightarrow> ('t, 'r) index_data_storage_repr
     \<Rightarrow> ('w, bytes \<times> header_subset) eyre_io" where
  "IndexDataStorageRepr_get_trace A rd (InlineV0 v) =
     io_bind (br_get_block_by_number rd (h0_block_number (iv_header_subset v))) (\<lambda>block.
     io_lift (Inr (iv_trace v, HeaderSubsetV0_convert (iv_header_subset v) (al_timestamp A (blk_header block)))))"
| "IndexDataStorageRepr_get_trace A rd (InlineV1 d) = io_lift (Inr (td_trace d, td_header_subset d))"
| "IndexDataStorageRepr_get_trace A rd (ReferenceV0 x) =
     (let h = ref_header_subset x; idx = unat (hs_tx_index h) in
      io_bind (br_get_block_traces rd (hs_block_number h)) (\<lambda>traces.
      io_lift (
        res_bind (ensure_index ''traces does not contain tx index'' idx traces) (\<lambda>_.
        res_bind (swap_remove idx traces) (\<lambda>t. Inr (t, h))))))"

fun IndexDataStorageRepr_get_tx ::
  "('h, 't, 'r, 'wd) alloy \<Rightarrow> ('w, 'h, 't, 'r, 'wd) block_data_reader \<Rightarrow> ('t, 'r) index_data_storage_repr
     \<Rightarrow> ('w, 't tx_envelope_with_sender \<times> header_subset) eyre_io" where
  "IndexDataStorageRepr_get_tx A rd (InlineV0 v) =
     (let h = iv_header_subset v in
      io_bind (br_get_block_by_number rd (h0_block_number h)) (\<lambda>block.
      io_lift (
        res_bind (swap_remove (unat (h0_tx_index h)) (blk_transactions block)) (\<lambda>tx.
        Inr (tx, HeaderSubsetV0_convert h (al_timestamp A (blk_header block)))))))"
| "IndexDataStorageRepr_get_tx A rd (InlineV1 d) = io_lift (Inr (td_tx d, td_header_subset d))"
| "IndexDataStorageRepr_get_tx A rd (ReferenceV0 x) =
     (let h = ref_header_subset x; idx = unat (hs_tx_index h) in
      io_bind (br_get_block_by_number rd (hs_block_number h)) (\<lambda>block.
      io_lift (
        res_bind (ensure_index ''traces does not contain tx index'' idx (blk_transactions block)) (\<lambda>_.
        res_bind (swap_remove idx (blk_transactions block)) (\<lambda>tx. Inr (tx, h))))))"

fun IndexDataStorageRepr_get_receipt ::
  "('h, 't, 'r, 'wd) alloy \<Rightarrow> ('w, 'h, 't, 'r, 'wd) block_data_reader \<Rightarrow> ('t, 'r) index_data_storage_repr
     \<Rightarrow> ('w, 'r receipt_with_log_index \<times> header_subset) eyre_io" where
  "IndexDataStorageRepr_get_receipt A rd (InlineV0 v) =
     io_bind (IndexDataStorageRepr_convert A rd (InlineV0 v)) (\<lambda>latest.
     io_lift (Inr (td_receipt latest, td_header_subset latest)))"
| "IndexDataStorageRepr_get_receipt A rd (InlineV1 d) = io_lift (Inr (td_receipt d, td_header_subset d))"
| "IndexDataStorageRepr_get_receipt A rd (ReferenceV0 x) =
     (let h = ref_header_subset x; idx = unat (hs_tx_index h) in
      io_bind (br_get_block_receipts rd (hs_block_number h)) (\<lambda>receipts.
      io_lift (
        res_bind (ensure_index ''traces does not contain tx index'' idx receipts) (\<lambda>_.
        res_bind (swap_remove idx receipts) (\<lambda>r. Inr (r, h))))))"

section \<open>Reading the index\<close>

record ('w, 'h, 't, 'r, 'wd) index_reader_impl =
  ir_index_store :: "'w kv_reader"
  ir_block_data_reader :: "('w, 'h, 't, 'r, 'wd) block_data_reader"

definition IndexReaderImpl_new ::
  "('w, 'z) kv_reader_scheme \<Rightarrow> ('w, 'h, 't, 'r, 'wd) block_data_reader \<Rightarrow> ('w, 'h, 't, 'r, 'wd) index_reader_impl" where
  "IndexReaderImpl_new st rd = \<lparr>ir_index_store = kv_reader.truncate st, ir_block_data_reader = rd\<rparr>"

definition get_repr ::
  "('h, 't, 'r, 'wd) alloy \<Rightarrow> ('t, 'r) index_codecs \<Rightarrow> ('w, 'h, 't, 'r, 'wd) index_reader_impl \<Rightarrow> b256
     \<Rightarrow> ('w, ('t, 'r) index_data_storage_repr option) eyre_io" where
  "get_repr A C ir tx_hash =
     io_bind (io_wrap_err ''Error getting index data'' (kv_get (ir_index_store ir) (al_hex A tx_hash)))
       (\<lambda>v. io_lift (map_transpose (IndexDataStorageRepr_decode C) v))"

definition resolve_from_bytes ::
  "('h, 't, 'r, 'wd) alloy \<Rightarrow> ('t, 'r) index_codecs \<Rightarrow> ('w, 'h, 't, 'r, 'wd) index_reader_impl \<Rightarrow> bytes
     \<Rightarrow> ('w, ('t, 'r) tx_indexed_data) eyre_io" where
  "resolve_from_bytes A C ir bs =
     io_bind (io_lift (IndexDataStorageRepr_decode C bs)) (IndexDataStorageRepr_convert A (ir_block_data_reader ir))"

definition get_latest_indexed ::
  "('w, 'h, 't, 'r, 'wd) index_reader_impl \<Rightarrow> bool \<Rightarrow> ('w, u64 option) eyre_io" where
  "get_latest_indexed ir backfill =
     br_get_latest (ir_block_data_reader ir) (if backfill then IndexedAsyncBackfill else Indexed)"

text \<open>A lookup: the stored representation, if there is one, through one of its readers.\<close>

definition lookup_with ::
  "('h, 't, 'r, 'wd) alloy \<Rightarrow> ('t, 'r) index_codecs \<Rightarrow> ('w, 'h, 't, 'r, 'wd) index_reader_impl
     \<Rightarrow> (('w, 'h, 't, 'r, 'wd) block_data_reader \<Rightarrow> ('t, 'r) index_data_storage_repr \<Rightarrow> ('w, 'a) eyre_io) \<Rightarrow> b256
     \<Rightarrow> ('w, 'a option) eyre_io" where
  "lookup_with A C ir f tx_hash =
     io_bind (get_repr A C ir tx_hash) (\<lambda>repr.
       case repr of
         None \<Rightarrow> io_lift (Inr None)
       | Some repr \<Rightarrow> io_bind (f (ir_block_data_reader ir) repr) (\<lambda>data. io_lift (Inr (Some data))))"

definition get_tx_indexed_data ::
  "('h, 't, 'r, 'wd) alloy \<Rightarrow> ('t, 'r) index_codecs \<Rightarrow> ('w, 'h, 't, 'r, 'wd) index_reader_impl \<Rightarrow> b256
     \<Rightarrow> ('w, ('t, 'r) tx_indexed_data option) eyre_io" where
  "get_tx_indexed_data A C ir = lookup_with A C ir (IndexDataStorageRepr_convert A)"

definition get_tx ::
  "('h, 't, 'r, 'wd) alloy \<Rightarrow> ('t, 'r) index_codecs \<Rightarrow> ('w, 'h, 't, 'r, 'wd) index_reader_impl \<Rightarrow> b256
     \<Rightarrow> ('w, ('t tx_envelope_with_sender \<times> header_subset) option) eyre_io" where
  "get_tx A C ir = lookup_with A C ir (IndexDataStorageRepr_get_tx A)"

definition get_receipt ::
  "('h, 't, 'r, 'wd) alloy \<Rightarrow> ('t, 'r) index_codecs \<Rightarrow> ('w, 'h, 't, 'r, 'wd) index_reader_impl \<Rightarrow> b256
     \<Rightarrow> ('w, ('r receipt_with_log_index \<times> header_subset) option) eyre_io" where
  "get_receipt A C ir = lookup_with A C ir (IndexDataStorageRepr_get_receipt A)"

definition get_trace ::
  "('h, 't, 'r, 'wd) alloy \<Rightarrow> ('t, 'r) index_codecs \<Rightarrow> ('w, 'h, 't, 'r, 'wd) index_reader_impl \<Rightarrow> b256
     \<Rightarrow> ('w, (bytes \<times> header_subset) option) eyre_io" where
  "get_trace A C ir = lookup_with A C ir (IndexDataStorageRepr_get_trace A)"

fun bulk_resolve ::
  "('h, 't, 'r, 'wd) alloy \<Rightarrow> ('t, 'r) index_codecs \<Rightarrow> ('w, 'h, 't, 'r, 'wd) index_reader_impl
     \<Rightarrow> (string \<rightharpoonup> bytes) \<Rightarrow> b256 list \<Rightarrow> (b256 \<rightharpoonup> ('t, 'r) tx_indexed_data)
     \<Rightarrow> ('w, b256 \<rightharpoonup> ('t, 'r) tx_indexed_data) eyre_io" where
  "bulk_resolve A C ir reprs [] out = io_lift (Inr out)"
| "bulk_resolve A C ir reprs (h # hs) out =
     (case reprs (al_hex A h) of
        None \<Rightarrow> bulk_resolve A C ir reprs hs out
      | Some bs \<Rightarrow> io_bind (resolve_from_bytes A C ir bs) (\<lambda>d. bulk_resolve A C ir reprs hs (out(h \<mapsto> d))))"

definition get_tx_indexed_data_bulk ::
  "('h, 't, 'r, 'wd) alloy \<Rightarrow> ('t, 'r) index_codecs \<Rightarrow> ('w, 'h, 't, 'r, 'wd) index_reader_impl \<Rightarrow> b256 list
     \<Rightarrow> ('w, b256 \<rightharpoonup> ('t, 'r) tx_indexed_data) eyre_io" where
  "get_tx_indexed_data_bulk A C ir hashes =
     io_bind (io_wrap_err ''Error getting index data'' (bulk_get (ir_index_store ir) (map (al_hex A) hashes)))
       (\<lambda>reprs. bulk_resolve A C ir reprs hashes Map.empty)"

section \<open>Indexing a block\<close>

record ('w, 'h, 't, 'r, 'wd) tx_index_archiver =
  tia_index_store :: "'w kv_store"
  tia_block_data_archive :: "'w block_data_archive"
  tia_max_inline_encoded_len :: nat
  tia_reader :: "('w, 'h, 't, 'r, 'wd) index_reader_impl"

definition TxIndexArchiver_new ::
  "('h, 't, 'r, 'wd) alloy \<Rightarrow> 'w kv_store \<Rightarrow> 'w block_data_archive \<Rightarrow> nat \<Rightarrow> ('w, 'h, 't, 'r, 'wd) tx_index_archiver" where
  "TxIndexArchiver_new A st archive max_len =
     \<lparr>tia_index_store = st, tia_block_data_archive = archive, tia_max_inline_encoded_len = max_len,
      tia_reader = IndexReaderImpl_new st (archive_reader A archive)\<rparr>"

definition update_latest_indexed ::
  "('w, 'h, 't, 'r, 'wd) tx_index_archiver \<Rightarrow> u64 \<Rightarrow> bool \<Rightarrow> ('w, unit) eyre_io" where
  "update_latest_indexed ta n backfill =
     update_latest (tia_block_data_archive ta) n (if backfill then IndexedAsyncBackfill else Indexed)"

text \<open>The entry of one transaction: inline, or a reference when that is too long.\<close>

definition index_entry ::
  "('t, 'r) index_codecs \<Rightarrow> nat \<Rightarrow> tx_byte_offsets list option \<Rightarrow> ('t, 'r) tx_indexed_data \<Rightarrow> bytes" where
  "index_entry C max_len offsets d =
     (let h = td_header_subset d; encoded = IndexDataStorageRepr_encode C (InlineV1 d) in
      if max_len < length encoded then
        IndexDataStorageRepr_encode C (ReferenceV0 \<lparr>ref_block_number = hs_block_number h, ref_header_subset = h,
          ref_offsets = (case offsets of None \<Rightarrow> None | Some v \<Rightarrow> try_get (unat (hs_tx_index h)) v)\<rparr>)
      else encoded)"

text \<open>The data of a block's transactions: the gas of each is the difference of cumulative gas.\<close>

fun block_tx_data ::
  "('h, 't, 'r, 'wd) alloy \<Rightarrow> 'h \<Rightarrow> u64 \<Rightarrow> u64
     \<Rightarrow> ('t tx_envelope_with_sender \<times> bytes \<times> 'r receipt_with_log_index) list \<Rightarrow> ('t, 'r) tx_indexed_data list" where
  "block_tx_data A header idx prev_gas [] = []"
| "block_tx_data A header idx prev_gas ((tx, trace, receipt) # rest) =
     (let gas = al_cumulative_gas_used A (rcp_receipt receipt) in
      \<lparr>td_tx = tx, td_trace = trace, td_receipt = receipt,
       td_header_subset =
         \<lparr>hs_block_hash = al_hash_slow A header, hs_block_number = al_number A header,
          hs_block_timestamp = al_timestamp A header, hs_tx_index = idx, hs_gas_used = gas - prev_gas,
          hs_base_fee_per_gas = al_base_fee_per_gas A header\<rparr>\<rparr>
      # block_tx_data A header (idx + 1) gas rest)"

definition index_requests ::
  "('h, 't, 'r, 'wd) alloy \<Rightarrow> ('t, 'r) index_codecs \<Rightarrow> nat \<Rightarrow> tx_byte_offsets list option
     \<Rightarrow> ('t, 'r) tx_indexed_data list \<Rightarrow> (string \<times> bytes) list" where
  "index_requests A C max_len offsets ds =
     map (\<lambda>d. (al_hex A (al_tx_hash A (tx_envelope (td_tx d))), index_entry C max_len offsets d)) ds"

definition index_block ::
  "('h, 't, 'r, 'wd) alloy \<Rightarrow> ('t, 'r) index_codecs \<Rightarrow> ('w, 'h, 't, 'r, 'wd) tx_index_archiver
     \<Rightarrow> ('h, 't, 'wd) block \<Rightarrow> block_traces \<Rightarrow> 'r block_receipts \<Rightarrow> tx_byte_offsets list option \<Rightarrow> ('w, unit) eyre_io" where
  "index_block A C ta block traces receipts offsets =
     (if length (blk_transactions block) \<noteq> length traces \<or> length traces \<noteq> length receipts \<or>
         (case offsets of None \<Rightarrow> False | Some v \<Rightarrow> length receipts \<noteq> length v)
      then io_lift (eyre_err ''Block must have same number of txs as traces and receipts'')
      else
        let requests = index_requests A C (tia_max_inline_encoded_len ta) offsets
              (block_tx_data A (blk_header block) 0 0 (zip (blk_transactions block) (zip traces receipts)))
        in io_wrap_err ''Error indexing block''
             (io_bind (bulk_put (tia_index_store ta) requests NoClobber) (\<lambda>_. io_lift (Inr ()))))"

section \<open>Stored entries read back\<close>

fun repr_base_fee :: "('t, 'r) index_data_storage_repr \<Rightarrow> u64 option" where
  "repr_base_fee (InlineV0 v) = h0_base_fee_per_gas (iv_header_subset v)"
| "repr_base_fee (InlineV1 d) = hs_base_fee_per_gas (td_header_subset d)"
| "repr_base_fee (ReferenceV0 x) = hs_base_fee_per_gas (ref_header_subset x)"

lemma index_codec_lawsD:
  assumes "index_codec_laws C"
  shows "h0_base_fee_per_gas (iv_header_subset v) \<noteq> Some 0 \<Longrightarrow> ic_decode_inline0 C (ic_encode_inline0 C v) = Inr v"
    and "hs_base_fee_per_gas (td_header_subset d) \<noteq> Some 0 \<Longrightarrow> ic_decode_inline1 C (ic_encode_inline1 C d) = Inr d"
    and "hs_base_fee_per_gas (ref_header_subset x) \<noteq> Some 0 \<Longrightarrow>
      ic_decode_reference C (ic_encode_reference C x) = Inr x"
    and "\<exists>c d cs. ic_encode_inline0 C v = c # d # cs \<and> 0xc0 \<le> c"
  using assms by (simp_all add: index_codec_laws_def)

lemma index_decode_encode:
  assumes "index_codec_laws C" "repr_base_fee r \<noteq> Some 0"
  shows "IndexDataStorageRepr_decode C (IndexDataStorageRepr_encode C r) = Inr r"
  using assms(2)
  by (cases r)
     (simp_all add: IndexDataStorageRepr_decode_def IndexDataStorageRepr_encode_def marker_bytes_def INDEX_SENTINEL_def
        index_codec_lawsD [OF assms(1)])

text \<open>An instance of the codecs.\<close>

definition header_subset_codec :: "header_subset codec" where
  "header_subset_codec =
     map_codec (\<lambda>h. (hs_block_hash h, hs_block_number h, hs_block_timestamp h, hs_tx_index h, hs_gas_used h,
         hs_base_fee_per_gas h))
       (\<lambda>(a, b, c, d, e, f). \<lparr>hs_block_hash = a, hs_block_number = b, hs_block_timestamp = c, hs_tx_index = d,
         hs_gas_used = e, hs_base_fee_per_gas = f\<rparr>)
       (pair_codec word_codec (pair_codec word_codec (pair_codec word_codec (pair_codec word_codec
         (pair_codec word_codec (option_codec word_codec))))))"

definition inline0_codec :: "(u64, u64) inline_v0 codec" where
  "inline0_codec =
     map_codec (\<lambda>v. (iv_tx v, iv_trace v, iv_receipt v,
         HeaderSubsetV0_convert (iv_header_subset v) 0))
       (\<lambda>(t, tr, r, h). \<lparr>iv_tx = t, iv_trace = tr, iv_receipt = r, iv_header_subset =
         \<lparr>h0_block_hash = hs_block_hash h, h0_block_number = hs_block_number h, h0_tx_index = hs_tx_index h,
          h0_gas_used = hs_gas_used h, h0_base_fee_per_gas = hs_base_fee_per_gas h\<rparr>\<rparr>)
       (pair_codec word_codec (pair_codec (list_codec word_codec) (pair_codec word_codec header_subset_codec)))"

definition inline1_codec :: "(u64, u64) tx_indexed_data codec" where
  "inline1_codec =
     map_codec (\<lambda>d. (td_tx d, td_trace d, td_receipt d, td_header_subset d))
       (\<lambda>(t, tr, r, h). \<lparr>td_tx = t, td_trace = tr, td_receipt = r, td_header_subset = h\<rparr>)
       (pair_codec sender_codec (pair_codec (list_codec word_codec) (pair_codec log_index_codec header_subset_codec)))"

definition range_codec :: "range_rlp codec" where
  "range_codec = map_codec (\<lambda>r. (rr_start r, rr_end r)) (\<lambda>(s, e). \<lparr>rr_start = s, rr_end = e\<rparr>)
     (pair_codec word_codec word_codec)"

definition offsets_codec :: "tx_byte_offsets codec" where
  "offsets_codec = map_codec (\<lambda>x. (off_tx x, off_receipt x, off_trace x))
     (\<lambda>(t, r, tr). \<lparr>off_tx = t, off_receipt = r, off_trace = tr\<rparr>)
     (pair_codec range_codec (pair_codec range_codec range_codec))"

definition reference_codec :: "reference_v0 codec" where
  "reference_codec = map_codec (\<lambda>x. (ref_block_number x, ref_header_subset x, ref_offsets x))
     (\<lambda>(n, h, x). \<lparr>ref_block_number = n, ref_header_subset = h, ref_offsets = x\<rparr>)
     (pair_codec word_codec (pair_codec header_subset_codec (option_codec offsets_codec)))"

definition sample_index_codecs :: "(u64, u64) index_codecs" where
  "sample_index_codecs =
     \<lparr>ic_encode_inline0 = (\<lambda>v. [0xc0, 0] @ fst inline0_codec v),
      ic_decode_inline0 = (\<lambda>bs. decode_all inline0_codec (drop 2 bs)),
      ic_encode_inline1 = fst inline1_codec, ic_decode_inline1 = decode_all inline1_codec,
      ic_encode_reference = fst reference_codec, ic_decode_reference = decode_all reference_codec\<rparr>"

lemma header_subset_codec_ok: "codec_ok header_subset_codec"
  unfolding header_subset_codec_def by (intro codec_intros) simp

lemma index_codecs_ok: "codec_ok inline0_codec" "codec_ok inline1_codec" "codec_ok reference_codec"
  unfolding inline0_codec_def inline1_codec_def reference_codec_def offsets_codec_def range_codec_def
  by (intro codec_intros header_subset_codec_ok sender_codec_ok log_index_codec_ok;
      simp add: HeaderSubsetV0_convert_def)+

lemma sample_index_laws [simp]: "index_codec_laws sample_index_codecs"
  unfolding index_codec_laws_def sample_index_codecs_def
  using decode_all_encode [OF index_codecs_ok(1), where rest = "[]"]
    decode_all_encode [OF index_codecs_ok(2), where rest = "[]"]
    decode_all_encode [OF index_codecs_ok(3), where rest = "[]"]
  by (intro conjI allI impI; simp)

text \<open>
  C23: Every stored representation of an indexed transaction decodes to itself, and so does the
  unmarked encoding of the oldest one.
\<close>

theorem index_repr_roundtrip:
  assumes "index_codec_laws C" "repr_base_fee r \<noteq> Some 0" "repr_base_fee (InlineV0 v) \<noteq> Some 0"
  shows "IndexDataStorageRepr_decode C (IndexDataStorageRepr_encode C r) = Inr r \<and>
    IndexDataStorageRepr_decode C (ic_encode_inline0 C v) = Inr (InlineV0 v)"
proof
  obtain c d cs where e: "ic_encode_inline0 C v = c # d # cs" "0xc0 \<le> c"
    using index_codec_lawsD(4) [OF assms(1)] by blast
  then have "c \<noteq> INDEX_SENTINEL" by (auto simp: INDEX_SENTINEL_def word_le_nat_alt)
  with e(1) assms(3) show "IndexDataStorageRepr_decode C (ic_encode_inline0 C v) = Inr (InlineV0 v)"
    using index_codec_lawsD(1) [OF assms(1), of v]
    by (simp add: IndexDataStorageRepr_decode_def marker_bytes_def)
qed (rule index_decode_encode [OF assms(1,2)])

lemma index_repr_roundtrip_witness:
  "\<exists>r. IndexDataStorageRepr_decode sample_index_codecs (IndexDataStorageRepr_encode sample_index_codecs (ReferenceV0 r)) =
     Inr (ReferenceV0 r) \<and> hs_base_fee_per_gas (ref_header_subset r) = Some 7"
proof -
  let ?h0 = "\<lparr>h0_block_hash = 1, h0_block_number = 2, h0_tx_index = 3, h0_gas_used = 4, h0_base_fee_per_gas = Some 7\<rparr>"
  let ?r = "\<lparr>ref_block_number = 2, ref_header_subset = HeaderSubsetV0_convert ?h0 9, ref_offsets = None\<rparr>"
  have "repr_base_fee (ReferenceV0 ?r) \<noteq> Some 0" "repr_base_fee (InlineV0 \<lparr>iv_tx = 1, iv_trace = [], iv_receipt = 1, iv_header_subset = ?h0\<rparr>) \<noteq> Some 0"
    by (simp_all add: HeaderSubsetV0_convert_def)
  from index_repr_roundtrip [OF sample_index_laws this] show ?thesis
    by (intro exI [of _ ?r]) (simp add: HeaderSubsetV0_convert_def)
qed

section \<open>What indexing a block stores\<close>

text \<open>The data of transaction \<open>i\<close> of a block.\<close>

definition tx_data_at ::
  "('h, 't, 'r, 'wd) alloy \<Rightarrow> ('h, 't, 'wd) block \<Rightarrow> block_traces \<Rightarrow> 'r block_receipts \<Rightarrow> nat \<Rightarrow> ('t, 'r) tx_indexed_data" where
  "tx_data_at A block traces receipts i =
     (let gas = (\<lambda>j. al_cumulative_gas_used A (rcp_receipt (receipts ! j))); header = blk_header block in
      \<lparr>td_tx = blk_transactions block ! i, td_trace = traces ! i, td_receipt = receipts ! i,
       td_header_subset =
         \<lparr>hs_block_hash = al_hash_slow A header, hs_block_number = al_number A header,
          hs_block_timestamp = al_timestamp A header, hs_tx_index = of_nat i,
          hs_gas_used = gas i - (if i = 0 then 0 else gas (i - 1)),
          hs_base_fee_per_gas = al_base_fee_per_gas A header\<rparr>\<rparr>)"

lemma length_block_tx_data [simp]: "length (block_tx_data A h idx g items) = length items"
  by (induction A h idx g items rule: block_tx_data.induct) (simp_all add: Let_def)

lemma block_tx_data_nth:
  assumes "i < length items" "items ! i = (tx, trace, receipt)"
  shows "block_tx_data A h idx g items ! i =
    \<lparr>td_tx = tx, td_trace = trace, td_receipt = receipt,
     td_header_subset =
       \<lparr>hs_block_hash = al_hash_slow A h, hs_block_number = al_number A h, hs_block_timestamp = al_timestamp A h,
        hs_tx_index = idx + of_nat i,
        hs_gas_used = al_cumulative_gas_used A (rcp_receipt receipt) -
          (if i = 0 then g else al_cumulative_gas_used A (rcp_receipt (snd (snd (items ! (i - 1)))))),
        hs_base_fee_per_gas = al_base_fee_per_gas A h\<rparr>\<rparr>"
  using assms
proof (induction A h idx g items arbitrary: i rule: block_tx_data.induct)
  case (2 A header idx prev_gas tx trace receipt rest)
  show ?case
  proof (cases i)
    case 0
    with 2 show ?thesis by (simp add: Let_def)
  next
    case (Suc j)
    with 2 show ?thesis by (cases j) (simp_all add: Let_def add.assoc)
  qed
qed simp

lemma block_tx_data_at:
  assumes "length traces = length (blk_transactions block)" "length receipts = length traces"
    and "i < length (blk_transactions block)"
  shows "block_tx_data A (blk_header block) 0 0 (zip (blk_transactions block) (zip traces receipts)) ! i =
    tx_data_at A block traces receipts i"
  using assms
  by (subst block_tx_data_nth [where tx = "blk_transactions block ! i" and trace = "traces ! i"
        and receipt = "receipts ! i"])
     (simp_all add: tx_data_at_def Let_def)

text \<open>A reader that answers for one block in every state of the stores.\<close>

definition serves_block ::
  "('w \<Rightarrow> bool) \<Rightarrow> ('w, 'h, 't, 'r, 'wd) block_data_reader \<Rightarrow> u64 \<Rightarrow> ('h, 't, 'wd) block \<Rightarrow> block_traces
     \<Rightarrow> 'r block_receipts \<Rightarrow> bool" where
  "serves_block winv rd n block traces receipts \<longleftrightarrow> (\<forall>w. winv w \<longrightarrow>
     (\<exists>w'. br_get_block_by_number rd n w = (Inr block, w') \<and> winv w') \<and>
     (\<exists>w'. br_get_block_receipts rd n w = (Inr receipts, w') \<and> winv w') \<and>
     (\<exists>w'. br_get_block_traces rd n w = (Inr traces, w') \<and> winv w'))"

lemma serves_blockD:
  assumes "serves_block winv rd n block traces receipts" "winv w"
  obtains w1 w2 w3 where "br_get_block_by_number rd n w = (Inr block, w1)" "winv w1"
    "br_get_block_receipts rd n w = (Inr receipts, w2)" "winv w2"
    "br_get_block_traces rd n w = (Inr traces, w3)" "winv w3"
  using assms unfolding serves_block_def by blast

text \<open>The reference to a transaction of a served block gives that transaction's data.\<close>

lemma reference_resolves:
  fixes block :: "('h, 't, 'wd) block" and A :: "('h, 't, 'r, 'wd) alloy"
  assumes serves: "serves_block winv rd (al_number A (blk_header block)) block traces receipts" and w: "winv w"
    and len: "length traces = length (blk_transactions block)" "length receipts = length traces"
      "i < length (blk_transactions block)" "length (blk_transactions block) < 2 ^ 64"
  defines "d \<equiv> tx_data_at A block traces receipts i"
  assumes x: "ref_header_subset x = td_header_subset d"
  shows "\<exists>w'. IndexDataStorageRepr_convert A rd (ReferenceV0 x) w = (Inr d, w')"
    and "\<exists>w'. IndexDataStorageRepr_get_tx A rd (ReferenceV0 x) w = (Inr (td_tx d, td_header_subset d), w')"
    and "\<exists>w'. IndexDataStorageRepr_get_receipt A rd (ReferenceV0 x) w = (Inr (td_receipt d, td_header_subset d), w')"
    and "\<exists>w'. IndexDataStorageRepr_get_trace A rd (ReferenceV0 x) w = (Inr (td_trace d, td_header_subset d), w')"
proof -
  have idx: "unat (of_nat i :: u64) = i" using len(3,4) by (simp add: unat_of_nat)
  obtain w1 w2 w3 where 1: "br_get_block_by_number rd (al_number A (blk_header block)) w = (Inr block, w1)" "winv w1"
    "br_get_block_receipts rd (al_number A (blk_header block)) w = (Inr receipts, w2)"
    "br_get_block_traces rd (al_number A (blk_header block)) w = (Inr traces, w3)"
    using serves_blockD [OF serves w] by metis
  obtain w4 where 2: "br_get_block_receipts rd (al_number A (blk_header block)) w1 = (Inr receipts, w4)" "winv w4"
    using serves_blockD [OF serves 1(2)] by metis
  obtain w5 where 3: "br_get_block_traces rd (al_number A (blk_header block)) w4 = (Inr traces, w5)"
    using serves_blockD [OF serves 2(2)] by metis
  note simps = x d_def tx_data_at_def Let_def io_bind_def io_wrap_err_def ensure_index_def swap_remove_def idx
  show "\<exists>w'. IndexDataStorageRepr_convert A rd (ReferenceV0 x) w = (Inr d, w')"
    using 1(1) 2(1) 3 len by (simp add: simps)
  show "\<exists>w'. IndexDataStorageRepr_get_tx A rd (ReferenceV0 x) w = (Inr (td_tx d, td_header_subset d), w')"
    using 1(1) len by (simp add: simps)
  show "\<exists>w'. IndexDataStorageRepr_get_receipt A rd (ReferenceV0 x) w = (Inr (td_receipt d, td_header_subset d), w')"
    using 1(3) len by (simp add: simps)
  show "\<exists>w'. IndexDataStorageRepr_get_trace A rd (ReferenceV0 x) w = (Inr (td_trace d, td_header_subset d), w')"
    using 1(4) len by (simp add: simps)
qed

lemma lookup_with_stored:
  assumes "kv_get st (al_hex A h) w = (Inr (Some (IndexDataStorageRepr_encode C r)), w1)"
    and "index_codec_laws C" "repr_base_fee r \<noteq> Some 0" "\<exists>w'. f rd r w1 = (Inr x, w')"
  shows "\<exists>w'. lookup_with A C (IndexReaderImpl_new st rd) f h w = (Inr (Some x), w')"
  using assms
  by (auto simp: lookup_with_def get_repr_def IndexReaderImpl_new_def io_bind_def io_wrap_err_def kv_reader.defs
      index_decode_encode)

text \<open>The four lookups of an entry that is stored.\<close>

lemma index_entry_resolves:
  fixes block :: "('h, 't, 'wd) block" and A :: "('h, 't, 'r, 'wd) alloy"
  assumes codec: "index_codec_laws C"
    and serves: "serves_block winv rd (al_number A (blk_header block)) block traces receipts"
    and stored: "kv_get st (al_hex A h) w = (Inr (Some (index_entry C max_len offsets d)), w1)" "winv w1"
    and len: "length traces = length (blk_transactions block)" "length receipts = length traces"
      "i < length (blk_transactions block)" "length (blk_transactions block) < 2 ^ 64"
    and d: "d = tx_data_at A block traces receipts i" and fee: "al_base_fee_per_gas A (blk_header block) \<noteq> Some 0"
  shows "(\<exists>w'. get_tx_indexed_data A C (IndexReaderImpl_new st rd) h w = (Inr (Some d), w')) \<and>
    (\<exists>w'. get_tx A C (IndexReaderImpl_new st rd) h w = (Inr (Some (td_tx d, td_header_subset d)), w')) \<and>
    (\<exists>w'. get_receipt A C (IndexReaderImpl_new st rd) h w = (Inr (Some (td_receipt d, td_header_subset d)), w')) \<and>
    (\<exists>w'. get_trace A C (IndexReaderImpl_new st rd) h w = (Inr (Some (td_trace d, td_header_subset d)), w'))"
proof -
  let ?ref = "\<lparr>ref_block_number = hs_block_number (td_header_subset d), ref_header_subset = td_header_subset d,
    ref_offsets = (case offsets of None \<Rightarrow> None | Some v \<Rightarrow> try_get (unat (hs_tx_index (td_header_subset d))) v)\<rparr>"
  define r where "r = (if max_len < length (IndexDataStorageRepr_encode C (InlineV1 d)) then ReferenceV0 ?ref else InlineV1 d)"
  have entry: "index_entry C max_len offsets d = IndexDataStorageRepr_encode C r"
    by (simp add: index_entry_def r_def Let_def)
  have "hs_base_fee_per_gas (td_header_subset d) = al_base_fee_per_gas A (blk_header block)"
    by (simp add: d tx_data_at_def Let_def)
  with fee have rfee: "repr_base_fee r \<noteq> Some 0" by (simp add: r_def)
  note res = reference_resolves [OF serves stored(2) len, of ?ref, folded d, simplified]
  note lookup = lookup_with_stored [OF stored(1) [unfolded entry] codec rfee]
  show ?thesis
    unfolding get_tx_indexed_data_def get_tx_def get_receipt_def get_trace_def
    by (intro conjI; rule lookup; use res in \<open>simp add: r_def\<close>)
qed

text \<open>The keys of a block's entries are its transaction hashes.\<close>

lemma index_request_keys:
  fixes block :: "('h, 't, 'wd) block" and A :: "('h, 't, 'r, 'wd) alloy"
  assumes len: "length traces = length (blk_transactions block)" "length receipts = length traces"
  shows "map fst (index_requests A C max_len offsets
      (block_tx_data A (blk_header block) 0 0 (zip (blk_transactions block) (zip traces receipts)))) =
    map (\<lambda>t. al_hex A (al_tx_hash A (tx_envelope t))) (blk_transactions block)"
proof -
  let ?ds = "block_tx_data A (blk_header block) 0 0 (zip (blk_transactions block) (zip traces receipts))"
  let ?key = "\<lambda>t. al_hex A (al_tx_hash A (tx_envelope t))"
  have ds: "map td_tx ?ds = blk_transactions block"
    using len block_tx_data_at [OF len] by (intro nth_equalityI) (simp_all add: tx_data_at_def Let_def)
  have "map fst (index_requests A C max_len offsets ?ds) = map ?key (map td_tx ?ds)"
    by (simp add: index_requests_def comp_def)
  then show ?thesis by (simp only: ds)
qed

lemma index_block_stores:
  assumes "kv_contract st winv kv" "alloy_laws A" "tia_index_store ta = st"
    and run: "winv w" "index_block A C ta block traces receipts offsets w = (Inr (), w')"
    and hashes: "distinct (map (\<lambda>t. al_tx_hash A (tx_envelope t)) (blk_transactions block))"
    and i: "i < length (blk_transactions block)"
      "kv w (al_hex A (al_tx_hash A (tx_envelope (blk_transactions block ! i)))) = None"
  shows "length traces = length (blk_transactions block)" "length receipts = length traces" "winv w'"
    "kv w' (al_hex A (al_tx_hash A (tx_envelope (blk_transactions block ! i)))) =
       Some (index_entry C (tia_max_inline_encoded_len ta) offsets (tx_data_at A block traces receipts i))"
proof -
  let ?items = "zip (blk_transactions block) (zip traces receipts)"
  let ?ds = "block_tx_data A (blk_header block) 0 0 ?items"
  let ?key = "\<lambda>t. al_hex A (al_tx_hash A (tx_envelope t))"
  let ?reqs = "index_requests A C (tia_max_inline_encoded_len ta) offsets ?ds"
  show len: "length traces = length (blk_transactions block)" "length receipts = length traces"
    using run(2) by (auto simp: index_block_def split: if_splits)
  obtain u where put: "bulk_put st ?reqs NoClobber w = (Inr u, w')"
    using run(2) assms(3)
    by (auto simp: index_block_def Let_def io_bind_Inr_iff split: if_splits)
  note keys = index_request_keys [OF len, of A C "tia_max_inline_encoded_len ta" offsets]
  have "inj (al_hex A)" using alloy_lawsD(6) [OF assms(2)] by (simp add: inj_def)
  then have dist: "distinct (map fst ?reqs)"
    using hashes unfolding keys by (simp add: distinct_map comp_def inj_on_def)
  have "(?key (blk_transactions block ! i), index_entry C (tia_max_inline_encoded_len ta) offsets (?ds ! i)) = ?reqs ! i"
    using i(1) len block_tx_data_at [OF len i(1)] by (simp add: index_requests_def tx_data_at_def Let_def)
  moreover have "?reqs ! i \<in> set ?reqs" using i(1) len by (intro nth_mem) (simp add: index_requests_def)
  ultimately have "(?key (blk_transactions block ! i),
      index_entry C (tia_max_inline_encoded_len ta) offsets (?ds ! i)) \<in> set ?reqs" by (simp only:)
  from kv_contract.bulk_put_store [OF assms(1) run(1) put dist this] i(2)
  show "kv w' (?key (blk_transactions block ! i)) =
      Some (index_entry C (tia_max_inline_encoded_len ta) offsets (tx_data_at A block traces receipts i))"
    by (simp add: block_tx_data_at [OF len i(1)])
  show "winv w'" by (rule kv_contract.bulk_put_inv [OF assms(1) run(1) put])
qed

text \<open>
  C9: A transaction that has been indexed is found by its hash.  After a block is indexed without
  an error, for each of its transactions that was not in the index before, the lookups of its
  whole data, of the transaction, of its receipt and of its trace succeed and return exactly the
  block's transaction, receipt and trace at that index with the block's header fields and the
  gas the transaction used, whether the entry is stored inline or as a reference.
\<close>

theorem index_block_lookup:
  assumes "reliable_kv st winv kv" "alloy_laws A" "index_codec_laws C"
    and "tia_index_store ta = st" "tia_reader ta = IndexReaderImpl_new st rd"
    and "winv w" "index_block A C ta block traces receipts offsets w = (Inr (), w')"
    and "distinct (map (\<lambda>t. al_tx_hash A (tx_envelope t)) (blk_transactions block))"
    and "i < length (blk_transactions block)" "length (blk_transactions block) < 2 ^ 64"
    and "h = al_tx_hash A (tx_envelope (blk_transactions block ! i))" "kv w (al_hex A h) = None"
    and "al_base_fee_per_gas A (blk_header block) \<noteq> Some 0"
    and "serves_block winv rd (al_number A (blk_header block)) block traces receipts"
    and "d = tx_data_at A block traces receipts i"
  shows "(\<exists>v. get_tx_indexed_data A C (tia_reader ta) h w' = (Inr (Some d), v)) \<and>
    (\<exists>v. get_tx A C (tia_reader ta) h w' = (Inr (Some (td_tx d, td_header_subset d)), v)) \<and>
    (\<exists>v. get_receipt A C (tia_reader ta) h w' = (Inr (Some (td_receipt d, td_header_subset d)), v)) \<and>
    (\<exists>v. get_trace A C (tia_reader ta) h w' = (Inr (Some (td_trace d, td_header_subset d)), v))"
proof -
  have con: "kv_contract st winv kv" using assms(1) by (simp add: reliable_kv_def)
  note stored = index_block_stores [OF con assms(2,4,6,7,8,9) assms(12) [unfolded assms(11)]]
  obtain w1 where "kv_get st (al_hex A h) w' = (Inr (kv w' (al_hex A h)), w1)" "winv w1"
    using reliable_kv.get_total [OF assms(1) stored(3)] by metis
  then show ?thesis
    unfolding assms(5)
    using index_entry_resolves [OF assms(3,14) _ _ stored(1,2) assms(9,10,15,13)] stored(4) assms(11,15)
    by metis
qed

text \<open>With a store that answers, a well-formed block is indexed.\<close>

lemma index_block_ok:
  assumes "reliable_kv (tia_index_store ta) winv kv" "winv w"
    and "length traces = length (blk_transactions block)" "length receipts = length traces"
    and "\<And>v. offsets = Some v \<Longrightarrow> length v = length receipts"
  shows "\<exists>w'. index_block A C ta block traces receipts offsets w = (Inr (), w')"
proof -
  let ?reqs = "index_requests A C (tia_max_inline_encoded_len ta) offsets
      (block_tx_data A (blk_header block) 0 0 (zip (blk_transactions block) (zip traces receipts)))"
  obtain u w' where "bulk_put (tia_index_store ta) ?reqs NoClobber w = (Inr u, w')"
    using reliable_kv.bulk_put_ok [OF assms(1,2)] by blast
  moreover have "\<not> (case offsets of None \<Rightarrow> False | Some v \<Rightarrow> length receipts \<noteq> length v)"
    using assms(5) by (auto split: option.splits)
  ultimately show ?thesis using assms(3,4) by (simp add: index_block_def Let_def io_bind_def)
qed

lemma sample_serves:
  "serves_block winv (sample_source 5) n (sample_chain n) (sample_traces n) (sample_receipts n)"
  by (simp add: serves_block_def triedb_reader_def sample_triedb_def triedb_get_block_by_number_def
      triedb_get_block_receipts_def triedb_get_block_traces_def or_missing_def io_map_report_def io_catch_def
      io_bind_def triedb_chain_def)

lemma index_block_lookup_witness:
  "\<exists>ta w' v. index_block sample_alloy sample_index_codecs ta (sample_chain 4) (sample_traces 4) (sample_receipts 4)
       None (MemoryStorage_new []) = (Inr (), w') \<and>
     get_trace sample_alloy sample_index_codecs (tia_reader ta) 4 w' =
       (Inr (Some ([1, 2], \<lparr>hs_block_hash = 4, hs_block_number = 4, hs_block_timestamp = 4, hs_tx_index = 0,
          hs_gas_used = 21000, hs_base_fee_per_gas = Some 1\<rparr>)), v)"
proof -
  let ?st = "MemoryStorage []" and ?w = "MemoryStorage_new []"
  define ta :: "(memory_storage, u64, u64, u64, unit) tx_index_archiver" where
    "ta = \<lparr>tia_index_store = ?st, tia_block_data_archive = BlockDataArchive_new ?st, tia_max_inline_encoded_len = 10,
           tia_reader = IndexReaderImpl_new ?st (sample_source 5)\<rparr>"
  have w: "memory_ok ?w" by (simp add: memory_ok_def MemoryStorage_new_def)
  have blk: "blk_transactions (sample_chain 4) = [\<lparr>tx_sender = 4, tx_envelope = 4\<rparr>]" "blk_header (sample_chain 4) = 4"
    by (simp_all add: triedb_chain_def sample_txs_def sample_header_def)
  obtain w' where run: "index_block sample_alloy sample_index_codecs ta (sample_chain 4) (sample_traces 4)
      (sample_receipts 4) None ?w = (Inr (), w')"
  proof -
    have "reliable_kv (tia_index_store ta) memory_ok memory_kv"
      using memory_rel.reliable_kv_axioms by (simp add: ta_def)
    from index_block_ok [OF this w, of "sample_traces 4" "sample_chain 4" "sample_receipts 4" None] that
    show thesis by (auto simp: blk sample_traces_def sample_receipts_def)
  qed
  have alloy: "al_base_fee_per_gas sample_alloy = (\<lambda>_. Some 1)" "al_number sample_alloy = (\<lambda>h. h)"
    "al_tx_hash sample_alloy = ucast" "al_cumulative_gas_used sample_alloy = (\<lambda>r. r)"
    "al_hash_slow sample_alloy = ucast" "al_timestamp sample_alloy = (\<lambda>h. h)"
    by (simp_all add: sample_alloy_def)
  let ?d = "tx_data_at sample_alloy (sample_chain 4) (sample_traces 4) (sample_receipts 4) 0"
  have "tia_index_store ta = ?st" "tia_reader ta = IndexReaderImpl_new ?st (sample_source 5)"
    by (simp_all add: ta_def)
  moreover have "distinct (map (\<lambda>t. al_tx_hash sample_alloy (tx_envelope t)) (blk_transactions (sample_chain 4)))"
    "0 < length (blk_transactions (sample_chain 4))" "length (blk_transactions (sample_chain 4)) < 2 ^ 64"
    "4 = al_tx_hash sample_alloy (tx_envelope (blk_transactions (sample_chain 4) ! 0))"
    "al_base_fee_per_gas sample_alloy (blk_header (sample_chain 4)) \<noteq> Some 0"
    by (simp_all add: blk alloy)
  moreover have "memory_kv ?w (al_hex sample_alloy 4) = None"
    by (simp add: memory_kv_def MemoryStorage_new_def)
  moreover have "serves_block memory_ok (sample_source 5) (al_number sample_alloy (blk_header (sample_chain 4)))
      (sample_chain 4) (sample_traces 4) (sample_receipts 4)"
    using sample_serves [of memory_ok 4] by (simp only: blk alloy)
  ultimately have "\<exists>v. get_trace sample_alloy sample_index_codecs (tia_reader ta) 4 w' =
      (Inr (Some (td_trace ?d, td_header_subset ?d)), v)"
    using index_block_lookup [OF memory_rel.reliable_kv_axioms sample_alloy_laws sample_index_laws _ _ w run,
        where rd = "sample_source 5" and i = 0 and h = 4 and d = ?d] by blast
  with run show ?thesis
    by (auto simp: tx_data_at_def blk alloy sample_traces_def sample_receipts_def)
qed

end
