(* ===== verification/Index_Worker.thy ===== *)
theory Index_Worker
  imports Tx_Index Archive_Worker
begin

text \<open>
  The indexer (\<open>bin/monad-indexer/index\_worker.rs\<close>): it indexes the transactions of each block and
  checkpoints its progress.  The spot check that a detached task makes after each block only reads
  and logs, and is left out.  The index of logs lives in a database of its own; its update for a
  block is an argument.
\<close>

section \<open>One block\<close>

type_synonym ('w, 'h, 't, 'r, 'wd) log_indexer =
  "('h, 't, 'wd) block \<Rightarrow> 'r block_receipts \<Rightarrow> ('w, unit) eyre_io"

definition handle_block ::
  "('h, 't, 'r, 'wd) alloy \<Rightarrow> ('t, 'r) index_codecs \<Rightarrow> ('w, 'h, 't, 'r, 'wd) block_data_reader
     \<Rightarrow> ('w, 'h, 't, 'r, 'wd) block_data_reader option \<Rightarrow> ('w, 'h, 't, 'r, 'wd) tx_index_archiver
     \<Rightarrow> ('w, 'h, 't, 'r, 'wd) log_indexer option \<Rightarrow> u64 \<Rightarrow> ('w, nat) eyre_io" where
  "handle_block A C rd fb ta log_index n =
     io_bind (io_catch (br_get_block_data_with_offsets rd n) (\<lambda>ms.
         case fb of
           None \<Rightarrow> io_lift (Inl (Report ms))
         | Some s \<Rightarrow> io_wrap_err ''Failed to get block data with offsets from fallback source for block''
                      (br_get_block_data_with_offsets s n))) (\<lambda>data.
     let num_txs = length (blk_transactions (bd_block data)) in
     case log_index of
       Some li \<Rightarrow>
         io_bind (index_block A C ta (bd_block data) (bd_traces data) (bd_receipts data) (bd_offsets data)) (\<lambda>_.
         io_bind (li (bd_block data) (bd_receipts data)) (\<lambda>_. io_lift (Inr num_txs)))
     | None \<Rightarrow>
         io_bind (index_block A C ta (bd_block data) (bd_traces data) (bd_receipts data) (bd_offsets data)) (\<lambda>_.
         io_lift (Inr num_txs)))"

section \<open>A range of blocks\<close>

text \<open>Blocks in order up to the first failure: the transactions indexed, or the block that failed.\<close>

fun index_range ::
  "('h, 't, 'r, 'wd) alloy \<Rightarrow> ('t, 'r) index_codecs \<Rightarrow> ('w, 'h, 't, 'r, 'wd) block_data_reader
     \<Rightarrow> ('w, 'h, 't, 'r, 'wd) block_data_reader option \<Rightarrow> ('w, 'h, 't, 'r, 'wd) tx_index_archiver
     \<Rightarrow> ('w, 'h, 't, 'r, 'wd) log_indexer option \<Rightarrow> u64 list \<Rightarrow> nat \<Rightarrow> ('w, u64 + nat) eyre_io" where
  "index_range A C rd fb ta li [] total_txs = io_lift (Inr (Inr total_txs))"
| "index_range A C rd fb ta li (n # ns) total_txs =
     io_bind (io_try (handle_block A C rd fb ta li n)) (\<lambda>r.
       case r of
         Inr block_txs \<Rightarrow> index_range A C rd fb ta li ns (total_txs + block_txs)
       | Inl _ \<Rightarrow> io_lift (Inr (Inl n)))"

definition index_checkpoint_latest ::
  "('w, 'h, 't, 'r, 'wd) tx_index_archiver \<Rightarrow> u64 \<Rightarrow> bool \<Rightarrow> ('w, unit) eyre_io" where
  "index_checkpoint_latest ta n backfill =
     io_bind (io_try (update_latest_indexed ta n backfill)) (\<lambda>_. io_lift (Inr ()))"

definition index_blocks ::
  "('h, 't, 'r, 'wd) alloy \<Rightarrow> ('t, 'r) index_codecs \<Rightarrow> ('w, 'h, 't, 'r, 'wd) block_data_reader
     \<Rightarrow> ('w, 'h, 't, 'r, 'wd) block_data_reader option \<Rightarrow> ('w, 'h, 't, 'r, 'wd) tx_index_archiver
     \<Rightarrow> ('w, 'h, 't, 'r, 'wd) log_indexer option \<Rightarrow> bool \<Rightarrow> u64 \<Rightarrow> u64 \<Rightarrow> ('w, u64) eyre_io" where
  "index_blocks A C rd fb ta li backfill range_start range_end =
     io_bind (index_range A C rd fb ta li (range_inclusive range_start range_end) 0) (\<lambda>res.
     let new_latest_indexed = (case res of Inr num_txs \<Rightarrow> range_end | Inl err_block \<Rightarrow> err_block - 1) in
     if new_latest_indexed \<noteq> 0 then
       io_bind (index_checkpoint_latest ta new_latest_indexed backfill) (\<lambda>_. io_lift (Inr new_latest_indexed))
     else io_lift (Inr new_latest_indexed))"

section \<open>The worker loop\<close>

definition index_worker_init :: "('w, 'h, 't, 'r, 'wd) tx_index_archiver \<Rightarrow> bool \<Rightarrow> ('w, u64) eyre_io" where
  "index_worker_init ta backfill =
     io_bind (io_try (get_latest_indexed (tia_reader ta) backfill)) (\<lambda>r.
       io_lift (Inr (next_start (case r of Inl _ \<Rightarrow> 0 | Inr None \<Rightarrow> 0 | Inr (Some n) \<Rightarrow> n))))"

text \<open>One turn from \<open>start_block\<close>: \<open>None\<close> when the worker stops; a source with no latest block is a panic.\<close>

definition index_worker_turn ::
  "('h, 't, 'r, 'wd) alloy \<Rightarrow> ('t, 'r) index_codecs \<Rightarrow> ('w, 'h, 't, 'r, 'wd) block_data_reader
     \<Rightarrow> ('w, 'h, 't, 'r, 'wd) block_data_reader option \<Rightarrow> ('w, 'h, 't, 'r, 'wd) tx_index_archiver
     \<Rightarrow> ('w, 'h, 't, 'r, 'wd) log_indexer option \<Rightarrow> bool \<Rightarrow> u64 \<Rightarrow> u64 option \<Rightarrow> u64 \<Rightarrow> ('w, u64 option) eyre_io" where
  "index_worker_turn A C rd fb ta li backfill max_blocks stop_block_override start_block =
     io_bind (io_try (br_get_latest rd Uploaded)) (\<lambda>r.
       case r of
         Inl _ \<Rightarrow> io_lift (Inr (Some start_block))
       | Inr None \<Rightarrow> io_lift (crash ''called `Option::unwrap()` on a `None` value'')
       | Inr (Some latest_source) \<Rightarrow>
           if (case stop_block_override of None \<Rightarrow> False | Some s \<Rightarrow> s < start_block) then io_lift (Inr None)
           else
             let end_block = min latest_source (start_block + max_blocks - 1) in
             if end_block < start_block then io_lift (Inr (Some start_block))
             else io_bind (index_blocks A C rd fb ta li backfill start_block end_block) (\<lambda>latest_indexed.
                    io_lift (Inr (Some (next_start latest_indexed)))))"

section \<open>A failed block zero\<close>

text \<open>
  C28: When block zero cannot be handled, the range's result is the number before zero, which
  wraps: the worker stores the largest 64-bit number as its progress marker, although no block is
  indexed, and goes on with block zero.
\<close>

theorem index_blocks_zero_wraps:
  assumes "handle_block A C rd fb ta li 0 w = (Inl (Report ms), w1)"
    and "reliable_kv st winv kv" "winv w1" "tia_block_data_archive ta = BlockDataArchive_new st"
  shows "\<exists>w'. index_blocks A C rd fb ta li backfill 0 e w = (Inr (2 ^ 64 - 1), w') \<and>
    kv w' (latest_key (BlockDataArchive_new st) (if backfill then IndexedAsyncBackfill else Indexed)) =
      Some (as_bytes ''18446744073709551615'') \<and>
    next_start (2 ^ 64 - 1) = 0"
proof -
  let ?k = "latest_key (BlockDataArchive_new st) (if backfill then IndexedAsyncBackfill else Indexed)"
  have range: "range_inclusive 0 e = 0 # map of_nat [1 ..< Suc (unat e)]"
    by (simp add: range_inclusive_def upt_conv_Cons del: upt_Suc)
  have dec: "pad_decimal BLOCK_PADDING_WIDTH (- 1) = ''18446744073709551615''"
  proof -
    have "to_decimal 18446744073709551615 = ''18446744073709551615''"
      by (simp add: to_decimal.simps digit_char_def char_of_def bit_0)
    then show ?thesis
      by (simp add: pad_decimal_def word_to_string_def BLOCK_PADDING_WIDTH_def unsigned_minus_1_eq_mask mask_eq_exp_minus_1)
  qed
  obtain u w' where put: "kv_put st ?k (as_bytes ''18446744073709551615'') AllowOverwrite w1 = (Inr u, w')"
    "kv w' = (kv w1)(?k \<mapsto> as_bytes ''18446744073709551615'')"
    using reliable_kv.put_overwrites [OF assms(2,3)] by metis
  have "index_range A C rd fb ta li (range_inclusive 0 e) 0 w = (Inr (Inl 0), w1)"
    using assms(1) by (simp add: range io_bind_def io_try_def io_catch_def)
  moreover have "index_checkpoint_latest ta (- 1) backfill w1 = (Inr (), w')"
    using put(1) by (simp add: index_checkpoint_latest_def update_latest_indexed_def update_latest_def assms(4)
        io_bind_def io_try_def io_catch_def dec)
  ultimately have "index_blocks A C rd fb ta li backfill 0 e w = (Inr (- 1), w')"
    by (simp add: index_blocks_def io_bind_def Let_def)
  with put(2) show ?thesis by (simp add: next_start_def)
qed

lemma index_blocks_zero_wraps_witness:
  "\<exists>w'. index_blocks sample_alloy sample_index_codecs
       (archive_reader sample_alloy (BlockDataArchive_new (MemoryStorage []))) None
       (TxIndexArchiver_new sample_alloy (MemoryStorage []) (BlockDataArchive_new (MemoryStorage [])) 1000) None False 0 5
       (MemoryStorage_new []) = (Inr (2 ^ 64 - 1), w') \<and>
     memory_kv w' ''latest_indexed'' = Some (as_bytes ''18446744073709551615'')"
proof -
  let ?st = "MemoryStorage []" and ?w = "MemoryStorage_new []"
  let ?rd = "archive_reader sample_alloy (BlockDataArchive_new ?st)"
  let ?ta = "TxIndexArchiver_new sample_alloy ?st (BlockDataArchive_new ?st) 1000"
  have "br_get_block_data_with_offsets ?rd 0 ?w = (eyre_err ''No block found'', ?w)"
    by (simp add: archive_reader_def archive_get_block_data_with_offsets_def Let_def io_bind_def io_wrap_err_def
        MemoryStorage_def MemoryStorage_get_def MemoryStorage_new_def)
  then have fails: "handle_block sample_alloy sample_index_codecs ?rd None ?ta None 0 ?w =
      (Inl (Report [''No block found'']), ?w)"
    by (simp add: handle_block_def io_bind_def io_catch_def)
  have w: "memory_ok ?w" by (simp add: memory_ok_def MemoryStorage_new_def)
  have ta: "tia_block_data_archive ?ta = BlockDataArchive_new ?st" by (simp add: TxIndexArchiver_new_def)
  have "latest_key (BlockDataArchive_new ?st) Indexed = ''latest_indexed''"
    by (simp add: BlockDataArchive_new_def)
  with index_blocks_zero_wraps [OF fails memory_rel.reliable_kv_axioms w ta, of False 5] show ?thesis by auto
qed

section \<open>What a range leaves indexed\<close>

definition block_indexed ::
  "('h, 't, 'r, 'wd) alloy \<Rightarrow> (u64 \<Rightarrow> ('h, 't, 'wd) block) \<Rightarrow> (string \<rightharpoonup> bytes) \<Rightarrow> u64 \<Rightarrow> bool" where
  "block_indexed A blk m n \<longleftrightarrow>
     (\<forall>t \<in> set (blk_transactions (blk n)). m (al_hex A (al_tx_hash A (tx_envelope t))) \<noteq> None)"

lemma block_indexed_mono: "block_indexed A blk m n \<Longrightarrow> m \<subseteq>\<^sub>m m' \<Longrightarrow> block_indexed A blk m' n"
  unfolding block_indexed_def map_le_def by (metis domIff)

text \<open>
  The indexer's setting: the index store, a source of the chain, and two calls that leave the
  index's entries alone, the update of the log index and that of the progress marker.
\<close>

locale tx_indexer = kv_contract st winv kv + chain_source winv kv rd blk rcp trc
  for st :: "'w kv_store" and winv :: "'w \<Rightarrow> bool" and kv :: "'w \<Rightarrow> string \<rightharpoonup> bytes"
    and rd :: "('w, 'h, 't, 'r, 'wd) block_data_reader"
    and blk :: "u64 \<Rightarrow> ('h, 't, 'wd) block" and rcp :: "u64 \<Rightarrow> 'r block_receipts" and trc :: "u64 \<Rightarrow> block_traces" +
  fixes A :: "('h, 't, 'r, 'wd) alloy" and C :: "('t, 'r) index_codecs"
    and fb :: "('w, 'h, 't, 'r, 'wd) block_data_reader option"
    and ta :: "('w, 'h, 't, 'r, 'wd) tx_index_archiver" and li :: "('w, 'h, 't, 'r, 'wd) log_indexer option"
  assumes store: "tia_index_store ta = st"
    and fallback: "fb = Some s \<Longrightarrow> chain_source winv kv s blk rcp trc"
    and log_frame: "li = Some f \<Longrightarrow> winv w \<Longrightarrow> f b rs w = (rl, w') \<Longrightarrow> winv w' \<and> kv w' = kv w"
    and marker_frame: "winv w \<Longrightarrow> update_latest (tia_block_data_archive ta) n k w = (ru, w') \<Longrightarrow>
      winv w' \<and> kv w' = kv w"
begin

definition keep :: "'w \<Rightarrow> 'w \<Rightarrow> bool" where
  "keep w w' \<longleftrightarrow> kv w \<subseteq>\<^sub>m kv w'"

lemma keep_refl [simp, intro]: "reflp keep" and keep_trans [simp, intro]: "transp keep"
  by (auto simp: keep_def reflp_def transp_def intro: map_le_trans)

lemma keep_indexed: "block_indexed A blk (kv w) n \<Longrightarrow> keep w w' \<Longrightarrow> block_indexed A blk (kv w') n"
  unfolding keep_def by (rule block_indexed_mono)

lemma uphold_put: "upholds winv keep (kv_put st k d NoClobber) (\<lambda>_ w. kv w k \<noteq> None)"
  unfolding upholds_def
proof (intro allI impI)
  fix w r w'
  assume w: "winv w" "kv_put st k d NoClobber w = (r, w')"
  have "keep w w'" unfolding keep_def map_le_def using put_no_clobber [OF w] by force
  then show "winv w' \<and> keep w w' \<and> (\<forall>a. r = Inr a \<longrightarrow> kv w' k \<noteq> None)"
    using put [OF w] by (cases r) (auto simp: put_effect_def split: put_result.splits)
qed

lemma uphold_puts:
  "upholds winv keep (io_map (\<lambda>(k, v). kv_put st k v NoClobber) kvs) (\<lambda>_ w. \<forall>k \<in> fst ` set kvs. kv w k \<noteq> None)"
proof (induction kvs)
  case Nil
  show ?case unfolding io_map.simps by (rule upholds_lift) auto
next
  case (Cons x kvs)
  obtain k v where x: "x = (k, v)" by (cases x)
  have stable: "kv w' k' \<noteq> None" if "kv w k' \<noteq> None" "keep w w'" for w w' k'
    using that unfolding keep_def map_le_def by (metis domIff)
  have rest: "upholds winv keep (io_bind (io_map (\<lambda>(k, v). kv_put st k v NoClobber) kvs) (\<lambda>ys. io_lift (Inr (y # ys))))
      (\<lambda>_ w. \<forall>k \<in> fst ` set kvs. kv w k \<noteq> None)" for y
    by (rule upholds_bind [OF keep_trans Cons.IH]) (use stable in \<open>auto intro!: upholds_lift, metis fst_conv option.distinct(1) option.exhaust\<close>)
  show ?case
    unfolding io_map.simps x prod.case
    by (rule upholds_bind [OF keep_trans uphold_put upholds_mono [OF rest] stable]) auto
qed

lemma uphold_index_block:
  "upholds winv keep (index_block A C ta (blk n) traces receipts offsets) (\<lambda>_ w. block_indexed A blk (kv w) n)"
proof (cases "length (blk_transactions (blk n)) \<noteq> length traces \<or> length traces \<noteq> length receipts \<or>
    (case offsets of None \<Rightarrow> False | Some v \<Rightarrow> length receipts \<noteq> length v)")
  case True
  then show ?thesis unfolding index_block_def if_P [OF True] by (intro upholds_lift) auto
next
  case False
  let ?ds = "block_tx_data A (blk_header (blk n)) 0 0 (zip (blk_transactions (blk n)) (zip traces receipts))"
  let ?reqs = "index_requests A C (tia_max_inline_encoded_len ta) offsets ?ds"
  have keys: "map fst ?reqs = map (\<lambda>t. al_hex A (al_tx_hash A (tx_envelope t))) (blk_transactions (blk n))"
    using False by (intro index_request_keys) auto
  have "block_indexed A blk (kv w) n" if "\<forall>k \<in> fst ` set ?reqs. kv w k \<noteq> None" for w
    using that unfolding block_indexed_def set_map [symmetric] keys by auto
  then have "upholds winv keep (bulk_put st ?reqs NoClobber) (\<lambda>_ w. block_indexed A blk (kv w) n)"
    unfolding bulk_put_def
    by (intro upholds_bind [OF keep_trans upholds_mono [OF uphold_puts] _ keep_indexed])
       (auto intro!: upholds_lift)
  then show ?thesis
    unfolding index_block_def if_not_P [OF False] Let_def store
    by (intro upholds_wrap_err upholds_bind [OF keep_trans _ _ keep_indexed]) (auto intro!: upholds_lift)
qed

lemma uphold_data:
  assumes "chain_source winv kv s blk rcp trc"
  shows "upholds winv keep (br_get_block_data_with_offsets s n)
    (\<lambda>d _. bd_block d = blk n \<and> bd_receipts d = rcp n \<and> bd_traces d = trc n)"
  unfolding upholds_def keep_def using chain_source.src_data [OF assms] by auto

lemma uphold_handle_block:
  "upholds winv keep (handle_block A C rd fb ta li n) (\<lambda>_ w. block_indexed A blk (kv w) n)"
proof -
  let ?D = "\<lambda>d (_ :: 'w). bd_block d = blk n \<and> bd_receipts d = rcp n \<and> bd_traces d = trc n"
  have data: "upholds winv keep (io_catch (br_get_block_data_with_offsets rd n) (\<lambda>ms.
      case fb of None \<Rightarrow> io_lift (Inl (Report ms))
      | Some s \<Rightarrow> io_wrap_err m (br_get_block_data_with_offsets s n))) ?D" for m
    by (rule upholds_catch [OF keep_trans uphold_data [OF chain_source_axioms]])
       (auto intro!: upholds_lift upholds_wrap_err uphold_data fallback split: option.splits)
  have logs: "upholds winv keep (f b rs) (\<lambda>_ _. True)" if "li = Some f" for f b rs
    unfolding upholds_def keep_def using log_frame [OF that] by auto
  show ?thesis
    unfolding handle_block_def
  proof (rule upholds_bind_val [OF keep_trans data], goal_cases)
    case (1 d)
    note ib = uphold_index_block [of n "bd_traces d" "bd_receipts d" "bd_offsets d"]
    show ?case
    proof (cases li)
      case None
      with 1 ib show ?thesis
        by (auto simp: Let_def intro!: upholds_bind [OF keep_trans _ _ keep_indexed] upholds_lift)
    next
      case (Some f)
      have "upholds winv keep (io_bind (f (blk n) (bd_receipts d)) (\<lambda>_. io_lift (Inr k)))
          (\<lambda>_ w. block_indexed A blk (kv w) n \<longrightarrow> block_indexed A blk (kv w) n)" for k :: nat
        by (rule upholds_bind [OF keep_trans logs [OF Some]]) (auto intro!: upholds_lift)
      from upholds_bind [OF keep_trans ib this keep_indexed] Some 1 show ?thesis by (simp add: Let_def)
    qed
  qed
qed

text \<open>A range: all of it is indexed, or all blocks before the one that failed.\<close>

lemma uphold_index_range:
  "upholds winv keep (index_range A C rd fb ta li ns k)
     (\<lambda>res w. case res of
        Inr _ \<Rightarrow> (\<forall>n \<in> set ns. block_indexed A blk (kv w) n)
      | Inl e \<Rightarrow> \<exists>ps qs. ns = ps @ e # qs \<and> (\<forall>n \<in> set ps. block_indexed A blk (kv w) n))"
proof (induction ns arbitrary: k)
  case Nil
  show ?case unfolding index_range.simps by (rule upholds_lift) auto
next
  case (Cons n ns)
  show ?case
    unfolding index_range.simps
  proof (rule upholds_bind [OF keep_trans upholds_try [OF keep_refl keep_trans uphold_handle_block]], goal_cases)
    case (1 r)
    show ?case
    proof (cases r)
      case (Inl ms)
      have "\<exists>ps qs. n # ns = ps @ n # qs \<and> (\<forall>i \<in> set ps. block_indexed A blk m i)" for m
        by (rule exI [of _ "[]"]) simp
      then show ?thesis unfolding Inl sum.case by (intro upholds_lift) auto
    next
      case (Inr u)
      have "\<exists>ps qs. n # ns = ps @ e # qs \<and> (\<forall>i \<in> set ps. block_indexed A blk m i)"
        if "ns = ps @ e # qs" "\<forall>i \<in> set ps. block_indexed A blk m i" "block_indexed A blk m n" for m ps e qs
        using that by - (rule exI [of _ "n # ps"], rule exI [of _ qs], auto)
      then show ?thesis
        unfolding Inr sum.case by (intro upholds_mono [OF Cons.IH]) (auto split: sum.splits)
    qed
  qed (auto dest: keep_indexed split: sum.splits)
qed

lemma index_blocks_range:
  assumes w: "winv w" and run: "index_blocks A C rd fb ta li backfill s e w = (r, w')"
    and "0 < s" "s \<le> e"
  shows "winv w' \<and> kv w \<subseteq>\<^sub>m kv w' \<and>
    (\<forall>n. r = Inr n \<longrightarrow> s - 1 \<le> n \<and> n \<le> e \<and> (\<forall>i. s \<le> i \<and> i \<le> n \<longrightarrow> block_indexed A blk (kv w') i))"
  using run [unfolded index_blocks_def]
proof (cases rule: io_bind_cases)
  case (fail err)
  with upholdsD [OF uphold_index_range w fail(1)] show ?thesis by (simp add: keep_def)
next
  case (ok res w1)
  note d = upholdsD [OF uphold_index_range w ok(1)]
  define n where "n = (case res of Inr _ \<Rightarrow> e | Inl err_block \<Rightarrow> err_block - 1)"
  have below: "i < x" if "i \<le> x - 1" "0 < x" for i x :: u64
  proof -
    have "0 < unat x" "unat (x - 1) = unat x - 1" using that(2) by (simp_all add: word_less_nat_alt unat_minus_one unat_gt_0)
    with that(1) show ?thesis unfolding word_le_nat_alt word_less_nat_alt by linarith
  qed
  have n: "s - 1 \<le> n \<and> n \<le> e \<and> (\<forall>i. s \<le> i \<and> i \<le> n \<longrightarrow> block_indexed A blk (kv w1) i)"
  proof (cases res)
    case (Inr k)
    have "s - 1 \<le> e" using assms(3,4) by (simp add: word_le_nat_alt unat_minus_one unat_gt_0 word_less_nat_alt)
    with Inr d(3) [OF refl] show ?thesis by (simp add: n_def)
  next
    case (Inl x)
    with d(3) [OF refl] obtain ps qs where
      ps: "range_inclusive s e = ps @ x # qs" "\<forall>i \<in> set ps. block_indexed A blk (kv w1) i" by auto
    note split = range_split [OF ps(1)]
    have x: "0 < x" using split(2) assms(3) by (simp add: word_less_nat_alt word_le_nat_alt)
    then have "s - 1 \<le> x - 1" "x - 1 \<le> e"
      using split(2,3) assms(3) by (simp_all add: word_le_nat_alt unat_minus_one unat_gt_0 word_less_nat_alt)
    moreover have "block_indexed A blk (kv w1) i" if "s \<le> i" "i \<le> x - 1" for i
      using below [OF that(2) x] that(1) ps(2) split(1) by auto
    ultimately show ?thesis using Inl by (simp add: n_def)
  qed
  consider (skip) "r = Inr n" "w' = w1"
    | (mark) r1 where "update_latest_indexed ta n backfill w1 = (r1, w')" "\<forall>m. r = Inr m \<longrightarrow> m = n"
    using ok(2) unfolding n_def [symmetric] Let_def
    by (auto simp: index_checkpoint_latest_def io_bind_def io_try_def io_catch_def
        split: if_splits prod.splits sum.splits report.splits)
  then show ?thesis
  proof cases
    case skip
    with d n show ?thesis by (simp add: keep_def)
  next
    case mark
    have "winv w' \<and> kv w' = kv w1" using marker_frame [OF d(1)] mark(1) by (auto simp: update_latest_indexed_def)
    with mark(2) d n show ?thesis by (auto simp: keep_def)
  qed
qed

end

text \<open>The indexer over an index store and an archive store in memory, reading the sample chain.\<close>

definition two_ok :: "memory_storage \<times> memory_storage \<Rightarrow> bool" where
  "two_ok w \<longleftrightarrow> memory_ok (fst w) \<and> memory_ok (snd w)"

definition sample_ta :: "(memory_storage \<times> memory_storage, u64, u64, u64, unit) tx_index_archiver" where
  "sample_ta = TxIndexArchiver_new sample_alloy (store_fst (MemoryStorage []))
     (BlockDataArchive_new (store_snd (MemoryStorage []))) 1000"

definition two_stores :: "memory_storage \<times> memory_storage" where
  "two_stores = (MemoryStorage_new [], MemoryStorage_new [])"

lemma two_ok_fst: "reliable_kv (store_fst (MemoryStorage [])) two_ok (\<lambda>w. memory_kv (fst w))"
  using reliable_fst [OF memory_rel.reliable_kv_axioms [of "[]"], of memory_ok] by (simp add: two_ok_def [abs_def])

lemma two_ok_put_snd:
  assumes "two_ok w" "kv_put (store_snd (MemoryStorage [])) k d p w = (r, w')"
  shows "two_ok w' \<and> fst w' = fst w"
  using assms memory_rel.put [of "snd w" "[]" k d p r "snd w'"]
  by (auto simp: store_snd_def io_snd_iff two_ok_def)

interpretation sample_indexer: tx_indexer "store_fst (MemoryStorage [])" two_ok "\<lambda>w. memory_kv (fst w)"
  "sample_source tip" sample_chain sample_receipts sample_traces sample_alloy sample_index_codecs None sample_ta None
proof -
  have con: "kv_contract (store_fst (MemoryStorage [])) two_ok (\<lambda>w. memory_kv (fst w))"
    using two_ok_fst by (simp add: reliable_kv_def)
  have src: "chain_source two_ok (\<lambda>w. memory_kv (fst w)) (sample_source tip) sample_chain sample_receipts sample_traces"
    by (rule triedb_serves [OF sample_triedb_of])
  have "two_ok w' \<and> fst w' = fst w"
    if "two_ok w" "update_latest (tia_block_data_archive sample_ta) n k w = (r, w')" for w n k r w'
    using that(2) two_ok_put_snd [OF that(1)]
    by (auto simp: update_latest_def sample_ta_def TxIndexArchiver_new_def io_bind_def split: prod.splits sum.splits)
  then show "tx_indexer (store_fst (MemoryStorage [])) two_ok (\<lambda>w. memory_kv (fst w)) (sample_source tip) sample_chain
      sample_receipts sample_traces None sample_ta None"
    by (intro tx_indexer.intro tx_indexer_axioms.intro con src) (auto simp: sample_ta_def TxIndexArchiver_new_def)
qed

text \<open>
  C12: The number the indexer reports for a range that starts after block zero is right: it lies
  between the block before the range and its end, and every transaction of every block of the
  range up to it is in the index.  Whatever happens, no entry that was in the index is changed.
\<close>

theorem index_blocks_sound:
  assumes "tx_indexer st winv kv rd blk rcp trc fb ta li"
    and "winv w" "index_blocks A C rd fb ta li backfill s e w = (r, w')" "0 < s" "s \<le> e"
  shows "kv w \<subseteq>\<^sub>m kv w' \<and>
    (\<forall>n. r = Inr n \<longrightarrow> s - 1 \<le> n \<and> n \<le> e \<and> (\<forall>i. s \<le> i \<and> i \<le> n \<longrightarrow> block_indexed A blk (kv w') i))"
  using tx_indexer.index_blocks_range [OF assms] by blast

lemma sample_handle_block:
  assumes "two_ok w"
  shows "\<exists>w'. handle_block sample_alloy sample_index_codecs (sample_source 5) None sample_ta None n w = (Inr 1, w') \<and> two_ok w'"
proof -
  have "reliable_kv (tia_index_store sample_ta) two_ok (\<lambda>w. memory_kv (fst w))"
    using two_ok_fst by (simp add: sample_ta_def TxIndexArchiver_new_def)
  moreover have "length (sample_traces n) = length (blk_transactions (sample_chain n))"
    "length (sample_receipts n) = length (sample_traces n)"
    by (simp_all add: triedb_chain_def sample_txs_def sample_traces_def sample_receipts_def)
  ultimately obtain w' where w': "index_block sample_alloy sample_index_codecs sample_ta (sample_chain n)
      (sample_traces n) (sample_receipts n) None w = (Inr (), w')"
    using index_block_ok [where winv = two_ok and offsets = None, OF _ assms] by blast
  have "br_get_block_data_with_offsets (sample_source 5) n w = (Inr \<lparr>bd_block = sample_chain n,
      bd_receipts = sample_receipts n, bd_traces = sample_traces n, bd_offsets = None\<rparr>, w)"
    by (simp add: triedb_reader_def sample_triedb_def triedb_get_block_data_with_offsets_def
        triedb_get_block_by_number_def triedb_get_block_receipts_def triedb_get_block_traces_def or_missing_def
        io_map_report_def io_catch_def io_bind_def triedb_chain_def)
  with w' have run: "handle_block sample_alloy sample_index_codecs (sample_source 5) None sample_ta None n w = (Inr 1, w')"
    by (simp add: handle_block_def io_bind_def io_catch_def Let_def) (simp add: triedb_chain_def sample_txs_def)
  with upholdsD(1) [OF sample_indexer.uphold_handle_block assms run] show ?thesis by blast
qed

lemma index_blocks_sound_witness:
  "\<exists>w'. index_blocks sample_alloy sample_index_codecs (sample_source 5) None sample_ta None False 1 2 two_stores =
      (Inr 2, w') \<and>
    block_indexed sample_alloy sample_chain (memory_kv (fst w')) 1 \<and>
    block_indexed sample_alloy sample_chain (memory_kv (fst w')) 2"
proof -
  have w: "two_ok two_stores" by (simp add: two_ok_def two_stores_def memory_ok_def MemoryStorage_new_def)
  obtain w1 where 1: "handle_block sample_alloy sample_index_codecs (sample_source 5) None sample_ta None 1 two_stores =
      (Inr 1, w1)" "two_ok w1" using sample_handle_block [OF w] by blast
  obtain w2 where 2: "handle_block sample_alloy sample_index_codecs (sample_source 5) None sample_ta None 2 w1 =
      (Inr 1, w2)" "two_ok w2" using sample_handle_block [OF 1(2)] by blast
  have "range_inclusive 1 2 = [1, 2]" by (simp add: range_inclusive_def upt_conv_Cons)
  moreover obtain w3 where "update_latest_indexed sample_ta 2 False w2 = (Inr (), w3)"
  proof -
    have "\<not> ms_should_fail (snd w2)" using 2(2) by (simp add: two_ok_def memory_ok_def)
    then show thesis
      using that by (simp add: update_latest_indexed_def update_latest_def sample_ta_def TxIndexArchiver_new_def
          store_snd_def io_snd_def MemoryStorage_def MemoryStorage_put_def io_bind_def)
  qed
  ultimately have run: "index_blocks sample_alloy sample_index_codecs (sample_source 5) None sample_ta None False 1 2
      two_stores = (Inr 2, w3)"
    using 1(1) 2(1)
    by (simp add: index_blocks_def index_checkpoint_latest_def io_bind_def io_try_def io_catch_def Let_def)
  with index_blocks_sound [OF sample_indexer.tx_indexer_axioms w run] show ?thesis by auto
qed

end
