(* ===== verification/Circuit_Breaker.thy ===== *)
theory Circuit_Breaker
  imports Archive_Prelude
begin

text \<open>
  The failover circuit breaker (\<open>failover_circuit_breaker.rs\<close>) and the executor that sends a
  request to a primary or a fallback source.  Instants and durations are natural numbers of
  one unit; an operation that reads the clock takes the instant as an argument.  Requests of
  several tasks interleave between the atomic sections of the lock, and the step relation
  \<open>breaker_step\<close> has one transition per atomic section.
\<close>

section \<open>The breaker\<close>

datatype breaker_state = Closed | Open | HalfOpen

record circuit_breaker_state =
  cb_state :: breaker_state
  failure_count :: u32
  failure_threshold :: u32
  recovery_timeout :: nat
  opened_at :: "nat option"

text \<open>The state behind its \<open>RwLock\<close>, which is poisoned when a holder panicked.\<close>

record circuit_breaker =
  cb_poisoned :: bool
  cb_inner :: circuit_breaker_state

definition CircuitBreaker_new :: "u32 \<Rightarrow> nat \<Rightarrow> circuit_breaker" where
  "CircuitBreaker_new threshold timeout =
     \<lparr>cb_poisoned = False,
      cb_inner = \<lparr>cb_state = Closed, failure_count = 0, failure_threshold = threshold,
                 recovery_timeout = timeout, opened_at = None\<rparr>\<rparr>"

text \<open>
  \<open>should_use_fallback\<close> reads the state under the read lock; when an open circuit has waited
  long enough it drops the lock, takes the write lock and moves to half-open if the circuit is
  still open.
\<close>

datatype check_outcome = UsePrimary | UseFallback | TryHalfOpen

definition check_read :: "nat \<Rightarrow> circuit_breaker \<Rightarrow> check_outcome" where
  "check_read now b =
     (if cb_poisoned b then UsePrimary
      else case cb_state (cb_inner b) of
        Closed \<Rightarrow> UsePrimary
      | HalfOpen \<Rightarrow> UsePrimary
      | Open \<Rightarrow>
          (case opened_at (cb_inner b) of
             None \<Rightarrow> UseFallback
           | Some t \<Rightarrow> if recovery_timeout (cb_inner b) \<le> now - t then TryHalfOpen else UseFallback))"

definition enter_half_open :: "circuit_breaker \<Rightarrow> circuit_breaker" where
  "enter_half_open b =
     (if cb_poisoned b then b
      else if cb_state (cb_inner b) = Open then
        b\<lparr>cb_inner := (cb_inner b)\<lparr>cb_state := HalfOpen\<rparr>\<rparr>
      else b)"

definition should_use_fallback :: "nat \<Rightarrow> circuit_breaker \<Rightarrow> bool \<times> circuit_breaker" where
  "should_use_fallback now b =
     (case check_read now b of
        UsePrimary \<Rightarrow> (False, b)
      | UseFallback \<Rightarrow> (True, b)
      | TryHalfOpen \<Rightarrow> (False, enter_half_open b))"

definition record_success :: "circuit_breaker \<Rightarrow> circuit_breaker" where
  "record_success b =
     (if cb_poisoned b then b
      else let s = cb_inner b in
        b\<lparr>cb_inner :=
          (case cb_state s of
             HalfOpen \<Rightarrow> s\<lparr>cb_state := Closed, failure_count := 0, opened_at := None\<rparr>
           | Closed \<Rightarrow> s\<lparr>failure_count := 0\<rparr>
           | Open \<Rightarrow> s\<lparr>failure_count := 0\<rparr>)\<rparr>)"

definition record_failure :: "nat \<Rightarrow> circuit_breaker \<Rightarrow> circuit_breaker" where
  "record_failure now b =
     (if cb_poisoned b then b
      else let s = (cb_inner b)\<lparr>failure_count := failure_count (cb_inner b) + 1\<rparr> in
        b\<lparr>cb_inner :=
          (case cb_state s of
             Closed \<Rightarrow>
               if failure_threshold s \<le> failure_count s
               then s\<lparr>cb_state := Open, opened_at := Some now\<rparr> else s
           | HalfOpen \<Rightarrow> s\<lparr>cb_state := Open, opened_at := Some now\<rparr>
           | Open \<Rightarrow> s)\<rparr>)"

record breaker_metrics =
  bm_state :: string
  bm_failure_count :: u32
  bm_time_until_recovery :: "nat option"

definition CircuitBreaker_metrics :: "nat \<Rightarrow> circuit_breaker \<Rightarrow> breaker_metrics" where
  "CircuitBreaker_metrics now b =
     (if cb_poisoned b then
        \<lparr>bm_state = ''unknown'', bm_failure_count = 0, bm_time_until_recovery = None\<rparr>
      else let s = cb_inner b in
        \<lparr>bm_state = (case cb_state s of Closed \<Rightarrow> ''closed'' | Open \<Rightarrow> ''open'' | HalfOpen \<Rightarrow> ''half_open''),
         bm_failure_count = failure_count s,
         bm_time_until_recovery =
           (case (cb_state s, opened_at s) of
              (Open, Some t) \<Rightarrow>
                let elapsed = now - t in
                Some (if elapsed < recovery_timeout s then recovery_timeout s - elapsed else 0)
            | _ \<Rightarrow> None)\<rparr>)"

section \<open>The executor\<close>

record 'p fallback_executor =
  fe_primary :: 'p
  fe_fallback :: "'p option"
  fe_breaker :: circuit_breaker

definition FallbackExecutor_new :: "'p \<Rightarrow> 'p option \<Rightarrow> circuit_breaker \<Rightarrow> 'p fallback_executor" where
  "FallbackExecutor_new p f b = \<lparr>fe_primary = p, fe_fallback = f, fe_breaker = b\<rparr>"

text \<open>
  One request.  \<open>clock w\<close> is the instant at which the world is \<open>w\<close>; the request \<open>f\<close> is a call
  on the chosen source.
\<close>

definition execute ::
  "('w \<Rightarrow> nat) \<Rightarrow> ('p \<Rightarrow> ('w, 'a) eyre_io) \<Rightarrow> 'p fallback_executor \<Rightarrow> 'w
     \<Rightarrow> 'a eyre \<times> 'p fallback_executor \<times> 'w" where
  "execute clock f ex w =
     (case fe_fallback ex of
        None \<Rightarrow> let (r, w') = f (fe_primary ex) w in (r, ex, w')
      | Some fallback \<Rightarrow>
          let (use_fallback, b) = should_use_fallback (clock w) (fe_breaker ex) in
          if use_fallback then
            let (r, w') = f fallback w in (r, ex\<lparr>fe_breaker := b\<rparr>, w')
          else
            (case f (fe_primary ex) w of
               (Inr a, w') \<Rightarrow> (Inr a, ex\<lparr>fe_breaker := record_success b\<rparr>, w')
             | (Inl (Report ms), w') \<Rightarrow>
                 let (r, w'') = f fallback w' in
                 (r, ex\<lparr>fe_breaker := record_failure (clock w') b\<rparr>, w'')
             | (Inl e, w') \<Rightarrow> (Inl e, ex\<lparr>fe_breaker := b\<rparr>, w')))"

section \<open>Requests that interleave\<close>

text \<open>
  A task has read an expired open circuit and is about to enter half-open (\<open>Expired\<close>), is
  running its request on the primary (\<open>OnPrimary\<close>) or on the fallback (\<open>OnFallback\<close>), or has
  none.  Time passes between steps.
\<close>

datatype task_phase = Idle | Expired | OnPrimary | OnFallback

record breaker_system =
  sys_now :: nat
  sys_breaker :: circuit_breaker
  sys_task :: "nat \<Rightarrow> task_phase"

abbreviation set_task :: "nat \<Rightarrow> task_phase \<Rightarrow> breaker_system \<Rightarrow> breaker_system" where
  "set_task i p S \<equiv> S\<lparr>sys_task := (sys_task S)(i := p)\<rparr>"

inductive breaker_step :: "breaker_system \<Rightarrow> breaker_system \<Rightarrow> bool" where
  tick: "t \<ge> sys_now S \<Longrightarrow> breaker_step S (S\<lparr>sys_now := t\<rparr>)"
| to_primary: "sys_task S i = Idle \<Longrightarrow> check_read (sys_now S) (sys_breaker S) = UsePrimary \<Longrightarrow>
    breaker_step S (set_task i OnPrimary S)"
| to_fallback: "sys_task S i = Idle \<Longrightarrow> check_read (sys_now S) (sys_breaker S) = UseFallback \<Longrightarrow>
    breaker_step S (set_task i OnFallback S)"
| expired: "sys_task S i = Idle \<Longrightarrow> check_read (sys_now S) (sys_breaker S) = TryHalfOpen \<Longrightarrow>
    breaker_step S (set_task i Expired S)"
| half_open: "sys_task S i = Expired \<Longrightarrow>
    breaker_step S (set_task i OnPrimary (S\<lparr>sys_breaker := enter_half_open (sys_breaker S)\<rparr>))"
| success: "sys_task S i = OnPrimary \<Longrightarrow>
    breaker_step S (set_task i Idle (S\<lparr>sys_breaker := record_success (sys_breaker S)\<rparr>))"
| failure: "sys_task S i = OnPrimary \<Longrightarrow>
    breaker_step S (set_task i OnFallback
      (S\<lparr>sys_breaker := record_failure (sys_now S) (sys_breaker S)\<rparr>))"
| answered: "sys_task S i = OnFallback \<Longrightarrow> breaker_step S (set_task i Idle S)"

abbreviation breaker_run :: "breaker_system \<Rightarrow> breaker_system \<Rightarrow> bool" where
  "breaker_run \<equiv> breaker_step\<^sup>*\<^sup>*"

definition breaker_start :: "u32 \<Rightarrow> nat \<Rightarrow> nat \<Rightarrow> breaker_system" where
  "breaker_start threshold timeout now =
     \<lparr>sys_now = now, sys_breaker = CircuitBreaker_new threshold timeout, sys_task = (\<lambda>_. Idle)\<rparr>"

section \<open>Invariant\<close>

text \<open>
  A closed circuit has no opening instant and fewer failures than the threshold (none when
  the threshold is zero); an open or half-open one was opened, not in the future.
\<close>

definition breaker_inv :: "nat \<Rightarrow> circuit_breaker \<Rightarrow> bool" where
  "breaker_inv now b \<longleftrightarrow>
     \<not> cb_poisoned b \<and>
     (case cb_state (cb_inner b) of
        Closed \<Rightarrow> opened_at (cb_inner b) = None \<and>
          (failure_count (cb_inner b) = 0 \<or> failure_count (cb_inner b) < failure_threshold (cb_inner b))
      | _ \<Rightarrow> (\<exists>t \<le> now. opened_at (cb_inner b) = Some t))"

lemmas breaker_defs = breaker_inv_def enter_half_open_def record_success_def record_failure_def

lemma breaker_inv_new [simp]: "breaker_inv now (CircuitBreaker_new k d)"
  by (simp add: breaker_inv_def CircuitBreaker_new_def)

lemma breaker_inv_later: "breaker_inv now b \<Longrightarrow> now \<le> later \<Longrightarrow> breaker_inv later b"
  by (auto simp: breaker_inv_def split: breaker_state.splits dest: order_trans)

lemma breaker_inv_ops:
  assumes "breaker_inv now b"
  shows "breaker_inv now (enter_half_open b)" "breaker_inv now (record_success b)"
    and "breaker_inv now (record_failure now b)"
  using assms
  by (auto simp: breaker_defs Let_def not_le split: breaker_state.splits)

lemma breaker_config_ops [simp]:
  "failure_threshold (cb_inner (enter_half_open b)) = failure_threshold (cb_inner b)"
  "failure_threshold (cb_inner (record_success b)) = failure_threshold (cb_inner b)"
  "failure_threshold (cb_inner (record_failure now b)) = failure_threshold (cb_inner b)"
  "recovery_timeout (cb_inner (enter_half_open b)) = recovery_timeout (cb_inner b)"
  "recovery_timeout (cb_inner (record_success b)) = recovery_timeout (cb_inner b)"
  "recovery_timeout (cb_inner (record_failure now b)) = recovery_timeout (cb_inner b)"
  by (auto simp: breaker_defs Let_def split: breaker_state.splits)

definition system_inv :: "u32 \<Rightarrow> nat \<Rightarrow> breaker_system \<Rightarrow> bool" where
  "system_inv threshold timeout S \<longleftrightarrow>
     breaker_inv (sys_now S) (sys_breaker S) \<and>
     failure_threshold (cb_inner (sys_breaker S)) = threshold \<and>
     recovery_timeout (cb_inner (sys_breaker S)) = timeout"

lemma system_inv_step:
  "breaker_step S S' \<Longrightarrow> system_inv k d S \<Longrightarrow> system_inv k d S'"
  by (induction rule: breaker_step.induct)
     (auto simp: system_inv_def intro: breaker_inv_later breaker_inv_ops)

lemma system_inv_run:
  "breaker_run S S' \<Longrightarrow> system_inv k d S \<Longrightarrow> system_inv k d S'"
  by (induction rule: rtranclp_induct) (auto intro: system_inv_step)

text \<open>
  C11: However the requests of any number of tasks interleave and time passes, a breaker keeps
  its configuration and its lock, a closed circuit has counted fewer failures than the threshold
  (or none at all), and an open or half-open circuit knows an instant, not in the future, at which it was opened.
\<close>

theorem breaker_run_invariant:
  assumes "breaker_run (breaker_start threshold timeout now) S"
  shows "breaker_inv (sys_now S) (sys_breaker S) \<and>
    failure_threshold (cb_inner (sys_breaker S)) = threshold \<and>
    recovery_timeout (cb_inner (sys_breaker S)) = timeout"
  using system_inv_run [OF assms, of threshold timeout]
  by (simp add: system_inv_def breaker_start_def CircuitBreaker_new_def breaker_inv_def)

definition sample_system :: breaker_system where
  "sample_system = set_task 0 OnFallback
     ((breaker_start 1 10 5)\<lparr>sys_breaker := record_failure 5 (CircuitBreaker_new 1 10)\<rparr>)"

lemma sample_system_run: "breaker_run (breaker_start 1 10 5) sample_system"
proof -
  let ?S = "breaker_start 1 10 5"
  have 1: "breaker_step ?S (set_task 0 OnPrimary ?S)"
    by (rule to_primary) (simp_all add: breaker_start_def check_read_def CircuitBreaker_new_def)
  have "breaker_step (set_task 0 OnPrimary ?S)
      (set_task 0 OnFallback ((set_task 0 OnPrimary ?S)\<lparr>sys_breaker :=
        record_failure (sys_now (set_task 0 OnPrimary ?S)) (sys_breaker (set_task 0 OnPrimary ?S))\<rparr>))"
    by (rule failure) simp
  moreover have "set_task 0 OnFallback ((set_task 0 OnPrimary ?S)\<lparr>sys_breaker :=
        record_failure (sys_now (set_task 0 OnPrimary ?S)) (sys_breaker (set_task 0 OnPrimary ?S))\<rparr>)
      = sample_system"
    by (simp add: sample_system_def breaker_start_def)
  ultimately show ?thesis using 1 by (metis converse_rtranclp_into_rtranclp rtranclp.rtrancl_refl)
qed

lemma breaker_run_invariant_witness:
  "breaker_inv (sys_now sample_system) (sys_breaker sample_system) \<and>
   recovery_timeout (cb_inner (sys_breaker sample_system)) = 10"
  using breaker_run_invariant [OF sample_system_run] by simp

text \<open>
  A request goes to the fallback without trying the primary exactly when the circuit is
  open and was opened less than the recovery timeout ago; in particular no request is
  diverted from a closed or half-open circuit, nor from an open one whose timeout is over.
\<close>

theorem fallback_only_while_open:
  assumes "breaker_run (breaker_start threshold timeout now) S"
  shows "fst (should_use_fallback (sys_now S) (sys_breaker S)) \<longleftrightarrow>
    cb_state (cb_inner (sys_breaker S)) = Open \<and>
    sys_now S < the (opened_at (cb_inner (sys_breaker S))) + timeout"
proof -
  have inv: "system_inv threshold timeout S"
    using system_inv_run [OF assms, of threshold timeout]
    by (simp add: system_inv_def breaker_start_def CircuitBreaker_new_def breaker_inv_def)
  then show ?thesis
    by (auto simp: system_inv_def breaker_inv_def should_use_fallback_def check_read_def
        split: breaker_state.splits if_splits)
qed

lemma fallback_only_while_open_witness:
  "fst (should_use_fallback (sys_now sample_system) (sys_breaker sample_system))"
  using fallback_only_while_open [OF sample_system_run]
  by (simp add: sample_system_def breaker_start_def record_failure_def CircuitBreaker_new_def)

section \<open>Consecutive failures\<close>

definition record_outcome :: "nat \<Rightarrow> bool \<Rightarrow> circuit_breaker \<Rightarrow> circuit_breaker" where
  "record_outcome now ok b = (if ok then record_success b else record_failure now b)"

definition trailing_failures :: "bool list \<Rightarrow> nat" where
  "trailing_failures outs = length (takeWhile Not (rev outs))"

lemma trailing_failures_snoc [simp]:
  "trailing_failures [] = 0"
  "trailing_failures (outs @ [ok]) = (if ok then 0 else Suc (trailing_failures outs))"
  by (simp_all add: trailing_failures_def)

lemma trailing_failures_run:
  "\<exists>ys. outs = ys @ replicate (trailing_failures outs) False"
proof (induction outs rule: rev_induct)
  case (snoc ok outs)
  then obtain ys where "outs = ys @ replicate (trailing_failures outs) False" by blast
  then have "outs @ [False] = ys @ replicate (Suc (trailing_failures outs)) False"
    by (metis append_assoc replicate_Suc replicate_append_same)
  then have "outs @ [False] = ys @ replicate (trailing_failures (outs @ [False])) False"
    unfolding trailing_failures_snoc if_False .
  moreover have "outs @ [True] = (outs @ [True]) @ replicate (trailing_failures (outs @ [True])) False"
    by simp
  ultimately have "\<exists>ys. outs @ [b] = ys @ replicate (trailing_failures (outs @ [b])) False" for b
    by (cases b rule: bool.exhaust) blast+
  then show ?case .
qed simp

lemma trailing_failures_ge: "m \<le> trailing_failures (ys @ replicate m False)"
proof (induction m)
  case (Suc m)
  have "ys @ replicate (Suc m) False = (ys @ replicate m False) @ [False]"
    by (simp add: replicate_append_same)
  with Suc show ?case by (metis Suc_le_mono trailing_failures_snoc(2))
qed simp

definition failure_run :: "nat \<Rightarrow> bool list \<Rightarrow> bool" where
  "failure_run m outs \<longleftrightarrow> (\<exists>ys zs. outs = ys @ replicate m False @ zs)"

lemma failure_run_snoc:
  "failure_run m (outs @ [ok]) \<longleftrightarrow> failure_run m outs \<or> m \<le> trailing_failures (outs @ [ok])"
proof
  assume "failure_run m (outs @ [ok])"
  then obtain ys zs where e: "outs @ [ok] = ys @ replicate m False @ zs"
    by (auto simp: failure_run_def)
  show "failure_run m outs \<or> m \<le> trailing_failures (outs @ [ok])"
  proof (cases zs rule: rev_cases)
    case Nil
    with e trailing_failures_ge [of m ys] show ?thesis by simp
  next
    case (snoc zs' z)
    with e have "outs = ys @ replicate m False @ zs'" by (metis append.assoc butlast_snoc)
    then show ?thesis by (auto simp: failure_run_def)
  qed
next
  assume "failure_run m outs \<or> m \<le> trailing_failures (outs @ [ok])"
  then show "failure_run m (outs @ [ok])"
  proof
    assume "failure_run m outs"
    then show ?thesis unfolding failure_run_def by (metis append.assoc)
  next
    assume m: "m \<le> trailing_failures (outs @ [ok])"
    obtain ys where "outs @ [ok] = ys @ replicate (trailing_failures (outs @ [ok])) False"
      using trailing_failures_run by blast
    also have "\<dots> = (ys @ replicate (trailing_failures (outs @ [ok]) - m) False) @ replicate m False @ []"
      using m by (simp add: replicate_add [symmetric])
    finally show ?thesis unfolding failure_run_def by blast
  qed
qed

lemma record_outcomes:
  fixes now d :: nat
  assumes "0 < unat k"
  defines "b \<equiv> \<lambda>outs. fold (record_outcome now) outs (CircuitBreaker_new k d)"
  shows "\<not> cb_poisoned (b outs) \<and> failure_threshold (cb_inner (b outs)) = k \<and>
    (if failure_run (unat k) outs then cb_state (cb_inner (b outs)) = Open
     else cb_state (cb_inner (b outs)) = Closed \<and>
          unat (failure_count (cb_inner (b outs))) = trailing_failures outs \<and>
          trailing_failures outs < unat k)"
proof (induction outs rule: rev_induct)
  case Nil
  show ?case
    using assms(1) by (auto simp: b_def CircuitBreaker_new_def failure_run_def)
next
  case (snoc ok outs)
  have step: "b (outs @ [ok]) = record_outcome now ok (b outs)" by (simp add: b_def)
  show ?case
  proof (cases "failure_run (unat k) outs")
    case True
    with snoc have "failure_run (unat k) (outs @ [ok])" by (simp add: failure_run_snoc)
    with True snoc step show ?thesis
      by (auto simp: record_outcome_def record_success_def record_failure_def Let_def)
  next
    case False
    let ?c = "failure_count (cb_inner (b outs))"
    from False snoc have c: "unat ?c = trailing_failures outs" "trailing_failures outs < unat k"
      "cb_state (cb_inner (b outs)) = Closed" by auto
    have "unat (?c + 1) = Suc (trailing_failures outs)"
      using c unsigned_less [of k, where ?'a = nat] unat_add_nat [of ?c 1] by simp
    with False snoc step c show ?thesis
      using assms(1)
      by (auto simp: record_outcome_def record_success_def record_failure_def Let_def
          failure_run_snoc word_le_nat_alt)
  qed
qed

text \<open>
  C25: Starting from a new breaker and while requests only report outcomes, the circuit opens
  exactly when some \<open>threshold\<close> reports in a row are failures: a single success among them resets the count.
\<close>

theorem opens_after_consecutive_failures:
  assumes "0 < unat threshold"
  shows "cb_state (cb_inner (fold (record_outcome now) outs (CircuitBreaker_new threshold timeout))) = Open
    \<longleftrightarrow> (\<exists>before after. outs = before @ replicate (unat threshold) False @ after)"
  using record_outcomes [OF assms, of now outs timeout]
  by (auto simp: failure_run_def [symmetric] split: if_splits)

lemma opens_after_consecutive_failures_witness:
  "cb_state (cb_inner (fold (record_outcome 7) [False, True, False, False, False]
     (CircuitBreaker_new 3 10))) = Open"
proof -
  have "unat (3 :: u32) = Suc (Suc (Suc 0))" by simp
  then have "[False, True, False, False, False] = [False, True] @ replicate (unat (3 :: u32)) False @ []"
    by (simp only: replicate.simps append.simps)
  then have "\<exists>before after. [False, True, False, False, False]
      = before @ replicate (unat (3 :: u32)) False @ after" by blast
  moreover have "0 < unat (3 :: u32)" by simp
  ultimately show ?thesis using opens_after_consecutive_failures [of 3 7] by blast
qed

section \<open>Requests through the executor\<close>

text \<open>
  C26: With a fallback configured, a request fails only when the fallback failed: the error
  that \<open>execute\<close> returns is the one of a call on the fallback.  The sources of the executor never change.
\<close>

theorem execute_error_from_fallback:
  assumes "fe_fallback ex = Some fb" "execute clock f ex w = (r, ex', w')" "\<not> aborted r"
  shows "fe_primary ex' = fe_primary ex \<and> fe_fallback ex' = Some fb \<and>
    (case r of Inl e \<Rightarrow> \<exists>w1. f fb w1 = (Inl e, w')
     | Inr a \<Rightarrow> (\<exists>w1. f fb w1 = (Inr a, w')) \<or> f (fe_primary ex) w = (Inr a, w'))"
  using assms
  by (auto simp: execute_def Let_def aborted_def split: prod.splits sum.splits if_splits report.splits)

definition sample_source :: "bool \<Rightarrow> (nat, nat) eyre_io" where
  "sample_source primary w = (if primary then (eyre_err ''down'', w + 1) else (Inr w, w + 1))"

definition sample_executor :: "bool fallback_executor" where
  "sample_executor = FallbackExecutor_new True (Some False) (CircuitBreaker_new 1 10)"

lemma sample_execute:
  "execute (\<lambda>w. w) sample_source sample_executor 5 =
     (Inr 6, sample_executor\<lparr>fe_breaker := record_failure 6 (CircuitBreaker_new 1 10)\<rparr>, 7)"
  by (simp add: sample_executor_def FallbackExecutor_new_def execute_def should_use_fallback_def
      check_read_def CircuitBreaker_new_def sample_source_def Let_def)

lemma execute_error_from_fallback_witness:
  "(\<exists>w1. sample_source False w1 = (Inr 6, 7)) \<or> sample_source True 5 = (Inr 6, 7)"
  using execute_error_from_fallback [OF _ sample_execute, of False]
  by (simp add: sample_executor_def FallbackExecutor_new_def aborted_def)

lemma execute_cases:
  assumes "fe_fallback ex = Some fb" "execute clock f ex w = (r, ex', w')"
  obtains (fallback) "should_use_fallback (clock w) (fe_breaker ex) = (True, fe_breaker ex)" "f fb w = (r, w')" "ex' = ex"
  | (primary) b a where "should_use_fallback (clock w) (fe_breaker ex) = (False, b)" "f (fe_primary ex) w = (Inr a, w')"
      "r = Inr a" "ex' = ex\<lparr>fe_breaker := record_success b\<rparr>"
  | (failed) b ms w1 where "should_use_fallback (clock w) (fe_breaker ex) = (False, b)"
      "f (fe_primary ex) w = (Inl (Report ms), w1)" "f fb w1 = (r, w')"
      "ex' = ex\<lparr>fe_breaker := record_failure (clock w1) b\<rparr>"
  | (dead) b where "should_use_fallback (clock w) (fe_breaker ex) = (False, b)" "f (fe_primary ex) w = (r, w')"
      "aborted r" "ex' = ex\<lparr>fe_breaker := b\<rparr>"
proof -
  obtain u b where u: "should_use_fallback (clock w) (fe_breaker ex) = (u, b)" by (meson surj_pair)
  obtain r1 w1 where p: "f (fe_primary ex) w = (r1, w1)" by (meson surj_pair)
  show thesis
  proof (cases u)
    case True
    then have "b = fe_breaker ex" using u by (auto simp: should_use_fallback_def split: check_outcome.splits)
    with assms u True show ?thesis by (intro fallback) (auto simp: execute_def split: prod.splits)
  next
    case False
    note eqs = assms u p False
    show ?thesis
    proof (cases r1)
      case (Inr a)
      with eqs show ?thesis by (intro primary [of b a]) (simp_all add: execute_def)
    next
      case (Inl e)
      with eqs show ?thesis
        by (cases e) (auto intro: dead [of b] failed [of b] simp: execute_def aborted_def split: prod.splits)
    qed
  qed
qed

text \<open>What both sources uphold, a request through the executor upholds.\<close>

lemma execute_upholds:
  assumes "transp R" "upholds I R (f (fe_primary ex)) Q" "\<And>p. fe_fallback ex = Some p \<Longrightarrow> upholds I R (f p) Q"
    and "I w" "execute clock f ex w = (r, ex', w')"
  shows "I w' \<and> R w w' \<and> (\<forall>a. r = Inr a \<longrightarrow> Q a w') \<and> fe_primary ex' = fe_primary ex \<and> fe_fallback ex' = fe_fallback ex"
proof (cases "fe_fallback ex")
  case None
  with assms(2,4,5) show ?thesis by (auto simp: execute_def upholds_def split: prod.splits)
next
  case (Some fb)
  note fb = assms(3) [OF Some]
  from Some assms(5) show ?thesis
  proof (cases rule: execute_cases)
    case fallback
    with upholdsD [OF fb assms(4) fallback(2)] show ?thesis by simp
  next
    case (primary b a)
    with upholdsD [OF assms(2,4) primary(2)] show ?thesis by simp
  next
    case (failed b ms w1)
    note 1 = upholdsD [OF assms(2,4) failed(2)]
    from upholdsD [OF fb 1(1) failed(3)] 1(2) failed(4) transpD [OF assms(1)] show ?thesis by auto
  next
    case (dead b)
    with upholdsD [OF assms(2,4) dead(2)] show ?thesis by (auto simp: aborted_def)
  qed
qed

text \<open>
  One request of task \<open>i\<close> as steps that the result of each call drives: the world, the answer once there is
  one, and the breaker with the phases of all tasks.  The decision is made under the lock at the instant of
  the world; a primary that answers ends the request and reports a success, one that fails reports a failure
  at the instant of its failure and sends the same request to the fallback, whose answer ends the request
  and reports nothing.
\<close>

inductive request_step ::
  "('w \<Rightarrow> nat) \<Rightarrow> ('p \<Rightarrow> ('w, 'a) eyre_io) \<Rightarrow> 'p \<Rightarrow> 'p \<Rightarrow> nat
     \<Rightarrow> 'w \<times> 'a eyre option \<times> breaker_system \<Rightarrow> 'w \<times> 'a eyre option \<times> breaker_system \<Rightarrow> bool"
  for clock f p q i where
  decide_primary: "\<lbrakk>sys_task S i = Idle; check_read (clock w) (sys_breaker S) = UsePrimary\<rbrakk> \<Longrightarrow>
    request_step clock f p q i (w, None, S) (w, None, set_task i OnPrimary S)"
| decide_fallback: "\<lbrakk>sys_task S i = Idle; check_read (clock w) (sys_breaker S) = UseFallback\<rbrakk> \<Longrightarrow>
    request_step clock f p q i (w, None, S) (w, None, set_task i OnFallback S)"
| decide_expired: "\<lbrakk>sys_task S i = Idle; check_read (clock w) (sys_breaker S) = TryHalfOpen\<rbrakk> \<Longrightarrow>
    request_step clock f p q i (w, None, S) (w, None, set_task i Expired S)"
| probe: "sys_task S i = Expired \<Longrightarrow>
    request_step clock f p q i (w, None, S)
      (w, None, set_task i OnPrimary (S\<lparr>sys_breaker := enter_half_open (sys_breaker S)\<rparr>))"
| primary_ok: "\<lbrakk>sys_task S i = OnPrimary; f p w = (Inr a, w')\<rbrakk> \<Longrightarrow>
    request_step clock f p q i (w, None, S)
      (w', Some (Inr a), set_task i Idle (S\<lparr>sys_now := clock w', sys_breaker := record_success (sys_breaker S)\<rparr>))"
| primary_err: "\<lbrakk>sys_task S i = OnPrimary; f p w = (Inl (Report ms), w')\<rbrakk> \<Longrightarrow>
    request_step clock f p q i (w, None, S)
      (w', None, set_task i OnFallback (S\<lparr>sys_now := clock w', sys_breaker := record_failure (clock w') (sys_breaker S)\<rparr>))"
| fallback_answer: "\<lbrakk>sys_task S i = OnFallback; f q w = (r, w')\<rbrakk> \<Longrightarrow>
    request_step clock f p q i (w, None, S) (w', Some r, set_task i Idle (S\<lparr>sys_now := clock w'\<rparr>))"

abbreviation request_run ::
  "('w \<Rightarrow> nat) \<Rightarrow> ('p \<Rightarrow> ('w, 'a) eyre_io) \<Rightarrow> 'p \<Rightarrow> 'p \<Rightarrow> nat
     \<Rightarrow> 'w \<times> 'a eyre option \<times> breaker_system \<Rightarrow> 'w \<times> 'a eyre option \<times> breaker_system \<Rightarrow> bool" where
  "request_run clock f p q i \<equiv> (request_step clock f p q i)\<^sup>*\<^sup>*"

text \<open>A step of a request is a run of the interleaved system, as long as calls do not set the clock back.\<close>

lemma request_step_breaker_run:
  assumes "request_step clock f p q i X Y" and "\<And>p v r v'. f p v = (r, v') \<Longrightarrow> clock v \<le> clock v'"
    and "sys_now (snd (snd X)) = clock (fst X)"
  shows "breaker_run (snd (snd X)) (snd (snd Y)) \<and> sys_now (snd (snd Y)) = clock (fst Y)"
  using assms(1,3)
proof (cases rule: request_step.cases)
  case (decide_primary S w)
  with to_primary [of S i] assms(3) show ?thesis by auto
next
  case (decide_fallback S w)
  with to_fallback [of S i] assms(3) show ?thesis by auto
next
  case (decide_expired S w)
  with expired [of S i] assms(3) show ?thesis by auto
next
  case (probe S w)
  with half_open [of S i] assms(3) show ?thesis by auto
next
  case (primary_ok S w a w')
  let ?S = "S\<lparr>sys_now := clock w'\<rparr>"
  have "breaker_step S ?S" using tick [of S "clock w'"] assms(2) [OF primary_ok(4)] assms(3) primary_ok(1) by simp
  with success [of ?S i] primary_ok show ?thesis by (auto intro: converse_rtranclp_into_rtranclp)
next
  case (primary_err S w ms w')
  let ?S = "S\<lparr>sys_now := clock w'\<rparr>"
  have "breaker_step S ?S" using tick [of S "clock w'"] assms(2) [OF primary_err(4)] assms(3) primary_err(1) by simp
  with failure [of ?S i] primary_err show ?thesis by (auto intro: converse_rtranclp_into_rtranclp)
next
  case (fallback_answer S w r w')
  let ?S = "S\<lparr>sys_now := clock w'\<rparr>"
  have "breaker_step S ?S" using tick [of S "clock w'"] assms(2) [OF fallback_answer(4)] assms(3) fallback_answer(1) by simp
  with answered [of ?S i] fallback_answer show ?thesis by (auto intro: converse_rtranclp_into_rtranclp)
qed

lemma request_run_breaker_run:
  assumes "request_run clock f p q i X Y" and "\<And>p v r v'. f p v = (r, v') \<Longrightarrow> clock v \<le> clock v'"
    and "sys_now (snd (snd X)) = clock (fst X)"
  shows "breaker_run (snd (snd X)) (snd (snd Y)) \<and> sys_now (snd (snd Y)) = clock (fst Y)"
  using assms(1)
proof (induction rule: rtranclp_induct)
  case (step Y Z)
  then show ?case using request_step_breaker_run [OF step(2) assms(2)] by (meson rtranclp_trans)
qed (simp add: assms(3))

lemma request_to_primary:
  assumes "should_use_fallback (clock w) b0 = (False, b)" "T i = Idle"
  shows "request_run clock f p q i (w, None, \<lparr>sys_now = t, sys_breaker = b0, sys_task = T\<rparr>)
    (w, None, \<lparr>sys_now = t, sys_breaker = b, sys_task = T(i := OnPrimary)\<rparr>)"
proof (cases "check_read (clock w) b0")
  case TryHalfOpen
  let ?S = "\<lparr>sys_now = t, sys_breaker = b0, sys_task = T\<rparr>"
  let ?E = "\<lparr>sys_now = t, sys_breaker = b0, sys_task = T(i := Expired)\<rparr>"
  have "request_step clock f p q i (w, None, ?S) (w, None, ?E)"
    using decide_expired [of ?S i clock w f p q] TryHalfOpen assms(2) by simp
  moreover have "request_step clock f p q i (w, None, ?E) (w, None, \<lparr>sys_now = t, sys_breaker = b, sys_task = T(i := OnPrimary)\<rparr>)"
    using probe [of ?E i clock f p q w] TryHalfOpen assms(1) by (simp add: should_use_fallback_def)
  ultimately show ?thesis by (meson converse_rtranclp_into_rtranclp r_into_rtranclp)
next
  case UsePrimary
  then show ?thesis
    using decide_primary [of "\<lparr>sys_now = t, sys_breaker = b0, sys_task = T\<rparr>" i clock w f p q] assms
    by (simp add: should_use_fallback_def r_into_rtranclp)
qed (use assms in \<open>simp add: should_use_fallback_def\<close>)

lemma execute_request_run:
  assumes "fe_fallback ex = Some fb" "execute clock f ex w = (r, ex', w')" "T i = Idle" "\<not> aborted r"
  shows "request_run clock f (fe_primary ex) fb i
    (w, None, \<lparr>sys_now = clock w, sys_breaker = fe_breaker ex, sys_task = T\<rparr>)
    (w', Some r, \<lparr>sys_now = clock w', sys_breaker = fe_breaker ex', sys_task = T\<rparr>)"
proof -
  let ?sys = "\<lambda>t b p. \<lparr>sys_now = t, sys_breaker = b, sys_task = T(i := p)\<rparr>"
  let ?run = "request_run clock f (fe_primary ex) fb i (w, None, \<lparr>sys_now = clock w, sys_breaker = fe_breaker ex, sys_task = T\<rparr>)"
  have T: "T(i := Idle) = T" using assms(3) by auto
  have answer: "?run (v', Some r, \<lparr>sys_now = clock v', sys_breaker = b, sys_task = T\<rparr>)"
    if "?run (v, None, ?sys t b OnFallback)" "f fb v = (r, v')" for v v' t b
    using rtranclp.rtrancl_into_rtrancl [OF that(1) fallback_answer, of r v'] that(2) T by simp
  from assms(1,2) show ?thesis
  proof (cases rule: execute_cases)
    case fallback
    have "check_read (clock w) (fe_breaker ex) = UseFallback"
      using fallback(1) by (simp add: should_use_fallback_def split: check_outcome.splits)
    then have "?run (w, None, ?sys (clock w) (fe_breaker ex) OnFallback)"
      using decide_fallback [of "\<lparr>sys_now = clock w, sys_breaker = fe_breaker ex, sys_task = T\<rparr>" i clock w f "fe_primary ex" fb] assms(3)
      by (simp add: r_into_rtranclp)
    from answer [OF this fallback(2)] fallback(3) show ?thesis by simp
  next
    case (primary b a)
    from rtranclp.rtrancl_into_rtrancl [OF request_to_primary [where T = T and clock = clock and w = w and f = f and p = "fe_primary ex" and q = fb and t = "clock w", OF primary(1) assms(3)]
      primary_ok, OF _ primary(2)]
      primary(3,4) T show ?thesis by simp
  next
    case (failed b ms w1)
    from rtranclp.rtrancl_into_rtrancl [OF request_to_primary [where T = T and clock = clock and w = w and f = f and p = "fe_primary ex" and q = fb and t = "clock w", OF failed(1) assms(3)]
      primary_err, OF _ failed(2)]
    have "?run (w1, None, ?sys (clock w1) (record_failure (clock w1) b) OnFallback)" by simp
    from answer [OF this failed(3)] failed(4) show ?thesis by simp
  qed (use assms(4) in simp)
qed

text \<open>
  C24: A request through the executor is a run of the request's steps that ends with the answer it
  returns, in the world and with the breaker it leaves: what is recorded in the breaker follows from what the calls
  returned.  With a clock that calls never set back it is also a run of the interleaved system
  in which one task makes its request and returns to idle.
\<close>

theorem execute_refines_steps:
  assumes "fe_fallback ex = Some fb" "execute clock f ex w = (r, ex', w')"
    and "\<And>p v r v'. f p v = (r, v') \<Longrightarrow> clock v \<le> clock v'" 
    and "S = \<lparr>sys_now = clock w, sys_breaker = fe_breaker ex, sys_task = T\<rparr>" "T i = Idle"
    and "S' = \<lparr>sys_now = clock w', sys_breaker = fe_breaker ex', sys_task = T\<rparr>"
    and "\<not> aborted r"
  shows "request_run clock f (fe_primary ex) fb i (w, None, S) (w', Some r, S') \<and> breaker_run S S'"
proof -
  have run: "request_run clock f (fe_primary ex) fb i (w, None, S) (w', Some r, S')"
    using execute_request_run [where T = T, OF assms(1,2,5,7)] assms(4,6) by simp
  with request_run_breaker_run [OF run assms(3)] assms(4) show ?thesis by simp
qed

lemma execute_refines_steps_witness:
  "request_run (\<lambda>w. w) sample_source True False 0
     (5, None, \<lparr>sys_now = 5, sys_breaker = CircuitBreaker_new 1 10, sys_task = (\<lambda>_. Idle)\<rparr>)
     (7, Some (Inr 6), \<lparr>sys_now = 7, sys_breaker = record_failure 6 (CircuitBreaker_new 1 10), sys_task = (\<lambda>_. Idle)\<rparr>)"
proof -
  have mono: "v \<le> v'" if "sample_source p v = (r, v')" for p v r v'
    using that by (auto simp: sample_source_def split: if_splits)
  show ?thesis
    using execute_refines_steps [OF _ sample_execute mono, where fb = False and T = "\<lambda>_. Idle" and i = 0]
    by (simp add: sample_executor_def FallbackExecutor_new_def aborted_def)
qed

end
