(* ===== verification/Archive_Facade.thy ===== *)
theory Archive_Facade
  imports Circuit_Breaker Tx_Index
begin

text \<open>
  The reader that clients use (\<open>archive\_reader.rs\<close>): an executor over block data readers and one
  over index readers, each with its own circuit breaker.  A call changes the breaker of the
  executor it goes through.
\<close>

record ('w, 'h, 't, 'r, 'wd) archive_reader_state =
  ar_block_data_executor :: "('w, 'h, 't, 'r, 'wd) block_data_reader fallback_executor"
  ar_index_executor :: "('w, 'h, 't, 'r, 'wd) index_reader_impl fallback_executor"

definition get_circuit_breaker_metrics ::
  "nat \<Rightarrow> ('w, 'h, 't, 'r, 'wd) archive_reader_state \<Rightarrow> breaker_metrics \<times> breaker_metrics" where
  "get_circuit_breaker_metrics now a =
     (CircuitBreaker_metrics now (fe_breaker (ar_block_data_executor a)),
      CircuitBreaker_metrics now (fe_breaker (ar_index_executor a)))"

text \<open>\<open>Duration::from_secs(60 * 5)\<close>, in seconds.\<close>

definition ArchiveReader_new ::
  "('w, 'h, 't, 'r, 'wd) block_data_reader \<Rightarrow> ('w, 'h, 't, 'r, 'wd) index_reader_impl
     \<Rightarrow> ('w, 'h, 't, 'r, 'wd) archive_reader_state option \<Rightarrow> ('w, 'h, 't, 'r, 'wd) archive_reader_state" where
  "ArchiveReader_new rd ir fallback =
     (let breaker = CircuitBreaker_new 10 300 in
      \<lparr>ar_block_data_executor =
         FallbackExecutor_new rd (map_option (\<lambda>f. fe_primary (ar_block_data_executor f)) fallback) breaker,
       ar_index_executor =
         FallbackExecutor_new ir (map_option (\<lambda>f. fe_primary (ar_index_executor f)) fallback) breaker\<rparr>)"

definition with_fallback ::
  "('w, 'h, 't, 'r, 'wd) archive_reader_state \<Rightarrow> ('w, 'h, 't, 'r, 'wd) archive_reader_state option \<Rightarrow> u32 option
     \<Rightarrow> nat option \<Rightarrow> ('w, 'h, 't, 'r, 'wd) archive_reader_state" where
  "with_fallback a fallback threshold timeout =
     (case fallback of
        None \<Rightarrow> a
      | Some f \<Rightarrow>
          let breaker = CircuitBreaker_new (case threshold of None \<Rightarrow> 100 | Some t \<Rightarrow> t)
                          (case timeout of None \<Rightarrow> 300 | Some t \<Rightarrow> t) in
          \<lparr>ar_block_data_executor = FallbackExecutor_new (fe_primary (ar_block_data_executor a))
             (Some (fe_primary (ar_block_data_executor f))) breaker,
           ar_index_executor = FallbackExecutor_new (fe_primary (ar_index_executor a))
             (Some (fe_primary (ar_index_executor f))) breaker\<rparr>)"

text \<open>A call through one of the two executors.\<close>

definition on_block_data ::
  "('w \<Rightarrow> nat) \<Rightarrow> (('w, 'h, 't, 'r, 'wd) block_data_reader \<Rightarrow> ('w, 'a) eyre_io) \<Rightarrow> ('w, 'h, 't, 'r, 'wd) archive_reader_state
     \<Rightarrow> 'w \<Rightarrow> 'a eyre \<times> ('w, 'h, 't, 'r, 'wd) archive_reader_state \<times> 'w" where
  "on_block_data clock f a w =
     (let (r, ex, w') = execute clock f (ar_block_data_executor a) w in (r, a\<lparr>ar_block_data_executor := ex\<rparr>, w'))"

definition on_index ::
  "('w \<Rightarrow> nat) \<Rightarrow> (('w, 'h, 't, 'r, 'wd) index_reader_impl \<Rightarrow> ('w, 'a) eyre_io) \<Rightarrow> ('w, 'h, 't, 'r, 'wd) archive_reader_state
     \<Rightarrow> 'w \<Rightarrow> 'a eyre \<times> ('w, 'h, 't, 'r, 'wd) archive_reader_state \<times> 'w" where
  "on_index clock f a w =
     (let (r, ex, w') = execute clock f (ar_index_executor a) w in (r, a\<lparr>ar_index_executor := ex\<rparr>, w'))"

section \<open>Block data\<close>

definition ArchiveReader_get_latest ::
  "('w \<Rightarrow> nat) \<Rightarrow> latest_kind \<Rightarrow> ('w, 'h, 't, 'r, 'wd) archive_reader_state \<Rightarrow> 'w
     \<Rightarrow> (u64 option) eyre \<times> ('w, 'h, 't, 'r, 'wd) archive_reader_state \<times> 'w" where
  "ArchiveReader_get_latest clock x = on_block_data clock (\<lambda>bdr. br_get_latest bdr x)"

definition ArchiveReader_get_block_number_by_hash ::
  "('w \<Rightarrow> nat) \<Rightarrow> b256 \<Rightarrow> ('w, 'h, 't, 'r, 'wd) archive_reader_state \<Rightarrow> 'w
     \<Rightarrow> (u64) eyre \<times> ('w, 'h, 't, 'r, 'wd) archive_reader_state \<times> 'w" where
  "ArchiveReader_get_block_number_by_hash clock x = on_block_data clock (\<lambda>bdr. br_get_block_number_by_hash bdr x)"

definition ArchiveReader_get_block_by_number ::
  "('w \<Rightarrow> nat) \<Rightarrow> u64 \<Rightarrow> ('w, 'h, 't, 'r, 'wd) archive_reader_state \<Rightarrow> 'w
     \<Rightarrow> (('h, 't, 'wd) block) eyre \<times> ('w, 'h, 't, 'r, 'wd) archive_reader_state \<times> 'w" where
  "ArchiveReader_get_block_by_number clock x = on_block_data clock (\<lambda>bdr. br_get_block_by_number bdr x)"

definition ArchiveReader_get_block_by_hash ::
  "('w \<Rightarrow> nat) \<Rightarrow> b256 \<Rightarrow> ('w, 'h, 't, 'r, 'wd) archive_reader_state \<Rightarrow> 'w
     \<Rightarrow> (('h, 't, 'wd) block) eyre \<times> ('w, 'h, 't, 'r, 'wd) archive_reader_state \<times> 'w" where
  "ArchiveReader_get_block_by_hash clock x = on_block_data clock (\<lambda>bdr. br_get_block_by_hash bdr x)"

definition ArchiveReader_get_block_receipts ::
  "('w \<Rightarrow> nat) \<Rightarrow> u64 \<Rightarrow> ('w, 'h, 't, 'r, 'wd) archive_reader_state \<Rightarrow> 'w
     \<Rightarrow> ('r block_receipts) eyre \<times> ('w, 'h, 't, 'r, 'wd) archive_reader_state \<times> 'w" where
  "ArchiveReader_get_block_receipts clock x = on_block_data clock (\<lambda>bdr. br_get_block_receipts bdr x)"

definition ArchiveReader_get_block_traces ::
  "('w \<Rightarrow> nat) \<Rightarrow> u64 \<Rightarrow> ('w, 'h, 't, 'r, 'wd) archive_reader_state \<Rightarrow> 'w
     \<Rightarrow> (block_traces) eyre \<times> ('w, 'h, 't, 'r, 'wd) archive_reader_state \<times> 'w" where
  "ArchiveReader_get_block_traces clock x = on_block_data clock (\<lambda>bdr. br_get_block_traces bdr x)"

definition ArchiveReader_get_block_data_with_offsets ::
  "('w \<Rightarrow> nat) \<Rightarrow> u64 \<Rightarrow> ('w, 'h, 't, 'r, 'wd) archive_reader_state \<Rightarrow> 'w
     \<Rightarrow> (('h, 't, 'r, 'wd) block_data_with_offsets) eyre \<times> ('w, 'h, 't, 'r, 'wd) archive_reader_state \<times> 'w" where
  "ArchiveReader_get_block_data_with_offsets clock x = on_block_data clock (\<lambda>bdr. br_get_block_data_with_offsets bdr x)"

definition ArchiveReader_try_get_block_number_by_hash ::
  "('w \<Rightarrow> nat) \<Rightarrow> b256 \<Rightarrow> ('w, 'h, 't, 'r, 'wd) archive_reader_state \<Rightarrow> 'w
     \<Rightarrow> (u64 option) eyre \<times> ('w, 'h, 't, 'r, 'wd) archive_reader_state \<times> 'w" where
  "ArchiveReader_try_get_block_number_by_hash clock x = on_block_data clock (\<lambda>bdr. br_try_get_block_number_by_hash bdr x)"

definition ArchiveReader_try_get_block_by_number ::
  "('w \<Rightarrow> nat) \<Rightarrow> u64 \<Rightarrow> ('w, 'h, 't, 'r, 'wd) archive_reader_state \<Rightarrow> 'w
     \<Rightarrow> (('h, 't, 'wd) block option) eyre \<times> ('w, 'h, 't, 'r, 'wd) archive_reader_state \<times> 'w" where
  "ArchiveReader_try_get_block_by_number clock x = on_block_data clock (\<lambda>bdr. br_try_get_block_by_number bdr x)"

definition ArchiveReader_try_get_block_receipts ::
  "('w \<Rightarrow> nat) \<Rightarrow> u64 \<Rightarrow> ('w, 'h, 't, 'r, 'wd) archive_reader_state \<Rightarrow> 'w
     \<Rightarrow> ('r block_receipts option) eyre \<times> ('w, 'h, 't, 'r, 'wd) archive_reader_state \<times> 'w" where
  "ArchiveReader_try_get_block_receipts clock x = on_block_data clock (\<lambda>bdr. br_try_get_block_receipts bdr x)"

definition ArchiveReader_try_get_block_traces ::
  "('w \<Rightarrow> nat) \<Rightarrow> u64 \<Rightarrow> ('w, 'h, 't, 'r, 'wd) archive_reader_state \<Rightarrow> 'w
     \<Rightarrow> (block_traces option) eyre \<times> ('w, 'h, 't, 'r, 'wd) archive_reader_state \<times> 'w" where
  "ArchiveReader_try_get_block_traces clock x = on_block_data clock (\<lambda>bdr. br_try_get_block_traces bdr x)"

definition ArchiveReader_try_get_block_by_hash ::
  "('w \<Rightarrow> nat) \<Rightarrow> b256 \<Rightarrow> ('w, 'h, 't, 'r, 'wd) archive_reader_state \<Rightarrow> 'w
     \<Rightarrow> (('h, 't, 'wd) block option) eyre \<times> ('w, 'h, 't, 'r, 'wd) archive_reader_state \<times> 'w" where
  "ArchiveReader_try_get_block_by_hash clock x = on_block_data clock (\<lambda>bdr. br_try_get_block_by_hash bdr x)"

section \<open>The transaction index\<close>

definition ArchiveReader_get_latest_indexed ::
  "('w \<Rightarrow> nat) \<Rightarrow> bool
     \<Rightarrow> ('w, 'h, 't, 'r, 'wd) archive_reader_state \<Rightarrow> 'w
     \<Rightarrow> (u64 option) eyre \<times> ('w, 'h, 't, 'r, 'wd) archive_reader_state \<times> 'w" where
  "ArchiveReader_get_latest_indexed clock x = on_index clock (\<lambda>ir. get_latest_indexed ir x)"

definition ArchiveReader_get_tx_indexed_data ::
  "('h, 't, 'r, 'wd) alloy \<Rightarrow> ('t, 'r) index_codecs \<Rightarrow> ('w \<Rightarrow> nat) \<Rightarrow> b256
     \<Rightarrow> ('w, 'h, 't, 'r, 'wd) archive_reader_state \<Rightarrow> 'w
     \<Rightarrow> (('t, 'r) tx_indexed_data option) eyre \<times> ('w, 'h, 't, 'r, 'wd) archive_reader_state \<times> 'w" where
  "ArchiveReader_get_tx_indexed_data A C clock x = on_index clock (\<lambda>ir. get_tx_indexed_data A C ir x)"

definition ArchiveReader_get_tx_indexed_data_bulk ::
  "('h, 't, 'r, 'wd) alloy \<Rightarrow> ('t, 'r) index_codecs \<Rightarrow> ('w \<Rightarrow> nat) \<Rightarrow> b256 list
     \<Rightarrow> ('w, 'h, 't, 'r, 'wd) archive_reader_state \<Rightarrow> 'w
     \<Rightarrow> (b256 \<rightharpoonup> ('t, 'r) tx_indexed_data) eyre \<times> ('w, 'h, 't, 'r, 'wd) archive_reader_state \<times> 'w" where
  "ArchiveReader_get_tx_indexed_data_bulk A C clock x = on_index clock (\<lambda>ir. get_tx_indexed_data_bulk A C ir x)"

definition ArchiveReader_get_tx ::
  "('h, 't, 'r, 'wd) alloy \<Rightarrow> ('t, 'r) index_codecs \<Rightarrow> ('w \<Rightarrow> nat) \<Rightarrow> b256
     \<Rightarrow> ('w, 'h, 't, 'r, 'wd) archive_reader_state \<Rightarrow> 'w
     \<Rightarrow> (('t tx_envelope_with_sender \<times> header_subset) option) eyre \<times> ('w, 'h, 't, 'r, 'wd) archive_reader_state \<times> 'w" where
  "ArchiveReader_get_tx A C clock x = on_index clock (\<lambda>ir. get_tx A C ir x)"

definition ArchiveReader_get_trace ::
  "('h, 't, 'r, 'wd) alloy \<Rightarrow> ('t, 'r) index_codecs \<Rightarrow> ('w \<Rightarrow> nat) \<Rightarrow> b256
     \<Rightarrow> ('w, 'h, 't, 'r, 'wd) archive_reader_state \<Rightarrow> 'w
     \<Rightarrow> ((bytes \<times> header_subset) option) eyre \<times> ('w, 'h, 't, 'r, 'wd) archive_reader_state \<times> 'w" where
  "ArchiveReader_get_trace A C clock x = on_index clock (\<lambda>ir. get_trace A C ir x)"

definition ArchiveReader_get_receipt ::
  "('h, 't, 'r, 'wd) alloy \<Rightarrow> ('t, 'r) index_codecs \<Rightarrow> ('w \<Rightarrow> nat) \<Rightarrow> b256
     \<Rightarrow> ('w, 'h, 't, 'r, 'wd) archive_reader_state \<Rightarrow> 'w
     \<Rightarrow> (('r receipt_with_log_index \<times> header_subset) option) eyre \<times> ('w, 'h, 't, 'r, 'wd) archive_reader_state \<times> 'w" where
  "ArchiveReader_get_receipt A C clock x = on_index clock (\<lambda>ir. get_receipt A C ir x)"

definition ArchiveReader_resolve_from_bytes ::
  "('h, 't, 'r, 'wd) alloy \<Rightarrow> ('t, 'r) index_codecs \<Rightarrow> ('w \<Rightarrow> nat) \<Rightarrow> bytes
     \<Rightarrow> ('w, 'h, 't, 'r, 'wd) archive_reader_state \<Rightarrow> 'w
     \<Rightarrow> (('t, 'r) tx_indexed_data) eyre \<times> ('w, 'h, 't, 'r, 'wd) archive_reader_state \<times> 'w" where
  "ArchiveReader_resolve_from_bytes A C clock x = on_index clock (\<lambda>ir. resolve_from_bytes A C ir x)"

section \<open>What the reader answers\<close>

text \<open>
  Failover from a primary \<open>p\<close> to a fallback \<open>q\<close>, in terms of the fields of the breaker only.  While the circuit
  is open and its timeout is not over, the fallback answers and the breaker is left alone.  Otherwise the
  primary is asked.  Its answer is passed on and closes the circuit; its error is counted, opens the
  circuit unless it was closed and stays below the threshold, and the fallback answers in its place, in the
  world the primary left.  A panic of the primary is passed on.
\<close>

definition failover ::
  "('w \<Rightarrow> nat) \<Rightarrow> ('p \<Rightarrow> ('w, 'a) eyre_io) \<Rightarrow> 'p \<Rightarrow> 'p \<Rightarrow> circuit_breaker_state \<Rightarrow> 'w
     \<Rightarrow> 'a eyre \<Rightarrow> circuit_breaker_state \<Rightarrow> 'w \<Rightarrow> bool" where
  "failover clock call p q s w r s' w' \<longleftrightarrow>
     (if cb_state s = Open \<and> clock w < the (opened_at s) + recovery_timeout s
      then call q w = (r, w') \<and> s' = s
      else case call p w of
        (Inr x, w1) \<Rightarrow> r = Inr x \<and> w' = w1 \<and> s' = s\<lparr>cb_state := Closed, failure_count := 0, opened_at := None\<rparr>
      | (Inl (Report ms), w1) \<Rightarrow> call q w1 = (r, w') \<and>
          s' = (if cb_state s = Closed \<and> failure_count s + 1 < failure_threshold s
                then s\<lparr>failure_count := failure_count s + 1\<rparr>
                else s\<lparr>cb_state := Open, failure_count := failure_count s + 1, opened_at := Some (clock w1)\<rparr>)
      | (Inl e, w1) \<Rightarrow> r = Inl e \<and> w' = w1)"

lemma execute_failover:
  assumes "fe_fallback ex = Some q" "breaker_inv (clock w) (fe_breaker ex)"
  shows "case execute clock f ex w of (r, ex', w') \<Rightarrow>
    failover clock f (fe_primary ex) q (cb_inner (fe_breaker ex)) w r (cb_inner (fe_breaker ex')) w' \<and>
    fe_primary ex' = fe_primary ex \<and> fe_fallback ex' = Some q \<and> \<not> cb_poisoned (fe_breaker ex')"
proof -
  obtain r ex' w' where ex: "execute clock f ex w = (r, ex', w')" by (metis prod_cases3)
  note defs = failover_def breaker_defs should_use_fallback_def check_read_def aborted_def Let_def
  note splits = breaker_state.splits if_splits
  from assms(1) ex show ?thesis
  proof (cases rule: execute_cases)
    case fallback
    with assms ex show ?thesis by (auto simp: defs split: splits)
  next
    case (primary b x)
    with assms ex show ?thesis by (auto simp: defs split: splits)
  next
    case (failed b ms w1)
    with assms ex show ?thesis by (auto simp: defs split: splits)
  next
    case (dead b)
    with assms ex show ?thesis by (auto simp: defs split: splits)
  qed
qed

text \<open>
  A call of the reader through its block data executor, and through its index executor: the failover of that
  executor's sources, leaving the sources and the whole other executor as they are.
\<close>

definition block_data_failover ::
  "('w \<Rightarrow> nat) \<Rightarrow> (('w, 'h, 't, 'r, 'wd) block_data_reader \<Rightarrow> ('w, 'a) eyre_io) \<Rightarrow> ('w, 'h, 't, 'r, 'wd) archive_reader_state
     \<Rightarrow> 'w \<Rightarrow> 'a eyre \<times> ('w, 'h, 't, 'r, 'wd) archive_reader_state \<times> 'w \<Rightarrow> bool" where
  "block_data_failover clock call a w out \<longleftrightarrow>
     (case out of (r, a', w') \<Rightarrow>
       let ex = ar_block_data_executor a; ex' = ar_block_data_executor a' in
       failover clock call (fe_primary ex) (the (fe_fallback ex)) (cb_inner (fe_breaker ex)) w
         r (cb_inner (fe_breaker ex')) w' \<and>
       fe_primary ex' = fe_primary ex \<and> fe_fallback ex' = fe_fallback ex \<and> ar_index_executor a' = ar_index_executor a)"

definition index_failover ::
  "('w \<Rightarrow> nat) \<Rightarrow> (('w, 'h, 't, 'r, 'wd) index_reader_impl \<Rightarrow> ('w, 'a) eyre_io) \<Rightarrow> ('w, 'h, 't, 'r, 'wd) archive_reader_state
     \<Rightarrow> 'w \<Rightarrow> 'a eyre \<times> ('w, 'h, 't, 'r, 'wd) archive_reader_state \<times> 'w \<Rightarrow> bool" where
  "index_failover clock call a w out \<longleftrightarrow>
     (case out of (r, a', w') \<Rightarrow>
       let ex = ar_index_executor a; ex' = ar_index_executor a' in
       failover clock call (fe_primary ex) (the (fe_fallback ex)) (cb_inner (fe_breaker ex)) w
         r (cb_inner (fe_breaker ex')) w' \<and>
       fe_primary ex' = fe_primary ex \<and> fe_fallback ex' = fe_fallback ex \<and>
       ar_block_data_executor a' = ar_block_data_executor a)"

definition fails_over :: "nat \<Rightarrow> 'p fallback_executor \<Rightarrow> bool" where
  "fails_over now ex \<longleftrightarrow> fe_fallback ex \<noteq> None \<and> breaker_inv now (fe_breaker ex)"

lemma on_block_data_failover:
  "fails_over (clock w) (ar_block_data_executor a) \<Longrightarrow> block_data_failover clock f a w (on_block_data clock f a w)"
  using execute_failover [of "ar_block_data_executor a" _ clock w f]
  by (auto simp: fails_over_def block_data_failover_def on_block_data_def split: prod.splits)

lemma on_index_failover:
  "fails_over (clock w) (ar_index_executor a) \<Longrightarrow> index_failover clock f a w (on_index clock f a w)"
  using execute_failover [of "ar_index_executor a" _ clock w f]
  by (auto simp: fails_over_def index_failover_def on_index_def split: prod.splits)

lemmas facade_methods =
  ArchiveReader_get_latest_def ArchiveReader_get_block_number_by_hash_def ArchiveReader_get_block_by_number_def
  ArchiveReader_get_block_by_hash_def ArchiveReader_get_block_receipts_def ArchiveReader_get_block_traces_def
  ArchiveReader_get_block_data_with_offsets_def ArchiveReader_try_get_block_number_by_hash_def ArchiveReader_try_get_block_by_number_def
  ArchiveReader_try_get_block_receipts_def ArchiveReader_try_get_block_traces_def ArchiveReader_try_get_block_by_hash_def
  ArchiveReader_get_latest_indexed_def ArchiveReader_get_tx_indexed_data_def ArchiveReader_get_tx_indexed_data_bulk_def
  ArchiveReader_get_tx_def ArchiveReader_get_trace_def ArchiveReader_get_receipt_def
  ArchiveReader_resolve_from_bytes_def


text \<open>The archive first, the execution database when the archive fails.\<close>

definition sample_reader :: "(memory_storage, u64, u64, u64, unit) archive_reader_state" where
  "sample_reader =
     (let rd = archive_reader sample_alloy (BlockDataArchive_new (MemoryStorage []));
          f = ArchiveReader_new (sample_source 5) (IndexReaderImpl_new (MemoryStorage []) (sample_source 5)) None in
      with_fallback (ArchiveReader_new rd (IndexReaderImpl_new (MemoryStorage []) rd) None) (Some f) None None)"


end
