(* ===== verification/Logs_Index.thy ===== *)
theory Logs_Index
  imports Tx_Index
begin

text \<open>
  The index of logs (\<open>model/logs\_index.rs\<close>): each indexed transaction is enriched with the
  prefixes of the addresses and topics of its logs, and a query for logs selects the transactions
  whose prefixes match.  The collection is a MongoDB server: its update and the resolution of a
  found document are arguments, and \<open>query_matches\<close> is the documented meaning of the query
  operators used, on which the comparison of stored and queried prefixes rests.
\<close>

section \<open>Documents\<close>

record log =
  lg_address :: address
  lg_topics :: "b256 list"

text \<open>A document of binary fields, in the order in which they were inserted.\<close>

type_synonym document = "(string \<times> bytes) list"

record tx_logs_index_document =
  tl_block_number :: u64
  tl_id :: string
  tl_logs :: "document list"

definition fb_to_bson :: "'n::len word \<Rightarrow> bytes" where
  "fb_to_bson fb = take 4 (word_to_be fb)"

definition log_to_doc :: "log \<Rightarrow> document" where
  "log_to_doc lg =
     (''address'', fb_to_bson (lg_address lg)) #
     map (\<lambda>(i, t). (''topic_'' @ to_decimal i, fb_to_bson t)) (enumerate 0 (lg_topics lg))"

definition logs_to_doc :: "log list \<Rightarrow> document list" where
  "logs_to_doc logs = map log_to_doc logs"

definition from_receipts ::
  "('h, 't, 'r, 'wd) alloy \<Rightarrow> ('r \<Rightarrow> log list) \<Rightarrow> ('h, 't, 'wd) block \<Rightarrow> 'r block_receipts \<Rightarrow> tx_logs_index_document list" where
  "from_receipts A logs block receipts =
     map (\<lambda>(receipt, tx).
            \<lparr>tl_block_number = al_number A (blk_header block), tl_id = al_hex A (al_tx_hash A (tx_envelope tx)),
             tl_logs = logs_to_doc (logs (rcp_receipt receipt))\<rparr>)
         (zip receipts (blk_transactions block))"

section \<open>Indexing\<close>

text \<open>
  \<open>update_one\<close> sets the logs and the block number, as a signed integer, of the document with an
  identifier, and retries on its own.
\<close>

definition LogsIndexArchiver_index_block ::
  "('h, 't, 'r, 'wd) alloy \<Rightarrow> ('r \<Rightarrow> log list) \<Rightarrow> (string \<Rightarrow> document list \<Rightarrow> u64 \<Rightarrow> ('w, unit) eyre_io)
     \<Rightarrow> ('h, 't, 'wd) block \<Rightarrow> 'r block_receipts \<Rightarrow> ('w, unit) eyre_io" where
  "LogsIndexArchiver_index_block A logs update_one block receipts =
     (let txs = from_receipts A logs block receipts in
      if txs = [] then io_lift (Inr ())
      else io_wrap_err ''Failed to insert logs after retries''
             (io_bind (io_map (\<lambda>tx. io_wrap_err ''Failed to insert logs''
                (update_one (tl_id tx) (tl_logs tx) (tl_block_number tx))) txs) (\<lambda>_. io_lift (Inr ()))))"

section \<open>Querying\<close>

text \<open>The range is on signed integers; each other entry is a field with the values it may have.\<close>

record logs_query =
  q_gte :: u64
  q_lte :: u64
  q_in :: "(string \<times> bytes list) list"

definition query_of :: "u64 \<Rightarrow> u64 \<Rightarrow> address list \<Rightarrow> b256 list list \<Rightarrow> logs_query" where
  "query_of from to addresses topics =
     \<lparr>q_gte = from, q_lte = to,
      q_in =
        (if addresses = [] then [] else [(''logs.address'', map fb_to_bson addresses)]) @
        map (\<lambda>(i, topic). (''logs.topic_'' @ to_decimal i, map fb_to_bson topic))
          (filter (\<lambda>(i, topic). topic \<noteq> []) (enumerate 0 topics))\<rparr>"

text \<open>What is made of a document that was found.\<close>

definition query_item ::
  "('h, 't, 'r, 'wd) alloy \<Rightarrow> ('t, 'r) index_codecs \<Rightarrow> ('w, 'h, 't, 'r, 'wd) index_reader_impl
     \<Rightarrow> ('d \<Rightarrow> ('w, string \<times> bytes) eyre_io) \<Rightarrow> 'd eyre \<Rightarrow> ('w, ('t, 'r) tx_indexed_data) eyre_io" where
  "query_item A C ir resolve fetched =
     io_bind (io_lift (wrap_err ''Failed to get logs index'' fetched)) (\<lambda>doc.
     io_bind (io_wrap_err ''Failed to resolve logs index'' (resolve doc)) (\<lambda>(_, bs).
     io_wrap_err ''Failed to decode TxIndexedData when querying logs'' (resolve_from_bytes A C ir bs)))"

text \<open>
  MongoDB: a range compares numbers, \<open>$in\<close> on \<open>logs.f\<close> asks for an element of the array
  whose field \<open>f\<close> is one of the values, and all entries of a query have to hold.
\<close>

definition query_matches :: "logs_query \<Rightarrow> tx_logs_index_document \<Rightarrow> bool" where
  "query_matches q d \<longleftrightarrow>
     sint (q_gte q) \<le> sint (tl_block_number d) \<and> sint (tl_block_number d) \<le> sint (q_lte q) \<and>
     (\<forall>(field, values) \<in> set (q_in q).
        \<exists>el \<in> set (tl_logs d). \<exists>(f, v) \<in> set el. field = ''logs.'' @ f \<and> v \<in> set values)"

section \<open>No match is missed\<close>

text \<open>The filter of \<open>eth_getLogs\<close>: any of the addresses, and at each position any of the topics; empty is no condition.\<close>

definition log_matches :: "address list \<Rightarrow> b256 list list \<Rightarrow> log \<Rightarrow> bool" where
  "log_matches addresses topics lg \<longleftrightarrow>
     (addresses = [] \<or> lg_address lg \<in> set addresses) \<and>
     (\<forall>i < length topics. topics ! i = [] \<or> i < length (lg_topics lg) \<and> lg_topics lg ! i \<in> set (topics ! i))"

lemma log_to_doc_topic:
  "i < length (lg_topics lg) \<Longrightarrow> (''topic_'' @ to_decimal i, fb_to_bson (lg_topics lg ! i)) \<in> set (log_to_doc lg)"
  by (force simp: log_to_doc_def in_set_enumerate_eq)

lemma sint_small: "unat (w :: u64) < 2 ^ 63 \<Longrightarrow> sint w = uint w"
proof -
  assume "unat w < 2 ^ 63"
  then have "int (unat w) < int (2 ^ 63)" by (simp only: of_nat_less_iff)
  then have "uint w < 2 ^ 63" by simp
  then show ?thesis using signed_take_bit_int_eq_self [of 63 "uint w"] uint_ge_0 [of w] by (simp add: sint_uint)
qed

text \<open>
  C27: The query never misses a transaction: when a log of the transaction satisfies the filter of
  addresses and topics and the block is in the range, the transaction's document matches the
  query built from the filter, since equal values have equal prefixes.
\<close>

theorem logs_query_superset:
  assumes "from \<le> al_number A (blk_header block)" "al_number A (blk_header block) \<le> to" "unat to < 2 ^ 63"
    and "i < length receipts" "i < length (blk_transactions block)"
    and "lg \<in> set (logs (rcp_receipt (receipts ! i)))" "log_matches addresses topics lg"
  shows "tl_id (from_receipts A logs block receipts ! i) =
      al_hex A (al_tx_hash A (tx_envelope (blk_transactions block ! i))) \<and>
    query_matches (query_of from to addresses topics) (from_receipts A logs block receipts ! i)"
proof -
  let ?d = "from_receipts A logs block receipts ! i"
  have d: "?d = \<lparr>tl_block_number = al_number A (blk_header block),
      tl_id = al_hex A (al_tx_hash A (tx_envelope (blk_transactions block ! i))),
      tl_logs = logs_to_doc (logs (rcp_receipt (receipts ! i)))\<rparr>"
    using assms(4,5) by (simp add: from_receipts_def)
  have el: "log_to_doc lg \<in> set (tl_logs ?d)" using assms(6) by (simp add: d logs_to_doc_def)
  have "sint from \<le> sint (tl_block_number ?d)" "sint (tl_block_number ?d) \<le> sint to"
  proof -
    have "unat from < 2 ^ 63" "unat (al_number A (blk_header block)) < 2 ^ 63"
      using assms(1-3) by (simp_all add: word_le_nat_alt)
    with assms(1-3) show "sint from \<le> sint (tl_block_number ?d)" "sint (tl_block_number ?d) \<le> sint to"
      by (simp_all only: d tx_logs_index_document.simps sint_small word_le_def)
  qed
  moreover have each: "\<exists>el \<in> set (tl_logs ?d). \<exists>(f, v) \<in> set el. field = ''logs.'' @ f \<and> v \<in> set vals"
    if mem: "(field, vals) \<in> set (q_in (query_of from to addresses topics))" for field vals
  proof -
    consider (address) "addresses \<noteq> []" "field = ''logs.address''" "vals = map fb_to_bson addresses"
      | (topic) j where "j < length topics" "topics ! j \<noteq> []" "field = ''logs.topic_'' @ to_decimal j"
          "vals = map fb_to_bson (topics ! j)"
      using mem by (auto simp: query_of_def in_set_enumerate_eq split: if_splits)
    then show ?thesis
    proof cases
      case address
      with assms(7) show ?thesis
        by (intro bexI [OF _ el] bexI [of _ "(''address'', fb_to_bson (lg_address lg))"])
           (auto simp: log_matches_def log_to_doc_def)
    next
      case topic
      then have "j < length (lg_topics lg)" "lg_topics lg ! j \<in> set (topics ! j)"
        using assms(7) by (auto simp: log_matches_def)
      with topic log_to_doc_topic [of j lg] show ?thesis
        by (intro bexI [OF _ el] bexI [of _ "(''topic_'' @ to_decimal j, fb_to_bson (lg_topics lg ! j))"]) auto
    qed
  qed
  moreover have "q_gte (query_of from to addresses topics) = from" "q_lte (query_of from to addresses topics) = to"
    by (simp_all add: query_of_def)
  ultimately have "query_matches (query_of from to addresses topics) ?d"
    unfolding query_matches_def using each by (intro conjI ballI) (simp_all add: split_paired_all)
  then show ?thesis by (simp add: d)
qed

lemma logs_query_superset_witness:
  "query_matches (query_of 1 9 [7] [[], [5]])
     (from_receipts sample_alloy (\<lambda>r. [\<lparr>lg_address = 7, lg_topics = [3, 5]\<rparr>]) (sample_chain 4) (sample_receipts 4) ! 0)"
proof -
  have "(1 :: u64) \<le> al_number sample_alloy (blk_header (sample_chain 4))"
    "al_number sample_alloy (blk_header (sample_chain 4)) \<le> 9"
    "0 < length (sample_receipts 4)" "0 < length (blk_transactions (sample_chain 4))"
    by (simp_all add: sample_alloy_def triedb_chain_def sample_header_def sample_receipts_def sample_txs_def)
  then show ?thesis
    using logs_query_superset [of 1 sample_alloy "sample_chain 4" 9 0 "sample_receipts 4"
        "\<lparr>lg_address = 7, lg_topics = [3, 5]\<rparr>" "\<lambda>r. [\<lparr>lg_address = 7, lg_topics = [3, 5]\<rparr>]" "[7]" "[[], [5]]"]
    by (simp add: log_matches_def All_less_Suc)
qed

end
