(* ===== verification/Rpc_Text.thy ===== *)
theory Rpc_Text
  imports Archive_Prelude
begin

text \<open>
  Text in the RPC server (\<open>monad-rpc\<close>): Rust strings with their UTF-8 bytes, the \<open>{:x}\<close>
  formatting of numbers, and the hexadecimal encodings of \<open>types/ethhex.rs\<close>.  The crate \<open>hex\<close>
  is not part of the repository: its two functions are the fields of \<open>hex_crate\<close>, used through
  \<open>hex_laws\<close>.
\<close>

unbundle bit_operations_syntax

section \<open>Strings\<close>

text \<open>A \<open>String\<close> is the list of its Unicode scalar values; literals are ASCII.\<close>

type_synonym rust_string = "nat list"

definition lit :: "string \<Rightarrow> rust_string" where
  "lit s = map of_char s"

definition len_utf8 :: "nat \<Rightarrow> nat" where
  "len_utf8 c = (if c < 0x80 then 1 else if c < 0x800 then 2 else if c < 0x10000 then 3 else 4)"

definition utf8_tail :: "nat \<Rightarrow> u8" where
  "utf8_tail c = 0x80 OR (of_nat c AND 0x3F)"

definition encode_utf8 :: "nat \<Rightarrow> bytes" where
  "encode_utf8 c =
     (if c < 0x80 then [of_nat c]
      else if c < 0x800 then [0xC0 OR (of_nat (c div 2 ^ 6) AND 0x1F), utf8_tail c]
      else if c < 0x10000 then
        [0xE0 OR (of_nat (c div 2 ^ 12) AND 0x0F), utf8_tail (c div 2 ^ 6), utf8_tail c]
      else
        [0xF0 OR (of_nat (c div 2 ^ 18) AND 0x07), utf8_tail (c div 2 ^ 12),
         utf8_tail (c div 2 ^ 6), utf8_tail c])"

definition str_bytes :: "rust_string \<Rightarrow> bytes" where
  "str_bytes s = concat (map encode_utf8 s)"

text \<open>\<open>str::len\<close> counts bytes.\<close>

definition str_len :: "rust_string \<Rightarrow> nat" where
  "str_len s = length (str_bytes s)"

definition strip_prefix :: "rust_string \<Rightarrow> rust_string \<Rightarrow> rust_string option" where
  "strip_prefix p s = (if take (length p) s = p then Some (drop (length p) s) else None)"

lemma lit_simps [simp]: "lit [] = []" "lit (c # s) = of_char c # lit s"
  by (simp_all add: lit_def)

lemma lit_append [simp]: "lit (s @ t) = lit s @ lit t"
  by (simp add: lit_def)

lemma length_lit [simp]: "length (lit s) = length s"
  by (simp add: lit_def)

lemma strip_prefix_append [simp]: "strip_prefix p (p @ s) = Some s"
  by (simp add: strip_prefix_def)

lemma strip_prefix_SomeD: "strip_prefix p s = Some r \<Longrightarrow> s = p @ r"
  by (metis append_take_drop_id option.distinct(1) option.inject strip_prefix_def)

lemma length_encode_utf8 [simp]: "length (encode_utf8 c) = len_utf8 c"
  by (simp add: encode_utf8_def len_utf8_def)

lemma str_len_append [simp]: "str_len (s @ t) = str_len s + str_len t"
  by (simp add: str_len_def str_bytes_def)

lemma str_len_Cons [simp]: "str_len (c # s) = len_utf8 c + str_len s"
  by (simp add: str_len_def str_bytes_def)

lemma str_len_Nil [simp]: "str_len [] = 0"
  by (simp add: str_len_def str_bytes_def)

lemma str_len_ascii_range: "(\<And>c. c \<in> set s \<Longrightarrow> c < 0x80) \<Longrightarrow> str_len s = length s"
  by (induction s) (auto simp: len_utf8_def)

text \<open>The bytes of a character outside ASCII are all at least \<open>0x80\<close>.\<close>

lemma high_bit_le:
  fixes w :: u8
  assumes "bit w 7"
  shows "0x80 \<le> w"
proof -
  have "(2 ^ 7 :: u8) = w AND 2 ^ 7"
    using assms by (intro bit_word_eqI) (auto simp only: bit_and_iff bit_exp_iff)
  also have "\<dots> \<le> w" by (rule word_and_le2)
  finally show ?thesis by simp
qed

lemma encode_utf8_high: "0x80 \<le> c \<Longrightarrow> b \<in> set (encode_utf8 c) \<Longrightarrow> 0x80 \<le> b"
  by (rule high_bit_le) (auto simp: encode_utf8_def utf8_tail_def bit_simps split: if_splits)

section \<open>Hexadecimal digits\<close>

definition hex_digit :: "nat \<Rightarrow> nat" where
  "hex_digit d = (if d < 10 then 48 + d else 87 + d)"

text \<open>\<open>char::to_digit(16)\<close>, which accepts both cases.\<close>

definition hex_value :: "nat \<Rightarrow> nat option" where
  "hex_value c =
     (if 48 \<le> c \<and> c \<le> 57 then Some (c - 48)
      else if 97 \<le> c \<and> c \<le> 102 then Some (c - 87)
      else if 65 \<le> c \<and> c \<le> 70 then Some (c - 55)
      else None)"

definition to_ascii_lowercase :: "rust_string \<Rightarrow> rust_string" where
  "to_ascii_lowercase = map (\<lambda>c. if 65 \<le> c \<and> c \<le> 90 then c + 32 else c)"

text \<open>The \<open>{:x}\<close> formatting of a number.\<close>

fun fmt_hex :: "nat \<Rightarrow> rust_string" where
  "fmt_hex n = (if n < 16 then [hex_digit n] else fmt_hex (n div 16) @ [hex_digit (n mod 16)])"

declare fmt_hex.simps [simp del]

fun hex_number :: "nat \<Rightarrow> rust_string \<Rightarrow> nat option" where
  "hex_number acc [] = Some acc"
| "hex_number acc (c # cs) =
     (case hex_value c of None \<Rightarrow> None | Some d \<Rightarrow> hex_number (acc * 16 + d) cs)"

text \<open>\<open>u64::from_str_radix(s, 16)\<close>: an optional plus sign, at least one digit, no overflow.\<close>

definition from_str_radix16 :: "rust_string \<Rightarrow> u64 option" where
  "from_str_radix16 s =
     (let ds = (case s of [] \<Rightarrow> [] | c # cs \<Rightarrow> if c = 43 then cs else s)
      in if ds = [] then None
         else case hex_number 0 ds of
                None \<Rightarrow> None
              | Some n \<Rightarrow> if n < 2 ^ 64 then Some (of_nat n) else None)"

lemma hex_value_digit [simp]: "d < 16 \<Longrightarrow> hex_value (hex_digit d) = Some d"
  by (auto simp: hex_value_def hex_digit_def)

lemma hex_digit_range: "d < 16 \<Longrightarrow> hex_digit d < 0x80"
  by (simp add: hex_digit_def)

lemma hex_value_SomeD:
  assumes "hex_value c = Some d"
  shows "d < 16" "hex_digit d = (if 65 \<le> c \<and> c \<le> 90 then c + 32 else c)" "c < 0x80"
  using assms by (auto simp: hex_value_def hex_digit_def split: if_splits)

lemma hex_number_append:
  "hex_number acc (s @ t) = (case hex_number acc s of None \<Rightarrow> None | Some n \<Rightarrow> hex_number n t)"
  by (induction s arbitrary: acc) (auto split: option.splits)

lemma hex_number_fmt_hex: "hex_number 0 (fmt_hex n) = Some n"
proof (induction n rule: fmt_hex.induct)
  case (1 n)
  then show ?case
    by (cases "n < 16") (simp_all add: fmt_hex.simps [of n] hex_number_append)
qed

lemma fmt_hex_range: "c \<in> set (fmt_hex n) \<Longrightarrow> \<exists>d < 16. c = hex_digit d"
proof (induction n rule: fmt_hex.induct)
  case (1 n)
  then show ?case
    by (cases "n < 16") (auto simp: fmt_hex.simps [of n] intro: exI [of _ "n mod 16"])
qed

lemma fmt_hex_not_Nil [simp]: "fmt_hex n \<noteq> []"
  by (simp add: fmt_hex.simps [of n])

text \<open>A number other than zero is printed without a leading zero.\<close>

lemma fmt_hex_hd: "0 < n \<Longrightarrow> hd (fmt_hex n) \<noteq> 48"
proof (induction n rule: fmt_hex.induct)
  case (1 n)
  then show ?case
    by (cases "n < 16") (auto simp: fmt_hex.simps [of n] hex_digit_def)
qed

lemma hex_number_canonical:
  assumes "hex_number 0 s = Some n" "s \<noteq> []" "hd s \<noteq> 48"
  shows "to_ascii_lowercase s = fmt_hex n"
  using assms
proof (induction s arbitrary: n rule: rev_induct)
  case (snoc c s)
  from snoc.prems(1) obtain m d where m: "hex_number 0 s = Some m" and d: "hex_value c = Some d"
    and n: "n = m * 16 + d"
    by (auto simp: hex_number_append split: option.splits)
  note c = hex_value_SomeD [OF d]
  show ?case
  proof (cases "s = []")
    case True
    with m n c show ?thesis by (simp add: to_ascii_lowercase_def fmt_hex.simps [of d])
  next
    case False
    with snoc.prems have IH: "to_ascii_lowercase s = fmt_hex m"
      using snoc.IH [OF m] by simp
    have "hd (to_ascii_lowercase s) \<noteq> 48"
      using False snoc.prems(3) by (cases s) (auto simp: to_ascii_lowercase_def)
    then have "m \<noteq> 0"
      unfolding IH by (intro notI) (simp add: fmt_hex.simps [of 0] hex_digit_def)
    with IH n c show ?thesis
      by (simp add: to_ascii_lowercase_def fmt_hex.simps [of "m * 16 + d"])
  qed
qed simp

section \<open>Hexadecimal strings of the Ethereum JSON-RPC\<close>

datatype from_hex_error = InvalidStringLength | OddLength | InvalidHexCharacter nat nat

datatype eth_hex_decode_error = InvalidLen | ParseErr

record hex_crate =
  hx_encode :: "bytes \<Rightarrow> rust_string"
  hx_decode :: "rust_string \<Rightarrow> from_hex_error + bytes"

text \<open>The two digits of a byte, and the bytes of a list of digits.\<close>

definition byte_digits :: "u8 \<Rightarrow> rust_string" where
  "byte_digits b = [hex_digit (unat b div 16), hex_digit (unat b mod 16)]"

fun digit_bytes :: "rust_string \<Rightarrow> bytes option" where
  "digit_bytes [] = Some []"
| "digit_bytes [_] = None"
| "digit_bytes (c # d # s) =
     (case (hex_value c, hex_value d, digit_bytes s) of
        (Some x, Some y, Some bs) \<Rightarrow> Some (of_nat (x * 16 + y) # bs)
      | _ \<Rightarrow> None)"

text \<open>
  What the server relies on: lower-case output, two digits per byte; input of odd length is
  refused as such, input with another character than a digit of either case is refused with
  the character and its position, and everything else is decoded.
\<close>

definition hex_laws :: "hex_crate \<Rightarrow> bool" where
  "hex_laws H \<longleftrightarrow>
     (\<forall>bs. hx_encode H bs = concat (map byte_digits bs)) \<and>
     (\<forall>s. odd (str_len s) \<longrightarrow> hx_decode H s = Inl OddLength) \<and>
     (\<forall>s. even (str_len s) \<longrightarrow> (\<exists>c \<in> set s. hex_value c = None) \<longrightarrow>
        (\<exists>c i. hx_decode H s = Inl (InvalidHexCharacter c i))) \<and>
     (\<forall>s bs. digit_bytes s = Some bs \<longrightarrow> hx_decode H s = Inr bs)"

fun from_hex_error_into :: "from_hex_error \<Rightarrow> eth_hex_decode_error" where
  "from_hex_error_into InvalidStringLength = InvalidLen"
| "from_hex_error_into OddLength = InvalidLen"
| "from_hex_error_into (InvalidHexCharacter _ _) = ParseErr"

definition encode_bytes :: "hex_crate \<Rightarrow> bytes \<Rightarrow> rust_string" where
  "encode_bytes H bs = lit ''0x'' @ hx_encode H bs"

definition decode_bytes :: "hex_crate \<Rightarrow> rust_string \<Rightarrow> eth_hex_decode_error + bytes" where
  "decode_bytes H s =
     (if s = [] then Inl InvalidLen
      else res_bind (ok_or (strip_prefix (lit ''0x'') s) ParseErr)
        (\<lambda>noprefix. map_err from_hex_error_into (hx_decode H noprefix)))"

definition decode_quantity :: "rust_string \<Rightarrow> eth_hex_decode_error + u64" where
  "decode_quantity s =
     (if s = [] then Inl InvalidLen
      else res_bind (ok_or (strip_prefix (lit ''0x'') s) ParseErr)
        (\<lambda>noprefix.
           case noprefix of
             [] \<Rightarrow> Inl ParseErr
           | first # others \<Rightarrow>
               if first = 48 then (if others = [] then Inr 0 else Inl ParseErr)
               else if first = 43 \<or> first = 45 then Inl ParseErr
               else ok_or (from_str_radix16 noprefix) ParseErr))"

text \<open>\<open>format!("0x{:x}", n)\<close>, how quantities are written.\<close>

definition fmt_quantity :: "nat \<Rightarrow> rust_string" where
  "fmt_quantity n = lit ''0x'' @ fmt_hex n"

lemma prefix_0x: "lit ''0x'' = [48, 120]"
  by (simp add: char_of_def bit_0 of_char_def)

lemma hex_lawsD:
  assumes "hex_laws H"
  shows "hx_encode H bs = concat (map byte_digits bs)"
    and "odd (str_len s) \<Longrightarrow> hx_decode H s = Inl OddLength"
    and "even (str_len s) \<Longrightarrow> c \<in> set s \<Longrightarrow> hex_value c = None \<Longrightarrow>
      \<exists>c i. hx_decode H s = Inl (InvalidHexCharacter c i)"
    and "digit_bytes s = Some bs \<Longrightarrow> hx_decode H s = Inr bs"
  using assms by (auto simp: hex_laws_def)

lemma digit_bytes_byte_digits [simp]:
  "digit_bytes (concat (map byte_digits bs)) = Some bs"
proof (induction bs)
  case (Cons b bs)
  have "unat b div 16 < 16" using unsigned_less [of b, where ?'a = nat] by simp
  with Cons show ?case by (simp add: byte_digits_def)
qed simp

lemma length_byte_digits [simp]: "length (concat (map byte_digits bs)) = 2 * length bs"
  by (induction bs) (auto simp: byte_digits_def)

lemma byte_digits_range: "c \<in> set (byte_digits b) \<Longrightarrow> \<exists>d < 16. c = hex_digit d"
proof -
  have "unat b div 16 < 16" using unsigned_less [of b, where ?'a = nat] by simp
  then show "c \<in> set (byte_digits b) \<Longrightarrow> \<exists>d < 16. c = hex_digit d"
    by (auto simp: byte_digits_def intro: exI [of _ "unat b mod 16"])
qed

lemma digit_bytes_total:
  "even (length s) \<Longrightarrow> (\<forall>c \<in> set s. hex_value c \<noteq> None) \<Longrightarrow> \<exists>bs. digit_bytes s = Some bs"
  by (induction s rule: digit_bytes.induct) auto

lemma digit_bytes_lower:
  "digit_bytes s = Some bs \<Longrightarrow> concat (map byte_digits bs) = to_ascii_lowercase s"
proof (induction s arbitrary: bs rule: digit_bytes.induct)
  case (3 c d s)
  from 3(2) obtain x y bs' where x: "hex_value c = Some x" and y: "hex_value d = Some y"
    and bs: "digit_bytes s = Some bs'" "bs = of_nat (x * 16 + y) # bs'"
    by (auto split: option.splits)
  note c = hex_value_SomeD [OF x] and d = hex_value_SomeD [OF y]
  have "unat (of_nat (x * 16 + y) :: u8) = x * 16 + y"
    using c(1) d(1) by (intro unat_of_nat_small) simp
  with 3(1) [OF bs(1)] c d bs show ?case
    by (simp add: byte_digits_def to_ascii_lowercase_def)
qed (auto simp: to_ascii_lowercase_def)

lemma hex_value_lower [simp]: "hex_value (if 65 \<le> c \<and> c \<le> 90 then c + 32 else c) = hex_value c"
  by (auto simp: hex_value_def)

lemma to_ascii_lowercase_simps [simp]:
  "to_ascii_lowercase [] = []"
  "to_ascii_lowercase (c # s) = (if 65 \<le> c \<and> c \<le> 90 then c + 32 else c) # to_ascii_lowercase s"
  by (simp_all add: to_ascii_lowercase_def)

lemma length_to_ascii_lowercase [simp]: "length (to_ascii_lowercase s) = length s"
  by (simp add: to_ascii_lowercase_def)

lemma hex_number_lower: "hex_number acc (to_ascii_lowercase s) = hex_number acc s"
  by (induction s arbitrary: acc) (simp_all only: to_ascii_lowercase_simps hex_number.simps
    hex_value_lower cong: option.case_cong)

lemma digit_bytes_iff: "digit_bytes s = Some bs \<longleftrightarrow> to_ascii_lowercase s = concat (map byte_digits bs)"
proof
  assume lower: "to_ascii_lowercase s = concat (map byte_digits bs)"
  have "length s = 2 * length bs"
    using arg_cong [OF lower, of length] by simp
  then have "even (length s)" by simp
  moreover have "hex_value c \<noteq> None" if "c \<in> set s" for c
  proof -
    from that have "(if 65 \<le> c \<and> c \<le> 90 then c + 32 else c) \<in> set (to_ascii_lowercase s)"
      unfolding to_ascii_lowercase_def set_map by (rule imageI)
    then obtain d where "d < 16" "(if 65 \<le> c \<and> c \<le> 90 then c + 32 else c) = hex_digit d"
      unfolding lower using byte_digits_range by auto
    then show ?thesis by (metis hex_value_digit hex_value_lower option.distinct(1))
  qed
  ultimately obtain bs' where bs': "digit_bytes s = Some bs'"
    using digit_bytes_total by blast
  then show "digit_bytes s = Some bs"
    using digit_bytes_lower lower by (metis digit_bytes_byte_digits)
qed (simp add: digit_bytes_lower)

lemma hx_decode_iff:
  assumes "hex_laws H"
  shows "hx_decode H s = Inr bs \<longleftrightarrow> digit_bytes s = Some bs"
proof
  assume dec: "hx_decode H s = Inr bs"
  then have hex: "\<forall>c \<in> set s. hex_value c \<noteq> None"
    using hex_lawsD(2,3) [OF assms] by (metis Inl_Inr_False)
  then have "str_len s = length s"
    by (intro str_len_ascii_range) (auto dest: hex_value_SomeD(3))
  then have "even (length s)"
    using dec hex_lawsD(2) [OF assms, of s] by (metis Inl_Inr_False)
  with hex obtain bs' where "digit_bytes s = Some bs'"
    using digit_bytes_total by blast
  with dec hex_lawsD(4) [OF assms] show "digit_bytes s = Some bs" by fastforce
qed (rule hex_lawsD(4) [OF assms])

lemma from_str_radix16_iff:
  assumes "s \<noteq> []" "hd s \<noteq> 43" "hd s \<noteq> 48"
  shows "from_str_radix16 s = Some q \<longleftrightarrow> to_ascii_lowercase s = fmt_hex (unat q)"
proof -
  have radix: "from_str_radix16 s =
      (case hex_number 0 s of None \<Rightarrow> None | Some n \<Rightarrow> if n < 2 ^ 64 then Some (of_nat n) else None)"
    using assms by (cases s) (auto simp: from_str_radix16_def)
  have fits: "(if n < 2 ^ 64 then Some (of_nat n) else None) = Some q \<longleftrightarrow> n = unat q" for n
    using unsigned_less [of q, where ?'a = nat] by (auto simp: unat_of_nat_small)
  have "from_str_radix16 s = Some q \<longleftrightarrow> hex_number 0 s = Some (unat q)"
    unfolding radix by (cases "hex_number 0 s") (simp_all only: option.case fits option.inject
      option.distinct)
  also have "\<dots> \<longleftrightarrow> to_ascii_lowercase s = fmt_hex (unat q)"
    using hex_number_canonical [OF _ assms(1,3), of "unat q"]
      hex_number_lower [of 0 s] hex_number_fmt_hex [of "unat q"]
    by auto
  finally show ?thesis .
qed

section \<open>A sample instance\<close>

definition sample_hex :: hex_crate where
  "sample_hex =
     \<lparr>hx_encode = \<lambda>bs. concat (map byte_digits bs),
      hx_decode = \<lambda>s.
        if odd (str_len s) then Inl OddLength
        else case digit_bytes s of
               Some bs \<Rightarrow> Inr bs
             | None \<Rightarrow>
                 let i = length (takeWhile (\<lambda>c. hex_value c \<noteq> None) s)
                 in Inl (InvalidHexCharacter (s ! i) i)\<rparr>"

lemma sample_hex_laws: "hex_laws sample_hex"
proof -
  have "hex_value c \<noteq> None" if "digit_bytes s = Some bs" "c \<in> set s" for s bs c
    using that by (induction s arbitrary: bs rule: digit_bytes.induct) (auto split: option.splits)
  moreover have "even (str_len s)" if "digit_bytes s = Some bs" for s bs
    using that
    by (induction s arbitrary: bs rule: digit_bytes.induct)
      (auto split: option.splits dest: hex_value_SomeD(3) simp: len_utf8_def)
  ultimately show ?thesis
    by (fastforce simp: hex_laws_def sample_hex_def Let_def split: option.splits)
qed

section \<open>The decoders accept exactly what the encoders write\<close>

lemma strip_prefix_0x_lower:
  assumes "strip_prefix (lit ''0x'') s = Some r"
  shows "to_ascii_lowercase s = lit ''0x'' @ to_ascii_lowercase r" "s \<noteq> []"
  using strip_prefix_SomeD [OF assms] by (simp_all add: prefix_0x)

lemma decode_bytes_iff:
  assumes "hex_laws H" "strip_prefix (lit ''0x'') s = Some r"
  shows "decode_bytes H s = Inr bs \<longleftrightarrow> to_ascii_lowercase s = encode_bytes H bs"
proof -
  have "decode_bytes H s = map_err from_hex_error_into (hx_decode H r)"
    using assms(2) strip_prefix_0x_lower(2) [OF assms(2)]
    by (simp add: decode_bytes_def ok_or_def res_bind_def)
  then have "decode_bytes H s = Inr bs \<longleftrightarrow> hx_decode H r = Inr bs"
    by (cases "hx_decode H r") (simp_all add: map_err_def)
  then show ?thesis
    by (simp add: hx_decode_iff [OF assms(1)] digit_bytes_iff encode_bytes_def
      strip_prefix_0x_lower(1) [OF assms(2)] hex_lawsD(1) [OF assms(1)])
qed

lemma decode_quantity_iff:
  assumes "strip_prefix (lit ''0x'') s = Some r"
  shows "decode_quantity s = Inr q \<longleftrightarrow> to_ascii_lowercase s = fmt_quantity (unat q)"
proof -
  have *: "to_ascii_lowercase s = fmt_quantity (unat q) \<longleftrightarrow> to_ascii_lowercase r = fmt_hex (unat q)"
    by (simp add: fmt_quantity_def strip_prefix_0x_lower(1) [OF assms])
  consider (none) "r = []" | (zero) cs where "r = 48 # cs" | (sign) c cs where "r = c # cs" "c \<in> {43, 45}"
    | (digit) "r \<noteq> []" "hd r \<notin> {43, 45, 48}"
    by (cases r) auto
  then show ?thesis
  proof cases
    case zero
    have "to_ascii_lowercase r = fmt_hex (unat q) \<longleftrightarrow> cs = [] \<and> q = 0"
    proof
      assume "to_ascii_lowercase r = fmt_hex (unat q)"
      then have fmt: "fmt_hex (unat q) = 48 # to_ascii_lowercase cs"
        using zero by simp
      then have "q = 0" using fmt_hex_hd [of "unat q"] by (auto simp: unat_gt_0)
      with fmt show "cs = [] \<and> q = 0"
        by (cases cs) (simp_all add: fmt_hex.simps [of 0] hex_digit_def)
    qed (simp add: zero fmt_hex.simps [of 0] hex_digit_def)
    with zero assms * show ?thesis
      using strip_prefix_0x_lower(2) [OF assms]
      by (auto simp: decode_quantity_def ok_or_def res_bind_def)
  next
    case (sign c cs)
    then have "to_ascii_lowercase r \<noteq> fmt_hex (unat q)"
    proof (intro notI)
      assume "to_ascii_lowercase r = fmt_hex (unat q)"
      then have "fmt_hex (unat q) = c # to_ascii_lowercase cs" using sign by auto
      then obtain d where "d < 16" "c = hex_digit d" using fmt_hex_range [of c "unat q"] by auto
      with sign(2) show False by (auto simp: hex_digit_def split: if_splits)
    qed
    with sign assms * show ?thesis
      using strip_prefix_0x_lower(2) [OF assms]
      by (auto simp: decode_quantity_def ok_or_def res_bind_def)
  next
    case digit
    then have "decode_quantity s = ok_or (from_str_radix16 r) ParseErr"
      using assms strip_prefix_0x_lower(2) [OF assms]
      by (cases r) (simp_all add: decode_quantity_def ok_or_def res_bind_def)
    then have "decode_quantity s = Inr q \<longleftrightarrow> from_str_radix16 r = Some q"
      by (simp add: ok_or_def split: option.splits)
    with digit * from_str_radix16_iff [of r q] show ?thesis by simp
  qed (use assms * strip_prefix_0x_lower(2) [OF assms] in
      \<open>auto simp: decode_quantity_def ok_or_def res_bind_def fmt_hex_not_Nil [THEN not_sym]\<close>)
qed

lemma decode_no_prefix:
  assumes "strip_prefix (lit ''0x'') s = None"
  shows "\<exists>e. decode_bytes H s = Inl e" "\<exists>e. decode_quantity s = Inl e"
  using assms by (simp_all add: decode_bytes_def decode_quantity_def ok_or_def res_bind_def)

text \<open>
  C39: A string is decoded as the bytes \<open>bs\<close> exactly when it starts with \<open>0x\<close> and is, up to the
  case of its letters, the string the encoder writes for \<open>bs\<close>; in particular what the encoder
  writes is read back.  The same holds of quantities: only the shortest form of a number below
  2^64 is accepted, with no sign, no leading zero and at least one digit.
\<close>

theorem ethhex_decodes_exactly:
  assumes "hex_laws H"
  shows "(decode_bytes H s = Inr bs \<longleftrightarrow>
      strip_prefix (lit ''0x'') s \<noteq> None \<and> to_ascii_lowercase s = encode_bytes H bs) \<and>
    (decode_quantity s = Inr q \<longleftrightarrow>
      strip_prefix (lit ''0x'') s \<noteq> None \<and> to_ascii_lowercase s = fmt_quantity (unat q))"
proof (cases "strip_prefix (lit ''0x'') s")
  case None
  then show ?thesis using decode_no_prefix(1) [OF None, of H] decode_no_prefix(2) [OF None] by auto
next
  case (Some r)
  then show ?thesis using decode_bytes_iff [OF assms Some] decode_quantity_iff [OF Some] by simp
qed

theorem ethhex_decodes_exactly_witness:
  "hex_laws sample_hex \<and> decode_bytes sample_hex (lit ''0xaB'') = Inr [0xab] \<and>
   decode_quantity (lit ''0xaB'') = Inr 171"
  using ethhex_decodes_exactly [OF sample_hex_laws, where s = "lit ''0xaB''" and bs = "[0xab]" and q = 171] sample_hex_laws
  by (simp add: sample_hex_def encode_bytes_def byte_digits_def hex_digit_def strip_prefix_def
      fmt_quantity_def fmt_hex.simps)

end
