(* ===== verification/Rpc_Json.thy ===== *)
theory Rpc_Json
  imports Rpc_Text
begin

text \<open>
  The JSON-RPC messages of the server (\<open>types/jsonrpc.rs\<close>) and the predicted lengths of their
  serialized form (\<open>types/json_serialized_len.rs\<close>).  What a \<open>Serialize\<close> implementation hands
  to the serializer is a \<open>json\<close> value; the serializer itself, \<open>serde_json::to_string\<close>, is not
  part of the repository and is a parameter used through \<open>serde_json_laws\<close>.
\<close>

section \<open>The serializer\<close>

datatype json =
    JNull
  | JBool bool
  | JInt int
  | JStr rust_string
  | JRaw bytes
  | JArr "json list"
  | JObj "(rust_string \<times> json) list"

text \<open>The escape sequences \<open>serde_json\<close> writes inside a string (its \<open>CharEscape\<close>), byte by byte.\<close>

definition json_escape :: "u8 \<Rightarrow> bytes" where
  "json_escape b =
     (if b = 0x22 then [0x5C, 0x22]
      else if b = 0x5C then [0x5C, 0x5C]
      else if b = 0x08 then [0x5C, 0x62]
      else if b = 0x09 then [0x5C, 0x74]
      else if b = 0x0A then [0x5C, 0x6E]
      else if b = 0x0C then [0x5C, 0x66]
      else if b = 0x0D then [0x5C, 0x72]
      else if b < 0x20 then
        [0x5C, 0x75, 0x30, 0x30] @ map of_nat (byte_digits b)
      else [b])"

fun comma_join :: "bytes list \<Rightarrow> bytes" where
  "comma_join [] = []"
| "comma_join [x] = x"
| "comma_join (x # y # zs) = x @ 0x2C # comma_join (y # zs)"

definition json_string :: "rust_string \<Rightarrow> bytes" where
  "json_string s = 0x22 # concat (map json_escape (str_bytes s)) @ [0x22]"

definition int_text :: "int \<Rightarrow> string" where
  "int_text i = (if i < 0 then ''-'' else '''') @ to_decimal (nat \<bar>i\<bar>)"

definition serde_json_laws :: "(json \<Rightarrow> bytes) \<Rightarrow> bool" where
  "serde_json_laws T \<longleftrightarrow>
     T JNull = str_bytes (lit ''null'') \<and>
     (\<forall>b. T (JBool b) = str_bytes (lit (if b then ''true'' else ''false''))) \<and>
     (\<forall>i. T (JInt i) = str_bytes (lit (int_text i))) \<and>
     (\<forall>s. T (JStr s) = json_string s) \<and>
     (\<forall>bs. T (JRaw bs) = bs) \<and>
     (\<forall>vs. T (JArr vs) = 0x5B # comma_join (map T vs) @ [0x5D]) \<and>
     (\<forall>kvs. T (JObj kvs) =
        0x7B # comma_join (map (\<lambda>(k, v). json_string k @ 0x3A # T v) kvs) @ [0x7D])"

fun to_string_json :: "json \<Rightarrow> bytes" where
  "to_string_json JNull = str_bytes (lit ''null'')"
| "to_string_json (JBool b) = str_bytes (lit (if b then ''true'' else ''false''))"
| "to_string_json (JInt i) = str_bytes (lit (int_text i))"
| "to_string_json (JStr s) = json_string s"
| "to_string_json (JRaw bs) = bs"
| "to_string_json (JArr vs) = 0x5B # comma_join (map to_string_json vs) @ [0x5D]"
| "to_string_json (JObj kvs) =
     0x7B # comma_join (map (\<lambda>(k, v). json_string k @ 0x3A # to_string_json v) kvs) @ [0x7D]"

lemma sample_serde_json_laws: "serde_json_laws to_string_json"
  by (simp add: serde_json_laws_def)

section \<open>Predicted lengths of the basic values\<close>

definition len_bool :: "bool \<Rightarrow> nat" where
  "len_bool b = (if b then 4 else 5)"

text \<open>\<open>checked_ilog10().unwrap_or_default()\<close>, at any width.\<close>

fun ilog10 :: "nat \<Rightarrow> nat" where
  "ilog10 n = (if n < 10 then 0 else ilog10 (n div 10) + 1)"

declare ilog10.simps [simp del]

definition len_int :: "'a::len word \<Rightarrow> nat" where
  "len_int w =
     (let neg = (if sint w < 0 then 1 else 0)
      in neg + 1 + ilog10 (nat \<bar>sint w\<bar>))"

definition len_char :: "nat \<Rightarrow> nat" where
  "len_char c =
     (if c = 0x22 \<or> c = 0x5C then 2
      else if c = 0x0B then 6
      else if 0x08 \<le> c \<and> c \<le> 0x0D then 2
      else if c \<le> 0x1F then 6
      else len_utf8 c)"

definition len_string :: "rust_string \<Rightarrow> nat" where
  "len_string s = 2 + sum_list (map len_char s)"

definition len_option :: "('a \<Rightarrow> nat) \<Rightarrow> 'a option \<Rightarrow> nat" where
  "len_option f x = (case x of Some v \<Rightarrow> f v | None \<Rightarrow> 4)"

definition len_vec :: "('a \<Rightarrow> nat) \<Rightarrow> 'a list \<Rightarrow> nat" where
  "len_vec f vs = 2 + sum_list (map f vs) + (length vs - 1)"

definition len_raw_value :: "bytes \<Rightarrow> nat" where
  "len_raw_value v = length v"

text \<open>\<open>FixedBytes<N>\<close> and \<open>FixedData<N>\<close> are words of \<open>8 * N\<close> bits.\<close>

definition len_fixed :: "'a::len word \<Rightarrow> nat" where
  "len_fixed w = 2 + 2 + 2 * (LENGTH('a) div 8)"

text \<open>The number of bits a value needs, from which \<open>leading_zeros\<close> and \<open>bit_len\<close> follow.\<close>

fun bit_len :: "nat \<Rightarrow> nat" where
  "bit_len n = (if n = 0 then 0 else bit_len (n div 2) + 1)"

declare bit_len.simps [simp del]

definition leading_zeros :: "'a::len word \<Rightarrow> nat" where
  "leading_zeros w = LENGTH('a) - bit_len (unat w)"

definition div_ceil :: "nat \<Rightarrow> nat \<Rightarrow> nat" where
  "div_ceil a b = (if a mod b = 0 then a div b else a div b + 1)"

definition json_serialized_hex_int_len :: "u64 option \<Rightarrow> nat" where
  "json_serialized_hex_int_len v =
     (case v of
        Some index \<Rightarrow> let bits = 64 - leading_zeros index in 2 + 2 + max (div_ceil bits 4) 1
      | None \<Rightarrow> 4)"

definition len_quantity :: "u64 \<Rightarrow> nat" where
  "len_quantity q = json_serialized_hex_int_len (Some q)"

definition len_u256 :: "b256 \<Rightarrow> nat" where
  "len_u256 v = 2 + 2 + max (div_ceil (bit_len (unat v)) 4) 1"

definition len_data :: "bytes \<Rightarrow> nat" where
  "len_data d = 2 + 2 + 2 * length d"

section \<open>The basic lengths are exact\<close>

lemma length_comma_join: "length (comma_join xs) = sum_list (map length xs) + (length xs - 1)"
  by (induction xs rule: comma_join.induct) auto

lemma length_to_decimal: "length (to_decimal n) = ilog10 n + 1"
proof (induction n rule: ilog10.induct)
  case (1 n)
  then show ?case
    by (cases "n < 10") (simp_all add: to_decimal.simps [of n] ilog10.simps [of n])
qed

lemma to_decimal_range: "c \<in> set (to_decimal n) \<Longrightarrow> of_char c < (0x80 :: nat)"
proof (induction n rule: ilog10.induct)
  case (1 n)
  have "of_char (digit_char d) < (0x80 :: nat)" if "d < 10" for d
    using that by (simp add: digit_char_def)
  with 1 show ?case
    by (cases "n < 10") (auto simp: to_decimal.simps [of n])
qed

lemma str_len_decimal [simp]: "str_len (lit (to_decimal n)) = ilog10 n + 1"
  by (subst str_len_ascii_range) (auto simp: lit_def length_to_decimal dest: to_decimal_range)

lemma length_json_escape_char:
  "length (concat (map json_escape (encode_utf8 c))) = len_char c"
proof (cases "c < 0x80")
  case True
  then have eq: "(of_nat c :: u8) = of_nat k \<longleftrightarrow> c = k" if "k < 0x80" for k
    using that by (simp add: word_unat_eq_iff unat_of_nat_small)
  have less: "(of_nat c :: u8) < of_nat 0x20 \<longleftrightarrow> c < 0x20"
    using True by (simp add: word_less_nat_alt unat_of_nat_small)
  from eq [of "0x22"] eq [of "0x5C"] eq [of "0x08"] eq [of "0x09"] eq [of "0x0A"] eq [of "0x0C"] eq [of "0x0D"]
    less True
  show ?thesis
    by (auto simp: encode_utf8_def json_escape_def len_char_def len_utf8_def byte_digits_def)
next
  case False
  then have "json_escape b = [b]" if "b \<in> set (encode_utf8 c)" for b
  proof -
    have "0x80 \<le> unat b" using encode_utf8_high [OF _ that] False by (simp add: word_le_nat_alt)
    then show ?thesis by (auto simp: json_escape_def word_less_nat_alt)
  qed
  then have "concat (map json_escape (encode_utf8 c)) = concat (map (\<lambda>b. [b]) (encode_utf8 c))"
    by (intro arg_cong [of _ _ concat] map_cong) auto
  with False show ?thesis by (simp add: len_char_def)
qed

lemma length_json_string [simp]: "length (json_string s) = len_string s"
proof -
  have "length (concat (map json_escape (str_bytes s))) = sum_list (map len_char s)"
    by (induction s) (use length_json_escape_char in \<open>auto simp: str_bytes_def\<close>)
  then show ?thesis by (simp add: json_string_def len_string_def)
qed

lemma len_string_plain:
  assumes "\<And>c. c \<in> set s \<Longrightarrow> 0x20 \<le> c \<and> c < 0x80 \<and> c \<noteq> 0x22 \<and> c \<noteq> 0x5C"
  shows "len_string s = 2 + length s"
proof -
  have "len_char c = 1" if "c \<in> set s" for c
    using assms [OF that] by (auto simp: len_char_def len_utf8_def)
  then have "sum_list (map len_char s) = length s" by (induction s) auto
  then show ?thesis by (simp add: len_string_def)
qed

lemma hex_digit_plain:
  "d < 16 \<Longrightarrow> 0x20 \<le> hex_digit d \<and> hex_digit d < 0x80 \<and> hex_digit d \<noteq> 0x22 \<and> hex_digit d \<noteq> 0x5C"
  by (simp add: hex_digit_def)

lemma div_ceil_4_rec: "4 \<le> k \<Longrightarrow> div_ceil k 4 = div_ceil (k - 4) 4 + 1"
  by (auto simp: div_ceil_def le_mod_geq le_div_geq)

lemma bit_len_16: "16 \<le> n \<Longrightarrow> bit_len n = bit_len (n div 16) + 4"
proof -
  have half: "0 < m \<Longrightarrow> bit_len m = bit_len (m div 2) + 1" for m
    by (simp add: bit_len.simps [of m])
  assume "16 \<le> n"
  with half [of n] half [of "n div 2"] half [of "n div 4"] half [of "n div 8"]
  show ?thesis by (simp add: div_mult2_eq [symmetric])
qed

lemma bit_len_le: "m < 2 ^ k \<Longrightarrow> bit_len m \<le> k"
proof (induction m arbitrary: k rule: bit_len.induct)
  case (1 m)
  show ?case
  proof (cases "m = 0")
    case False
    then obtain j where "k = Suc j" using 1(2) by (cases k) auto
    with 1 False show ?thesis by (simp add: bit_len.simps [of m])
  qed (simp add: bit_len.simps)
qed

lemma bit_len_small: "n < 16 \<Longrightarrow> bit_len n \<le> 4"
  using bit_len_le [of n 4] by simp

lemma length_fmt_hex: "length (fmt_hex n) = max (div_ceil (bit_len n) 4) 1"
proof (induction n rule: fmt_hex.induct)
  case (1 n)
  show ?case
  proof (cases "n < 16")
    case True
    have "bit_len n div 4 = 0" if "bit_len n mod 4 \<noteq> 0"
      using bit_len_small [OF True] that by (cases "bit_len n = 4") auto
    moreover have "bit_len n div 4 \<le> 1" using bit_len_small [OF True] by simp
    ultimately show ?thesis using True
      by (auto simp: fmt_hex.simps [of n] div_ceil_def max_def)
  next
    case False
    then have "0 < bit_len (n div 16)" by (simp add: bit_len.simps [of "n div 16"])
    then have "0 < div_ceil (bit_len (n div 16)) 4"
      by (auto simp: div_ceil_def mod_eq_0_iff_dvd dest: dvd_imp_le)
    with False 1 show ?thesis
      by (simp add: fmt_hex.simps [of n] bit_len_16 div_ceil_4_rec)
  qed
qed

text \<open>What the \<open>Serialize\<close> implementations of the basic types hand to the serializer.\<close>

definition option_json :: "('a \<Rightarrow> json) \<Rightarrow> 'a option \<Rightarrow> json" where
  "option_json g x = (case x of Some v \<Rightarrow> g v | None \<Rightarrow> JNull)"

definition quantity_json :: "u64 \<Rightarrow> json" where
  "quantity_json q = JStr (fmt_quantity (unat q))"

definition u256_json :: "b256 \<Rightarrow> json" where
  "u256_json v = JStr (fmt_quantity (unat v))"

definition data_json :: "hex_crate \<Rightarrow> bytes \<Rightarrow> json" where
  "data_json H d = JStr (encode_bytes H d)"

definition fixed_json :: "hex_crate \<Rightarrow> 'a::len word \<Rightarrow> json" where
  "fixed_json H w = JStr (encode_bytes H (word_to_be w))"

lemma serde_json_lens:
  assumes "serde_json_laws T"
  shows "length (T JNull) = 4"
    and "length (T (JBool b)) = len_bool b"
    and "length (T (JInt i)) = (if i < 0 then 1 else 0) + (1 + ilog10 (nat \<bar>i\<bar>))"
    and "length (T (JStr s)) = len_string s"
    and "length (T (JRaw bs)) = length bs"
    and "length (T (JArr vs)) = 2 + sum_list (map (\<lambda>v. length (T v)) vs) + (length vs - 1)"
    and "length (T (JObj kvs)) =
      2 + sum_list (map (\<lambda>(k, v). len_string k + 1 + length (T v)) kvs) + (length kvs - 1)"
  using assms
  by (simp_all add: serde_json_laws_def len_bool_def int_text_def str_len_def [symmetric] len_utf8_def
      length_comma_join o_def case_prod_unfold)

lemma len_string_prefixed:
  assumes "\<And>c. c \<in> set s \<Longrightarrow> \<exists>d < 16. c = hex_digit d"
  shows "len_string (lit ''0x'' @ s) = 2 + 2 + length s"
proof -
  have "0x20 \<le> c \<and> c < 0x80 \<and> c \<noteq> 0x22 \<and> c \<noteq> 0x5C" if "c \<in> set s" for c
  proof -
    from assms [OF that] obtain d where "d < 16" "c = hex_digit d" by auto
    with hex_digit_plain [of d] show ?thesis by simp
  qed
  then have "0x20 \<le> c \<and> c < 0x80 \<and> c \<noteq> 0x22 \<and> c \<noteq> 0x5C" if "c \<in> set (lit ''0x'' @ s)" for c
    using that by (auto simp: prefix_0x)
  from len_string_plain [of "lit ''0x'' @ s", OF this] show ?thesis by simp
qed

lemma len_string_fmt_quantity [simp]:
  "len_string (fmt_quantity n) = 2 + 2 + max (div_ceil (bit_len n) 4) 1"
  unfolding fmt_quantity_def
  by (subst len_string_prefixed) (auto simp: length_fmt_hex dest: fmt_hex_range)

lemma len_string_encode_bytes [simp]:
  "hex_laws H \<Longrightarrow> len_string (encode_bytes H d) = 2 + 2 + 2 * length d"
  unfolding encode_bytes_def
  by (subst len_string_prefixed) (auto simp: hex_lawsD(1) dest: byte_digits_range)

lemma bits_of_u64: "64 - leading_zeros (q :: u64) = bit_len (unat q)"
  using bit_len_le [of "unat q" 64] unsigned_less [of q, where ?'a = nat]
  by (simp add: leading_zeros_def)

lemma length_ints: "serde_json_laws T \<Longrightarrow> length (T (JInt (sint i))) = len_int i"
  by (simp add: serde_json_lens(3) len_int_def Let_def)

lemma length_values:
  assumes "serde_json_laws T"
  shows "length (T (JStr s)) = len_string s" and "length (T (JRaw v)) = len_raw_value v"
    and "length (T (quantity_json q)) = len_quantity q" and "length (T (u256_json u)) = len_u256 u"
    and "hex_laws H \<Longrightarrow> length (T (data_json H d)) = len_data d"
    and "hex_laws H \<Longrightarrow> length (T (fixed_json H w)) = len_fixed w"
  using assms
  by (simp_all add: serde_json_lens len_raw_value_def
      len_quantity_def json_serialized_hex_int_len_def bits_of_u64 quantity_json_def u256_json_def
      len_u256_def data_json_def len_data_def fixed_json_def len_fixed_def)

lemmas length_basic = length_ints length_values

lemma length_option:
  "serde_json_laws T \<Longrightarrow> (\<And>v. length (T (g v)) = f v) \<Longrightarrow>
   length (T (option_json g x)) = len_option f x"
  by (simp add: len_option_def option_json_def serde_json_lens split: option.split)

lemma length_vec:
  assumes "serde_json_laws T" "\<And>v. v \<in> set vs \<Longrightarrow> length (T (g v)) = f v"
  shows "length (T (JArr (map g vs))) = len_vec f vs"
proof -
  have "map (\<lambda>v. length (T (g v))) vs = map f vs"
    using assms(2) by simp
  then show ?thesis
    by (simp only: len_vec_def serde_json_lens(6) [OF assms(1)] map_map comp_def length_map)
qed

section \<open>Error codes and messages\<close>

datatype error_code =
    ExecutionReverted | TransactionTimeout | TransactionUnready | ServerError | TransactionRejected
  | ParseError | InvalidRequest | MethodNotFound | InvalidParams | InternalError | MethodNotSupported

fun error_code_code :: "error_code \<Rightarrow> 32 word" where
  "error_code_code ExecutionReverted = 3"
| "error_code_code TransactionTimeout = 4"
| "error_code_code TransactionUnready = 5"
| "error_code_code ServerError = - 32000"
| "error_code_code TransactionRejected = - 32003"
| "error_code_code ParseError = - 32700"
| "error_code_code InvalidRequest = - 32600"
| "error_code_code MethodNotFound = - 32601"
| "error_code_code InvalidParams = - 32602"
| "error_code_code InternalError = - 32603"
| "error_code_code MethodNotSupported = - 32004"

fun default_message :: "error_code \<Rightarrow> string" where
  "default_message ExecutionReverted = ''execution reverted''"
| "default_message TransactionTimeout = ''Transaction confirmation timed out''"
| "default_message TransactionUnready = ''The transaction is not ready to be processed''"
| "default_message ServerError = ''Server error''"
| "default_message TransactionRejected = ''Transaction rejected''"
| "default_message ParseError = ''Parse error''"
| "default_message InvalidRequest = ''Invalid request''"
| "default_message MethodNotFound = ''Method not found''"
| "default_message InvalidParams = ''Invalid params''"
| "default_message InternalError = ''Internal error''"
| "default_message MethodNotSupported = ''Method not supported''"

record json_rpc_error =
  jre_code :: "32 word"
  jre_message :: rust_string
  jre_data :: "bytes option"

definition JsonRpcError_new :: "error_code \<Rightarrow> json_rpc_error" where
  "JsonRpcError_new c =
     \<lparr>jre_code = error_code_code c, jre_message = lit (default_message c), jre_data = None\<rparr>"

definition with_message :: "error_code \<Rightarrow> rust_string \<Rightarrow> json_rpc_error" where
  "with_message c m = \<lparr>jre_code = error_code_code c, jre_message = m, jre_data = None\<rparr>"

definition internal_error :: "rust_string \<Rightarrow> json_rpc_error" where
  "internal_error m = with_message InternalError (lit ''Internal error: '' @ m)"

definition max_response_size_exceeded :: json_rpc_error where
  "max_response_size_exceeded = with_message ServerError (lit ''response exceeds size limit'')"

section \<open>Responses\<close>

datatype request_id = IdNumber u64 | IdString rust_string | IdNull

record response =
  rsp_jsonrpc :: rust_string
  rsp_result :: "bytes option"
  rsp_error :: "json_rpc_error option"
  rsp_id :: request_id

definition Response_new ::
  "bytes option \<Rightarrow> json_rpc_error option \<Rightarrow> request_id \<Rightarrow> response" where
  "Response_new result error rid =
     \<lparr>rsp_jsonrpc = lit ''2.0'', rsp_result = result, rsp_error = error, rsp_id = rid\<rparr>"

definition from_result :: "request_id \<Rightarrow> json_rpc_error + bytes \<Rightarrow> response" where
  "from_result rid r =
     (case r of Inr v \<Rightarrow> Response_new (Some v) None rid | Inl e \<Rightarrow> Response_new None (Some e) rid)"

definition from_error :: "json_rpc_error \<Rightarrow> response" where
  "from_error e = Response_new None (Some e) IdNull"

text \<open>
  The derived \<open>Serialize\<close> implementations: fields in the order of the struct, those marked
  \<open>skip_serializing_if\<close> left out; the request id is untagged.
\<close>

definition field :: "string \<Rightarrow> json \<Rightarrow> (rust_string \<times> json) list" where
  "field k v = [(lit k, v)]"

definition field_if_some :: "string \<Rightarrow> ('a \<Rightarrow> json) \<Rightarrow> 'a option \<Rightarrow> (rust_string \<times> json) list" where
  "field_if_some k g x = (case x of None \<Rightarrow> [] | Some v \<Rightarrow> field k (g v))"

fun request_id_json :: "request_id \<Rightarrow> json" where
  "request_id_json (IdNumber n) = JInt (sint n)"
| "request_id_json (IdString s) = JStr s"
| "request_id_json IdNull = JNull"

definition json_rpc_error_json :: "json_rpc_error \<Rightarrow> json" where
  "json_rpc_error_json e =
     JObj (field ''code'' (JInt (sint (jre_code e))) @ field ''message'' (JStr (jre_message e)) @
       field_if_some ''data'' JRaw (jre_data e))"

definition response_json :: "response \<Rightarrow> json" where
  "response_json r =
     JObj (field ''jsonrpc'' (JStr (rsp_jsonrpc r)) @ field_if_some ''result'' JRaw (rsp_result r) @
       field_if_some ''error'' json_rpc_error_json (rsp_error r) @
       field ''id'' (request_id_json (rsp_id r)))"

fun len_request_id :: "request_id \<Rightarrow> nat" where
  "len_request_id (IdNumber n) = len_int n"
| "len_request_id (IdString s) = len_string s"
| "len_request_id IdNull = 4"

definition map_or :: "'b \<Rightarrow> ('a \<Rightarrow> 'b) \<Rightarrow> 'a option \<Rightarrow> 'b" where
  "map_or d f x = (case x of None \<Rightarrow> d | Some v \<Rightarrow> f v)"

definition len_json_rpc_error :: "json_rpc_error \<Rightarrow> nat" where \<open>
  len_json_rpc_error e =
    length ''{"code":,"message":}'' + len_int (jre_code e) + len_string (jre_message e) +
    map_or 0 (\<lambda>data. length ''"data":,'' + len_raw_value data) (jre_data e)\<close>

definition len_response :: "response \<Rightarrow> nat" where \<open>
  len_response r =
    length ''{"jsonrpc":,"id":}'' + len_string (rsp_jsonrpc r) +
    map_or 0 (\<lambda>result. length ''"result":,'' + len_raw_value result) (rsp_result r) +
    map_or 0 (\<lambda>error. length ''"error":,'' + len_json_rpc_error error) (rsp_error r) +
    len_request_id (rsp_id r)\<close>

definition obj_len :: "(json \<Rightarrow> bytes) \<Rightarrow> (rust_string \<times> json) list \<Rightarrow> nat" where
  "obj_len T kvs = sum_list (map (\<lambda>(k, v). len_string k + 1 + length (T v)) kvs)"

lemma obj_len_simps [simp]:
  "obj_len T [] = 0"
  "obj_len T (kvs @ kvs') = obj_len T kvs + obj_len T kvs'"
  "obj_len T (field k v) = len_string (lit k) + 1 + length (T v)"
  "obj_len T (field_if_some k g x) = map_or 0 (\<lambda>v. len_string (lit k) + 1 + length (T (g v))) x"
  by (simp_all add: obj_len_def field_def field_if_some_def map_or_def split: option.split)

lemma length_fields [simp]:
  "length (field k v) = 1" "length (field_if_some k g x) = map_or 0 (\<lambda>_. 1) x"
  by (simp_all add: field_def field_if_some_def map_or_def split: option.split)

lemma length_obj:
  "serde_json_laws T \<Longrightarrow> length (T (JObj kvs)) = 2 + obj_len T kvs + (length kvs - 1)"
  by (simp add: serde_json_lens obj_len_def)

lemmas key_len_simps = len_string_def len_char_def len_utf8_def

lemma exact_request_id:
  assumes "serde_json_laws T"
  shows "length (T (request_id_json i)) = len_request_id i"
  using assms by (cases i) (simp_all add: length_basic serde_json_lens(1))

lemma exact_json_rpc_error:
  assumes "serde_json_laws T"
  shows "length (T (json_rpc_error_json e)) = len_json_rpc_error e"
  unfolding len_json_rpc_error_def json_rpc_error_json_def
  by (simp add: length_obj length_basic assms key_len_simps map_or_def split: option.split)

lemma exact_response:
  assumes "serde_json_laws T"
  shows "length (T (response_json r)) = len_response r"
  unfolding len_response_def response_json_def
  by (simp add: length_obj length_basic exact_json_rpc_error exact_request_id assms key_len_simps
      map_or_def split: option.split)

section \<open>The length trait\<close>

text \<open>
  \<open>JsonSerializedLen\<close> as an interface: a type with what its \<open>Serialize\<close> implementation hands to the
  serializer and a predicted length that is exact.  Vectors and options of such a type have exact
  lengths too.
\<close>

locale json_serialized_len =
  fixes to_json :: "'a \<Rightarrow> json" and json_len :: "'a \<Rightarrow> nat"
  assumes len_exact: "serde_json_laws T \<Longrightarrow> length (T (to_json x)) = json_len x"
begin

lemma vec_exact: "serde_json_laws T \<Longrightarrow> length (T (JArr (map to_json xs))) = len_vec json_len xs"
  by (rule length_vec) (simp_all add: len_exact)

lemma option_exact: "serde_json_laws T \<Longrightarrow> length (T (option_json to_json x)) = len_option json_len x"
  by (rule length_option) (simp_all add: len_exact)

lemma sum_le_vec:
  "serde_json_laws T \<Longrightarrow> sum_list (map json_len xs) \<le> length (T (JArr (map to_json xs)))"
  by (simp add: vec_exact len_vec_def)

end

interpretation int_len: json_serialized_len "\<lambda>i. JInt (sint i)" len_int
  by unfold_locales (rule length_ints)

interpretation string_len: json_serialized_len JStr len_string
  by unfold_locales (rule length_values(1))

interpretation quantity_len: json_serialized_len quantity_json len_quantity
  by unfold_locales (rule length_values(3))

interpretation request_id_len: json_serialized_len request_id_json len_request_id
  by unfold_locales (rule exact_request_id)

interpretation error_len: json_serialized_len json_rpc_error_json len_json_rpc_error
  by unfold_locales (rule exact_json_rpc_error)

interpretation response_len: json_serialized_len response_json len_response
  by unfold_locales (rule exact_response)

text \<open>The types written through the crate \<open>hex\<close> implement the trait for each behaviour of it.\<close>

locale hex_encoding =
  fixes H :: hex_crate
  assumes hex: "hex_laws H"

sublocale hex_encoding \<subseteq> data: json_serialized_len "data_json H" len_data
  by unfold_locales (rule length_values(5) [OF _ hex])

sublocale hex_encoding \<subseteq> fixed: json_serialized_len "fixed_json H" len_fixed
  by unfold_locales (rule length_values(6) [OF _ hex])

end
