(* ===== verification/Rpc_Handler.thy ===== *)
theory Rpc_Handler
  imports Rpc_Json
begin

text \<open>
  The HTTP entry point of the RPC server (\<open>rpc_handler\<close> in \<open>handlers/mod.rs\<close>): one request or a
  batch, the limits on the number of requests and on the size of the reply.  Reading JSON is done
  by \<open>serde_json\<close>, whose parsers are the fields of \<open>serde_reader\<close>; the method table
  \<open>rpc_select\<close> is an argument, so that what is proved holds whatever the methods answer.  The
  comparator task and the log lines have no effect on the reply and are left out, and the
  concurrency limit of a batch is positive.
\<close>

section \<open>Reading requests\<close>

record request_raw =
  raw_jsonrpc :: rust_string
  raw_method :: rust_string
  raw_params :: "bytes option"
  raw_id :: bytes

record request =
  req_jsonrpc :: rust_string
  req_method :: rust_string
  req_params :: "bytes option"
  req_id :: request_id

datatype request_wrapper = SingleRequest bytes | BatchRequest "bytes list"

record serde_reader =
  sd_raw_value :: "bytes \<Rightarrow> bytes option"
  sd_raw_values :: "bytes \<Rightarrow> bytes list option"
  sd_request_raw :: "bytes \<Rightarrow> request_raw option"
  sd_i64 :: "bytes \<Rightarrow> u64 option"
  sd_string :: "bytes \<Rightarrow> rust_string option"

definition from_body_bytes :: "serde_reader \<Rightarrow> bytes \<Rightarrow> request_wrapper option" where
  "from_body_bytes S body =
     (case sd_raw_values S body of
        Some batch \<Rightarrow> Some (BatchRequest batch)
      | None \<Rightarrow> map_option SingleRequest (sd_raw_value S body))"

definition deserialize_jsonrpc :: "rust_string \<Rightarrow> rust_string option" where
  "deserialize_jsonrpc v = (if v = lit ''2.0'' then Some v else None)"

text \<open>\<open>str::trim\<close>; only ASCII white space can surround a JSON value.\<close>

definition is_space :: "u8 \<Rightarrow> bool" where
  "is_space b \<longleftrightarrow> b = 0x20 \<or> (0x09 \<le> b \<and> b \<le> 0x0D)"

definition trim :: "bytes \<Rightarrow> bytes" where
  "trim bs = rev (dropWhile is_space (rev (dropWhile is_space bs)))"

definition read_id :: "serde_reader \<Rightarrow> bytes \<Rightarrow> request_id option" where
  "read_id S i =
     (case sd_i64 S i of
        Some n \<Rightarrow> Some (IdNumber n)
      | None \<Rightarrow>
          (case sd_string S i of
             Some s \<Rightarrow> Some (IdString s)
           | None \<Rightarrow> if trim i = str_bytes (lit ''null'') then Some IdNull else None))"

definition from_raw_value :: "serde_reader \<Rightarrow> bytes \<Rightarrow> request option" where
  "from_raw_value S raw =
     Option.bind (sd_request_raw S raw) (\<lambda>r.
     Option.bind (deserialize_jsonrpc (raw_jsonrpc r)) (\<lambda>jsonrpc.
     Option.bind (read_id S (raw_id r)) (\<lambda>i.
     Some \<lparr>req_jsonrpc = jsonrpc, req_method = raw_method r, req_params = raw_params r, req_id = i\<rparr>)))"

section \<open>Answering\<close>

datatype response_wrapper = SingleResponse response | BatchResponse "response list"

fun response_wrapper_json :: "response_wrapper \<Rightarrow> json" where
  "response_wrapper_json (SingleResponse r) = response_json r"
| "response_wrapper_json (BatchResponse rs) = JArr (map response_json rs)"

definition serialize_with_size_limit ::
  "(json \<Rightarrow> bytes) \<Rightarrow> json \<Rightarrow> nat \<Rightarrow> json_rpc_error + bytes" where
  "serialize_with_size_limit T v max_size =
     (let raw = T v in if length raw > max_size then Inl max_response_size_exceeded else Inr raw)"

record rpc_limits =
  batch_request_limit :: "16 word"
  max_response_size :: u32

type_synonym rpc_methods = "rust_string \<Rightarrow> bytes option \<Rightarrow> json_rpc_error + bytes"

definition batch_answer :: "serde_reader \<Rightarrow> rpc_methods \<Rightarrow> bytes \<Rightarrow> response" where
  "batch_answer S rpc_select raw =
     (case from_raw_value S raw of
        None \<Rightarrow> from_result IdNull (Inl (JsonRpcError_new InvalidRequest))
      | Some request \<Rightarrow>
          from_result (req_id request) (rpc_select (req_method request) (req_params request)))"

text \<open>The \<open>take_while\<close> over the answers, with the running sum of their predicted lengths.\<close>

fun take_within :: "nat \<Rightarrow> nat \<Rightarrow> response list \<Rightarrow> response list" where
  "take_within limit sofar [] = []"
| "take_within limit sofar (r # rs) =
     (let sofar' = sofar + len_response r
      in if sofar' \<le> limit then r # take_within limit sofar' rs else [])"

definition error_reply :: "(json \<Rightarrow> bytes) \<Rightarrow> json_rpc_error \<Rightarrow> bytes" where
  "error_reply T e = T (response_json (from_error e))"

definition batch_limit_error :: "rpc_limits \<Rightarrow> json_rpc_error" where
  "batch_limit_error L =
     with_message ServerError
       (lit (''number of requests in batch request exceeds limit of '' @
          word_to_string (batch_request_limit L)))"

definition answer_batch ::
  "serde_reader \<Rightarrow> rpc_methods \<Rightarrow> rpc_limits \<Rightarrow> bytes list \<Rightarrow> json_rpc_error + response_wrapper" where
  "answer_batch S rpc_select L batch =
     (if length batch = 0 then Inl (JsonRpcError_new InvalidRequest)
      else if length batch > unat (batch_request_limit L) then Inl (batch_limit_error L)
      else
        let batch_response =
              take_within (unat (max_response_size L)) 0 (map (batch_answer S rpc_select) batch)
        in if length batch_response < length batch then Inl max_response_size_exceeded
           else Inr (BatchResponse batch_response))"

definition answer_single ::
  "serde_reader \<Rightarrow> rpc_methods \<Rightarrow> bytes \<Rightarrow> json_rpc_error + response_wrapper" where
  "answer_single S rpc_select raw =
     (case from_raw_value S raw of
        None \<Rightarrow> Inl (JsonRpcError_new InvalidRequest)
      | Some request \<Rightarrow>
          Inr (SingleResponse
            (from_result (req_id request) (rpc_select (req_method request) (req_params request)))))"

definition rpc_handler ::
  "serde_reader \<Rightarrow> (json \<Rightarrow> bytes) \<Rightarrow> rpc_methods \<Rightarrow> rpc_limits \<Rightarrow> bytes \<Rightarrow> bytes" where
  "rpc_handler S T rpc_select L body =
     (case from_body_bytes S body of
        None \<Rightarrow> error_reply T (JsonRpcError_new ParseError)
      | Some wrapper \<Rightarrow>
          (case (case wrapper of
                   SingleRequest raw \<Rightarrow> answer_single S rpc_select raw
                 | BatchRequest batch \<Rightarrow> answer_batch S rpc_select L batch) of
             Inl e \<Rightarrow> error_reply T e
           | Inr response \<Rightarrow>
               (case serialize_with_size_limit T (response_wrapper_json response)
                   (unat (max_response_size L)) of
                  Inl e \<Rightarrow> error_reply T e
                | Inr raw \<Rightarrow> raw)))"

section \<open>The early exit never changes the reply\<close>

lemma take_within_all:
  "sofar + sum_list (map len_response rs) \<le> limit \<Longrightarrow> take_within limit sofar rs = rs"
  by (induction rs arbitrary: sofar) (auto simp: Let_def)

lemma take_within_short:
  "limit < sofar + sum_list (map len_response rs) \<Longrightarrow> sofar \<le> limit \<Longrightarrow>
   length (take_within limit sofar rs) < length rs"
  by (induction rs arbitrary: sofar) (auto simp: Let_def)

lemma answer_batch_size:
  assumes "serde_json_laws T" "batch \<noteq> []" "length batch \<le> unat (batch_request_limit L)"
    "length (T (JArr (map (response_json \<circ> batch_answer S rpc_select) batch))) \<le> unat (max_response_size L)"
  shows "answer_batch S rpc_select L batch = Inr (BatchResponse (map (batch_answer S rpc_select) batch))"
proof -
  have "sum_list (map len_response (map (batch_answer S rpc_select) batch)) \<le> unat (max_response_size L)"
    using response_len.sum_le_vec [OF assms(1), of "map (batch_answer S rpc_select) batch"] assms(4)
    by (simp add: comp_assoc)
  then have "take_within (unat (max_response_size L)) 0 (map (batch_answer S rpc_select) batch) =
      map (batch_answer S rpc_select) batch"
    by (intro take_within_all) simp
  with assms(2,3) show ?thesis by (simp add: answer_batch_def)
qed

lemma answer_batch_cases:
  assumes "batch \<noteq> []" "length batch \<le> unat (batch_request_limit L)"
  shows "answer_batch S rpc_select L batch \<in>
    {Inl max_response_size_exceeded, Inr (BatchResponse (map (batch_answer S rpc_select) batch))}"
proof (cases "sum_list (map len_response (map (batch_answer S rpc_select) batch)) \<le> unat (max_response_size L)")
  case True
  with assms take_within_all [of 0 "map (batch_answer S rpc_select) batch"] show ?thesis
    by (simp add: answer_batch_def)
next
  case False
  with assms take_within_short [of "unat (max_response_size L)" 0 "map (batch_answer S rpc_select) batch"]
  show ?thesis by (simp add: answer_batch_def)
qed

text \<open>
  C35: A batch within the limit on the number of requests is answered with the array of one
  response per request, in the order of the requests, exactly when that array fits the limit on
  the size of a reply, and with the size error otherwise: the running sum of predicted lengths
  that stops a batch early never changes the reply.
\<close>

theorem batch_reply_exact:
  assumes "serde_json_laws T" "from_body_bytes S body = Some (BatchRequest batch)"
    "batch \<noteq> []" "length batch \<le> unat (batch_request_limit L)"
  shows "rpc_handler S T rpc_select L body =
    (let reply = T (JArr (map (response_json \<circ> batch_answer S rpc_select) batch))
     in if length reply \<le> unat (max_response_size L) then reply
        else error_reply T max_response_size_exceeded)"
  using assms(2) answer_batch_cases [OF assms(3,4), of S rpc_select] answer_batch_size [OF assms(1,3,4), of S rpc_select]
  by (auto simp: rpc_handler_def serialize_with_size_limit_def Let_def)

definition sample_serde_reader :: serde_reader where
  "sample_serde_reader =
     \<lparr>sd_raw_value = Some, sd_raw_values = \<lambda>b. Some (map (\<lambda>x. [x]) b),
      sd_request_raw = \<lambda>b. Some \<lparr>raw_jsonrpc = lit ''2.0'', raw_method = lit ''eth_chainId'',
        raw_params = None, raw_id = b\<rparr>,
      sd_i64 = \<lambda>b. Some (of_nat (length b)), sd_string = \<lambda>b. None\<rparr>"

definition sample_limits :: rpc_limits where
  "sample_limits = \<lparr>batch_request_limit = 5, max_response_size = 1000\<rparr>"

theorem batch_reply_exact_witness:
  "rpc_handler sample_serde_reader to_string_json (\<lambda>_ _. Inr [0x31]) sample_limits [7, 8] =
     to_string_json (JArr (map (response_json \<circ> batch_answer sample_serde_reader (\<lambda>_ _. Inr [0x31])) [[7], [8]]))"
proof -
  have "length (to_string_json (JArr (map (response_json \<circ> batch_answer sample_serde_reader (\<lambda>_ _. Inr [0x31])) [[7], [8]])))
      \<le> unat (max_response_size sample_limits)"
    unfolding serde_json_lens(6) [OF sample_serde_json_laws]
    by (simp add: exact_response [OF sample_serde_json_laws] batch_answer_def from_raw_value_def sample_serde_reader_def
        deserialize_jsonrpc_def read_id_def from_result_def Response_new_def len_response_def key_len_simps
        map_or_def len_raw_value_def len_int_def ilog10.simps sample_limits_def)
  moreover have "from_body_bytes sample_serde_reader [7, 8] = Some (BatchRequest [[7], [8]])"
    by (simp add: from_body_bytes_def sample_serde_reader_def)
  ultimately show ?thesis
    using batch_reply_exact [OF sample_serde_json_laws, of sample_serde_reader "[7, 8]" "[[7], [8]]" sample_limits
        "\<lambda>_ _. Inr [0x31]"]
    by (simp add: sample_limits_def Let_def)
qed

end
