(* ===== verification/Call_Tree.thy ===== *)
theory Call_Tree
  imports Rpc_Json
begin

text \<open>
  Call traces in the RPC server (\<open>handlers/debug.rs\<close>): the flat list of call frames the execution
  client stores, the tree of frames the server answers with, the numbering of its logs and the
  predicted length of its JSON.  The fields of a frame are read by \<open>alloy_rlp\<close>, accounts and code
  come from the execution database and revert messages are decoded by \<open>monad_ethcall\<close>: those are
  the fields of \<open>trace_env\<close>.
\<close>

section \<open>Frames\<close>

datatype debug_call_kind =
    KCall | KDelegateCall | KCallCode | KCreate | KCreate2 | KSelfDestruct | KStaticCall

record call_frame_log =
  cfl_address :: address
  cfl_topics :: "b256 list"
  cfl_data :: bytes
  cfl_position :: u64

record call_frame =
  cf_typ :: debug_call_kind
  cf_flags :: u64
  cf_from :: address
  cf_to :: "address option"
  cf_value :: b256
  cf_gas :: u64
  cf_gas_used :: u64
  cf_input :: bytes
  cf_output :: bytes
  cf_status :: u8
  cf_depth :: u64
  cf_logs :: "call_frame_log list option"

type_synonym 'a rlp_read = "bytes \<Rightarrow> rust_string + 'a \<times> bytes"

record account_state =
  acc_code_hash :: "b256 option"

record trace_env =
  te_u8 :: "u8 rlp_read"
  te_u64 :: "u64 rlp_read"
  te_u256 :: "b256 rlp_read"
  te_address :: "address rlp_read"
  te_bytes :: "bytes rlp_read"
  te_logs :: "call_frame_log list rlp_read"
  te_frames :: "call_frame rlp_read \<Rightarrow> bytes \<Rightarrow> rust_string + call_frame list list"
  te_get_account :: "address \<Rightarrow> rust_string + account_state"
  te_get_code :: "b256 \<Rightarrow> rust_string + bytes"
  te_decode_revert_message :: "bytes \<Rightarrow> rust_string option"

definition decode_to :: "trace_env \<Rightarrow> address option rlp_read" where
  "decode_to E buf =
     (case buf of
        [] \<Rightarrow> Inl (lit ''input too short'')
      | first_byte # others \<Rightarrow>
          if first_byte = 0x80 then Inr (None, others)
          else res_bind (te_address E buf) (\<lambda>(a, buf'). Inr (Some a, buf')))"

definition decode_logs :: "trace_env \<Rightarrow> call_frame_log list option rlp_read" where
  "decode_logs E buf =
     (if buf = [] then Inr (None, buf) else res_bind (te_logs E buf) (\<lambda>(l, buf'). Inr (Some l, buf')))"

definition decode_kind :: "u8 \<Rightarrow> u64 \<Rightarrow> rust_string + debug_call_kind" where
  "decode_kind typ flags =
     (if typ = 0 then Inr (if flags = 1 then KStaticCall else KCall)
      else if typ = 1 then Inr KDelegateCall
      else if typ = 2 then Inr KCallCode
      else if typ = 3 then Inr KCreate
      else if typ = 4 then Inr KCreate2
      else if typ = 5 then Inr KSelfDestruct
      else Inl (lit ''Invalid call kind''))"

definition CallFrame_decode :: "trace_env \<Rightarrow> call_frame rlp_read" where
  "CallFrame_decode E b0 =
     res_bind (te_u8 E b0) (\<lambda>(typ, b1).
     res_bind (te_u64 E b1) (\<lambda>(flags, b2).
     res_bind (te_address E b2) (\<lambda>(from, b3).
     res_bind (decode_to E b3) (\<lambda>(to, b4).
     res_bind (te_u256 E b4) (\<lambda>(v, b5).
     res_bind (te_u64 E b5) (\<lambda>(gas, b6).
     res_bind (te_u64 E b6) (\<lambda>(gas_used, b7).
     res_bind (te_bytes E b7) (\<lambda>(input, b8).
     res_bind (te_bytes E b8) (\<lambda>(output, b9).
     res_bind (te_u8 E b9) (\<lambda>(status, b10).
     res_bind (te_u64 E b10) (\<lambda>(depth, b11).
     res_bind (decode_logs E b11) (\<lambda>(logs, b12).
     res_bind (decode_kind typ flags) (\<lambda>kind.
     Inr (\<lparr>cf_typ = kind, cf_flags = flags, cf_from = from, cf_to = to, cf_value = v, cf_gas = gas,
           cf_gas_used = gas_used, cf_input = input, cf_output = output, cf_status = status,
           cf_depth = depth, cf_logs = logs\<rparr>, b12))))))))))))))"

text \<open>
  A frame of the answer: the fields of \<open>MonadCallFrame\<close> other than \<open>calls\<close> are the record
  \<open>frame_head\<close>, and \<open>calls\<close> is the list of child frames.
\<close>

record monad_call_frame_log =
  mfl_address :: address
  mfl_topics :: "b256 list"
  mfl_data :: bytes
  mfl_position :: u64
  mfl_index :: u64

record frame_head =
  mcf_typ :: debug_call_kind
  mcf_from :: address
  mcf_to :: "address option"
  mcf_value :: "b256 option"
  mcf_gas :: u64
  mcf_gas_used :: u64
  mcf_input :: bytes
  mcf_output :: bytes
  mcf_depth :: nat
  mcf_error :: "rust_string option"
  mcf_revert_reason :: "rust_string option"
  mcf_logs :: "monad_call_frame_log list"

datatype monad_call_frame = MonadCallFrame (mcf_head: frame_head) (mcf_calls: "monad_call_frame list")

definition from_call_frame_log :: "call_frame_log \<Rightarrow> nat \<Rightarrow> monad_call_frame_log" where
  "from_call_frame_log l i =
     \<lparr>mfl_address = cfl_address l, mfl_topics = cfl_topics l, mfl_data = cfl_data l,
      mfl_position = cfl_position l, mfl_index = of_nat i\<rparr>"

definition status_error :: "u8 \<Rightarrow> string option" where
  "status_error status =
     (if status = 0 then None
      else if status = 2 then Some ''execution reverted''
      else if status = 3 then Some ''out of gas''
      else if status = 18 then Some ''reserve balance violation''
      else Some ''error'')"

definition from_call_frame :: "trace_env \<Rightarrow> call_frame \<Rightarrow> monad_call_frame" where
  "from_call_frame E f =
     (let frame_value = (if cf_typ f = KStaticCall then None else Some (cf_value f));
          error = map_option lit (status_error (cf_status f));
          revert_reason = Option.bind error (\<lambda>_. te_decode_revert_message E (cf_output f));
          to = (if error \<noteq> None \<and> (cf_typ f = KCreate \<or> cf_typ f = KCreate2) \<and> cf_to f \<noteq> None
                then None else cf_to f)
      in MonadCallFrame
           \<lparr>mcf_typ = cf_typ f, mcf_from = cf_from f, mcf_to = to, mcf_value = frame_value,
            mcf_gas = cf_gas f, mcf_gas_used = cf_gas_used f, mcf_input = cf_input f,
            mcf_output = cf_output f, mcf_depth = unat (cf_depth f), mcf_error = error,
            mcf_revert_reason = revert_reason,
            mcf_logs = (let logs = (case cf_logs f of None \<Rightarrow> [] | Some ls \<Rightarrow> ls)
                        in map2 from_call_frame_log logs [0..<length logs])\<rparr> [])"

section \<open>Rebuilding the tree\<close>

abbreviation mcf_depth_of :: "monad_call_frame \<Rightarrow> nat" where
  "mcf_depth_of f \<equiv> mcf_depth (mcf_head f)"

definition push_call :: "monad_call_frame \<Rightarrow> monad_call_frame \<Rightarrow> monad_call_frame" where
  "push_call parent child = MonadCallFrame (mcf_head parent) (mcf_calls parent @ [child])"

text \<open>
  The inner loop: frames at least as deep as the next one are complete and move to their parent,
  which is the frame below on the stack or the root.  The stack has its deepest frame first.
\<close>

fun complete_frames ::
  "nat \<Rightarrow> monad_call_frame \<Rightarrow> monad_call_frame list \<Rightarrow> monad_call_frame \<times> monad_call_frame list" where
  "complete_frames d root [] = (root, [])"
| "complete_frames d root [f] =
     (if mcf_depth_of f \<ge> d then (push_call root f, []) else (root, [f]))"
| "complete_frames d root (f # g # fs) =
     (if mcf_depth_of f \<ge> d then complete_frames d root (push_call g f # fs) else (root, f # g # fs))"

text \<open>The outer loop: one turn for each remaining frame, and a last one at depth 0.\<close>

definition add_frame ::
  "trace_env \<Rightarrow> call_frame \<Rightarrow> monad_call_frame \<times> monad_call_frame list \<Rightarrow>
   monad_call_frame \<times> monad_call_frame list" where
  "add_frame E f s =
     (let (root, stack) = complete_frames (unat (cf_depth f)) (fst s) (snd s)
      in (root, from_call_frame E f # stack))"

text \<open>
  Logs in the order they were emitted: those of a frame up to the position of a child come
  before the logs of that child.
\<close>

fun extend_logs_by_emit_order :: "monad_call_frame \<Rightarrow> monad_call_frame_log list"
  and emit_calls :: "monad_call_frame_log list \<Rightarrow> nat \<Rightarrow> monad_call_frame list \<Rightarrow> monad_call_frame_log list" where
  "extend_logs_by_emit_order (MonadCallFrame h cs) = emit_calls (mcf_logs h) 0 cs"
| "emit_calls logs pos [] = logs"
| "emit_calls logs pos (c # cs) =
     takeWhile (\<lambda>l. unat (mfl_position l) \<le> pos) logs @ extend_logs_by_emit_order c @
     emit_calls (dropWhile (\<lambda>l. unat (mfl_position l) \<le> pos) logs) (pos + 1) cs"

text \<open>Writing the indices through the references collected in that order.\<close>

definition set_indices :: "nat \<Rightarrow> monad_call_frame_log list \<Rightarrow> monad_call_frame_log list" where
  "set_indices n ls = map2 (\<lambda>l i. l\<lparr>mfl_index := of_nat i\<rparr>) ls [n..<n + length ls]"

fun number_logs :: "nat \<Rightarrow> monad_call_frame \<Rightarrow> monad_call_frame \<times> nat"
  and number_calls :: "nat \<Rightarrow> monad_call_frame_log list \<Rightarrow> nat \<Rightarrow> monad_call_frame list \<Rightarrow>
    monad_call_frame_log list \<times> monad_call_frame list \<times> nat" where
  "number_logs n (MonadCallFrame h cs) =
     (let (logs, cs', n') = number_calls n (mcf_logs h) 0 cs
      in (MonadCallFrame (h\<lparr>mcf_logs := logs\<rparr>) cs', n'))"
| "number_calls n logs pos [] = (set_indices n logs, [], n + length logs)"
| "number_calls n logs pos (c # cs) =
     (let before = takeWhile (\<lambda>l. unat (mfl_position l) \<le> pos) logs;
          (c', n1) = number_logs (n + length before) c;
          (after, cs', n2) =
            number_calls n1 (dropWhile (\<lambda>l. unat (mfl_position l) \<le> pos) logs) (pos + 1) cs
      in (set_indices n before @ after, c' # cs', n2))"

definition build_call_tree :: "trace_env \<Rightarrow> call_frame list \<Rightarrow> monad_call_frame option" where
  "build_call_tree E frames =
     (case frames of
        [] \<Rightarrow> None
      | f # fs \<Rightarrow>
          let (root, stack) = fold (add_frame E) fs (from_call_frame E f, []);
              (root', _) = complete_frames 0 root stack
          in Some (fst (number_logs 0 root')))"

section \<open>From the stored frames to the answer\<close>

datatype tracer = CallTracer | PreStateTracer

record tracer_config =
  only_top_call :: bool
  diff_mode :: bool
  with_log :: bool

record tracer_object =
  to_tracer :: tracer
  to_config :: tracer_config

definition include_code_output :: "trace_env \<Rightarrow> call_frame \<Rightarrow> json_rpc_error + call_frame" where
  "include_code_output E f =
     (if cf_output f \<noteq> [] \<or> \<not> (cf_typ f = KCreate \<or> cf_typ f = KCreate2) then Inr f
      else case cf_to f of
        None \<Rightarrow>
          if cf_status f = 0 then Inl (internal_error (lit ''contract address not found in call frame''))
          else Inr f
      | Some contract_addr \<Rightarrow>
          res_bind (map_err internal_error (te_get_account E contract_addr)) (\<lambda>account.
          res_bind (case acc_code_hash account of
              Some code_hash \<Rightarrow> map_err internal_error (te_get_code E code_hash)
            | None \<Rightarrow> Inr []) (\<lambda>output.
          Inr (f\<lparr>cf_output := output\<rparr>))))"

definition select_logs :: "tracer_config \<Rightarrow> call_frame \<Rightarrow> json_rpc_error + call_frame" where
  "select_logs cfg f =
     (if with_log cfg then
        (if cf_logs f = None then
           (if cf_typ f = KSelfDestruct then Inr (f\<lparr>cf_logs := Some []\<rparr>)
            else Inl (internal_error (lit ''logs not found in call frame'')))
         else Inr f)
      else Inr (f\<lparr>cf_logs := None\<rparr>))"

text \<open>A loop or a \<open>collect\<close> of fallible steps, which stops at the first error.\<close>

fun try_map :: "('a \<Rightarrow> 'e + 'b) \<Rightarrow> 'a list \<Rightarrow> 'e + 'b list" where
  "try_map f [] = Inr []"
| "try_map f (x # xs) = res_bind (f x) (\<lambda>y. res_bind (try_map f xs) (\<lambda>ys. Inr (y # ys)))"

definition clear_calls :: "monad_call_frame \<Rightarrow> monad_call_frame" where
  "clear_calls f = MonadCallFrame (mcf_head f) []"

definition decode_call_frame ::
  "trace_env \<Rightarrow> bytes \<Rightarrow> tracer_object \<Rightarrow> json_rpc_error + monad_call_frame option" where
  "decode_call_frame E rlp t =
     res_bind (map_err (\<lambda>e. with_message ServerError (lit ''Rlp Decode error: '' @ e))
       (te_frames E (CallFrame_decode E) rlp)) (\<lambda>framess.
     res_bind (try_map (select_logs (to_config t)) (concat framess)) (\<lambda>frames.
     case to_tracer t of
       CallTracer \<Rightarrow>
         if diff_mode (to_config t) then Inl (JsonRpcError_new MethodNotSupported)
         else if only_top_call (to_config t) then
           (case frames of
              [] \<Rightarrow> Inr None
            | root_frame # others \<Rightarrow>
                res_bind (include_code_output E root_frame) (\<lambda>root_frame'.
                Inr (map_option clear_calls (build_call_tree E (root_frame' # others)))))
         else
           res_bind (try_map (include_code_output E) frames) (\<lambda>frames'.
           Inr (build_call_tree E frames'))
     | _ \<Rightarrow> Inl (JsonRpcError_new MethodNotSupported)))"

section \<open>JSON of traces and its predicted length\<close>

fun call_kind_name :: "debug_call_kind \<Rightarrow> string" where
  "call_kind_name KCall = ''CALL''"
| "call_kind_name KDelegateCall = ''DELEGATECALL''"
| "call_kind_name KCallCode = ''CALLCODE''"
| "call_kind_name KCreate = ''CREATE''"
| "call_kind_name KCreate2 = ''CREATE2''"
| "call_kind_name KSelfDestruct = ''SELFDESTRUCT''"
| "call_kind_name KStaticCall = ''STATICCALL''"

definition call_kind_json :: "debug_call_kind \<Rightarrow> json" where
  "call_kind_json k = JStr (lit (call_kind_name k))"

definition call_frame_log_json :: "hex_crate \<Rightarrow> monad_call_frame_log \<Rightarrow> json" where
  "call_frame_log_json H l =
     JObj (field ''address'' (fixed_json H (mfl_address l)) @
       field ''topics'' (JArr (map (fixed_json H) (mfl_topics l))) @
       field ''data'' (data_json H (mfl_data l)) @
       field ''position'' (quantity_json (mfl_position l)) @
       field ''index'' (quantity_json (mfl_index l)))"

definition field_if :: "string \<Rightarrow> bool \<Rightarrow> json \<Rightarrow> (rust_string \<times> json) list" where
  "field_if k b v = (if b then field k v else [])"

fun call_frame_json :: "hex_crate \<Rightarrow> monad_call_frame \<Rightarrow> json" where
  "call_frame_json H (MonadCallFrame h cs) =
     JObj (field ''type'' (call_kind_json (mcf_typ h)) @
       field ''from'' (fixed_json H (mcf_from h)) @
       field_if_some ''to'' (fixed_json H) (mcf_to h) @
       field_if_some ''value'' u256_json (mcf_value h) @
       field ''gas'' (quantity_json (mcf_gas h)) @
       field ''gasUsed'' (quantity_json (mcf_gas_used h)) @
       field ''input'' (data_json H (mcf_input h)) @
       field_if ''output'' (mcf_output h \<noteq> []) (data_json H (mcf_output h)) @
       field_if_some ''error'' JStr (mcf_error h) @
       field_if_some ''revertReason'' JStr (mcf_revert_reason h) @
       field_if ''calls'' (cs \<noteq> []) (JArr (map (call_frame_json H) cs)) @
       field_if ''logs'' (mcf_logs h \<noteq> []) (JArr (map (call_frame_log_json H) (mcf_logs h))))"

record trace_block_result =
  tbr_tx_hash :: b256
  tbr_result :: monad_call_frame

definition trace_block_result_json :: "hex_crate \<Rightarrow> trace_block_result \<Rightarrow> json" where
  "trace_block_result_json H r =
     JObj (field ''txHash'' (fixed_json H (tbr_tx_hash r)) @
       field ''result'' (call_frame_json H (tbr_result r)))"

definition len_call_kind :: "debug_call_kind \<Rightarrow> nat" where
  "len_call_kind k = 2 + length (call_kind_name k)"

definition len_call_frame_log :: "monad_call_frame_log \<Rightarrow> nat" where \<open>
  len_call_frame_log l =
    length ''{"address":,"topics":,"data":,"position":,"index":}'' + len_fixed (mfl_address l) +
    len_vec len_fixed (mfl_topics l) + len_data (mfl_data l) + len_quantity (mfl_position l) +
    len_quantity (mfl_index l)\<close>

text \<open>The two counters of the closure \<open>add\<close>: the segments and the number of fields.\<close>

definition add_seg :: "string \<Rightarrow> nat \<Rightarrow> nat \<times> nat \<Rightarrow> nat \<times> nat" where
  "add_seg key value_len c = (fst c + (length key + 3 + value_len), snd c + 1)"

definition add_some :: "string \<Rightarrow> ('a \<Rightarrow> nat) \<Rightarrow> 'a option \<Rightarrow> nat \<times> nat \<Rightarrow> nat \<times> nat" where
  "add_some key f x c = (case x of None \<Rightarrow> c | Some v \<Rightarrow> add_seg key (f v) c)"

definition add_if :: "string \<Rightarrow> bool \<Rightarrow> nat \<Rightarrow> nat \<times> nat \<Rightarrow> nat \<times> nat" where
  "add_if key b n c = (if b then add_seg key n c else c)"

lemma len_vec_cong [fundef_cong]:
  "xs = ys \<Longrightarrow> (\<And>x. x \<in> set ys \<Longrightarrow> f x = g x) \<Longrightarrow> len_vec f xs = len_vec g ys"
  by (simp add: len_vec_def cong: map_cong)

fun len_call_frame :: "monad_call_frame \<Rightarrow> nat" where
  "len_call_frame (MonadCallFrame h cs) =
     (let c1 = add_seg ''type'' (len_call_kind (mcf_typ h)) (0, 0);
          c2 = add_seg ''from'' (len_fixed (mcf_from h)) c1;
          c3 = add_some ''to'' len_fixed (mcf_to h) c2;
          c4 = add_some ''value'' len_u256 (mcf_value h) c3;
          c5 = add_seg ''gas'' (len_quantity (mcf_gas h)) c4;
          c6 = add_seg ''gasUsed'' (len_quantity (mcf_gas_used h)) c5;
          c7 = add_seg ''input'' (len_data (mcf_input h)) c6;
          c8 = add_if ''output'' (mcf_output h \<noteq> []) (len_data (mcf_output h)) c7;
          c9 = add_some ''error'' len_string (mcf_error h) c8;
          c10 = add_some ''revertReason'' len_string (mcf_revert_reason h) c9;
          c11 = add_if ''calls'' (cs \<noteq> []) (len_vec len_call_frame cs) c10;
          c12 = add_if ''logs'' (mcf_logs h \<noteq> []) (len_vec len_call_frame_log (mcf_logs h)) c11
      in 2 + fst c12 + (snd c12 - 1))"

definition len_trace_block_result :: "trace_block_result \<Rightarrow> nat" where \<open>
  len_trace_block_result r =
    length ''{"txHash":,"result":}'' + len_fixed (tbr_tx_hash r) + len_call_frame (tbr_result r)\<close>

text \<open>\<open>decode_block_call_frames\<close>, whose loop adds up the lengths (at the width of \<open>usize\<close>).\<close>

fun block_frames_loop ::
  "trace_env \<Rightarrow> tracer_object \<Rightarrow> nat \<Rightarrow> nat \<Rightarrow> (bytes \<times> b256) list \<Rightarrow>
   json_rpc_error + trace_block_result list" where
  "block_frames_loop E t max_size sofar [] = Inr []"
| "block_frames_loop E t max_size sofar ((call_frame, tx_id) # others) =
     res_bind (decode_call_frame E call_frame t) (\<lambda>traces.
     case traces of
       None \<Rightarrow> Inl (internal_error (lit ''traces not found''))
     | Some frame \<Rightarrow>
         let result = \<lparr>tbr_tx_hash = tx_id, tbr_result = frame\<rparr>;
             sofar' = min (sofar + len_trace_block_result result) (2 ^ 64 - 1)
         in if sofar' > max_size then Inl max_response_size_exceeded
            else res_bind (block_frames_loop E t max_size sofar' others) (\<lambda>rs. Inr (result # rs)))"

definition decode_block_call_frames ::
  "trace_env \<Rightarrow> b256 list \<Rightarrow> bytes list \<Rightarrow> tracer_object \<Rightarrow> nat \<Rightarrow>
   json_rpc_error + trace_block_result list" where
  "decode_block_call_frames E tx_hashes call_frames t max_size =
     (if length call_frames \<noteq> length tx_hashes then
        Inl (internal_error (lit ''invalid block callframe input''))
      else block_frames_loop E t max_size 0 (zip call_frames tx_hashes))"

definition debug_traceTransaction ::
  "trace_env \<Rightarrow> bytes option \<Rightarrow> tracer_object \<Rightarrow> nat \<Rightarrow> json_rpc_error + monad_call_frame option" where
  "debug_traceTransaction E found_frame t max_size =
     (case found_frame of
        None \<Rightarrow> Inr None
      | Some call_frame \<Rightarrow>
          res_bind (decode_call_frame E call_frame t) (\<lambda>traces.
          if len_option len_call_frame traces > max_size then Inl max_response_size_exceeded
          else Inr traces))"

section \<open>The predicted length is exact\<close>

lemma length_call_kind:
  "serde_json_laws T \<Longrightarrow> length (T (call_kind_json k)) = len_call_kind k"
  by (cases k) (simp_all add: call_kind_json_def length_basic len_call_kind_def key_len_simps)

lemma length_call_frame_log:
  assumes "serde_json_laws T" "hex_laws H"
  shows "length (T (call_frame_log_json H l)) = len_call_frame_log l"
proof -
  have "length (T (JArr (map (fixed_json H) (mfl_topics l)))) = len_vec len_fixed (mfl_topics l)"
    by (rule length_vec [OF assms(1)]) (simp add: length_basic assms)
  then show ?thesis
    unfolding call_frame_log_json_def len_call_frame_log_def
    by (simp add: length_obj length_basic assms key_len_simps)
qed

lemma add_seg_simps:
  "fst (add_seg k n c) = fst c + (length k + 3 + n)" "snd (add_seg k n c) = snd c + 1"
  "fst (add_some k f x c) = fst c + map_or 0 (\<lambda>v. length k + 3 + f v) x"
  "snd (add_some k f x c) = snd c + map_or 0 (\<lambda>_. 1) x"
  "fst (add_if k b n c) = fst c + (if b then length k + 3 + n else 0)"
  "snd (add_if k b n c) = snd c + (if b then 1 else 0)"
  by (simp_all add: add_seg_def add_some_def add_if_def map_or_def split: option.split)

lemma field_if_simps:
  "length (field_if k b v) = (if b then 1 else 0)"
  "obj_len T (field_if k b v) = (if b then len_string (lit k) + 1 + length (T v) else 0)"
  by (simp_all add: field_if_def)

lemma key_lens:
  "len_string (lit ''type'') = 6" "len_string (lit ''from'') = 6" "len_string (lit ''to'') = 4"
  "len_string (lit ''value'') = 7" "len_string (lit ''gas'') = 5"
  "len_string (lit ''gasUsed'') = 9" "len_string (lit ''input'') = 7"
  "len_string (lit ''output'') = 8" "len_string (lit ''error'') = 7"
  "len_string (lit ''revertReason'') = 14" "len_string (lit ''calls'') = 7"
  "len_string (lit ''logs'') = 6"
  by (simp_all add: key_len_simps)

lemma length_call_frame:
  assumes "serde_json_laws T" "hex_laws H"
  shows "length (T (call_frame_json H f)) = len_call_frame f"
proof (induction f)
  case (MonadCallFrame h cs)
  have calls: "length (T (JArr (map (call_frame_json H) cs))) = len_vec len_call_frame cs"
    using MonadCallFrame by (rule length_vec [OF assms(1)])
  have logs: "length (T (JArr (map (call_frame_log_json H) (mcf_logs h)))) =
      len_vec len_call_frame_log (mcf_logs h)"
    by (rule length_vec [OF assms(1)]) (rule length_call_frame_log [OF assms])
  show ?case
    unfolding call_frame_json.simps len_call_frame.simps length_obj [OF assms(1)] Let_def
      obj_len_simps length_fields field_if_simps length_append add_seg_simps key_lens calls logs
      length_basic [OF assms(1)] length_values(5,6) [OF assms] length_call_kind [OF assms(1)]
    by simp
qed

lemma length_trace_block_result:
  assumes "serde_json_laws T" "hex_laws H"
  shows "length (T (trace_block_result_json H r)) = len_trace_block_result r"
  by (simp add: trace_block_result_json_def len_trace_block_result_def length_obj length_call_frame
      length_basic assms key_len_simps)

sublocale hex_encoding \<subseteq> frame: json_serialized_len "call_frame_json H" len_call_frame
  by unfold_locales (rule length_call_frame [OF _ hex])

sublocale hex_encoding \<subseteq> trace: json_serialized_len "trace_block_result_json H" len_trace_block_result
  by unfold_locales (rule length_trace_block_result [OF _ hex])

interpretation sample_encoding: hex_encoding sample_hex
  by unfold_locales (rule sample_hex_laws)

text \<open>The results a block trace returns fit the limit, without their separators.\<close>

lemma block_frames_loop_fits:
  "block_frames_loop E t max_size sofar items = Inr rs \<Longrightarrow> max_size < 2 ^ 64 - 1 \<Longrightarrow> sofar \<le> max_size \<Longrightarrow>
   sofar + sum_list (map len_trace_block_result rs) \<le> max_size"
proof (induction E t max_size sofar items arbitrary: rs rule: block_frames_loop.induct)
  case (2 E t max_size sofar call_frame tx_id others)
  from 2(2,3) obtain frame rs' where rs: "rs = \<lparr>tbr_tx_hash = tx_id, tbr_result = frame\<rparr> # rs'"
    and dec: "decode_call_frame E call_frame t = Inr (Some frame)"
    and fits: "sofar + len_trace_block_result \<lparr>tbr_tx_hash = tx_id, tbr_result = frame\<rparr> \<le> max_size"
    and rest: "block_frames_loop E t max_size
      (min (sofar + len_trace_block_result \<lparr>tbr_tx_hash = tx_id, tbr_result = frame\<rparr>) (2 ^ 64 - 1)) others = Inr rs'"
    by (auto simp: res_bind_def Let_def not_less min_le_iff_disj split: sum.splits option.splits if_splits)
  have m: "min (sofar + len_trace_block_result \<lparr>tbr_tx_hash = tx_id, tbr_result = frame\<rparr>) (2 ^ 64 - 1) =
      sofar + len_trace_block_result \<lparr>tbr_tx_hash = tx_id, tbr_result = frame\<rparr>"
    using fits 2(3) by simp
  show ?case
    using 2(1) [OF refl refl, of frame rs'] rest [unfolded m] fits 2(3) rs by (simp only: m) simp
qed simp

section \<open>The rebuilt tree is the tree of calls\<close>

text \<open>
  The calls of a transaction as they nest, and the list in which the execution client stores
  them: a call before the calls it makes, each with its depth.
\<close>

datatype call_tree = Call (ct_frame: call_frame) (ct_calls: "call_tree list")

fun preorder :: "call_tree \<Rightarrow> call_frame list" where
  "preorder (Call f ts) = f # concat (map preorder ts)"

fun nested :: "nat \<Rightarrow> call_tree \<Rightarrow> bool" where
  "nested d (Call f ts) \<longleftrightarrow> unat (cf_depth f) = d \<and> (\<forall>t \<in> set ts. nested (d + 1) t)"

fun answer_tree :: "trace_env \<Rightarrow> call_tree \<Rightarrow> monad_call_frame" where
  "answer_tree E (Call f ts) =
     MonadCallFrame (mcf_head (from_call_frame E f)) (map (answer_tree E) ts)"

text \<open>Handing a completed frame to its parent.\<close>

fun attach :: "monad_call_frame \<times> monad_call_frame list \<Rightarrow> monad_call_frame \<Rightarrow>
    monad_call_frame \<times> monad_call_frame list" where
  "attach (root, []) f = (push_call root f, [])"
| "attach (root, g # st) f = (root, push_call g f # st)"

abbreviation complete :: "nat \<Rightarrow> monad_call_frame \<times> monad_call_frame list \<Rightarrow>
    monad_call_frame \<times> monad_call_frame list" where
  "complete d s \<equiv> complete_frames d (fst s) (snd s)"

lemma push_call_sel [simp]:
  "mcf_head (push_call g f) = mcf_head g" "mcf_calls (push_call g f) = mcf_calls g @ [f]"
  by (simp_all add: push_call_def)

lemma from_call_frame_depth [simp]:
  "mcf_depth_of (from_call_frame E f) = unat (cf_depth f)" "mcf_calls (from_call_frame E f) = []"
  by (simp_all add: from_call_frame_def Let_def)

lemma complete_Cons:
  "complete d (root, f # st) = (if mcf_depth_of f \<ge> d then complete d (attach (root, st) f) else (root, f # st))"
  by (cases st) auto

lemma complete_idem [simp]: "complete d (complete d s) = complete d s"
  by (induction d "fst s" "snd s" arbitrary: s rule: complete_frames.induct) auto

lemma complete_complete: "d \<le> e \<Longrightarrow> complete d (complete e s) = complete d s"
  by (induction e "fst s" "snd s" arbitrary: s rule: complete_frames.induct) auto

lemma complete_length: "length (snd (complete_frames d root st)) \<le> length st"
  by (induction d root st rule: complete_frames.induct) auto

text \<open>A state is settled below depth \<open>d\<close> when no frame of its stack is as deep as \<open>d\<close> at the top.\<close>

lemma complete_fixed_iff: "complete d (root, f # st) = (root, f # st) \<longleftrightarrow> mcf_depth_of f < d"
proof (cases "mcf_depth_of f < d")
  case False
  have "complete d (root, f # st) \<noteq> (root, f # st)"
  proof (cases st)
    case (Cons g st')
    with False complete_length [of d root "push_call g f # st'"] show ?thesis by (auto dest: arg_cong [of _ _ snd])
  qed (use False in auto)
  with False show ?thesis by simp
qed (cases st; simp)

lemma complete_attach: "complete d s = s \<Longrightarrow> complete d (attach s f) = attach s f"
proof (induction s f rule: attach.induct)
  case (2 root g st f)
  then have "mcf_depth_of g < d" using complete_fixed_iff by blast
  then show ?case using complete_fixed_iff [of d root "push_call g f" st] by simp
qed simp

lemma complete_fold_attach: "complete d s = s \<Longrightarrow> complete d (foldl attach s fs) = foldl attach s fs"
  by (induction fs arbitrary: s) (auto simp: complete_attach)

lemma foldl_attach_push:
  "foldl attach (root, g # st) fs = (root, MonadCallFrame (mcf_head g) (mcf_calls g @ fs) # st)"
  "foldl attach (root, []) fs = (MonadCallFrame (mcf_head root) (mcf_calls root @ fs), [])"
  by (induction fs arbitrary: g root) (auto simp: push_call_def)

text \<open>Closing the frames that a turn of the outer loop would close first changes nothing.\<close>

lemma add_frame_complete: "add_frame E f (complete (unat (cf_depth f)) s) = add_frame E f s"
  by (simp add: add_frame_def)

lemma fold_preorder_complete:
  assumes "nested d t"
  shows "fold (add_frame E) (preorder t) (complete d s) = fold (add_frame E) (preorder t) s"
  using assms by (cases t) (use add_frame_complete [of E _ s] in auto)

lemma fold_concat_complete:
  assumes "\<And>t. t \<in> set ts \<Longrightarrow> nested d t"
  shows "complete d (fold (add_frame E) (concat (map preorder ts)) (complete d s)) =
    complete d (fold (add_frame E) (concat (map preorder ts)) s)"
  using assms by (cases ts) (simp_all add: fold_preorder_complete)

lemma rebuild_list:
  assumes "\<And>u. u \<in> set us \<Longrightarrow> nested d u"
    and "\<And>u s. u \<in> set us \<Longrightarrow> complete d s = s \<Longrightarrow>
      complete d (fold (add_frame E) (preorder u) s) = attach s (answer_tree E u)"
    and "complete d s = s"
  shows "complete d (fold (add_frame E) (concat (map preorder us)) s) =
    foldl attach s (map (answer_tree E) us)"
  using assms
proof (induction us arbitrary: s)
  case (Cons u us)
  have u: "complete d (fold (add_frame E) (preorder u) s) = attach s (answer_tree E u)"
    using Cons.prems by simp
  have "complete d (fold (add_frame E) (concat (map preorder (u # us))) s) =
      complete d (fold (add_frame E) (concat (map preorder us)) (attach s (answer_tree E u)))"
    using fold_concat_complete [of us d E "fold (add_frame E) (preorder u) s"] Cons.prems(1)
    unfolding u by simp
  also have "\<dots> = foldl attach (attach s (answer_tree E u)) (map (answer_tree E) us)"
    using Cons.prems by (intro Cons.IH) (auto simp: complete_attach)
  finally show ?case by simp
qed simp

text \<open>
  Reading the stored list of a call, from a state settled below its depth, leaves the call
  rebuilt and handed to the frame below it once everything as deep as it is completed.
\<close>

lemma rebuild_call:
  "nested d t \<Longrightarrow> complete d s = s \<Longrightarrow>
   complete d (fold (add_frame E) (preorder t) s) = attach s (answer_tree E t)"
proof (induction t arbitrary: d s)
  case (Call f ts)
  let ?s1 = "(fst s, from_call_frame E f # snd s)"
  have depth: "unat (cf_depth f) = d" using Call.prems(1) by simp
  have "complete (d + 1) ?s1 = ?s1"
    using depth by (subst complete_fixed_iff) simp
  then have sub: "complete (d + 1) (fold (add_frame E) (concat (map preorder ts)) ?s1) =
      (fst s, answer_tree E (Call f ts) # snd s)"
    using Call.prems(1) Call.IH by (subst rebuild_list) (auto simp: foldl_attach_push)
  have "fold (add_frame E) (preorder (Call f ts)) s = fold (add_frame E) (concat (map preorder ts)) ?s1"
    using Call.prems(2) depth by (simp add: add_frame_def case_prod_unfold)
  then have "complete d (fold (add_frame E) (preorder (Call f ts)) s) =
      complete d (fst s, answer_tree E (Call f ts) # snd s)"
    using complete_complete [of d "d + 1"] sub by (metis le_add1)
  also have "\<dots> = attach s (answer_tree E (Call f ts))"
    using complete_Cons [of d "fst s" "answer_tree E (Call f ts)" "snd s"] depth
      complete_attach [OF Call.prems(2)] by simp
  finally show ?case .
qed

lemma rebuild_calls:
  assumes "\<And>t. t \<in> set ts \<Longrightarrow> nested 1 t"
  shows "complete 0 (fold (add_frame E) (concat (map preorder ts)) (root, [])) =
    (MonadCallFrame (mcf_head root) (mcf_calls root @ map (answer_tree E) ts), [])"
proof -
  have "complete 1 (fold (add_frame E) (concat (map preorder ts)) (root, [])) =
      foldl attach (root, []) (map (answer_tree E) ts)"
    using assms rebuild_call by (intro rebuild_list) auto
  then show ?thesis
    using complete_complete [of 0 1 "fold (add_frame E) (concat (map preorder ts)) (root, [])"]
    by (simp add: foldl_attach_push)
qed

section \<open>Logs are numbered in the order they were emitted\<close>

definition unnumbered :: "monad_call_frame_log \<Rightarrow> monad_call_frame_log" where
  "unnumbered l = l\<lparr>mfl_index := 0\<rparr>"

fun erase_indices :: "monad_call_frame \<Rightarrow> monad_call_frame" where
  "erase_indices (MonadCallFrame h cs) =
     MonadCallFrame (h\<lparr>mcf_logs := map unnumbered (mcf_logs h)\<rparr>) (map erase_indices cs)"

lemma set_indices_rec:
  "set_indices n [] = []"
  "set_indices n (l # ls) = l\<lparr>mfl_index := of_nat n\<rparr> # set_indices (Suc n) ls"
  by (simp_all add: set_indices_def upt_conv_Cons del: upt_Suc)

lemma set_indices_simps [simp]:
  "map unnumbered (set_indices n ls) = map unnumbered ls"
  "map mfl_index (set_indices n ls) = map of_nat [n..<n + length ls]"
  by (induction ls arbitrary: n)
    (simp_all add: set_indices_rec unnumbered_def upt_conv_Cons del: upt_Suc)

lemma same_positions:
  assumes "map unnumbered ls = map unnumbered ms"
  shows "map mfl_position ls = map mfl_position ms"
proof -
  have "mfl_position \<circ> unnumbered = mfl_position" by (auto simp: unnumbered_def)
  then show ?thesis using arg_cong [OF assms, of "map mfl_position"] by simp
qed

text \<open>A split by position is the same before and after the indices are written.\<close>

lemma split_positions:
  assumes "map mfl_position before = map mfl_position (takeWhile (P \<circ> mfl_position) ls)"
    and "map mfl_position after = map mfl_position (dropWhile (P \<circ> mfl_position) ls)"
  shows "takeWhile (P \<circ> mfl_position) (before @ after) = before"
    and "dropWhile (P \<circ> mfl_position) (before @ after) = after"
proof -
  have "\<forall>x \<in> set (map mfl_position before). P x"
    unfolding assms(1) by (auto dest: set_takeWhileD)
  then have before: "\<forall>x \<in> set before. (P \<circ> mfl_position) x" by simp
  have after: "after = [] \<or> \<not> (P \<circ> mfl_position) (hd after)"
  proof (cases after)
    case (Cons x xs)
    with assms(2) have "dropWhile (P \<circ> mfl_position) ls \<noteq> []"
      "mfl_position x = mfl_position (hd (dropWhile (P \<circ> mfl_position) ls))"
      by (cases "dropWhile (P \<circ> mfl_position) ls"; simp)+
    with hd_dropWhile [of "P \<circ> mfl_position" ls] Cons show ?thesis by simp
  qed simp
  show "takeWhile (P \<circ> mfl_position) (before @ after) = before"
    using before after by (cases after) simp_all
  show "dropWhile (P \<circ> mfl_position) (before @ after) = after"
    using before after by (cases after) simp_all
qed

definition numbered :: "nat \<Rightarrow> nat \<Rightarrow> monad_call_frame \<Rightarrow> monad_call_frame \<Rightarrow> bool" where
  "numbered n n' f f' \<longleftrightarrow>
     n' = n + length (extend_logs_by_emit_order f) \<and> erase_indices f' = erase_indices f \<and>
     map mfl_index (extend_logs_by_emit_order f') = map of_nat [n..<n']"

lemma upt_split: "i \<le> j \<Longrightarrow> j \<le> k \<Longrightarrow> [i..<k] = [i..<j] @ [j..<k]"
  by (metis le_add_diff_inverse upt_add_eq_append)

lemma number_calls_correct:
  assumes "\<And>c n c' n'. c \<in> set cs \<Longrightarrow> number_logs n c = (c', n') \<Longrightarrow> numbered n n' c c'"
    and "number_calls n logs pos cs = (logs', cs', n')"
  shows "n' = n + length (emit_calls logs pos cs) \<and> map unnumbered logs' = map unnumbered logs \<and>
     map erase_indices cs' = map erase_indices cs \<and>
     map mfl_index (emit_calls logs' pos cs') = map of_nat [n..<n']"
  using assms
proof (induction cs arbitrary: n logs pos logs' cs' n')
  case (Cons c cs)
  let ?P = "(\<lambda>p. unat p \<le> pos) \<circ> mfl_position"
  have P: "(\<lambda>l. unat (mfl_position l) \<le> pos) = ?P" by auto
  let ?before = "takeWhile ?P logs" and ?rest = "dropWhile ?P logs"
  obtain c' n1 where c: "number_logs (n + length ?before) c = (c', n1)" by fastforce
  obtain after ds n2 where cs: "number_calls n1 ?rest (Suc pos) cs = (after, ds, n2)"
    by (metis prod_cases3)
  have res: "logs' = set_indices n ?before @ after" "cs' = c' # ds" "n' = n2"
    using Cons.prems(2) unfolding number_calls.simps P Let_def by (simp_all add: c cs)
  have IH1: "numbered (n + length ?before) n1 c c'"
    by (rule Cons.prems(1) [OF _ c]) simp
  have IH2: "n2 = n1 + length (emit_calls ?rest (Suc pos) cs) \<and> map unnumbered after = map unnumbered ?rest \<and>
      map erase_indices ds = map erase_indices cs \<and>
      map mfl_index (emit_calls after (Suc pos) ds) = map of_nat [n1..<n2]"
    using Cons.prems(1) by (intro Cons.IH [OF _ cs]) simp
  have split: "takeWhile ?P logs' = set_indices n ?before" "dropWhile ?P logs' = after"
    unfolding res using IH2
    by (auto intro!: split_positions [where ls = logs] same_positions simp del: comp_apply)
  have 1: "n' = n + length (emit_calls logs pos (c # cs))"
    using IH1 IH2 unfolding res numbered_def emit_calls.simps P by simp
  have 2: "map unnumbered logs' = map unnumbered logs"
    using IH2 unfolding res map_append set_indices_simps by (metis map_append takeWhile_dropWhile_id)
  have 3: "map erase_indices cs' = map erase_indices (c # cs)"
    using IH1 IH2 unfolding res numbered_def by simp
  have "map mfl_index (emit_calls logs' pos cs') =
      map of_nat ([n..<n + length ?before] @ [n + length ?before..<n1] @ [n1..<n2])"
    using IH1 IH2 unfolding res(2) emit_calls.simps P split numbered_def by simp
  also have "[n..<n + length ?before] @ [n + length ?before..<n1] @ [n1..<n2] = [n..<n']"
    using IH1 IH2 by (simp add: res numbered_def upt_split [symmetric])
  finally show ?case using 1 2 3 by blast
qed simp

lemma number_logs_correct: "number_logs n f = (f', n') \<Longrightarrow> numbered n n' f f'"
proof (induction f arbitrary: n f' n')
  case (MonadCallFrame h cs)
  obtain logs cs' m where cs: "number_calls n (mcf_logs h) 0 cs = (logs, cs', m)"
    by (metis prod_cases3)
  with MonadCallFrame.prems have res: "f' = MonadCallFrame (h\<lparr>mcf_logs := logs\<rparr>) cs'" "n' = m"
    by simp_all
  from number_calls_correct [OF MonadCallFrame.IH cs] show ?case
    by (simp add: res numbered_def)
qed


definition sample_frame :: "u64 \<Rightarrow> u64 list \<Rightarrow> call_frame" where
  "sample_frame depth positions =
     \<lparr>cf_typ = KCall, cf_flags = 0, cf_from = 1, cf_to = Some 2, cf_value = 0, cf_gas = 9, cf_gas_used = 5,
      cf_input = [], cf_output = [], cf_status = 0, cf_depth = depth,
      cf_logs = Some (map (\<lambda>p. \<lparr>cfl_address = 2, cfl_topics = [], cfl_data = [], cfl_position = p\<rparr>) positions)\<rparr>"

definition sample_calls :: call_tree where
  "sample_calls =
     Call (sample_frame 0 [0, 1, 2])
       [Call (sample_frame 1 [0]) [Call (sample_frame 2 []) []], Call (sample_frame 1 [0, 0]) []]"

definition sample_env :: trace_env where
  "sample_env =
     \<lparr>te_u8 = \<lambda>_. Inl [], te_u64 = \<lambda>_. Inl [], te_u256 = \<lambda>_. Inl [], te_address = \<lambda>_. Inl [],
      te_bytes = \<lambda>_. Inl [], te_logs = \<lambda>_. Inl [], te_frames = \<lambda>_ _. Inl [],
      te_get_account = \<lambda>_. Inl [], te_get_code = \<lambda>_. Inl [], te_decode_revert_message = \<lambda>_. None\<rparr>"


text \<open>
  C37: The length predicted for a block trace, or for a call frame with all its nested calls, is
  the length of the JSON text the serializer writes for it; so the traces a block trace request
  returns have texts that together fit the limit it was given.
\<close>

theorem trace_len_exact:
  assumes "serde_json_laws T" "hex_laws H" "max_size < 2 ^ 64 - 1"
  shows "len_trace_block_result r = length (T (trace_block_result_json H r)) \<and>
    len_call_frame f = length (T (call_frame_json H f)) \<and>
    (\<forall>rs. decode_block_call_frames E tx_hashes call_frames t max_size = Inr rs \<longrightarrow>
       sum_list (map (\<lambda>r. length (T (trace_block_result_json H r))) rs) \<le> max_size)"
proof -
  have "map (\<lambda>r. length (T (trace_block_result_json H r))) rs = map len_trace_block_result rs" for rs
    by (simp add: length_trace_block_result [OF assms(1,2)])
  then show ?thesis
    using length_trace_block_result [OF assms(1,2)] length_call_frame [OF assms(1,2)]
      block_frames_loop_fits [of E t max_size 0 "zip call_frames tx_hashes", OF _ assms(3)]
    by (auto simp: decode_block_call_frames_def split: if_splits)
qed

theorem trace_len_exact_witness:
  "len_call_frame (answer_tree sample_env sample_calls) =
     length (to_string_json (call_frame_json sample_hex (answer_tree sample_env sample_calls)))"
  using trace_len_exact [OF sample_serde_json_laws sample_hex_laws, of 1000] by simp

end
