(* ===== verification/Tx_Pool.thy ===== *)
theory Tx_Pool
  imports Archive_Prelude
begin

text \<open>
  The RPC server's record of transaction statuses (\<open>txpool/state.rs\<close>): the maps shared with the
  request handlers, the eviction queue, and every operation that changes them.  A \<open>DashMap\<close> is a
  map; where the code iterates over one, or over the hash set of a snapshot, the order of the
  iteration is an argument.  Of a watch channel only the value and the changed mark of the
  receiver handed out are kept.  Instants are numbers of nanoseconds.
\<close>

section \<open>State\<close>

datatype ('d, 'e) tx_status = Unknown | Tracked | Dropped 'd | Evicted 'e | Committed

record ('d, 'e) bridge_state =
  bs_status :: "b256 \<rightharpoonup> ('d, 'e) tx_status"
  bs_hash_address :: "b256 \<rightharpoonup> address"
  bs_address_hashes :: "address \<rightharpoonup> b256 set"

type_synonym eviction_queue = "(nat \<times> b256) list"

definition TX_EVICT_DURATION :: nat where
  "TX_EVICT_DURATION = 15 * 60 * 1000000000"

definition get_status_by_hash :: "('d, 'e) bridge_state \<Rightarrow> b256 \<Rightarrow> ('d, 'e) tx_status option" where
  "get_status_by_hash s h = bs_status s h"

definition get_status_by_address ::
  "('d, 'e) bridge_state \<Rightarrow> address \<Rightarrow> (b256 \<rightharpoonup> ('d, 'e) tx_status) option" where
  "get_status_by_address s a =
     map_option (\<lambda>hashes. \<lambda>h. if h \<in> hashes then bs_status s h else None) (bs_address_hashes s a)"

section \<open>Operations\<close>

text \<open>
  \<open>add_tx\<close> returns whether the transaction has to be sent to the pool, and the receiver handed to
  the caller: the status it sees and whether it is marked changed.
\<close>

definition add_tx ::
  "nat \<Rightarrow> b256 \<Rightarrow> ('d, 'e) bridge_state \<times> eviction_queue \<Rightarrow>
   (bool \<times> ('d, 'e) tx_status \<times> bool) \<times> ('d, 'e) bridge_state \<times> eviction_queue" where
  "add_tx now h sq =
     (let (s, q) = sq in
      case bs_status s h of
        Some st \<Rightarrow>
          let known = (case st of Unknown \<Rightarrow> False | _ \<Rightarrow> True)
          in ((\<not> known, st, known), s, q)
      | None \<Rightarrow>
          ((True, Unknown, False), s\<lparr>bs_status := (bs_status s)(h \<mapsto> Unknown)\<rparr>, q @ [(now, h)]))"

definition remove_from :: "b256 \<Rightarrow> address \<Rightarrow> (address \<rightharpoonup> b256 set) \<Rightarrow> (address \<rightharpoonup> b256 set)" where
  "remove_from h a m = (case m a of None \<Rightarrow> m | Some hs \<Rightarrow> m(a \<mapsto> hs - {h}))"

definition forget_address :: "b256 \<Rightarrow> ('d, 'e) bridge_state \<Rightarrow> ('d, 'e) bridge_state" where
  "forget_address h s =
     (case bs_hash_address s h of
        None \<Rightarrow> s
      | Some a \<Rightarrow>
          s\<lparr>bs_hash_address := (bs_hash_address s)(h := None),
            bs_address_hashes := remove_from h a (bs_address_hashes s)\<rparr>)"

text \<open>The closure of \<open>retain\<close> on one entry of the status map.\<close>

definition retain_entry ::
  "nat \<Rightarrow> b256 \<Rightarrow> ('d, 'e) bridge_state \<times> eviction_queue \<times> b256 list \<Rightarrow>
   ('d, 'e) bridge_state \<times> eviction_queue \<times> b256 list" where
  "retain_entry now h x =
     (let (s, q, txs) = x in
      if h \<in> set txs then
        (s\<lparr>bs_status := (bs_status s)(h \<mapsto> Tracked)\<rparr>, q @ [(now, h)], filter (\<lambda>k. k \<noteq> h) txs)
      else
        let s' = forget_address h s
        in (s'\<lparr>bs_status := (bs_status s')(h := None)\<rparr>, q, txs))"

definition insert_snapshot ::
  "nat \<Rightarrow> b256 \<Rightarrow> ('d, 'e) bridge_state \<times> eviction_queue \<Rightarrow> ('d, 'e) bridge_state \<times> eviction_queue" where
  "insert_snapshot now h sq =
     (let (s, q) = sq
      in (s\<lparr>bs_status := (bs_status s)(h \<mapsto> Tracked)\<rparr>, q @ [(now, h)]))"

definition apply_snapshot ::
  "nat \<Rightarrow> b256 list \<Rightarrow> b256 list \<Rightarrow> ('d, 'e) bridge_state \<times> eviction_queue \<Rightarrow>
   ('d, 'e) bridge_state \<times> eviction_queue" where
  "apply_snapshot now keys txs sq =
     (let (s, q, rest) = fold (retain_entry now) keys (fst sq, [], txs)
      in fold (insert_snapshot now) rest (s, q))"

definition bridge_new :: "nat \<Rightarrow> b256 list \<Rightarrow> ('d, 'e) bridge_state \<times> eviction_queue" where
  "bridge_new now txs =
     apply_snapshot now [] txs
       (\<lparr>bs_status = Map.empty, bs_hash_address = Map.empty, bs_address_hashes = Map.empty\<rparr>, [])"

datatype ('d, 'e) pool_event_type = Insert address | Commit | Drop 'd | Evict 'e

definition insert_status ::
  "nat \<Rightarrow> b256 \<Rightarrow> ('d, 'e) tx_status \<Rightarrow> ('d, 'e) bridge_state \<times> eviction_queue \<Rightarrow>
   ('d, 'e) bridge_state \<times> eviction_queue" where
  "insert_status now h st sq =
     (let (s, q) = sq
      in (s\<lparr>bs_status := (bs_status s)(h \<mapsto> st)\<rparr>,
          case bs_status s h of Some _ \<Rightarrow> q | None \<Rightarrow> q @ [(now, h)]))"

definition track_address :: "b256 \<Rightarrow> address \<Rightarrow> ('d, 'e) bridge_state \<Rightarrow> ('d, 'e) bridge_state" where
  "track_address h a s =
     s\<lparr>bs_hash_address := (bs_hash_address s)(h \<mapsto> a),
       bs_address_hashes := (bs_address_hashes s)
         (a \<mapsto> insert h (case bs_address_hashes s a of None \<Rightarrow> {} | Some hs \<Rightarrow> hs))\<rparr>"

definition handle_event ::
  "nat \<Rightarrow> b256 \<times> ('d, 'e) pool_event_type \<Rightarrow> ('d, 'e) bridge_state \<times> eviction_queue \<Rightarrow>
   ('d, 'e) bridge_state \<times> eviction_queue" where
  "handle_event now e sq =
     (case snd e of
        Insert a \<Rightarrow>
          let (s, q) = insert_status now (fst e) Tracked sq in (track_address (fst e) a s, q)
      | Commit \<Rightarrow> insert_status now (fst e) Committed sq
      | Drop r \<Rightarrow> insert_status now (fst e) (Dropped r) sq
      | Evict r \<Rightarrow> insert_status now (fst e) (Evicted r) sq)"

definition handle_events ::
  "nat \<Rightarrow> (b256 \<times> ('d, 'e) pool_event_type) list \<Rightarrow> ('d, 'e) bridge_state \<times> eviction_queue \<Rightarrow>
   ('d, 'e) bridge_state \<times> eviction_queue" where
  "handle_events now events = fold (handle_event now) events"

fun evict_loop ::
  "nat \<Rightarrow> ('d, 'e) bridge_state \<Rightarrow> eviction_queue \<Rightarrow> ('d, 'e) bridge_state \<times> eviction_queue" where
  "evict_loop now s [] = (s, [])"
| "evict_loop now s ((t, h) # q) =
     (if now - t \<ge> TX_EVICT_DURATION then
        (case bs_status s h of
           None \<Rightarrow> evict_loop now s q
         | Some _ \<Rightarrow>
             evict_loop now (forget_address h (s\<lparr>bs_status := (bs_status s)(h := None)\<rparr>)) q)
      else (s, (t, h) # q))"

definition cleanup ::
  "nat \<Rightarrow> ('d, 'e) bridge_state \<times> eviction_queue \<Rightarrow> ('d, 'e) bridge_state \<times> eviction_queue" where
  "cleanup now sq =
     (let (s, q) = evict_loop now (fst sq) (snd sq)
      in (s\<lparr>bs_address_hashes :=
            (\<lambda>a. case bs_address_hashes s a of
                   None \<Rightarrow> None
                 | Some hs \<Rightarrow> if hs = {} then None else Some hs)\<rparr>, q))"

section \<open>Runs\<close>

text \<open>
  Every interleaving of the operations along a clock that does not run backwards.  An iteration
  over the status map visits each of its keys once, a snapshot has no duplicates, and the
  sender of a transaction is determined by its hash.
\<close>

inductive reachable ::
  "(b256 \<Rightarrow> address) \<Rightarrow> ('d, 'e) bridge_state \<times> eviction_queue \<Rightarrow> nat \<Rightarrow> bool" for sender where
  new: "distinct txs \<Longrightarrow> reachable sender (bridge_new now txs) now"
| add: "reachable sender sq t \<Longrightarrow> t \<le> now \<Longrightarrow> reachable sender (snd (add_tx now h sq)) now"
| snapshot: "reachable sender sq t \<Longrightarrow> t \<le> now \<Longrightarrow> distinct keys \<Longrightarrow> set keys = dom (bs_status (fst sq)) \<Longrightarrow>
    distinct txs \<Longrightarrow> reachable sender (apply_snapshot now keys txs sq) now"
| events: "reachable sender sq t \<Longrightarrow> t \<le> now \<Longrightarrow>
    list_all (\<lambda>(h, e). \<forall>a. e = Insert a \<longrightarrow> a = sender h) es \<Longrightarrow>
    reachable sender (handle_events now es sq) now"
| clean: "reachable sender sq t \<Longrightarrow> t \<le> now \<Longrightarrow> reachable sender (cleanup now sq) now"

section \<open>The invariant\<close>

definition hashes_of :: "('d, 'e) bridge_state \<Rightarrow> address \<Rightarrow> b256 set" where
  "hashes_of s a = (case bs_address_hashes s a of None \<Rightarrow> {} | Some hs \<Rightarrow> hs)"

text \<open>The two address maps are the two directions of one relation, within the known hashes.\<close>

definition addresses_ok :: "(b256 \<Rightarrow> address) \<Rightarrow> b256 set \<Rightarrow> ('d, 'e) bridge_state \<Rightarrow> bool" where
  "addresses_ok sender D s \<longleftrightarrow>
     dom (bs_hash_address s) \<subseteq> D \<and>
     (\<forall>a h. h \<in> hashes_of s a \<longleftrightarrow> bs_hash_address s h = Some a) \<and>
     (\<forall>a h. bs_hash_address s h = Some a \<longrightarrow> a = sender h)"

text \<open>The eviction queue holds each known hash once, oldest first.\<close>

definition queue_ok :: "nat \<Rightarrow> b256 set \<Rightarrow> eviction_queue \<Rightarrow> bool" where
  "queue_ok now D q \<longleftrightarrow>
     distinct (map snd q) \<and> set (map snd q) = D \<and> sorted (map fst q) \<and> (\<forall>x \<in> set q. fst x \<le> now)"

definition pool_ok :: "(b256 \<Rightarrow> address) \<Rightarrow> nat \<Rightarrow> ('d, 'e) bridge_state \<times> eviction_queue \<Rightarrow> bool" where
  "pool_ok sender now sq \<longleftrightarrow>
     addresses_ok sender (dom (bs_status (fst sq))) (fst sq) \<and>
     queue_ok now (dom (bs_status (fst sq))) (snd sq)"

lemma queue_ok_push: "queue_ok now D q \<Longrightarrow> h \<notin> D \<Longrightarrow> queue_ok now (insert h D) (q @ [(now, h)])"
  by (auto simp: queue_ok_def sorted_append)

lemma queue_ok_mono: "queue_ok t D q \<Longrightarrow> t \<le> now \<Longrightarrow> queue_ok now D q"
  by (auto simp: queue_ok_def intro: order_trans)

lemma addresses_ok_status [simp]:
  "addresses_ok sender D (s\<lparr>bs_status := m\<rparr>) = addresses_ok sender D s"
  by (simp add: addresses_ok_def hashes_of_def)

lemma addresses_ok_mono: "addresses_ok sender D s \<Longrightarrow> D \<subseteq> D' \<Longrightarrow> addresses_ok sender D' s"
  by (auto simp: addresses_ok_def)

lemma forget_address_status [simp]: "bs_status (forget_address h s) = bs_status s"
  by (simp add: forget_address_def split: option.split)

lemma hashes_of_forget:
  "hashes_of (forget_address h s) a =
     (if bs_hash_address s h = Some a then hashes_of s a - {h} else hashes_of s a)"
  by (auto simp: forget_address_def hashes_of_def remove_from_def split: option.splits)

lemma hash_address_forget: "bs_hash_address (forget_address h s) = (bs_hash_address s)(h := None)"
  by (auto simp: forget_address_def split: option.split)

lemma addresses_ok_forget:
  assumes "addresses_ok sender D s"
  shows "addresses_ok sender (D - {h}) (forget_address h s)"
  using assms unfolding addresses_ok_def hash_address_forget hashes_of_forget
  by (auto split: if_splits)

lemma addresses_ok_track:
  assumes "addresses_ok sender D s" "a = sender h" "h \<in> D"
  shows "addresses_ok sender D (track_address h a s)"
proof -
  have "hashes_of (track_address h a s) b = (if b = a then insert h (hashes_of s a) else hashes_of s b)" for b
    by (auto simp: hashes_of_def track_address_def)
  moreover have "bs_hash_address (track_address h a s) = (bs_hash_address s)(h \<mapsto> a)"
    by (simp add: track_address_def)
  ultimately show ?thesis using assms unfolding addresses_ok_def by (auto split: if_splits)
qed

lemma pool_ok_insert_status:
  assumes "pool_ok sender now sq"
  shows "pool_ok sender now (insert_status now h st sq)" "h \<in> dom (bs_status (fst (insert_status now h st sq)))"
proof -
  obtain s q where sq: "sq = (s, q)" by (cases sq)
  show "h \<in> dom (bs_status (fst (insert_status now h st sq)))" by (simp add: insert_status_def sq)
  have A: "addresses_ok sender (insert h (dom (bs_status s))) s"
  proof (rule addresses_ok_mono)
    show "addresses_ok sender (dom (bs_status s)) s" using assms by (simp add: pool_ok_def sq)
  qed auto
  have Q: "queue_ok now (dom (bs_status s)) q" using assms by (simp add: pool_ok_def sq)
  show "pool_ok sender now (insert_status now h st sq)"
  proof (cases "bs_status s h")
    case None
    with queue_ok_push [OF Q, of h] A show ?thesis
      by (simp add: pool_ok_def insert_status_def sq domIff)
  next
    case (Some x)
    then have "insert h (dom (bs_status s)) = dom (bs_status s)" by auto
    with Some A Q show ?thesis by (simp add: pool_ok_def insert_status_def sq)
  qed
qed

lemma pool_ok_add_tx: "pool_ok sender now sq \<Longrightarrow> pool_ok sender now (snd (add_tx now h sq))"
proof (cases "bs_status (fst sq) h")
  case None
  then have "snd (add_tx now h sq) = insert_status now h Unknown sq"
    by (simp add: add_tx_def insert_status_def case_prod_unfold)
  then show "pool_ok sender now sq \<Longrightarrow> ?thesis" by (simp add: pool_ok_insert_status)
qed (simp add: add_tx_def case_prod_unfold Let_def)

lemma pool_ok_handle_event:
  assumes "pool_ok sender now sq" "\<And>a. snd e = Insert a \<Longrightarrow> a = sender (fst e)"
  shows "pool_ok sender now (handle_event now e sq)"
proof (cases "snd e")
  case (Insert a)
  obtain s q where sq': "insert_status now (fst e) Tracked sq = (s, q)" by fastforce
  with pool_ok_insert_status [OF assms(1), of "fst e" Tracked]
  have "pool_ok sender now (s, q)" "fst e \<in> dom (bs_status s)" by simp_all
  moreover have "bs_status (track_address (fst e) a s) = bs_status s" by (simp add: track_address_def)
  ultimately show ?thesis
    using addresses_ok_track [of sender "dom (bs_status s)" s a "fst e"] assms(2) [OF Insert]
    by (simp add: handle_event_def Insert sq' pool_ok_def)
qed (simp_all add: handle_event_def pool_ok_insert_status assms(1))

lemma pool_ok_handle_events:
  "pool_ok sender now sq \<Longrightarrow> list_all (\<lambda>(h, e). \<forall>a. e = Insert a \<longrightarrow> a = sender h) es \<Longrightarrow>
   pool_ok sender now (handle_events now es sq)"
proof (induction es arbitrary: sq)
  case (Cons e es)
  then have "pool_ok sender now (handle_event now e sq)"
    by (intro pool_ok_handle_event) auto
  with Cons show ?case by (simp add: handle_events_def)
qed (simp add: handle_events_def)

text \<open>
  The eviction loop removes the front of the queue and forgets the hashes it held; the queue
  being sorted, nothing that has expired is left behind.
\<close>

lemma evict_loop_ok:
  "evict_loop now s q = (s', q') \<Longrightarrow> pool_ok sender now (s, q) \<Longrightarrow>
   pool_ok sender now (s', q') \<and> (\<forall>x \<in> set q'. now - fst x < TX_EVICT_DURATION)"
proof (induction now s q rule: evict_loop.induct)
  case (2 now s t h q)
  show ?case
  proof (cases "now - t \<ge> TX_EVICT_DURATION")
    case False
    have "sorted (map fst ((t, h) # q))" using 2(4) by (simp add: pool_ok_def queue_ok_def)
    then have "t \<le> fst x" if "x \<in> set q" for x using that by auto
    then have "now - fst x < TX_EVICT_DURATION" if "x \<in> set ((t, h) # q)" for x
      using False that diff_le_mono2 [of t "fst x" now] by (cases "x = (t, h)") auto
    with 2(3,4) False show ?thesis by simp
  next
    case True
    let ?s = "forget_address h (s\<lparr>bs_status := (bs_status s)(h := None)\<rparr>)"
    have "h \<in> set (map snd ((t, h) # q))" by simp
    also have "\<dots> = dom (bs_status s)" using 2(4) by (simp only: pool_ok_def queue_ok_def fst_conv snd_conv)
    finally obtain st where st: "bs_status s h = Some st" by auto
    have "addresses_ok sender (dom (bs_status s) - {h}) ?s"
      using 2(4) addresses_ok_forget [of sender "dom (bs_status s)" "s\<lparr>bs_status := (bs_status s)(h := None)\<rparr>" h]
      by (simp add: pool_ok_def)
    moreover have "queue_ok now (dom (bs_status s) - {h}) q"
      using 2(4) by (auto simp: pool_ok_def queue_ok_def)
    ultimately have "pool_ok sender now (?s, q)" by (simp add: pool_ok_def)
    moreover have "evict_loop now ?s q = (s', q')" using 2(3) True st by simp
    ultimately show ?thesis using 2(2) [OF True st] by blast
  qed
qed simp

lemma pool_ok_cleanup:
  assumes "pool_ok sender now sq"
  shows "pool_ok sender now (cleanup now sq)"
    and "\<forall>x \<in> set (snd (cleanup now sq)). now - fst x < TX_EVICT_DURATION"
    and "bs_address_hashes (fst (cleanup now sq)) a \<noteq> Some {}"
proof -
  obtain s q where ev: "evict_loop now (fst sq) (snd sq) = (s, q)" by fastforce
  from evict_loop_ok [OF this] assms have ok: "pool_ok sender now (s, q)"
    and fresh: "\<forall>x \<in> set q. now - fst x < TX_EVICT_DURATION" by auto
  have "hashes_of (fst (cleanup now sq)) = hashes_of s"
    by (auto simp: cleanup_def ev hashes_of_def fun_eq_iff split: option.split)
  then show "pool_ok sender now (cleanup now sq)"
    using ok by (simp add: cleanup_def ev pool_ok_def addresses_ok_def)
  show "\<forall>x \<in> set (snd (cleanup now sq)). now - fst x < TX_EVICT_DURATION"
    using fresh by (simp add: cleanup_def ev)
  show "bs_address_hashes (fst (cleanup now sq)) a \<noteq> Some {}"
    by (simp add: cleanup_def ev split: option.split)
qed

text \<open>
  A snapshot rebuilds the queue.  While the status map is visited, the hashes not visited yet are
  in the map but not in the queue, and the rest of the snapshot is disjoint from what was visited.
\<close>

definition retain_ok ::
  "(b256 \<Rightarrow> address) \<Rightarrow> nat \<Rightarrow> b256 set \<Rightarrow> ('d, 'e) bridge_state \<times> eviction_queue \<times> b256 list \<Rightarrow> bool" where
  "retain_ok sender now K x \<longleftrightarrow>
     (let (s, q, txs) = x
      in addresses_ok sender (dom (bs_status s)) s \<and> K \<subseteq> dom (bs_status s) \<and>
         queue_ok now (dom (bs_status s) - K) q \<and> distinct txs \<and>
         set txs \<inter> (dom (bs_status s) - K) = {})"

lemma retain_entry_ok:
  assumes "retain_ok sender now (insert h K) x" "h \<notin> K"
  shows "retain_ok sender now K (retain_entry now h x)"
proof -
  obtain s q txs where x: "x = (s, q, txs)" by (metis prod_cases3)
  note ok = assms(1) [unfolded x retain_ok_def, simplified]
  show ?thesis
  proof (cases "h \<in> set txs")
    case True
    have "dom (bs_status s) - K = insert h (dom (bs_status s) - insert h K)"
      using ok assms(2) by auto
    with queue_ok_push [of now "dom (bs_status s) - insert h K" q h] ok True
    show ?thesis by (auto simp: retain_entry_def x retain_ok_def insert_absorb)
  next
    case False
    have "dom (bs_status s) - {h} - K = dom (bs_status s) - insert h K" by auto
    with ok False assms(2) addresses_ok_forget [of sender "dom (bs_status s)" s h]
    show ?thesis by (auto simp: retain_entry_def x retain_ok_def Let_def)
  qed
qed

lemma retain_all_ok:
  "retain_ok sender now (set keys) x \<Longrightarrow> distinct keys \<Longrightarrow>
   retain_ok sender now {} (fold (retain_entry now) keys x)"
proof (induction keys arbitrary: x)
  case (Cons h keys)
  then have "retain_ok sender now (set keys) (retain_entry now h x)"
    by (intro retain_entry_ok) simp_all
  with Cons show ?case by simp
qed simp

lemma insert_snapshots_ok:
  "pool_ok sender now (s, q) \<Longrightarrow> distinct txs \<Longrightarrow> set txs \<inter> dom (bs_status s) = {} \<Longrightarrow>
   pool_ok sender now (fold (insert_snapshot now) txs (s, q))"
proof (induction txs arbitrary: s q)
  case (Cons h txs)
  have "insert_snapshot now h (s, q) = insert_status now h Tracked (s, q)"
    using Cons.prems(3) by (auto simp: insert_snapshot_def insert_status_def split: option.split)
  then have ok: "pool_ok sender now (insert_snapshot now h (s, q))"
    using pool_ok_insert_status(1) [OF Cons.prems(1)] by simp
  show ?case
  proof -
    let ?s = "s\<lparr>bs_status := (bs_status s)(h \<mapsto> Tracked)\<rparr>"
    have step: "insert_snapshot now h (s, q) = (?s, q @ [(now, h)])" by (simp add: insert_snapshot_def)
    have "set txs \<inter> dom (bs_status ?s) = {}" using Cons.prems(2,3) by auto
    moreover have "pool_ok sender now (?s, q @ [(now, h)])" using ok by (simp only: step)
    ultimately have "pool_ok sender now (fold (insert_snapshot now) txs (?s, q @ [(now, h)]))"
      using Cons.prems(2) Cons.IH [of ?s "q @ [(now, h)]"] by (simp only: distinct.simps)
    then show ?thesis by (simp only: fold_simps step)
  qed
qed simp

lemma pool_ok_apply_snapshot:
  assumes "addresses_ok sender (dom (bs_status (fst sq))) (fst sq)" "distinct keys"
    "set keys = dom (bs_status (fst sq))" "distinct txs"
  shows "pool_ok sender now (apply_snapshot now keys txs sq)"
proof -
  obtain s q rest where f: "fold (retain_entry now) keys (fst sq, [], txs) = (s, q, rest)"
    by (metis prod_cases3)
  have "retain_ok sender now (set keys) (fst sq, [], txs)"
    using assms by (simp add: retain_ok_def queue_ok_def)
  from retain_all_ok [OF this assms(2)] have "retain_ok sender now {} (s, q, rest)" by (simp add: f)
  then have "pool_ok sender now (s, q)" "distinct rest" "set rest \<inter> dom (bs_status s) = {}"
    by (simp_all add: retain_ok_def pool_ok_def)
  then show ?thesis by (simp add: apply_snapshot_def f insert_snapshots_ok)
qed

lemma pool_ok_mono: "pool_ok sender t sq \<Longrightarrow> t \<le> now \<Longrightarrow> pool_ok sender now sq"
  by (auto simp: pool_ok_def intro: queue_ok_mono)

lemma reachable_ok: "reachable sender sq now \<Longrightarrow> pool_ok sender now sq"
proof (induction rule: reachable.induct)
  case (new txs now)
  then show ?case
    unfolding bridge_new_def
    by (intro pool_ok_apply_snapshot) (simp_all add: addresses_ok_def hashes_of_def)
next
  case (snapshot sq t now keys txs)
  then show ?case by (intro pool_ok_apply_snapshot) (simp_all add: pool_ok_def)
qed (auto intro: pool_ok_add_tx pool_ok_handle_events pool_ok_cleanup pool_ok_mono)

text \<open>An address has a list as soon as one hash is recorded for it, with the hash's status in it.\<close>

lemma recorded_is_listed:
  assumes "pool_ok sender now sq" "bs_hash_address (fst sq) h = Some a"
  shows "a = sender h \<and> (\<exists>statuses. get_status_by_address (fst sq) a = Some statuses \<and>
    statuses h = bs_status (fst sq) h \<and> statuses h \<noteq> None)"
proof -
  have "h \<in> hashes_of (fst sq) a" "a = sender h" "bs_status (fst sq) h \<noteq> None"
    using assms by (auto simp: pool_ok_def addresses_ok_def)
  then show ?thesis by (auto simp: hashes_of_def get_status_by_address_def split: option.splits)
qed

lemma listed_is_recorded:
  assumes ok: "pool_ok sender now sq" and st: "get_status_by_address (fst sq) a = Some statuses"
  shows "dom statuses = {h. bs_hash_address (fst sq) h = Some a}"
proof -
  from st obtain hs where hs: "bs_address_hashes (fst sq) a = Some hs"
    and st: "statuses = (\<lambda>h. if h \<in> hs then bs_status (fst sq) h else None)"
    by (auto simp: get_status_by_address_def)
  have "h \<in> hs \<longleftrightarrow> bs_hash_address (fst sq) h = Some a" for h
    using ok hs by (auto simp: pool_ok_def addresses_ok_def hashes_of_def split: option.splits)
  moreover have "bs_status (fst sq) h \<noteq> None" if "bs_hash_address (fst sq) h = Some a" for h
    using ok that by (auto simp: pool_ok_def addresses_ok_def)
  ultimately show ?thesis by (auto simp: st split: if_splits)
qed

lemma handle_insert:
  "bs_hash_address (fst (handle_event now (h, Insert a) sq)) = (bs_hash_address (fst sq))(h \<mapsto> a)"
  "bs_status (fst (handle_event now (h, Insert a) sq)) h = Some Tracked"
  by (simp_all add: handle_event_def insert_status_def track_address_def case_prod_unfold)

text \<open>
  C33: However submissions, snapshots, pool events and clean-ups interleave, the hashes with a
  status are those of the eviction queue, each queued once.  The two address maps are the two
  directions of one relation: every hash with a recorded address, its sender, is listed under
  it with its status, and what is listed under an address are exactly the hashes recorded with it.
  An insertion event records its transaction: afterwards its sender's list has it as tracked.
  After a clean-up no status is older than fifteen minutes and no address has an empty list.
\<close>

theorem tx_pool_consistent:
  assumes "reachable sender sq now"
  shows "distinct (map snd (snd sq)) \<and> set (map snd (snd sq)) = dom (bs_status (fst sq)) \<and>
    (\<forall>a statuses. get_status_by_address (fst sq) a = Some statuses \<longrightarrow>
       dom statuses = {h. bs_hash_address (fst sq) h = Some a}) \<and>
    (\<forall>h a. bs_hash_address (fst sq) h = Some a \<longrightarrow> a = sender h \<and>
       (\<exists>statuses. get_status_by_address (fst sq) a = Some statuses \<and>
          statuses h = bs_status (fst sq) h \<and> statuses h \<noteq> None)) \<and>
    (\<forall>h. \<exists>statuses. get_status_by_address (fst (handle_event now (h, Insert (sender h)) sq)) (sender h) = Some statuses \<and>
       statuses h = Some Tracked) \<and>
    (\<forall>x \<in> set (snd (cleanup now sq)). now - fst x < TX_EVICT_DURATION) \<and>
    set (map snd (snd (cleanup now sq))) = dom (bs_status (fst (cleanup now sq))) \<and>
    (\<forall>a. bs_address_hashes (fst (cleanup now sq)) a \<noteq> Some {})"
proof -
  have ok: "pool_ok sender now sq" using assms by (rule reachable_ok)
  have "\<exists>statuses. get_status_by_address (fst (handle_event now (h, Insert (sender h)) sq)) (sender h) = Some statuses \<and>
      statuses h = Some Tracked" for h
  proof -
    have "pool_ok sender now (handle_event now (h, Insert (sender h)) sq)"
      using ok by (rule pool_ok_handle_event) simp
    from recorded_is_listed [OF this, of h "sender h"] show ?thesis
      by (auto simp: handle_insert)
  qed
  then show ?thesis
    using ok recorded_is_listed [OF ok] listed_is_recorded [OF ok] pool_ok_cleanup [OF ok]
    by (simp add: pool_ok_def queue_ok_def)
qed

theorem tx_pool_consistent_witness:
  "\<exists>statuses. get_status_by_address (fst (handle_event 5 (1, Insert 7) (bridge_new 3 [1, 2] :: (unit, unit) bridge_state \<times> eviction_queue))) 7
     = Some statuses \<and> statuses 1 = Some Tracked"
proof -
  have "reachable (\<lambda>_. 7) (bridge_new 3 [1, 2] :: (unit, unit) bridge_state \<times> eviction_queue) 3"
    by (rule reachable.new) simp
  then have "reachable (\<lambda>_. 7) (handle_events 5 [] (bridge_new 3 [1, 2] :: (unit, unit) bridge_state \<times> eviction_queue)) 5"
    by (rule reachable.events) simp_all
  then have "reachable (\<lambda>_. 7) (bridge_new 3 [1, 2] :: (unit, unit) bridge_state \<times> eviction_queue) 5"
    by (simp add: handle_events_def)
  from tx_pool_consistent [OF this] show ?thesis by blast
qed

end
