(* ===== verification/Block_Buffer.thy ===== *)
theory Block_Buffer
  imports Archive_Prelude
begin

text \<open>
  The RPC server's buffer of recent blocks (\<open>data/buffer/mod.rs\<close>) and the view the request
  handlers read (\<open>data/buffer/view.rs\<close>).  A \<open>DashMap\<close> is a map; a block of the buffer always has
  its transactions in full, as \<open>insert\<close> builds it.  Bodies of transactions, receipts and headers
  are type parameters: the buffer only copies them.
\<close>

section \<open>State\<close>

record 't buffer_tx =
  btx_hash :: b256
  btx_body :: 't

text \<open>A receipt with the \<open>log_index\<close> of each of its logs.\<close>

record 'r buffer_receipt =
  brc_transaction_hash :: b256
  brc_log_indices :: "u64 option list"
  brc_body :: 'r

record 'h buffer_header =
  bh_hash :: b256
  bh_number :: u64
  bh_body :: 'h

record ('h, 't) buffer_block =
  bb_header :: "'h buffer_header"
  bb_transactions :: "'t buffer_tx list"

datatype commit_state = Proposed | Voted | Finalized | Verified

datatype ('h, 't, 'r) server_event =
    BlockEvent commit_state "'h buffer_header" "('t buffer_tx \<times> 'r buffer_receipt) list"
  | Gap

record ('h, 't, 'r) block_buffer =
  bf_voted :: u64
  bf_finalized :: u64
  bf_proposed :: u64
  bf_heights :: "u64 list"
  bf_capacity :: nat
  bf_by_height :: "u64 \<rightharpoonup> ('h, 't) buffer_block"
  bf_height_by_hash :: "b256 \<rightharpoonup> u64"
  bf_tx_by_hash :: "b256 \<rightharpoonup> (u64 \<times> u64) \<times> 'r buffer_receipt"

definition BlockBuffer_new :: "nat \<Rightarrow> ('h, 't, 'r) block_buffer" where
  "BlockBuffer_new capacity =
     \<lparr>bf_voted = 0, bf_finalized = 0, bf_proposed = 0, bf_heights = [], bf_capacity = capacity,
      bf_by_height = Map.empty, bf_height_by_hash = Map.empty, bf_tx_by_hash = Map.empty\<rparr>"

section \<open>Inserting a block\<close>

definition remove_txs ::
  "'t buffer_tx list \<Rightarrow> (b256 \<rightharpoonup> 'v) \<Rightarrow> (b256 \<rightharpoonup> 'v)" where
  "remove_txs txs m = fold (\<lambda>tx m. m(btx_hash tx := None)) txs m"

text \<open>
  The effect of the commit state: the watermark it raises, and whether the event goes on to be
  stored.
\<close>

definition note_commit_state ::
  "commit_state \<Rightarrow> 'h buffer_header \<Rightarrow> ('h, 't, 'r) block_buffer \<Rightarrow> bool \<times> ('h, 't, 'r) block_buffer" where
  "note_commit_state c header b =
     (let known = (bf_height_by_hash b (bh_hash header) \<noteq> None) in
      case c of
        Verified \<Rightarrow> (False, b)
      | Finalized \<Rightarrow> (\<not> known, b\<lparr>bf_finalized := max (bf_finalized b) (bh_number header)\<rparr>)
      | Voted \<Rightarrow> (\<not> known, b\<lparr>bf_voted := max (bf_voted b) (bh_number header)\<rparr>)
      | Proposed \<Rightarrow> (True, b\<lparr>bf_proposed := max (bf_proposed b) (bh_number header)\<rparr>))"

definition store_block ::
  "'h buffer_header \<Rightarrow> 't buffer_tx list \<Rightarrow> ('h, 't, 'r) block_buffer \<Rightarrow> ('h, 't, 'r) block_buffer" where
  "store_block header txs b =
     (let height = bh_number header;
          old = bf_by_height b height;
          b1 = b\<lparr>bf_by_height := (bf_by_height b)
                  (height \<mapsto> \<lparr>bb_header = header, bb_transactions = txs\<rparr>)\<rparr>;
          b2 = (case old of
                  None \<Rightarrow> b1
                | Some old_block \<Rightarrow>
                    b1\<lparr>bf_height_by_hash := (bf_height_by_hash b1)(bh_hash (bb_header old_block) := None),
                       bf_tx_by_hash := remove_txs (bb_transactions old_block) (bf_tx_by_hash b1)\<rparr>)
      in b2\<lparr>bf_height_by_hash := (bf_height_by_hash b2)(bh_hash header \<mapsto> height)\<rparr>)"

fun store_receipts ::
  "u64 \<Rightarrow> nat \<Rightarrow> 'r buffer_receipt list \<Rightarrow> (b256 \<rightharpoonup> (u64 \<times> u64) \<times> 'r buffer_receipt) \<Rightarrow>
   (b256 \<rightharpoonup> (u64 \<times> u64) \<times> 'r buffer_receipt)" where
  "store_receipts height i [] m = m"
| "store_receipts height i (r # rs) m =
     store_receipts height (i + 1) rs (m(brc_transaction_hash r \<mapsto> ((height, of_nat i), r)))"

definition evict_height :: "u64 \<Rightarrow> ('h, 't, 'r) block_buffer \<Rightarrow> ('h, 't, 'r) block_buffer" where
  "evict_height height b =
     (case bf_by_height b height of
        None \<Rightarrow> b
      | Some evicted \<Rightarrow>
          b\<lparr>bf_by_height := (bf_by_height b)(height := None),
            bf_tx_by_hash := remove_txs (bb_transactions evicted) (bf_tx_by_hash b),
            bf_height_by_hash := (bf_height_by_hash b)(bh_hash (bb_header evicted) := None)\<rparr>)"

lemma evict_height_sel [simp]:
  "bf_heights (evict_height h b) = bf_heights b" "bf_capacity (evict_height h b) = bf_capacity b"
  by (simp_all add: evict_height_def split: option.split)

function evict_loop_blocks :: "('h, 't, 'r) block_buffer \<Rightarrow> ('h, 't, 'r) block_buffer" where
  "evict_loop_blocks b =
     (if length (bf_heights b) > bf_capacity b then
        evict_loop_blocks
          (evict_height (last (bf_heights b)) (b\<lparr>bf_heights := butlast (bf_heights b)\<rparr>))
      else b)"
  by auto
termination
  by (relation "measure (\<lambda>b. length (bf_heights b))") auto

declare evict_loop_blocks.simps [simp del]

definition insert_event :: "('h, 't, 'r) server_event \<Rightarrow> ('h, 't, 'r) block_buffer \<Rightarrow> ('h, 't, 'r) block_buffer" where
  "insert_event e b =
     (case e of
        Gap \<Rightarrow> b
      | BlockEvent c header transactions \<Rightarrow>
          let (go, b1) = note_commit_state c header b in
          if \<not> go then b1
          else
            let b2 = store_block header (map fst transactions) b1;
                b3 = b2\<lparr>bf_tx_by_hash :=
                  store_receipts (bh_number header) 0 (map snd transactions) (bf_tx_by_hash b2)\<rparr>
            in evict_loop_blocks (b3\<lparr>bf_heights := bh_number header # bf_heights b3\<rparr>))"

section \<open>The view\<close>

datatype block_tags = TagNumber u64 | Latest | Safe | TagFinalized

fun resolve_block_height_from_tag :: "('h, 't, 'r) block_buffer \<Rightarrow> block_tags \<Rightarrow> u64" where
  "resolve_block_height_from_tag b (TagNumber n) = n"
| "resolve_block_height_from_tag b Latest = bf_proposed b"
| "resolve_block_height_from_tag b Safe = bf_voted b"
| "resolve_block_height_from_tag b TagFinalized = bf_finalized b"

definition get_block_by_height :: "('h, 't, 'r) block_buffer \<Rightarrow> u64 \<Rightarrow> ('h, 't) buffer_block option" where
  "get_block_by_height b height = bf_by_height b height"

definition get_block_by_hash :: "('h, 't, 'r) block_buffer \<Rightarrow> b256 \<Rightarrow> ('h, 't) buffer_block option" where
  "get_block_by_hash b hash = Option.bind (bf_height_by_hash b hash) (bf_by_height b)"

definition get_receipt_by_tx_hash :: "('h, 't, 'r) block_buffer \<Rightarrow> b256 \<Rightarrow> 'r buffer_receipt option" where
  "get_receipt_by_tx_hash b hash = map_option snd (bf_tx_by_hash b hash)"

fun collect_some :: "('a \<Rightarrow> 'b option) \<Rightarrow> 'a list \<Rightarrow> 'b list option" where
  "collect_some f [] = Some []"
| "collect_some f (x # xs) =
     Option.bind (f x) (\<lambda>y. Option.bind (collect_some f xs) (\<lambda>ys. Some (y # ys)))"

definition get_receipts_by_block_height ::
  "('h, 't, 'r) block_buffer \<Rightarrow> u64 \<Rightarrow> 'r buffer_receipt list option" where
  "get_receipts_by_block_height b height =
     Option.bind (bf_by_height b height) (\<lambda>block.
       collect_some (get_receipt_by_tx_hash b) (map btx_hash (bb_transactions block)))"

definition get_transaction_by_location ::
  "('h, 't, 'r) block_buffer \<Rightarrow> u64 \<Rightarrow> u64 \<Rightarrow> 't buffer_tx option" where
  "get_transaction_by_location b height idx =
     Option.bind (bf_by_height b height) (\<lambda>block.
       if unat idx < length (bb_transactions block) then Some (bb_transactions block ! unat idx) else None)"

definition get_transaction_by_hash :: "('h, 't, 'r) block_buffer \<Rightarrow> b256 \<Rightarrow> 't buffer_tx option" where
  "get_transaction_by_hash b hash =
     Option.bind (bf_tx_by_hash b hash) (\<lambda>(loc, _). get_transaction_by_location b (fst loc) (snd loc))"

text \<open>
  The receipts of a block with their starting log index, checked against the index of the first
  log; \<open>log_index\<close> wraps.
\<close>

fun indexed_receipts ::
  "('h, 't, 'r) block_buffer \<Rightarrow> u64 \<Rightarrow> 't buffer_tx list \<Rightarrow> ('r \<times> u64) list option" where
  "indexed_receipts b log_index [] = Some []"
| "indexed_receipts b log_index (tx # txs) =
     Option.bind (get_receipt_by_tx_hash b (btx_hash tx)) (\<lambda>receipt.
       if (case brc_log_indices receipt of
             [] \<Rightarrow> True
           | None # _ \<Rightarrow> False
           | Some first_log_index # _ \<Rightarrow> first_log_index = log_index)
       then Option.bind (indexed_receipts b (log_index + of_nat (length (brc_log_indices receipt))) txs)
              (\<lambda>rs. Some ((brc_body receipt, log_index) # rs))
       else None)"

definition get_bloom_filtered ::
  "('h, 't, 'r) block_buffer \<Rightarrow> u64 \<Rightarrow> ('h \<Rightarrow> bool) \<Rightarrow>
   ('h buffer_header \<times> 't buffer_tx list \<times> ('r \<times> u64) list) option" where
  "get_bloom_filtered b height filter_match =
     Option.bind (bf_by_height b height) (\<lambda>block.
       if \<not> filter_match (bh_body (bb_header block)) then Some (bb_header block, [], [])
       else Option.bind (indexed_receipts b 0 (bb_transactions block))
              (\<lambda>rs. Some (bb_header block, bb_transactions block, rs)))"

section \<open>The maps agree\<close>

text \<open>
  What an event is expected to be: the hash of a block determines its number, and its receipts are
  those of its transactions, in their order.
\<close>

fun event_ok :: "(b256 \<Rightarrow> u64) \<Rightarrow> ('h, 't, 'r) server_event \<Rightarrow> bool" where
  "event_ok number_of Gap \<longleftrightarrow> True"
| "event_ok number_of (BlockEvent c header transactions) \<longleftrightarrow>
     bh_number header = number_of (bh_hash header) \<and>
     list_all (\<lambda>(tx, r). brc_transaction_hash r = btx_hash tx) transactions \<and>
     length transactions < 2 ^ 64"

definition block_at :: "('h, 't, 'r) block_buffer \<Rightarrow> u64 \<Rightarrow> b256 \<Rightarrow> bool" where
  "block_at b height hash \<longleftrightarrow> (\<exists>block. bf_by_height b height = Some block \<and> bh_hash (bb_header block) = hash)"

text \<open>A location names a transaction with that hash in a block of the buffer.\<close>

definition located ::
  "('h, 't, 'r) block_buffer \<Rightarrow> b256 \<Rightarrow> (u64 \<times> u64) \<times> 'r buffer_receipt \<Rightarrow> bool" where
  "located b t x \<longleftrightarrow>
     (let ((height, i), r) = x
      in brc_transaction_hash r = t \<and>
         (\<exists>block. bf_by_height b height = Some block \<and> unat i < length (bb_transactions block) \<and>
            btx_hash (bb_transactions block ! unat i) = t))"

definition buffer_ok :: "(b256 \<Rightarrow> u64) \<Rightarrow> ('h, 't, 'r) block_buffer \<Rightarrow> bool" where
  "buffer_ok number_of b \<longleftrightarrow>
     (\<forall>h block. bf_by_height b h = Some block \<longrightarrow>
        bh_number (bb_header block) = h \<and> number_of (bh_hash (bb_header block)) = h) \<and>
     (\<forall>hash h. bf_height_by_hash b hash = Some h \<longleftrightarrow> block_at b h hash) \<and>
     (\<forall>t x. bf_tx_by_hash b t = Some x \<longrightarrow> located b t x)"

definition heights_ok :: "('h, 't, 'r) block_buffer \<Rightarrow> bool" where
  "heights_ok b \<longleftrightarrow> dom (bf_by_height b) \<subseteq> set (bf_heights b)"

lemma buffer_okD:
  assumes "buffer_ok number_of b"
  shows "bf_by_height b h = Some block \<Longrightarrow> bh_number (bb_header block) = h"
    and "bf_by_height b h = Some block \<Longrightarrow> number_of (bh_hash (bb_header block)) = h"
    and "bf_height_by_hash b hash = Some h \<longleftrightarrow> block_at b h hash"
    and "bf_tx_by_hash b t = Some x \<Longrightarrow> located b t x"
  using assms unfolding buffer_ok_def by blast+

lemma block_at_number: "buffer_ok number_of b \<Longrightarrow> block_at b h hash \<Longrightarrow> number_of hash = h"
  by (auto simp: block_at_def dest: buffer_okD(2))

lemma remove_txs_apply:
  "remove_txs txs m t = (if t \<in> btx_hash ` set txs then None else m t)"
  unfolding remove_txs_def by (induction txs arbitrary: m) auto

lemma buffer_ok_heights [simp]: "buffer_ok number_of (b\<lparr>bf_heights := hs\<rparr>) = buffer_ok number_of b"
  by (simp add: buffer_ok_def block_at_def located_def)

lemma buffer_ok_note:
  "buffer_ok number_of b \<Longrightarrow> buffer_ok number_of (snd (note_commit_state c header b))"
  by (cases c) (simp_all add: note_commit_state_def buffer_ok_def block_at_def located_def)

text \<open>Removing a block with its hash and its transactions keeps the maps in agreement.\<close>

lemma buffer_ok_evict:
  assumes "buffer_ok number_of b"
  shows "buffer_ok number_of (evict_height h b)"
proof (cases "bf_by_height b h")
  case None
  with assms show ?thesis by (simp add: evict_height_def)
next
  case (Some old)
  let ?b = "evict_height h b"
  have sel: "bf_by_height ?b = (bf_by_height b)(h := None)"
    "bf_tx_by_hash ?b = remove_txs (bb_transactions old) (bf_tx_by_hash b)"
    "bf_height_by_hash ?b = (bf_height_by_hash b)(bh_hash (bb_header old) := None)"
    using Some by (simp_all add: evict_height_def)
  have at: "block_at ?b k hash \<longleftrightarrow> block_at b k hash \<and> hash \<noteq> bh_hash (bb_header old)" for k hash
    using block_at_number [OF assms, of k hash] buffer_okD(2) [OF assms Some] Some
    by (auto simp: block_at_def sel)
  have loc: "located ?b t x" if "bf_tx_by_hash ?b t = Some x" for t x
  proof -
    have t: "t \<notin> btx_hash ` set (bb_transactions old)" "bf_tx_by_hash b t = Some x"
      using that by (auto simp: sel remove_txs_apply split: if_splits)
    then have "located b t x" using buffer_okD(4) [OF assms] by blast
    moreover have "btx_hash (bb_transactions old ! i) \<noteq> t" if "i < length (bb_transactions old)" for i
      using t(1) nth_mem [OF that] by blast
    ultimately show ?thesis using Some by (auto simp: located_def sel Let_def split: prod.splits)
  qed
  show ?thesis
    using assms loc at unfolding buffer_ok_def
    by (auto simp: sel)
qed

lemma store_block_as_evict:
  "store_block header txs b =
     (let b1 = evict_height (bh_number header) b
      in b1\<lparr>bf_by_height := (bf_by_height b1)(bh_number header \<mapsto> \<lparr>bb_header = header, bb_transactions = txs\<rparr>),
            bf_height_by_hash := (bf_height_by_hash b1)(bh_hash header \<mapsto> bh_number header)\<rparr>)"
  by (simp add: store_block_def evict_height_def Let_def split: option.split)

lemma buffer_ok_store:
  assumes "buffer_ok number_of b" "bh_number header = number_of (bh_hash header)"
  shows "buffer_ok number_of (store_block header txs b)"
proof -
  let ?n = "bh_number header" and ?b1 = "evict_height (bh_number header) b"
  let ?b2 = "store_block header txs b"
  have ok: "buffer_ok number_of ?b1" using assms(1) by (rule buffer_ok_evict)
  have none: "bf_by_height ?b1 ?n = None" by (simp add: evict_height_def split: option.split)
  have sel: "bf_by_height ?b2 = (bf_by_height ?b1)(?n \<mapsto> \<lparr>bb_header = header, bb_transactions = txs\<rparr>)"
    "bf_tx_by_hash ?b2 = bf_tx_by_hash ?b1"
    "bf_height_by_hash ?b2 = (bf_height_by_hash ?b1)(bh_hash header \<mapsto> ?n)"
    by (simp_all add: store_block_as_evict Let_def)
  have fresh: "\<not> block_at ?b1 k (bh_hash header)" for k
    using block_at_number [OF ok, of k "bh_hash header"] assms(2) none by (auto simp: block_at_def)
  have at: "block_at ?b2 k hash \<longleftrightarrow> (if hash = bh_hash header then k = ?n else block_at ?b1 k hash)" for k hash
    using fresh none by (auto simp: block_at_def sel)
  have "located ?b1 t x \<Longrightarrow> located ?b2 t x" for t x
    using none by (auto simp: located_def sel split: prod.splits)
  then show ?thesis
    using ok at assms(2) unfolding buffer_ok_def by (auto simp: sel)
qed

lemma store_receipts_apply:
  "store_receipts h i rs m t = Some x \<Longrightarrow>
     m t = Some x \<or> (\<exists>j < length rs. x = ((h, of_nat (i + j)), rs ! j) \<and> brc_transaction_hash (rs ! j) = t)"
proof (induction h i rs m rule: store_receipts.induct)
  case (2 h i r rs m)
  from 2(1) [OF 2(2) [unfolded store_receipts.simps]] show ?case
  proof
    assume "(m(brc_transaction_hash r \<mapsto> ((h, of_nat i), r))) t = Some x"
    then show ?thesis by (cases "t = brc_transaction_hash r") (auto intro: exI [of _ 0])
  next
    assume "\<exists>j < length rs. x = ((h, of_nat (i + 1 + j)), rs ! j) \<and> brc_transaction_hash (rs ! j) = t"
    then obtain j where "j < length rs" "x = ((h, of_nat (i + 1 + j)), rs ! j)"
      "brc_transaction_hash (rs ! j) = t" by blast
    then show ?thesis by (auto intro!: exI [of _ "Suc j"] simp: add.assoc)
  qed
qed simp

lemma buffer_ok_receipts:
  assumes "buffer_ok number_of b" "bf_by_height b h = Some block"
    "bb_transactions block = map fst trs" "list_all (\<lambda>(tx, r). brc_transaction_hash r = btx_hash tx) trs"
    "length trs < 2 ^ 64"
  shows "buffer_ok number_of (b\<lparr>bf_tx_by_hash := store_receipts h 0 (map snd trs) (bf_tx_by_hash b)\<rparr>)"
proof -
  have "located b t x" if "store_receipts h 0 (map snd trs) (bf_tx_by_hash b) t = Some x" for t x
    using store_receipts_apply [OF that]
  proof
    assume "bf_tx_by_hash b t = Some x"
    then show ?thesis by (rule buffer_okD(4) [OF assms(1)])
  next
    assume "\<exists>j < length (map snd trs). x = ((h, of_nat (0 + j)), map snd trs ! j) \<and>
      brc_transaction_hash (map snd trs ! j) = t"
    then obtain j where j: "j < length trs" "x = ((h, of_nat j), snd (trs ! j))"
      "brc_transaction_hash (snd (trs ! j)) = t" by auto
    moreover have "btx_hash (fst (trs ! j)) = t"
      using assms(4) j by (auto simp: list_all_length case_prod_unfold)
    moreover have "unat (of_nat j :: u64) = j" using j(1) assms(5) by (intro unat_of_nat_small) simp
    ultimately show ?thesis using assms(2,3) by (simp add: located_def)
  qed
  with assms(1) show ?thesis by (auto simp: buffer_ok_def block_at_def located_def)
qed

lemma buffer_ok_loop: "buffer_ok number_of b \<Longrightarrow> buffer_ok number_of (evict_loop_blocks b)"
proof (induction b rule: evict_loop_blocks.induct)
  case (1 b)
  then show ?case
    by (cases "length (bf_heights b) > bf_capacity b")
      (simp_all add: evict_loop_blocks.simps [of b] buffer_ok_evict)
qed

lemma heights_ok_loop:
  "heights_ok b \<Longrightarrow> heights_ok (evict_loop_blocks b) \<and>
   length (bf_heights (evict_loop_blocks b)) \<le> bf_capacity (evict_loop_blocks b) \<and>
   bf_capacity (evict_loop_blocks b) = bf_capacity b"
proof (induction b rule: evict_loop_blocks.induct)
  case (1 b)
  show ?case
  proof (cases "length (bf_heights b) > bf_capacity b")
    case True
    let ?h = "last (bf_heights b)"
    have ne: "bf_heights b \<noteq> []" using True by auto
    let ?b = "b\<lparr>bf_heights := butlast (bf_heights b)\<rparr>"
    have "set (bf_heights b) = insert ?h (set (butlast (bf_heights b)))"
      using arg_cong [OF append_butlast_last_id [OF ne], of set] by auto
    moreover have "dom (bf_by_height (evict_height ?h ?b)) \<subseteq> dom (bf_by_height b) - {?h}"
      by (auto simp: evict_height_def split: option.splits if_splits)
    ultimately have "heights_ok (evict_height ?h ?b)"
      using 1(2) unfolding heights_ok_def by auto
    from 1(1) [OF True this] True show ?thesis by (simp add: evict_loop_blocks.simps [of b])
  qed (use 1(2) in \<open>simp add: evict_loop_blocks.simps [of b]\<close>)
qed

lemma note_commit_state_sel [simp]:
  "bf_by_height (snd (note_commit_state c header b)) = bf_by_height b"
  "bf_heights (snd (note_commit_state c header b)) = bf_heights b"
  "bf_capacity (snd (note_commit_state c header b)) = bf_capacity b"
  by (cases c; simp add: note_commit_state_def)+

lemma store_block_sel [simp]:
  "bf_by_height (store_block header txs b) =
     (bf_by_height b)(bh_number header \<mapsto> \<lparr>bb_header = header, bb_transactions = txs\<rparr>)"
  "bf_heights (store_block header txs b) = bf_heights b"
  "bf_capacity (store_block header txs b) = bf_capacity b"
  by (simp_all add: store_block_def Let_def split: option.split)

definition stored ::
  "commit_state \<Rightarrow> 'h buffer_header \<Rightarrow> ('t buffer_tx \<times> 'r buffer_receipt) list \<Rightarrow>
   ('h, 't, 'r) block_buffer \<Rightarrow> ('h, 't, 'r) block_buffer" where
  "stored c header trs b =
     (let b2 = store_block header (map fst trs) (snd (note_commit_state c header b))
      in b2\<lparr>bf_tx_by_hash := store_receipts (bh_number header) 0 (map snd trs) (bf_tx_by_hash b2),
            bf_heights := bh_number header # bf_heights b\<rparr>)"

lemma insert_event_cases:
  "insert_event e b = (case e of
     Gap \<Rightarrow> b
   | BlockEvent c header trs \<Rightarrow>
       if fst (note_commit_state c header b) then evict_loop_blocks (stored c header trs b)
       else snd (note_commit_state c header b))"
  by (auto simp: insert_event_def stored_def Let_def case_prod_unfold split: server_event.split)

definition buffer_inv :: "(b256 \<Rightarrow> u64) \<Rightarrow> nat \<Rightarrow> ('h, 't, 'r) block_buffer \<Rightarrow> bool" where
  "buffer_inv number_of capacity b \<longleftrightarrow>
     buffer_ok number_of b \<and> heights_ok b \<and> length (bf_heights b) \<le> capacity \<and> bf_capacity b = capacity"

lemma buffer_inv_insert:
  assumes "buffer_inv number_of capacity b" "event_ok number_of e"
  shows "buffer_inv number_of capacity (insert_event e b)"
proof (cases e)
  case (BlockEvent c header trs)
  have ok: "buffer_ok number_of b" using assms(1) by (simp add: buffer_inv_def)
  show ?thesis
  proof (cases "fst (note_commit_state c header b)")
    case True
    have "buffer_ok number_of (store_block header (map fst trs) (snd (note_commit_state c header b)))"
      using ok assms(2) by (intro buffer_ok_store buffer_ok_note) (simp_all add: BlockEvent)
    then have "buffer_ok number_of (stored c header trs b)"
      using assms(2) unfolding stored_def Let_def buffer_ok_heights
      by (intro buffer_ok_receipts [where block = "\<lparr>bb_header = header, bb_transactions = map fst trs\<rparr>"])
        (simp_all add: BlockEvent)
    moreover have "heights_ok (stored c header trs b)" "bf_capacity (stored c header trs b) = capacity"
      using assms(1) by (auto simp: stored_def Let_def heights_ok_def buffer_inv_def)
    ultimately show ?thesis
      using True heights_ok_loop [of "stored c header trs b"]
      by (simp add: insert_event_cases BlockEvent buffer_inv_def buffer_ok_loop)
  next
    case False
    then show ?thesis
      using assms(1) buffer_ok_note [OF ok] 
      by (simp add: insert_event_cases BlockEvent buffer_inv_def heights_ok_def)
  qed
qed (use assms in \<open>simp add: insert_event_cases\<close>)

definition buffer_run :: "nat \<Rightarrow> ('h, 't, 'r) server_event list \<Rightarrow> ('h, 't, 'r) block_buffer" where
  "buffer_run capacity es = fold insert_event es (BlockBuffer_new capacity)"

lemma buffer_run_inv:
  assumes "list_all (event_ok number_of) es"
  shows "buffer_inv number_of capacity (buffer_run capacity es)"
proof -
  have "buffer_inv number_of capacity (BlockBuffer_new capacity)"
    by (simp add: buffer_inv_def BlockBuffer_new_def buffer_ok_def heights_ok_def block_at_def)
  moreover have "buffer_inv number_of capacity b \<Longrightarrow> buffer_inv number_of capacity (fold insert_event es b)" for b
    using assms by (induction es arbitrary: b) (auto intro: buffer_inv_insert)
  ultimately show ?thesis by (simp add: buffer_run_def)
qed

lemma dom_heights_card:
  assumes "heights_ok b" "length (bf_heights b) \<le> n"
  shows "card (dom (bf_by_height b)) \<le> n"
proof -
  have "card (dom (bf_by_height b)) \<le> card (set (bf_heights b))"
    using assms(1) by (intro card_mono) (auto simp: heights_ok_def)
  also have "\<dots> \<le> length (bf_heights b)" by (rule card_length)
  finally show ?thesis using assms(2) by simp
qed

lemma get_by_hash_iff:
  assumes "buffer_ok number_of b"
  shows "get_block_by_hash b hash = Some block \<longleftrightarrow>
    get_block_by_height b (bh_number (bb_header block)) = Some block \<and> bh_hash (bb_header block) = hash"
proof -
  have "get_block_by_hash b hash = Some block \<longleftrightarrow>
      (\<exists>h. bf_by_height b h = Some block \<and> bh_hash (bb_header block) = hash)"
    using buffer_okD(3) [OF assms] by (auto simp: get_block_by_hash_def block_at_def bind_eq_Some_conv)
  then show ?thesis using buffer_okD(1) [OF assms] by (auto simp: get_block_by_height_def)
qed

text \<open>
  C34: Whatever block events the buffer has received, a block is found by its hash exactly when it
  is found by its number, and it is the block with that hash; every transaction hash the buffer
  knows leads to a transaction with that hash and to a receipt for it; and no more blocks are
  held than the capacity.
\<close>

theorem block_buffer_consistent:
  assumes "list_all (event_ok number_of) es"
  shows "let b = buffer_run capacity es in
    (\<forall>hash block. get_block_by_hash b hash = Some block \<longleftrightarrow>
       get_block_by_height b (bh_number (bb_header block)) = Some block \<and> bh_hash (bb_header block) = hash) \<and>
    (\<forall>height block. get_block_by_height b height = Some block \<longrightarrow> bh_number (bb_header block) = height) \<and>
    (\<forall>t r. get_receipt_by_tx_hash b t = Some r \<longrightarrow>
       brc_transaction_hash r = t \<and>
       (\<exists>tx. get_transaction_by_hash b t = Some tx \<and> btx_hash tx = t)) \<and>
    card (dom (bf_by_height b)) \<le> capacity"
proof -
  let ?b = "buffer_run capacity es"
  have inv: "buffer_inv number_of capacity ?b" using assms by (rule buffer_run_inv)
  then have ok: "buffer_ok number_of ?b" by (simp add: buffer_inv_def)
  have "brc_transaction_hash r = t \<and> (\<exists>tx. get_transaction_by_hash ?b t = Some tx \<and> btx_hash tx = t)"
    if "get_receipt_by_tx_hash ?b t = Some r" for t r
  proof -
    from that obtain h i where "bf_tx_by_hash ?b t = Some ((h, i), r)"
      by (auto simp: get_receipt_by_tx_hash_def)
    with buffer_okD(4) [OF ok this] show ?thesis
      by (auto simp: located_def get_transaction_by_hash_def get_transaction_by_location_def)
  qed
  then show ?thesis
    using inv get_by_hash_iff [OF ok] buffer_okD(1) [OF ok] dom_heights_card [of ?b capacity]
    by (simp add: Let_def get_block_by_height_def buffer_inv_def)
qed

definition sample_event :: "commit_state \<Rightarrow> u64 \<Rightarrow> b256 \<Rightarrow> (unit, unit, unit) server_event" where
  "sample_event c n hash =
     BlockEvent c \<lparr>bh_hash = hash, bh_number = n, bh_body = ()\<rparr>
       [(\<lparr>btx_hash = hash + 1, btx_body = ()\<rparr>,
         \<lparr>brc_transaction_hash = hash + 1, brc_log_indices = [], brc_body = ()\<rparr>)]"

theorem block_buffer_consistent_witness:
  "card (dom (bf_by_height (buffer_run 2 [sample_event Proposed 1 10, sample_event Voted 1 10,
     sample_event Proposed 2 20]))) \<le> 2"
  using block_buffer_consistent [where number_of = "\<lambda>hash. if hash = 10 then 1 else 2" and capacity = 2
    and es = "[sample_event Proposed 1 10, sample_event Voted 1 10, sample_event Proposed 2 20]"]
  by (simp add: sample_event_def Let_def)

text \<open>
  C40: A proposed block for the height at the end of a full ring is not in the buffer after its
  insertion: the older entry of that height is evicted and takes the new block with it.
\<close>

theorem reproposed_block_dropped:
  assumes "bf_heights b \<noteq> []" "length (bf_heights b) = bf_capacity b"
    "last (bf_heights b) = bh_number header"
  shows "get_block_by_height (insert_event (BlockEvent Proposed header trs) b) (bh_number header) = None"
proof -
  let ?n = "bh_number header" and ?s = "stored Proposed header trs b"
  have s: "bf_heights ?s = ?n # bf_heights b" "bf_capacity ?s = bf_capacity b"
    by (simp_all add: stored_def Let_def)
  let ?e = "evict_height ?n (?s\<lparr>bf_heights := butlast (bf_heights ?s)\<rparr>)"
  have "evict_loop_blocks ?s = evict_loop_blocks ?e"
    using assms by (subst evict_loop_blocks.simps) (simp add: s)
  also have "\<dots> = ?e"
  proof -
    have "0 < bf_capacity b" using assms(1) unfolding assms(2) [symmetric] by simp
    then have "\<not> length (bf_heights ?e) > bf_capacity ?e" using assms by (simp add: s)
    then show ?thesis by (simp only: evict_loop_blocks.simps [of ?e] if_False)
  qed
  finally have "insert_event (BlockEvent Proposed header trs) b = ?e"
    by (simp add: insert_event_cases note_commit_state_def)
  then show ?thesis by (simp add: get_block_by_height_def evict_height_def split: option.split)
qed

theorem reproposed_block_dropped_witness:
  "get_block_by_height (insert_event (sample_event Proposed 1 30)
     (buffer_run 2 [sample_event Proposed 1 10, sample_event Proposed 2 20])) 1 = None"
proof -
  let ?b = "buffer_run 2 [sample_event Proposed 1 10, sample_event Proposed 2 20]"
  have "bf_heights ?b = [2, 1]" "bf_capacity ?b = 2"
    by (simp_all add: buffer_run_def BlockBuffer_new_def sample_event_def insert_event_cases
        note_commit_state_def stored_def Let_def evict_loop_blocks.simps)
  then show ?thesis
    unfolding sample_event_def [of Proposed 1 30]
    using reproposed_block_dropped [where header = "\<lparr>bh_hash = 30, bh_number = 1, bh_body = ()\<rparr>" and b = ?b]
    by simp
qed

end
