(* ===== verification/Data_Sources.thy ===== *)
theory Data_Sources
  imports Archive_Facade Block_Buffer
begin

text \<open>
  The historical data sources of the RPC server (\<open>data/source\<close>): the execution database, the
  archive, and the stack that asks one after the other.  The execution database
  (\<open>monad-triedb-utils\<close>) is not part of the repository: its reads are the fields of \<open>triedb_env\<close>.
  The archive is reached through the methods of \<open>ArchiveReader\<close>, collected in \<open>archive_client\<close>;
  their circuit breakers are part of the world.
\<close>

section \<open>Data\<close>

datatype 'e fault = Err 'e | Abort report

datatype data_source_error = Internal string

type_synonym ('w, 'a) source_io = "('w, data_source_error fault, 'a) io"

datatype block_commit_state = AtProposed | AtVoted | AtFinalized

datatype block_pointer = PtrFinalized u64 | PtrNonFinalized u64 b256

datatype db_block_key = KeyFinalized u64 | KeyProposed u64 b256

fun seq_num :: "db_block_key \<Rightarrow> u64" where
  "seq_num (KeyFinalized n) = n"
| "seq_num (KeyProposed n _) = n"

fun pointer_number :: "block_pointer \<Rightarrow> u64" where
  "pointer_number (PtrFinalized n) = n"
| "pointer_number (PtrNonFinalized n _) = n"

record ('h, 't) historical_block_data =
  hb_header :: 'h
  hb_header_hash_precomputed :: "b256 option"
  hb_transactions :: "'t tx_envelope_with_sender list"

datatype block_tag_or_hash = BlockTags block_tags | HashRef b256

section \<open>The reads the sources are made of\<close>

record 'h env_header =
  eh_hash :: b256
  eh_header :: 'h

record transaction_location =
  tl_tx_index :: u64
  tl_block_num :: u64

record ('w, 'h, 't, 'r) triedb_env =
  te_latest_proposed :: "'w \<Rightarrow> db_block_key \<times> 'w"
  te_latest_voted :: "'w \<Rightarrow> db_block_key \<times> 'w"
  te_latest_finalized :: "'w \<Rightarrow> u64 \<times> 'w"
  te_block_key :: "u64 \<Rightarrow> 'w \<Rightarrow> db_block_key option \<times> 'w"
  te_block_number_by_hash :: "db_block_key \<Rightarrow> b256 \<Rightarrow> ('w, string, u64 option) io"
  te_block_header :: "db_block_key \<Rightarrow> ('w, string, 'h env_header option) io"
  te_transactions :: "db_block_key \<Rightarrow> ('w, string, 't tx_envelope_with_sender list) io"
  te_transaction :: "db_block_key \<Rightarrow> u64 \<Rightarrow> ('w, string, 't tx_envelope_with_sender option) io"
  te_receipts :: "db_block_key \<Rightarrow> ('w, string, 'r block_receipts) io"
  te_receipt :: "db_block_key \<Rightarrow> u64 \<Rightarrow> ('w, string, 'r receipt_with_log_index option) io"
  te_transaction_location :: "db_block_key \<Rightarrow> b256 \<Rightarrow> ('w, string, transaction_location option) io"
  te_call_frames :: "db_block_key \<Rightarrow> ('w, string, block_traces) io"
  te_call_frame :: "db_block_key \<Rightarrow> u64 \<Rightarrow> ('w, string, bytes option) io"

record ('w, 'h, 't, 'r, 'wd) archive_client =
  ac_get_latest :: "latest_kind \<Rightarrow> ('w, u64 option) eyre_io"
  ac_try_get_block_number_by_hash :: "b256 \<Rightarrow> ('w, u64 option) eyre_io"
  ac_try_get_block_by_number :: "u64 \<Rightarrow> ('w, ('h, 't, 'wd) block option) eyre_io"
  ac_try_get_block_by_hash :: "b256 \<Rightarrow> ('w, ('h, 't, 'wd) block option) eyre_io"
  ac_try_get_block_receipts :: "u64 \<Rightarrow> ('w, 'r block_receipts option) eyre_io"
  ac_get_block_receipts :: "u64 \<Rightarrow> ('w, 'r block_receipts) eyre_io"
  ac_try_get_block_traces :: "u64 \<Rightarrow> ('w, block_traces option) eyre_io"
  ac_get_tx_indexed_data :: "b256 \<Rightarrow> ('w, ('t, 'r) tx_indexed_data option) eyre_io"
  ac_get_tx :: "b256 \<Rightarrow> ('w, ('t tx_envelope_with_sender \<times> header_subset) option) eyre_io"
  ac_get_trace :: "b256 \<Rightarrow> ('w, (bytes \<times> header_subset) option) eyre_io"
  ac_get_latest_indexed :: "bool \<Rightarrow> ('w, u64 option) eyre_io"

text \<open>The methods of an \<open>ArchiveReader\<close>, whose state is the first part of the world.\<close>

definition paired ::
  "('s \<Rightarrow> 'w \<Rightarrow> 'a eyre \<times> 's \<times> 'w) \<Rightarrow> ('s \<times> 'w, 'a) eyre_io" where
  "paired f = (\<lambda>(s, w). f s w)"

definition ArchiveReader_client ::
  "('h, 't, 'r, 'wd) alloy \<Rightarrow> ('t, 'r) index_codecs \<Rightarrow> ('w \<Rightarrow> nat) \<Rightarrow>
   (('w, 'h, 't, 'r, 'wd) archive_reader_state \<times> 'w, 'h, 't, 'r, 'wd) archive_client" where
  "ArchiveReader_client A C clock =
     \<lparr>ac_get_latest = (\<lambda>k. paired (ArchiveReader_get_latest clock k)),
      ac_try_get_block_number_by_hash = (\<lambda>h. paired (ArchiveReader_try_get_block_number_by_hash clock h)),
      ac_try_get_block_by_number = (\<lambda>n. paired (ArchiveReader_try_get_block_by_number clock n)),
      ac_try_get_block_by_hash = (\<lambda>h. paired (ArchiveReader_try_get_block_by_hash clock h)),
      ac_try_get_block_receipts = (\<lambda>n. paired (ArchiveReader_try_get_block_receipts clock n)),
      ac_get_block_receipts = (\<lambda>n. paired (ArchiveReader_get_block_receipts clock n)),
      ac_try_get_block_traces = (\<lambda>n. paired (ArchiveReader_try_get_block_traces clock n)),
      ac_get_tx_indexed_data = (\<lambda>h. paired (ArchiveReader_get_tx_indexed_data A C clock h)),
      ac_get_tx = (\<lambda>h. paired (ArchiveReader_get_tx A C clock h)),
      ac_get_trace = (\<lambda>h. paired (ArchiveReader_get_trace A C clock h)),
      ac_get_latest_indexed = (\<lambda>b. paired (ArchiveReader_get_latest_indexed clock b))\<rparr>"

text \<open>Reads that cannot fail, and \<open>map_err\<close> on a call.\<close>

definition io_read :: "('w \<Rightarrow> 'a \<times> 'w) \<Rightarrow> ('w, 'e, 'a) io" where
  "io_read f w = (let (a, w') = f w in (Inr a, w'))"

definition io_map_err :: "('e \<Rightarrow> 'f) \<Rightarrow> ('w, 'e, 'a) io \<Rightarrow> ('w, 'f, 'a) io" where
  "io_map_err g m w = (let (r, w') = m w in (map_err g r, w'))"

text \<open>\<open>Report::to_string\<close>: the outermost message.\<close>

fun report_fault :: "(string \<Rightarrow> 'e) \<Rightarrow> report \<Rightarrow> 'e fault" where
  "report_fault g (Report ms) = Err (g (case ms of [] \<Rightarrow> [] | m # _ \<Rightarrow> m))"
| "report_fault g (Crash s) = Abort (Crash s)"
| "report_fault g Spin = Abort Spin"

lemma io_read_iff: "io_read f w = (r, w') \<longleftrightarrow> (\<exists>a. f w = (a, w') \<and> r = Inr a)"
  by (auto simp: io_read_def split: prod.splits)

lemma io_map_err_iff: "io_map_err g m w = (r', w') \<longleftrightarrow> (\<exists>r. m w = (r, w') \<and> r' = map_err g r)"
  by (auto simp: io_map_err_def split: prod.splits)

lemma map_err_Inr_iff [simp]: "map_err g r = Inr a \<longleftrightarrow> r = Inr a"
  by (cases r) auto

section \<open>The interface and its default methods\<close>

record ('w, 'h, 't) historical_data_source =
  ds_try_resolve_block_commit_state :: "block_commit_state \<Rightarrow> ('w, block_pointer option) source_io"
  ds_try_resolve_block_number :: "u64 \<Rightarrow> ('w, block_pointer option) source_io"
  ds_try_resolve_block_hash :: "b256 \<Rightarrow> ('w, block_pointer option) source_io"
  ds_get_block :: "block_pointer \<Rightarrow> ('w, ('h, 't) historical_block_data option) source_io"
  ds_get_block_header :: "block_pointer \<Rightarrow> ('w, 'h option) source_io"

fun try_resolve ::
  "('w, 'h, 't) historical_data_source \<Rightarrow> block_tag_or_hash \<Rightarrow> ('w, block_pointer option) source_io" where
  "try_resolve s (BlockTags (TagNumber n)) = ds_try_resolve_block_number s n"
| "try_resolve s (BlockTags Latest) = ds_try_resolve_block_commit_state s AtProposed"
| "try_resolve s (BlockTags Safe) = ds_try_resolve_block_commit_state s AtVoted"
| "try_resolve s (BlockTags TagFinalized) = ds_try_resolve_block_commit_state s AtFinalized"
| "try_resolve s (HashRef h) = ds_try_resolve_block_hash s h"

definition try_resolve_and_then ::
  "('w, 'h, 't) historical_data_source \<Rightarrow> block_tag_or_hash \<Rightarrow>
   (('w, 'h, 't) historical_data_source \<Rightarrow> block_pointer \<Rightarrow> ('w, 'a option) source_io) \<Rightarrow>
   ('w, 'a option) source_io" where
  "try_resolve_and_then s block f =
     io_bind (try_resolve s block) (\<lambda>p.
       case p of Some pointer \<Rightarrow> f s pointer | None \<Rightarrow> io_lift (Inr None))"

section \<open>The execution database as a source\<close>

fun resolve_block_key :: "block_pointer \<Rightarrow> db_block_key" where
  "resolve_block_key (PtrFinalized n) = KeyFinalized n"
| "resolve_block_key (PtrNonFinalized n i) = KeyProposed n i"

fun block_key_to_block_pointer :: "db_block_key \<Rightarrow> block_pointer" where
  "block_key_to_block_pointer (KeyFinalized n) = PtrFinalized n"
| "block_key_to_block_pointer (KeyProposed n i) = PtrNonFinalized n i"

lemma resolve_block_key_inverse [simp]:
  "block_key_to_block_pointer (resolve_block_key p) = p"
  "resolve_block_key (block_key_to_block_pointer k) = k"
  by (cases p; simp) (cases k; simp)

lemma pointer_number_key [simp]: "pointer_number (block_key_to_block_pointer k) = seq_num k"
  by (cases k) auto

definition triedb_err :: "('w, string, 'a) io \<Rightarrow> ('w, 'a) source_io" where
  "triedb_err = io_map_err (\<lambda>e. Err (Internal e))"

definition triedb_resolve_commit_state ::
  "('w, 'h, 't, 'r) triedb_env \<Rightarrow> block_commit_state \<Rightarrow> ('w, block_pointer option) source_io" where
  "triedb_resolve_commit_state db c =
     io_bind (case c of
         AtProposed \<Rightarrow> io_read (te_latest_proposed db)
       | AtVoted \<Rightarrow> io_read (te_latest_voted db)
       | AtFinalized \<Rightarrow> io_bind (io_read (te_latest_finalized db)) (\<lambda>n. io_lift (Inr (KeyFinalized n))))
       (\<lambda>k. io_lift (Inr (Some (block_key_to_block_pointer k))))"

definition triedb_resolve_number ::
  "('w, 'h, 't, 'r) triedb_env \<Rightarrow> u64 \<Rightarrow> ('w, block_pointer option) source_io" where
  "triedb_resolve_number db n =
     io_bind (io_read (te_block_key db n)) (\<lambda>k. io_lift (Inr (map_option block_key_to_block_pointer k)))"

definition triedb_resolve_hash ::
  "('w, 'h, 't, 'r) triedb_env \<Rightarrow> b256 \<Rightarrow> ('w, block_pointer option) source_io" where
  "triedb_resolve_hash db h =
     io_bind (io_read (te_latest_proposed db)) (\<lambda>latest.
     io_bind (triedb_err (te_block_number_by_hash db latest h)) (\<lambda>n.
       case n of None \<Rightarrow> io_lift (Inr None) | Some block_number \<Rightarrow> triedb_resolve_number db block_number))"

text \<open>A header whose transactions cannot be read is a block that is still being synchronised.\<close>

definition triedb_source_block ::
  "('w, 'h, 't, 'r) triedb_env \<Rightarrow> block_pointer \<Rightarrow> ('w, ('h, 't) historical_block_data option) source_io" where
  "triedb_source_block db pointer =
     (let key = resolve_block_key pointer in
      io_bind (triedb_err (te_block_header db key)) (\<lambda>hd.
        case hd of
          None \<Rightarrow> io_lift (Inr None)
        | Some header \<Rightarrow> (\<lambda>w.
            case te_transactions db key w of
              (Inl _, w') \<Rightarrow> (Inr None, w')
            | (Inr transactions, w') \<Rightarrow>
                (Inr (Some \<lparr>hb_header = eh_header header, hb_header_hash_precomputed = Some (eh_hash header),
                            hb_transactions = transactions\<rparr>), w'))))"

definition triedb_source_header ::
  "('w, 'h, 't, 'r) triedb_env \<Rightarrow> block_pointer \<Rightarrow> ('w, 'h option) source_io" where
  "triedb_source_header db pointer =
     io_bind (triedb_err (te_block_header db (resolve_block_key pointer)))
       (\<lambda>hd. io_lift (Inr (map_option eh_header hd)))"

definition TriedbDataSource ::
  "('w, 'h, 't, 'r) triedb_env \<Rightarrow> ('w, 'h, 't) historical_data_source" where
  "TriedbDataSource db =
     \<lparr>ds_try_resolve_block_commit_state = triedb_resolve_commit_state db,
      ds_try_resolve_block_number = triedb_resolve_number db,
      ds_try_resolve_block_hash = triedb_resolve_hash db,
      ds_get_block = triedb_source_block db,
      ds_get_block_header = triedb_source_header db\<rparr>"

section \<open>The archive as a source\<close>

definition archive_err :: "('w, 'a) eyre_io \<Rightarrow> ('w, 'a) source_io" where
  "archive_err = io_map_err (report_fault Internal)"

definition get_block_from_archive ::
  "('w, 'h, 't, 'r, 'wd) archive_client \<Rightarrow> block_pointer \<Rightarrow> ('w, ('h, 't, 'wd) block option) source_io" where
  "get_block_from_archive ar pointer =
     archive_err (case pointer of
       PtrNonFinalized _ _ \<Rightarrow> io_lift (Inr None)
     | PtrFinalized n \<Rightarrow> ac_try_get_block_by_number ar n)"

definition archive_resolve_commit_state ::
  "('w, 'h, 't, 'r, 'wd) archive_client \<Rightarrow> block_commit_state \<Rightarrow> ('w, block_pointer option) source_io" where
  "archive_resolve_commit_state ar c =
     (case c of
        AtFinalized \<Rightarrow>
          io_bind (archive_err (ac_get_latest ar Uploaded)) (\<lambda>n. io_lift (Inr (map_option PtrFinalized n)))
      | _ \<Rightarrow> io_lift (Inr None))"

definition archive_resolve_hash ::
  "('w, 'h, 't, 'r, 'wd) archive_client \<Rightarrow> b256 \<Rightarrow> ('w, block_pointer option) source_io" where
  "archive_resolve_hash ar h =
     io_bind (archive_err (ac_try_get_block_number_by_hash ar h))
       (\<lambda>n. io_lift (Inr (map_option PtrFinalized n)))"

definition archive_source_block ::
  "('w, 'h, 't, 'r, 'wd) archive_client \<Rightarrow> block_pointer \<Rightarrow>
   ('w, ('h, 't) historical_block_data option) source_io" where
  "archive_source_block ar pointer =
     io_bind (get_block_from_archive ar pointer) (\<lambda>b. io_lift (Inr (map_option
       (\<lambda>block. \<lparr>hb_header = blk_header block, hb_header_hash_precomputed = None,
                 hb_transactions = blk_transactions block\<rparr>) b)))"

definition archive_source_header ::
  "('w, 'h, 't, 'r, 'wd) archive_client \<Rightarrow> block_pointer \<Rightarrow> ('w, 'h option) source_io" where
  "archive_source_header ar pointer =
     io_bind (get_block_from_archive ar pointer) (\<lambda>b. io_lift (Inr (map_option blk_header b)))"

definition ArchiveDataSource ::
  "('w, 'h, 't, 'r, 'wd) archive_client \<Rightarrow> ('w, 'h, 't) historical_data_source" where
  "ArchiveDataSource ar =
     \<lparr>ds_try_resolve_block_commit_state = archive_resolve_commit_state ar,
      ds_try_resolve_block_number = (\<lambda>n. io_lift (Inr (Some (PtrFinalized n)))),
      ds_try_resolve_block_hash = archive_resolve_hash ar,
      ds_get_block = archive_source_block ar,
      ds_get_block_header = archive_source_header ar\<rparr>"

section \<open>The stack\<close>

text \<open>Which errors end the search: \<open>Inl\<close> does, \<open>Inr\<close> lets it go on.\<close>

fun split_terminating_error :: "data_source_error \<Rightarrow> data_source_error + data_source_error" where
  "split_terminating_error (Internal m) = Inl (Internal m)"

fun execute_on_sources ::
  "'s list \<Rightarrow> ('s \<Rightarrow> ('w, 'a option) source_io) \<Rightarrow> ('w, 'a option) source_io" where
  "execute_on_sources [] f w = (Inr None, w)"
| "execute_on_sources (s # ss) f w =
     (case f s w of
        (Inr (Some v), w') \<Rightarrow> (Inr (Some v), w')
      | (Inr None, w') \<Rightarrow> execute_on_sources ss f w'
      | (Inl (Err e), w') \<Rightarrow>
          (case split_terminating_error e of
             Inl e' \<Rightarrow> (Inl (Err e'), w')
           | Inr _ \<Rightarrow> execute_on_sources ss f w')
      | (Inl (Abort r), w') \<Rightarrow> (Inl (Abort r), w'))"

definition DataSourceStack ::
  "('w, 'h, 't) historical_data_source list \<Rightarrow> ('w, 'h, 't) historical_data_source" where
  "DataSourceStack ss =
     \<lparr>ds_try_resolve_block_commit_state =
        (\<lambda>c. execute_on_sources ss (\<lambda>s. ds_try_resolve_block_commit_state s c)),
      ds_try_resolve_block_number = (\<lambda>n. execute_on_sources ss (\<lambda>s. ds_try_resolve_block_number s n)),
      ds_try_resolve_block_hash = (\<lambda>h. execute_on_sources ss (\<lambda>s. ds_try_resolve_block_hash s h)),
      ds_get_block = (\<lambda>p. execute_on_sources ss (\<lambda>s. ds_get_block s p)),
      ds_get_block_header = (\<lambda>p. execute_on_sources ss (\<lambda>s. ds_get_block_header s p))\<rparr>"

text \<open>
  The stack's own \<open>try_resolve_and_then\<close>: the first loop looks for a source that resolves the
  block and stays at it, the second asks that source and the ones after it.  The error of a source
  that does not end the search is kept and returned when nothing is found.
\<close>

definition nothing_found :: "data_source_error option \<Rightarrow> data_source_error fault + 'a option" where
  "nothing_found last_err = (case last_err of None \<Rightarrow> Inr None | Some e \<Rightarrow> Inl (Err e))"

definition get_or_insert :: "'a option \<Rightarrow> 'a \<Rightarrow> 'a option" where
  "get_or_insert last_err e = (case last_err of None \<Rightarrow> Some e | Some e0 \<Rightarrow> Some e0)"

fun serve_loop ::
  "'s list \<Rightarrow> data_source_error option \<Rightarrow> ('s \<Rightarrow> ('w, 'a option) source_io) \<Rightarrow> ('w, 'a option) source_io" where
  "serve_loop [] last_err f w = (nothing_found last_err, w)"
| "serve_loop (s # ss) last_err f w =
     (case f s w of
        (Inr (Some v), w') \<Rightarrow> (Inr (Some v), w')
      | (Inr None, w') \<Rightarrow> serve_loop ss last_err f w'
      | (Inl (Err e), w') \<Rightarrow>
          (case split_terminating_error e of
             Inl e' \<Rightarrow> (Inl (Err e'), w')
           | Inr e' \<Rightarrow> serve_loop ss (get_or_insert last_err e') f w')
      | (Inl (Abort r), w') \<Rightarrow> (Inl (Abort r), w'))"

fun resolve_loop ::
  "('w, 'h, 't) historical_data_source list \<Rightarrow> data_source_error option \<Rightarrow> block_tag_or_hash \<Rightarrow>
   (('w, 'h, 't) historical_data_source \<Rightarrow> block_pointer \<Rightarrow> ('w, 'a option) source_io) \<Rightarrow>
   ('w, 'a option) source_io" where
  "resolve_loop [] last_err block f w = (nothing_found last_err, w)"
| "resolve_loop (s # ss) last_err block f w =
     (case try_resolve s block w of
        (Inr (Some p), w') \<Rightarrow> serve_loop (s # ss) last_err (\<lambda>s. f s p) w'
      | (Inr None, w') \<Rightarrow> resolve_loop ss last_err block f w'
      | (Inl (Err e), w') \<Rightarrow>
          (case split_terminating_error e of
             Inl e' \<Rightarrow> (Inl (Err e'), w')
           | Inr e' \<Rightarrow> resolve_loop ss (get_or_insert last_err e') block f w')
      | (Inl (Abort r), w') \<Rightarrow> (Inl (Abort r), w'))"

definition stack_resolve_and_then ::
  "('w, 'h, 't) historical_data_source list \<Rightarrow> block_tag_or_hash \<Rightarrow>
   (('w, 'h, 't) historical_data_source \<Rightarrow> block_pointer \<Rightarrow> ('w, 'a option) source_io) \<Rightarrow>
   ('w, 'a option) source_io" where
  "stack_resolve_and_then ss block f = resolve_loop ss None block f"

section \<open>How the stack searches\<close>

text \<open>
  Every error ends the search, so the error kept for later is never there and the second loop is
  \<open>execute_on_sources\<close>.
\<close>

lemma split_terminating_error_Inl [simp]: "split_terminating_error e = Inl e"
  by (cases e) simp

lemma serve_loop_eq: "serve_loop ss None f = execute_on_sources ss f"
proof
  show "serve_loop ss None f w = execute_on_sources ss f w" for w
    by (induction ss arbitrary: w) (auto simp: nothing_found_def split: prod.split sum.split option.split fault.split)
qed

text \<open>The sources that do not know the block, asked one after the other.\<close>

fun unresolved ::
  "('w, 'h, 't) historical_data_source list \<Rightarrow> block_tag_or_hash \<Rightarrow> 'w \<Rightarrow> 'w \<Rightarrow> bool" where
  "unresolved [] block w w' \<longleftrightarrow> w' = w"
| "unresolved (s # ss) block w w' \<longleftrightarrow> fst (try_resolve s block w) = Inr None \<and>
     unresolved ss block (snd (try_resolve s block w)) w'"

lemma resolve_loop_unresolved:
  "unresolved pre block w w1 \<Longrightarrow> resolve_loop (pre @ ss) None block f w = resolve_loop ss None block f w1"
  by (induction pre arbitrary: w) (auto split: prod.split)

lemma stack_unresolved:
  assumes "unresolved ss block w w'"
  shows "stack_resolve_and_then ss block f w = (Inr None, w')"
  using resolve_loop_unresolved [OF assms, of "[]" f]
  by (simp add: stack_resolve_and_then_def nothing_found_def)

lemma stack_resolved:
  assumes "unresolved pre block w w1" "try_resolve s block w1 = (Inr (Some p), w2)"
  shows "stack_resolve_and_then (pre @ s # post) block f w = execute_on_sources (s # post) (\<lambda>s. f s p) w2"
  unfolding stack_resolve_and_then_def resolve_loop_unresolved [OF assms(1)]
  by (simp add: assms(2) serve_loop_eq del: serve_loop.simps execute_on_sources.simps)

lemma stack_failed:
  assumes "unresolved pre block w w1" "try_resolve s block w1 = (Inl e, w2)"
  shows "stack_resolve_and_then (pre @ s # post) block f w = (Inl e, w2)"
  unfolding stack_resolve_and_then_def resolve_loop_unresolved [OF assms(1)]
  by (cases e) (simp_all add: assms(2))

text \<open>One of the three always applies.\<close>

lemma unresolved_cases:
  obtains (none) w' where "unresolved ss block w w'"
  | (some) pre s post w1 p w2 where "ss = pre @ s # post" "unresolved pre block w w1"
      "try_resolve s block w1 = (Inr (Some p), w2)"
  | (fail) pre s post w1 e w2 where "ss = pre @ s # post" "unresolved pre block w w1"
      "try_resolve s block w1 = (Inl e, w2)"
proof (induction ss arbitrary: w thesis)
  case Nil
  then show ?case by simp
next
  case (Cons s ss)
  obtain r w1 where r: "try_resolve s block w = (r, w1)" by fastforce
  consider (e) e where "r = Inl e" | (n) "r = Inr None" | (p) p where "r = Inr (Some p)"
    by (metis sum.exhaust option.exhaust)
  then show ?case
  proof cases
    case e
    with r show ?thesis by (intro Cons.prems(3) [of "[]" s ss w]) simp_all
  next
    case p
    with r show ?thesis by (intro Cons.prems(2) [of "[]" s ss w]) simp_all
  next
    case n
    show ?thesis
    proof (rule Cons.IH [of w1])
      fix w'
      assume "unresolved ss block w1 w'"
      with r n Cons.prems(1) [of w'] show thesis by simp
    next
      fix pre t post w2 p w3
      assume "ss = pre @ t # post" "unresolved pre block w1 w2" "try_resolve t block w2 = (Inr (Some p), w3)"
      with r n Cons.prems(2) [of "s # pre" t post w2 p w3] show thesis by simp
    next
      fix pre t post w2 e w3
      assume "ss = pre @ t # post" "unresolved pre block w1 w2" "try_resolve t block w2 = (Inl e, w3)"
      with r n Cons.prems(3) [of "s # pre" t post w2 e w3] show thesis by simp
    qed
  qed
qed

section \<open>The contract of a source\<close>

text \<open>A call that keeps \<open>I\<close> and can only return values with \<open>P\<close>.\<close>

definition yields :: "('w \<Rightarrow> bool) \<Rightarrow> ('w, 'e, 'a) io \<Rightarrow> ('a \<Rightarrow> bool) \<Rightarrow> bool" where
  "yields I f P \<longleftrightarrow> (\<forall>w r w'. I w \<longrightarrow> f w = (r, w') \<longrightarrow> I w' \<and> (\<forall>a. r = Inr a \<longrightarrow> P a))"

abbreviation answers :: "('w \<Rightarrow> bool) \<Rightarrow> ('w, 'e, 'a option) io \<Rightarrow> ('a \<Rightarrow> bool) \<Rightarrow> bool" where
  "answers I f P \<equiv> yields I f (\<lambda>x. \<forall>a. x = Some a \<longrightarrow> P a)"

lemma yieldsD:
  assumes "yields I f P" "I w" "f w = (r, w')"
  shows "I w'" and "r = Inr a \<Longrightarrow> P a"
  using assms unfolding yields_def by blast+

lemma answersD:
  assumes "answers I f P" "I w" "f w = (r, w')"
  shows "I w'" and "r = Inr (Some a) \<Longrightarrow> P a"
  using yieldsD [OF assms] by blast+

lemma yields_mono: "yields I f P \<Longrightarrow> (\<And>a. P a \<Longrightarrow> Q a) \<Longrightarrow> yields I f Q"
  unfolding yields_def by blast

lemma answers_mono: "answers I f P \<Longrightarrow> (\<And>a. P a \<Longrightarrow> Q a) \<Longrightarrow> answers I f Q"
  by (erule yields_mono) blast

lemma yields_lift: "(\<And>a. r = Inr a \<Longrightarrow> P a) \<Longrightarrow> yields I (io_lift r) P"
  by (auto simp: yields_def)

lemma yields_bind:
  assumes "yields I f P" "\<And>a. P a \<Longrightarrow> yields I (g a) Q"
  shows "yields I (io_bind f g) Q"
  unfolding yields_def
proof (intro allI impI)
  fix w r w'
  assume w: "I w" and "io_bind f g w = (r, w')"
  from this(2) show "I w' \<and> (\<forall>b. r = Inr b \<longrightarrow> Q b)"
  proof (cases rule: io_bind_cases)
    case (fail e)
    with yieldsD(1) [OF assms(1) w fail(1)] show ?thesis by simp
  next
    case (ok a w1)
    from yieldsD [OF assms(1) w ok(1)] have "I w1" "P a" by auto
    from yieldsD [OF assms(2) [OF this(2)] this(1) ok(2)] show ?thesis by blast
  qed
qed

lemma yields_map_err: "yields I f P \<Longrightarrow> yields I (io_map_err g f) P"
  unfolding yields_def io_map_err_iff by (metis map_err_Inr_iff)

lemma yields_read: "(\<And>w a w'. I w \<Longrightarrow> f w = (a, w') \<Longrightarrow> I w' \<and> P a) \<Longrightarrow> yields I (io_read f) P"
  by (auto simp: yields_def io_read_iff)

lemma yields_upholds: "yields I f P \<longleftrightarrow> upholds I (\<lambda>_ _. True) f (\<lambda>a _. P a)"
  by (simp add: yields_def upholds_def)

lemma execute_on_sources_answers:
  assumes "\<And>s. s \<in> set ss \<Longrightarrow> answers I (f s) P"
  shows "answers I (execute_on_sources ss f) P"
  unfolding yields_def
proof (intro allI impI)
  show "I w' \<and> (\<forall>x. r = Inr x \<longrightarrow> (\<forall>a. x = Some a \<longrightarrow> P a))" if "I w" "execute_on_sources ss f w = (r, w')" for w r w'
    using assms that
  proof (induction ss arbitrary: w)
    case (Cons s ss)
    obtain q w1 where q: "f s w = (q, w1)" by fastforce
    note 1 = answersD [OF Cons.prems(1) [of s] Cons.prems(2) q, simplified]
    show ?case
    proof (cases "q = Inr None")
      case True
      with q Cons.prems(3) have "execute_on_sources ss f w1 = (r, w')" by simp
      from Cons.IH [OF _ 1(1) this] Cons.prems(1) show ?thesis by simp
    next
      case False
      with q Cons.prems(3) 1 show ?thesis
        by (auto split: sum.splits option.splits fault.splits)
    qed
  qed auto
qed

text \<open>
  What a client relies on: \<open>chain p\<close> is the header and the transactions of the block \<open>p\<close> points to,
  \<open>hash_of\<close> the hash of a header, and \<open>I\<close> what holds of the world while a request runs.
\<close>

locale historical_source =
  fixes I :: "'w \<Rightarrow> bool" and hash_of :: "'h \<Rightarrow> b256"
    and chain :: "block_pointer \<Rightarrow> 'h \<times> 't tx_envelope_with_sender list"
    and src :: "('w, 'h, 't) historical_data_source"
  assumes resolves_state: "yields I (ds_try_resolve_block_commit_state src c) (\<lambda>_. True)"
    and resolves_number: "answers I (ds_try_resolve_block_number src n) (\<lambda>p. pointer_number p = n)"
    and resolves_hash: "answers I (ds_try_resolve_block_hash src h) (\<lambda>p. hash_of (fst (chain p)) = h)"
    and serves_block: "answers I (ds_get_block src p) (\<lambda>d.
      hb_header d = fst (chain p) \<and> hb_transactions d = snd (chain p) \<and>
      (\<forall>h. hb_header_hash_precomputed d = Some h \<longrightarrow> h = hash_of (fst (chain p))))"
    and serves_header: "answers I (ds_get_block_header src p) (\<lambda>h. h = fst (chain p))"

text \<open>
  The pointers a source on its own may resolve a request to: for a tag each source has its own latest block.
  Which of them answers a tag is decided by the order of the sources (\<open>stack_head_answers\<close>).
\<close>

fun names :: "('h \<Rightarrow> b256) \<Rightarrow> (block_pointer \<Rightarrow> 'h \<times> 'x) \<Rightarrow> block_tag_or_hash \<Rightarrow> block_pointer \<Rightarrow> bool" where
  "names hash_of chain (BlockTags (TagNumber n)) p \<longleftrightarrow> pointer_number p = n"
| "names hash_of chain (BlockTags _) p \<longleftrightarrow> True"
| "names hash_of chain (HashRef h) p \<longleftrightarrow> hash_of (fst (chain p)) = h"

context historical_source
begin

lemma try_resolve_names: "answers I (try_resolve src block) (names hash_of chain block)"
  by (cases "(src, block)" rule: try_resolve.cases)
    (auto intro: yields_mono [OF resolves_state] answers_mono [OF resolves_number] answers_mono [OF resolves_hash])

end

text \<open>A stack of sources that honour the contract honours it.\<close>

locale historical_stack =
  fixes I :: "'w \<Rightarrow> bool" and hash_of :: "'h \<Rightarrow> b256"
    and chain :: "block_pointer \<Rightarrow> 'h \<times> 't tx_envelope_with_sender list"
    and ss :: "('w, 'h, 't) historical_data_source list"
  assumes each: "s \<in> set ss \<Longrightarrow> historical_source I hash_of chain s"

sublocale historical_stack \<subseteq> stack: historical_source I hash_of chain "DataSourceStack ss"
  using execute_on_sources_answers [where P = "\<lambda>_. True", of ss I "\<lambda>s. ds_try_resolve_block_commit_state s _"]
  by unfold_locales
    (auto simp: DataSourceStack_def intro!: execute_on_sources_answers dest!: each
      intro: historical_source.resolves_state historical_source.resolves_number
        historical_source.resolves_hash historical_source.serves_block historical_source.serves_header)

context historical_stack
begin

lemma unresolved_keeps: "unresolved pre block w w' \<Longrightarrow> set pre \<subseteq> set ss \<Longrightarrow> I w \<Longrightarrow> I w'"
proof (induction pre arbitrary: w)
  case (Cons s pre)
  obtain r w1 where r: "try_resolve s block w = (r, w1)" by fastforce
  have "historical_source I hash_of chain s" using Cons.prems(2) by (simp add: each)
  from answersD(1) [OF historical_source.try_resolve_names [OF this] Cons.prems(3) r]
  show ?case using Cons.IH [of w1] Cons.prems(1,2) r by simp
qed simp

text \<open>
  Whatever source resolves the block and whatever source answers, the answer is the one for a
  pointer the request names.
\<close>

lemma stack_answers:
  assumes f: "\<And>s p. s \<in> set ss \<Longrightarrow> answers I (f s p) (Q p)"
  shows "answers I (stack_resolve_and_then ss block f) (\<lambda>a. \<exists>p. names hash_of chain block p \<and> Q p a)"
  unfolding yields_def
proof (intro allI impI)
  fix w r w'
  assume w: "I w" and run: "stack_resolve_and_then ss block f w = (r, w')"
  show "I w' \<and> (\<forall>x. r = Inr x \<longrightarrow> (\<forall>a. x = Some a \<longrightarrow> (\<exists>p. names hash_of chain block p \<and> Q p a)))"
  proof (cases rule: unresolved_cases [of ss block w])
    case (none w1)
    with run stack_unresolved [OF none, of f] unresolved_keeps [OF none] w show ?thesis by auto
  next
    case (some pre s post w1 p w2)
    have "I w1" using unresolved_keeps [OF some(2)] some(1) w by auto
    from answersD [OF historical_source.try_resolve_names [OF each [of s]] this some(3)] some(1)
    have 1: "I w2" "names hash_of chain block p" by auto
    have 2: "execute_on_sources (s # post) (\<lambda>s. f s p) w2 = (r, w')"
      using run stack_resolved [OF some(2,3)] some(1) by metis
    have "answers I (execute_on_sources (s # post) (\<lambda>s. f s p)) (Q p)"
      using f some(1) by (intro execute_on_sources_answers) auto
    from answersD [OF this 1(1) 2] 1(2) show ?thesis by blast
  next
    case (fail pre s post w1 e w2)
    have "I w1" using unresolved_keeps [OF fail(2)] fail(1) w by auto
    from answersD [OF historical_source.try_resolve_names [OF each [of s]] this fail(3)] fail(1)
    have "I w2" by auto
    with run stack_failed [OF fail(2,3), of post f] fail(1) show ?thesis by auto
  qed
qed

text \<open>When the first source resolves every request of this form, its pointer is the one that is answered.\<close>

lemma stack_head_answers:
  assumes ss: "ss = s # rest" and head: "yields I (try_resolve s block) (\<lambda>x. \<exists>p. x = Some p \<and> N p)"
    and f: "\<And>s p. s \<in> set ss \<Longrightarrow> answers I (f s p) (Q p)"
  shows "answers I (stack_resolve_and_then ss block f) (\<lambda>a. \<exists>p. N p \<and> Q p a)"
  unfolding yields_def
proof (intro allI impI)
  fix w r w'
  assume w: "I w" and run: "stack_resolve_and_then ss block f w = (r, w')"
  obtain x w1 where x: "try_resolve s block w = (x, w1)" by fastforce
  have start: "unresolved [] block w w" by simp
  note 1 = yieldsD [OF head w x]
  show "I w' \<and> (\<forall>y. r = Inr y \<longrightarrow> (\<forall>a. y = Some a \<longrightarrow> (\<exists>p. N p \<and> Q p a)))"
  proof (cases x)
    case (Inl e)
    with stack_failed [OF start, of s e w1 rest f] x run ss 1(1) show ?thesis by auto
  next
    case (Inr y)
    with 1(2) obtain p where p: "y = Some p" "N p" by blast
    have "execute_on_sources ss (\<lambda>s. f s p) w1 = (r, w')"
      using stack_resolved [OF start, of s p w1 rest f] x run ss Inr p(1) by simp
    from answersD [OF execute_on_sources_answers [OF f] 1(1) this] p(2) show ?thesis by blast
  qed
qed

end

section \<open>The execution database honours it\<close>

text \<open>
  A database that answers for one chain while a request runs; \<open>canon n\<close> is the block with number
  \<open>n\<close> that it holds for canonical, and \<open>tip c\<close> its latest block of a commit state.
\<close>

locale triedb_serving =
  fixes I :: "'w \<Rightarrow> bool" and hash_of :: "'h \<Rightarrow> b256"
    and chain :: "block_pointer \<Rightarrow> 'h \<times> 't tx_envelope_with_sender list"
    and canon :: "u64 \<Rightarrow> block_pointer" and tip :: "block_commit_state \<Rightarrow> block_pointer" and db :: "('w, 'h, 't, 'r) triedb_env"
  assumes canon_number: "pointer_number (canon n) = n"
    and latest_proposed: "I w \<Longrightarrow> te_latest_proposed db w = (kp, w') \<Longrightarrow>
      I w' \<and> block_key_to_block_pointer kp = tip AtProposed"
    and latest_voted: "I w \<Longrightarrow> te_latest_voted db w = (kp, w') \<Longrightarrow>
      I w' \<and> block_key_to_block_pointer kp = tip AtVoted"
    and latest_finalized: "I w \<Longrightarrow> te_latest_finalized db w = (nf, w') \<Longrightarrow>
      I w' \<and> PtrFinalized nf = tip AtFinalized"
    and key: "I w \<Longrightarrow> te_block_key db n w = (ko, w') \<Longrightarrow>
      I w' \<and> (\<forall>x. ko = Some x \<longrightarrow> block_key_to_block_pointer x = canon n)"
    and by_hash: "answers I (te_block_number_by_hash db latest h) (\<lambda>n. hash_of (fst (chain (canon n))) = h)"
    and header: "answers I (te_block_header db k) (\<lambda>x.
      eh_header x = fst (chain (block_key_to_block_pointer k)) \<and> eh_hash x = hash_of (eh_header x))"
    and transactions: "yields I (te_transactions db k) (\<lambda>ts. ts = snd (chain (block_key_to_block_pointer k)))"
begin

lemma latest_yields:
  "yields I (io_read (te_latest_proposed db)) (\<lambda>k. block_key_to_block_pointer k = tip AtProposed)"
  "yields I (io_read (te_latest_voted db)) (\<lambda>k. block_key_to_block_pointer k = tip AtVoted)"
  "yields I (io_read (te_latest_finalized db)) (\<lambda>n. PtrFinalized n = tip AtFinalized)"
  by (auto intro!: yields_read dest: latest_proposed latest_voted latest_finalized)

lemma resolve_number: "answers I (triedb_resolve_number db n) (\<lambda>p. p = canon n)"
  unfolding triedb_resolve_number_def
  by (rule yields_bind [OF yields_read [where P = "\<lambda>k. \<forall>x. k = Some x \<longrightarrow> block_key_to_block_pointer x = canon n"]])
     (auto dest: key intro: yields_lift)

lemma resolve_hash: "answers I (triedb_resolve_hash db h) (\<lambda>p. hash_of (fst (chain p)) = h)"
  unfolding triedb_resolve_hash_def triedb_err_def
  by (rule yields_bind [OF latest_yields(1)], rule yields_bind [OF yields_map_err [OF by_hash]])
     (auto intro!: yields_lift intro: answers_mono [OF resolve_number] split: option.split)

lemma resolve_state: "yields I (triedb_resolve_commit_state db c) (\<lambda>x. x = Some (tip c))"
  unfolding triedb_resolve_commit_state_def
proof (rule yields_bind [where P = "\<lambda>k. block_key_to_block_pointer k = tip c"])
  show "yields I (case c of
         AtProposed \<Rightarrow> io_read (te_latest_proposed db)
       | AtVoted \<Rightarrow> io_read (te_latest_voted db)
       | AtFinalized \<Rightarrow> io_bind (io_read (te_latest_finalized db)) (\<lambda>n. io_lift (Inr (KeyFinalized n))))
     (\<lambda>k. block_key_to_block_pointer k = tip c)"
    by (cases c) (auto intro!: yields_lift yields_bind [OF latest_yields(3)] simp: latest_yields(1,2))
qed (auto intro: yields_lift)

lemma source_block: "answers I (triedb_source_block db p) (\<lambda>d.
    hb_header d = fst (chain p) \<and> hb_transactions d = snd (chain p) \<and>
    (\<forall>h. hb_header_hash_precomputed d = Some h \<longrightarrow> h = hash_of (fst (chain p))))"
  unfolding triedb_source_block_def Let_def triedb_err_def
proof (rule yields_bind [OF yields_map_err [OF header]])
  let ?k = "resolve_block_key p"
  let ?P = "\<lambda>d. hb_header d = fst (chain p) \<and> hb_transactions d = snd (chain p) \<and>
    (\<forall>h. hb_header_hash_precomputed d = Some h \<longrightarrow> h = hash_of (fst (chain p)))"
  fix hd
  assume hd: "\<forall>x. hd = Some x \<longrightarrow> eh_header x = fst (chain (block_key_to_block_pointer ?k)) \<and>
      eh_hash x = hash_of (eh_header x)"
  show "answers I (case hd of None \<Rightarrow> io_lift (Inr None)
      | Some header \<Rightarrow> (\<lambda>w. case te_transactions db ?k w of (Inl _, w') \<Rightarrow> (Inr None, w')
          | (Inr ts, w') \<Rightarrow> (Inr (Some \<lparr>hb_header = eh_header header,
              hb_header_hash_precomputed = Some (eh_hash header), hb_transactions = ts\<rparr>), w'))) ?P"
  proof (cases hd)
    case (Some header)
    with hd transactions [of ?k] show ?thesis
      by (auto simp: yields_def split: prod.splits sum.splits)
  qed (auto intro: yields_lift)
qed

lemma source_header: "answers I (triedb_source_header db p) (\<lambda>h. h = fst (chain p))"
  unfolding triedb_source_header_def triedb_err_def
  by (rule yields_bind [OF yields_map_err [OF header]]) (auto intro!: yields_lift)

end

sublocale triedb_serving \<subseteq> triedb: historical_source I hash_of chain "TriedbDataSource db"
  using canon_number
  by unfold_locales
    (auto simp: TriedbDataSource_def resolve_hash source_block source_header
      intro: answers_mono [OF resolve_number] yields_mono [OF resolve_state])

context triedb_serving
begin

lemma triedb_is_source: "historical_source I hash_of chain (TriedbDataSource db)"
  by unfold_locales

end

section \<open>The archive honours it\<close>

locale archive_serving =
  fixes I :: "'w \<Rightarrow> bool" and hash_of :: "'h \<Rightarrow> b256"
    and chain :: "block_pointer \<Rightarrow> 'h \<times> 't tx_envelope_with_sender list"
    and ar :: "('w, 'h, 't, 'r, 'wd) archive_client"
  assumes latest: "yields I (ac_get_latest ar k) (\<lambda>_. True)"
    and number_by_hash: "answers I (ac_try_get_block_number_by_hash ar h)
      (\<lambda>n. hash_of (fst (chain (PtrFinalized n))) = h)"
    and block_by_number: "answers I (ac_try_get_block_by_number ar n)
      (\<lambda>b. blk_header b = fst (chain (PtrFinalized n)) \<and> blk_transactions b = snd (chain (PtrFinalized n)))"
begin

lemma block_from_archive:
  "answers I (get_block_from_archive ar p) (\<lambda>b. blk_header b = fst (chain p) \<and> blk_transactions b = snd (chain p))"
  unfolding get_block_from_archive_def archive_err_def
  by (cases p) (auto intro: yields_map_err yields_lift yields_mono [OF block_by_number])

lemma archive_block_answers: "answers I (archive_source_block ar p) (\<lambda>d.
    hb_header d = fst (chain p) \<and> hb_transactions d = snd (chain p) \<and> hb_header_hash_precomputed d = None)"
  unfolding archive_source_block_def
  by (rule yields_bind [OF block_from_archive]) (auto intro!: yields_lift)

lemma archive_header_answers: "answers I (archive_source_header ar p) (\<lambda>h. h = fst (chain p))"
  unfolding archive_source_header_def
  by (rule yields_bind [OF block_from_archive]) (auto intro!: yields_lift)

lemma archive_hash_answers: "answers I (archive_resolve_hash ar h) (\<lambda>p. hash_of (fst (chain p)) = h)"
  unfolding archive_resolve_hash_def archive_err_def
  by (rule yields_bind [OF yields_map_err [OF number_by_hash]]) (auto intro!: yields_lift)

lemma archive_state_answers: "yields I (archive_resolve_commit_state ar c) (\<lambda>_. True)"
  unfolding archive_resolve_commit_state_def archive_err_def
  by (cases c) (auto intro: yields_bind [OF yields_map_err [OF latest]] yields_lift)

end

sublocale archive_serving \<subseteq> archive: historical_source I hash_of chain "ArchiveDataSource ar"
  by unfold_locales
    (auto simp: ArchiveDataSource_def archive_hash_answers archive_state_answers archive_header_answers
      intro: yields_lift answers_mono [OF archive_block_answers])

context archive_serving
begin

lemma archive_is_source: "historical_source I hash_of chain (ArchiveDataSource ar)"
  by unfold_locales

end

text \<open>
  An \<open>ArchiveReader\<close> whose block data readers answer with the blocks of the chain serves it, whatever
  its circuit breaker decides.
\<close>

definition reader_truthful ::
  "('w \<Rightarrow> bool) \<Rightarrow> ('h \<Rightarrow> b256) \<Rightarrow> (u64 \<Rightarrow> ('h, 't, 'wd) block) \<Rightarrow> ('w, 'h, 't, 'r, 'wd) block_data_reader \<Rightarrow> bool" where
  "reader_truthful I hash_of blk rd \<longleftrightarrow>
     (\<forall>k. yields I (br_get_latest rd k) (\<lambda>_. True)) \<and>
     (\<forall>h. answers I (br_try_get_block_number_by_hash rd h) (\<lambda>n. hash_of (blk_header (blk n)) = h)) \<and>
     (\<forall>n. answers I (br_try_get_block_by_number rd n) (\<lambda>b. b = blk n))"

definition facade_truthful ::
  "('w \<Rightarrow> bool) \<Rightarrow> ('h \<Rightarrow> b256) \<Rightarrow> (u64 \<Rightarrow> ('h, 't, 'wd) block) \<Rightarrow> ('w, 'h, 't, 'r, 'wd) archive_reader_state \<Rightarrow> bool" where
  "facade_truthful I hash_of blk a \<longleftrightarrow>
     reader_truthful I hash_of blk (fe_primary (ar_block_data_executor a)) \<and>
     (\<forall>f. fe_fallback (ar_block_data_executor a) = Some f \<longrightarrow> reader_truthful I hash_of blk f)"

lemma facade_yields:
  assumes "\<And>rd. reader_truthful I hash_of blk rd \<Longrightarrow> yields I (f rd) P"
  shows "yields (\<lambda>(a, w). I w \<and> facade_truthful I hash_of blk a) (paired (on_block_data clock f)) P"
  unfolding yields_def
proof (intro allI impI)
  fix aw r aw'
  assume "case aw of (a, w) \<Rightarrow> I w \<and> facade_truthful I hash_of blk a" and "paired (on_block_data clock f) aw = (r, aw')"
  then obtain a w a' w' where aw: "aw = (a, w)" "aw' = (a', w')" "I w" "facade_truthful I hash_of blk a"
    and run: "on_block_data clock f a w = (r, a', w')"
    by (cases aw; cases aw') (auto simp: paired_def)
  then obtain ex where ex: "execute clock f (ar_block_data_executor a) w = (r, ex, w')"
    "a' = a\<lparr>ar_block_data_executor := ex\<rparr>"
    by (auto simp: on_block_data_def split: prod.splits)
  have "upholds I (\<lambda>_ _. True) (f (fe_primary (ar_block_data_executor a))) (\<lambda>x _. P x)"
    "\<And>p. fe_fallback (ar_block_data_executor a) = Some p \<Longrightarrow> upholds I (\<lambda>_ _. True) (f p) (\<lambda>x _. P x)"
    using aw(4) assms by (auto simp: facade_truthful_def simp flip: yields_upholds)
  from execute_upholds [OF _ this aw(3) ex(1)] ex(2) aw
  show "(case aw' of (a, w) \<Rightarrow> I w \<and> facade_truthful I hash_of blk a) \<and> (\<forall>a. r = Inr a \<longrightarrow> P a)"
    by (auto simp: transp_def facade_truthful_def)
qed

lemma ArchiveReader_serving:
  assumes "\<And>n. chain (PtrFinalized n) = (blk_header (blk n), blk_transactions (blk n))"
  shows "archive_serving (\<lambda>(a, w). I w \<and> facade_truthful I hash_of blk a) hash_of chain (ArchiveReader_client A C clock)"
proof
  let ?I = "\<lambda>(a, w). I w \<and> facade_truthful I hash_of blk a"
  note defs = ArchiveReader_client_def ArchiveReader_get_latest_def ArchiveReader_try_get_block_number_by_hash_def
    ArchiveReader_try_get_block_by_number_def
  show "yields ?I (ac_get_latest (ArchiveReader_client A C clock) k) (\<lambda>_. True)" for k
    by (simp add: defs) (rule facade_yields, simp add: reader_truthful_def)
  show "answers ?I (ac_try_get_block_number_by_hash (ArchiveReader_client A C clock) h)
      (\<lambda>n. hash_of (fst (chain (PtrFinalized n))) = h)" for h
    by (simp add: defs assms) (rule facade_yields, simp add: reader_truthful_def)
  show "answers ?I (ac_try_get_block_by_number (ArchiveReader_client A C clock) n)
      (\<lambda>b. blk_header b = fst (chain (PtrFinalized n)) \<and> blk_transactions b = snd (chain (PtrFinalized n)))" for n
    by (simp add: defs assms, rule facade_yields, rule answers_mono [where P = "\<lambda>b. b = blk n"])
       (simp_all add: reader_truthful_def)
qed

text \<open>The block data archive of a store that holds the chain's blocks and their hashes.\<close>

lemma archive_reader_truthful:
  fixes st :: "'w kv_store"
  assumes kv: "kv_reading st winv kv" and A: "alloy_laws A"
    and faith: "\<And>w. winv w \<Longrightarrow> archive_faithful A (BlockDataArchive_new st) blk rcp trc (kv w)"
    and withdrawals: "\<And>n. blk_withdrawals (blk n) \<noteq> None"
    and hashes: "\<And>w h v. winv w \<Longrightarrow> kv w (archive_block_hash_key A (BlockDataArchive_new st) h) = Some v \<Longrightarrow>
      \<exists>n. v = as_bytes (word_to_string n) \<and> al_hash_slow A (blk_header (blk n)) = h"
  shows "reader_truthful winv (al_hash_slow A) blk (archive_reader A (BlockDataArchive_new st))"
proof -
  let ?ar = "BlockDataArchive_new st"
  have entry: "answers winv (read_entry ctx st k dec) P"
    if "\<And>w v x. winv w \<Longrightarrow> kv w k = Some v \<Longrightarrow> dec v = Inr x \<Longrightarrow> P x" for ctx k and dec :: "bytes \<Rightarrow> 'x eyre" and P
    unfolding yields_def
  proof (intro allI impI)
    fix w r w'
    assume w: "winv w" "read_entry ctx st k dec w = (r, w')"
    from kv_reading.read_entry_spec [OF kv w] that [OF w(1)]
    show "winv w' \<and> (\<forall>x. r = Inr x \<longrightarrow> (\<forall>a. x = Some a \<longrightarrow> P a))"
      by (cases "kv w k") (auto simp: map_transpose_def res_bind_Inr_iff)
  qed
  have "yields winv (archive_get_latest ?ar k) (\<lambda>_. True)" for k
    unfolding archive_get_latest_def bda_store_new by (rule yields_mono, rule entry, rule TrueI, rule TrueI)
  moreover have "answers winv (archive_try_get_block_number_by_hash A ?ar h)
      (\<lambda>n. al_hash_slow A (blk_header (blk n)) = h)" for h
    unfolding archive_try_get_block_number_by_hash_def bda_store_new
  proof (rule entry)
    fix w v x
    assume "winv w" "kv w (archive_block_hash_key A ?ar h) = Some v" and x: "parse_number v = Inr x"
    from hashes [OF this(1,2)] obtain n where n: "v = as_bytes (word_to_string n)"
      "al_hash_slow A (blk_header (blk n)) = h" by blast
    with x have "x = n" by (simp add: parse_number_def codec_simps)
    with n(2) show "al_hash_slow A (blk_header (blk x)) = h" by simp
  qed
  moreover have "answers winv (archive_try_get_block_by_number A ?ar n) (\<lambda>b. b = blk n)" for n
    unfolding archive_try_get_block_by_number_def bda_store_new
    by (rule entry) (simp add: archive_faithful_decodes(1) [OF faith A withdrawals])
  ultimately show ?thesis by (simp add: reader_truthful_def archive_reader_def)
qed

text \<open>A reader over memory stores.\<close>

interpretation sample_client: archive_serving
  "\<lambda>(a, w). memory_ok w \<and> facade_truthful memory_ok (al_hash_slow sample_alloy) sample_chain a" "al_hash_slow sample_alloy"
  "\<lambda>p. (blk_header (sample_chain (pointer_number p)), blk_transactions (sample_chain (pointer_number p)))"
  "ArchiveReader_client sample_alloy codecs clock"
  by (rule ArchiveReader_serving) simp

end
