(* ===== verification/Data_Provider.thy ===== *)
theory Data_Provider
  imports Data_Sources
begin

text \<open>
  The chain data provider of the RPC server (\<open>data/mod.rs\<close>): each read asks the buffer of recent
  blocks, then the execution database, then the archive.  The operations on Alloy values that the
  code calls are the fields of \<open>alloy\<close> and \<open>rpc_alloy\<close>.  The buffer is the snapshot a request
  reads.
\<close>

section \<open>Values of the answers\<close>

datatype receipt_type = Legacy | Eip2930 | Eip1559 | Eip4844 | Eip7702

record 'l receipt_envelope =
  re_type :: receipt_type
  re_status :: bool
  re_cumulative_gas_used :: u64
  re_logs :: "'l list"
  re_logs_bloom :: bytes

record 'l rpc_log =
  rl_inner :: 'l
  rl_block_hash :: "b256 option"
  rl_block_number :: "u64 option"
  rl_block_timestamp :: "u64 option"
  rl_transaction_hash :: "b256 option"
  rl_transaction_index :: "u64 option"
  rl_log_index :: "u64 option"
  rl_removed :: bool

record 'l transaction_receipt =
  tr_inner :: "'l rpc_log receipt_envelope"
  tr_transaction_hash :: b256
  tr_transaction_index :: "u64 option"
  tr_block_hash :: "b256 option"
  tr_block_number :: "u64 option"
  tr_from :: address
  tr_to :: "address option"
  tr_contract_address :: "address option"
  tr_gas_used :: u64
  tr_effective_gas_price :: nat
  tr_blob_gas_used :: "u64 option"
  tr_blob_gas_price :: "nat option"

record 't rpc_transaction =
  rt_tx :: 't
  rt_sender :: address
  rt_block_hash :: "b256 option"
  rt_block_number :: "u64 option"
  rt_block_timestamp :: "u64 option"
  rt_effective_gas_price :: "nat option"
  rt_transaction_index :: "u64 option"

record 'h rpc_header =
  rh_inner :: 'h
  rh_total_difficulty :: "b256 option"
  rh_size :: "b256 option"

datatype 't block_transactions = Full 't | Hashes "b256 list"

record ('h, 't) rpc_block =
  rb_header :: "'h rpc_header buffer_header"
  rb_transactions :: "'t rpc_transaction list block_transactions"
  rb_uncles :: "b256 list"
  rb_withdrawals :: "unit option"

record ('h, 't) rpc_alloy =
  rx_effective_gas_price :: "'t \<Rightarrow> u64 option \<Rightarrow> nat"
  rx_is_create :: "'t \<Rightarrow> bool"
  rx_nonce :: "'t \<Rightarrow> u64"
  rx_to :: "'t \<Rightarrow> address option"
  rx_create :: "address \<Rightarrow> u64 \<Rightarrow> address"
  rx_header_length :: "'h \<Rightarrow> u64"
  rx_tx_length :: "'t \<Rightarrow> u64"
  rx_length_of_length :: "u64 \<Rightarrow> u64"
  rx_difficulty :: "'h \<Rightarrow> b256"
  rx_logs_bloom :: "'h \<Rightarrow> bytes"

type_synonym 'l archived_receipt = "'l receipt_envelope receipt_with_log_index"

section \<open>Building answers\<close>

definition parse_tx_content ::
  "('h, 't) rpc_alloy \<Rightarrow> b256 \<Rightarrow> u64 \<Rightarrow> u64 \<Rightarrow> u64 option \<Rightarrow> 't tx_envelope_with_sender \<Rightarrow> u64 \<Rightarrow>
   't rpc_transaction" where
  "parse_tx_content X block_hash block_number block_timestamp base_fee tx tx_index =
     \<lparr>rt_tx = tx_envelope tx, rt_sender = tx_sender tx, rt_block_hash = Some block_hash,
      rt_block_number = Some block_number, rt_block_timestamp = Some block_timestamp,
      rt_effective_gas_price = Some (rx_effective_gas_price X (tx_envelope tx) base_fee),
      rt_transaction_index = Some tx_index\<rparr>"

definition calculate_block_size ::
  "('h, 't) rpc_alloy \<Rightarrow> 'h \<Rightarrow> 't tx_envelope_with_sender list \<Rightarrow> u64" where
  "calculate_block_size X header transactions =
     (let header_len = rx_header_length X header;
          txs_payload_len = sum_list (map (\<lambda>tx. rx_tx_length X (tx_envelope tx)) transactions);
          txs_list_len = rx_length_of_length X txs_payload_len + txs_payload_len;
          block_payload_len = header_len + txs_list_len + 1
      in rx_length_of_length X block_payload_len + block_payload_len)"

definition parse_block_content ::
  "('h, 't, 'r, 'wd) alloy \<Rightarrow> ('h, 't) rpc_alloy \<Rightarrow> ('h, 't) historical_block_data \<Rightarrow> bool \<Rightarrow> ('h, 't) rpc_block" where
  "parse_block_content A X block_data return_full_txns =
     (let header = hb_header block_data;
          block_hash = (case hb_header_hash_precomputed block_data of
                          Some h \<Rightarrow> h | None \<Rightarrow> al_hash_slow A header);
          transactions =
            (if return_full_txns then
               Full (map (\<lambda>(idx, tx). parse_tx_content X block_hash (al_number A header) (al_timestamp A header)
                            (al_base_fee_per_gas A header) tx (of_nat idx))
                       (enumerate 0 (hb_transactions block_data)))
             else Hashes (map (\<lambda>tx. al_tx_hash A (tx_envelope tx)) (hb_transactions block_data)))
      in \<lparr>rb_header =
            \<lparr>bh_hash = block_hash, bh_number = al_number A header,
             bh_body = \<lparr>rh_inner = header, rh_total_difficulty = Some (rx_difficulty X header),
                        rh_size = Some (ucast (calculate_block_size X header (hb_transactions block_data)))\<rparr>\<rparr>,
          rb_transactions = transactions, rb_uncles = [], rb_withdrawals = None\<rparr>)"

fun envelope_type :: "receipt_type \<Rightarrow> receipt_type" where
  "envelope_type Legacy = Legacy"
| "envelope_type Eip2930 = Eip2930"
| "envelope_type Eip1559 = Eip1559"
| "envelope_type Eip7702 = Eip7702"
| "envelope_type _ = Eip1559"

definition parse_receipt_envelope ::
  "b256 \<Rightarrow> u64 \<Rightarrow> u64 \<Rightarrow> u64 \<Rightarrow> b256 \<Rightarrow> 'l archived_receipt \<Rightarrow> 'l rpc_log receipt_envelope" where
  "parse_receipt_envelope block_hash block_number block_timestamp tx_index tx_hash receipt =
     (let r = rcp_receipt receipt;
          logs = map (\<lambda>(log_index, log).
            \<lparr>rl_inner = log, rl_block_hash = Some block_hash, rl_block_number = Some block_number,
             rl_block_timestamp = Some block_timestamp, rl_transaction_hash = Some tx_hash,
             rl_transaction_index = Some tx_index,
             rl_log_index = Some (rcp_starting_log_index receipt + of_nat log_index),
             rl_removed = False\<rparr>) (enumerate 0 (re_logs r))
      in \<lparr>re_type = envelope_type (re_type r), re_status = re_status r,
          re_cumulative_gas_used = re_cumulative_gas_used r, re_logs = logs, re_logs_bloom = re_logs_bloom r\<rparr>)"

definition parse_tx_receipt ::
  "('h, 't, 'l receipt_envelope, 'wd) alloy \<Rightarrow> ('h, 't) rpc_alloy \<Rightarrow> b256 \<Rightarrow> u64 \<Rightarrow> u64 \<Rightarrow> u64 option \<Rightarrow> u64 \<Rightarrow>
   't tx_envelope_with_sender \<Rightarrow> 'l archived_receipt \<Rightarrow> u64 \<Rightarrow> 'l transaction_receipt" where
  "parse_tx_receipt A X block_hash block_number block_timestamp base_fee tx_index tx receipt gas_used =
     (let t = tx_envelope tx; tx_hash = al_tx_hash A t in
      \<lparr>tr_inner = parse_receipt_envelope block_hash block_number block_timestamp tx_index tx_hash receipt,
       tr_transaction_hash = tx_hash, tr_transaction_index = Some tx_index, tr_block_hash = Some block_hash,
       tr_block_number = Some block_number, tr_from = tx_sender tx, tr_to = rx_to X t,
       tr_contract_address = (if rx_is_create X t then Some (rx_create X (tx_sender tx) (rx_nonce X t)) else None),
       tr_gas_used = gas_used, tr_effective_gas_price = rx_effective_gas_price X t base_fee,
       tr_blob_gas_used = None, tr_blob_gas_price = None\<rparr>)"

text \<open>The closure of \<open>map_block_receipts\<close> over the running cumulative gas.\<close>

fun receipts_from ::
  "('h, 't, 'l receipt_envelope, 'wd) alloy \<Rightarrow> ('h, 't) rpc_alloy \<Rightarrow> 'h \<Rightarrow> b256 \<Rightarrow> nat \<Rightarrow> u64 \<Rightarrow>
   ('t tx_envelope_with_sender \<times> 'l archived_receipt) list \<Rightarrow> 'l transaction_receipt list" where
  "receipts_from A X header block_hash tx_index cumulative_gas_used [] = []"
| "receipts_from A X header block_hash tx_index cumulative_gas_used ((tx, receipt) # rest) =
     (let new_cumulative_gas_used = re_cumulative_gas_used (rcp_receipt receipt);
          tx_gas_used = new_cumulative_gas_used - cumulative_gas_used
      in parse_tx_receipt A X block_hash (al_number A header) (al_timestamp A header)
           (al_base_fee_per_gas A header) (of_nat tx_index) tx receipt tx_gas_used #
         receipts_from A X header block_hash (tx_index + 1) new_cumulative_gas_used rest)"

definition map_block_receipts ::
  "('h, 't, 'l receipt_envelope, 'wd) alloy \<Rightarrow> ('h, 't) rpc_alloy \<Rightarrow> 't tx_envelope_with_sender list \<Rightarrow>
   'l archived_receipt list \<Rightarrow> 'h \<Rightarrow> b256 \<Rightarrow> string + 'l transaction_receipt list" where
  "map_block_receipts A X transactions receipts header block_hash =
     (if length transactions \<noteq> length receipts then Inl ''number of receipts and txs mismatch''
      else Inr (receipts_from A X header block_hash 0 0 (zip transactions receipts)))"

section \<open>The provider\<close>

datatype chain_state_error =
  TriedbError string | ArchiveError string | DataSourceFailed data_source_error | ResourceNotFound

type_synonym ('w, 'a) chain_io = "('w, chain_state_error fault, 'a) io"

type_synonym ('h, 't, 'l) rpc_buffer =
  "('h rpc_header, 't rpc_transaction, 'l transaction_receipt) block_buffer"

record ('w, 'h, 't, 'l, 'wd) data_provider =
  dp_buffer :: "('h, 't, 'l) rpc_buffer option"
  dp_triedb :: "('w, 'h, 't, 'l receipt_envelope) triedb_env"
  dp_archive :: "('w, 'h, 't, 'l receipt_envelope, 'wd) archive_client option"
  dp_historical :: "('w, 'h, 't) historical_data_source list"

definition DataProvider_new ::
  "('h, 't, 'l) rpc_buffer option \<Rightarrow> ('w, 'h, 't, 'l receipt_envelope) triedb_env \<Rightarrow>
   ('w, 'h, 't, 'l receipt_envelope, 'wd) archive_client option \<Rightarrow> ('w, 'h, 't, 'l, 'wd) data_provider" where
  "DataProvider_new buffer db ar =
     \<lparr>dp_buffer = buffer, dp_triedb = db, dp_archive = ar,
      dp_historical = TriedbDataSource db # map ArchiveDataSource (case ar of None \<Rightarrow> [] | Some a \<Rightarrow> [a])\<rparr>"

text \<open>The conversions of errors by \<open>?\<close> and \<open>map_err\<close>.\<close>

definition on_triedb :: "('w, string, 'a) io \<Rightarrow> ('w, 'a) chain_io" where
  "on_triedb = io_map_err (\<lambda>e. Err (TriedbError e))"

definition on_archive :: "('w, 'a) eyre_io \<Rightarrow> ('w, 'a) chain_io" where
  "on_archive = io_map_err (report_fault ArchiveError)"

fun lift_fault :: "('e \<Rightarrow> 'f) \<Rightarrow> 'e fault \<Rightarrow> 'f fault" where
  "lift_fault g (Err e) = Err (g e)"
| "lift_fault g (Abort r) = Abort r"

definition on_sources :: "('w, 'a) source_io \<Rightarrow> ('w, 'a) chain_io" where
  "on_sources = io_map_err (lift_fault DataSourceFailed)"

definition not_found :: "('w, 'a) chain_io" where
  "not_found = io_lift (Inl (Err ResourceNotFound))"

text \<open>\<open>if let Some(x) = m { return Ok(x) }\<close> and the rest of the function.\<close>

definition or_next :: "('w, 'e, 'a option) io \<Rightarrow> ('w, 'e, 'a) io \<Rightarrow> ('w, 'e, 'a) io" where
  "or_next m rest = io_bind m (\<lambda>x. case x of Some a \<Rightarrow> io_lift (Inr a) | None \<Rightarrow> rest)"

text \<open>\<open>if let Some(x) = m\<close> and what the block computes, if anything.\<close>

definition and_then :: "('w, 'e, 'a option) io \<Rightarrow> ('a \<Rightarrow> ('w, 'e, 'b option) io) \<Rightarrow> ('w, 'e, 'b option) io" where
  "and_then m k = io_bind m (\<lambda>x. case x of Some a \<Rightarrow> k a | None \<Rightarrow> io_lift (Inr None))"

text \<open>\<open>if let Ok(x) = m\<close>: the error is dropped.\<close>

definition and_then_ok :: "('w, string, 'a) io \<Rightarrow> ('a \<Rightarrow> ('w, 'e, 'b option) io) \<Rightarrow> ('w, 'e, 'b option) io" where
  "and_then_ok m k w = (case m w of (Inl _, w') \<Rightarrow> (Inr None, w') | (Inr a, w') \<Rightarrow> k a w')"

definition with_archive ::
  "('w, 'h, 't, 'l, 'wd) data_provider \<Rightarrow>
   (('w, 'h, 't, 'l receipt_envelope, 'wd) archive_client \<Rightarrow> ('w, 'a option) chain_io) \<Rightarrow> ('w, 'a option) chain_io" where
  "with_archive dp f = (case dp_archive dp of None \<Rightarrow> io_lift (Inr None) | Some ar \<Rightarrow> f ar)"

section \<open>Block keys\<close>

fun block_key_to_parts :: "db_block_key \<Rightarrow> u64 \<times> b256 option" where
  "block_key_to_parts (KeyFinalized n) = (n, None)"
| "block_key_to_parts (KeyProposed n i) = (n, Some i)"

definition get_latest_block_key :: "('w, 'h, 't, 'r) triedb_env \<Rightarrow> 'w \<Rightarrow> db_block_key \<times> 'w" where
  "get_latest_block_key db = te_latest_proposed db"

fun get_block_key_from_tag ::
  "('w, 'h, 't, 'r) triedb_env \<Rightarrow> block_tags \<Rightarrow> ('w, 'e, db_block_key option) io" where
  "get_block_key_from_tag db (TagNumber n) = io_read (te_block_key db n)"
| "get_block_key_from_tag db Latest = io_bind (io_read (get_latest_block_key db)) (\<lambda>k. io_lift (Inr (Some k)))"
| "get_block_key_from_tag db Safe = io_bind (io_read (te_latest_voted db)) (\<lambda>k. io_lift (Inr (Some k)))"
| "get_block_key_from_tag db TagFinalized =
     io_bind (io_read (te_latest_finalized db)) (\<lambda>n. io_lift (Inr (Some (KeyFinalized n))))"

text \<open>The key of a block number that is known to exist.\<close>

definition key_or_not_found :: "('w, 'h, 't, 'r) triedb_env \<Rightarrow> u64 \<Rightarrow> ('w, db_block_key) chain_io" where
  "key_or_not_found db n = or_next (io_read (te_block_key db n)) not_found"

fun try_get_block_key_from_tag_or_hash ::
  "('w, 'h, 't, 'r) triedb_env \<Rightarrow> block_tag_or_hash \<Rightarrow> ('w, db_block_key option) chain_io" where
  "try_get_block_key_from_tag_or_hash db (BlockTags tag) = get_block_key_from_tag db tag"
| "try_get_block_key_from_tag_or_hash db (HashRef h) =
     io_bind (io_read (te_latest_proposed db)) (\<lambda>latest.
     and_then (on_triedb (te_block_number_by_hash db latest h)) (\<lambda>n.
     io_bind (key_or_not_found db n) (\<lambda>k. io_lift (Inr (Some k)))))"

text \<open>\<open>.ok().flatten()\<close>\<close>

definition get_block_key_from_tag_or_hash ::
  "('w, 'h, 't, 'r) triedb_env \<Rightarrow> block_tag_or_hash \<Rightarrow> ('w, db_block_key option) chain_io" where
  "get_block_key_from_tag_or_hash db block w =
     (case try_get_block_key_from_tag_or_hash db block w of
        (Inl (Abort r), w') \<Rightarrow> (Inl (Abort r), w')
      | (Inl (Err _), w') \<Rightarrow> (Inr None, w')
      | (Inr k, w') \<Rightarrow> (Inr k, w'))"

fun resolve_block_height_from_buffer :: "('h, 't, 'r) block_buffer \<Rightarrow> block_tag_or_hash \<Rightarrow> u64 option" where
  "resolve_block_height_from_buffer b (BlockTags tag) = Some (resolve_block_height_from_tag b tag)"
| "resolve_block_height_from_buffer b (HashRef h) =
     map_option (\<lambda>block. bh_number (bb_header block)) (get_block_by_hash b h)"

text \<open>What the buffer has for a block, when there is a buffer.\<close>

definition from_buffer ::
  "('w, 'h, 't, 'l, 'wd) data_provider \<Rightarrow> (('h, 't, 'l) rpc_buffer \<Rightarrow> 'a option) \<Rightarrow> ('w, 'e, 'a option) io" where
  "from_buffer dp f = io_lift (Inr (Option.bind (dp_buffer dp) f))"

definition at_height ::
  "block_tag_or_hash \<Rightarrow> (('h, 't, 'r) block_buffer \<Rightarrow> u64 \<Rightarrow> 'a option) \<Rightarrow> ('h, 't, 'r) block_buffer \<Rightarrow> 'a option" where
  "at_height block f b = Option.bind (resolve_block_height_from_buffer b block) (f b)"

section \<open>Reads of the execution database\<close>

definition get_transaction_from_triedb ::
  "('h, 't, 'r, 'wd) alloy \<Rightarrow> ('h, 't) rpc_alloy \<Rightarrow> ('w, 'h, 't, 'r) triedb_env \<Rightarrow> db_block_key \<Rightarrow> u64 \<Rightarrow>
   ('w, 't rpc_transaction option) chain_io" where
  "get_transaction_from_triedb A X db key tx_index =
     and_then (on_triedb (te_block_header db key)) (\<lambda>header.
     and_then (on_triedb (te_transaction db key tx_index)) (\<lambda>tx.
     io_lift (Inr (Some (parse_tx_content X (eh_hash header) (al_number A (eh_header header))
       (al_timestamp A (eh_header header)) (al_base_fee_per_gas A (eh_header header)) tx tx_index)))))"

definition gas_used_of ::
  "('w, 'h, 't, 'l receipt_envelope) triedb_env \<Rightarrow> db_block_key \<Rightarrow> u64 \<Rightarrow> 'l archived_receipt \<Rightarrow> ('w, u64) chain_io" where
  "gas_used_of db key tx_index receipt =
     (if tx_index > 0 then
        io_bind (on_triedb (te_receipt db key (tx_index - 1))) (\<lambda>prev.
          case prev of
            Some prev_receipt \<Rightarrow>
              io_lift (Inr (re_cumulative_gas_used (rcp_receipt receipt) - re_cumulative_gas_used (rcp_receipt prev_receipt)))
          | None \<Rightarrow> io_lift (Inl (Err (TriedbError ''error getting receipt''))))
      else io_lift (Inr (re_cumulative_gas_used (rcp_receipt receipt))))"

definition get_receipt_from_triedb ::
  "('h, 't, 'l receipt_envelope, 'wd) alloy \<Rightarrow> ('h, 't) rpc_alloy \<Rightarrow> ('w, 'h, 't, 'l receipt_envelope) triedb_env \<Rightarrow>
   db_block_key \<Rightarrow> u64 \<Rightarrow> ('w, 'l transaction_receipt option) chain_io" where
  "get_receipt_from_triedb A X db key tx_index =
     and_then (on_triedb (te_block_header db key)) (\<lambda>header.
     and_then (on_triedb (te_transaction db key tx_index)) (\<lambda>tx.
     and_then (on_triedb (te_receipt db key tx_index)) (\<lambda>receipt.
     io_bind (gas_used_of db key tx_index receipt) (\<lambda>gas_used.
     io_lift (Inr (Some (parse_tx_receipt A X (eh_hash header) (seq_num key)
       (al_timestamp A (eh_header header)) (al_base_fee_per_gas A (eh_header header)) tx_index tx receipt gas_used)))))))"

text \<open>A transaction or receipt that the database finds by its hash.\<close>

definition located_in_triedb ::
  "('w, 'h, 't, 'r) triedb_env \<Rightarrow> b256 \<Rightarrow> (db_block_key \<Rightarrow> u64 \<Rightarrow> ('w, 'a option) chain_io) \<Rightarrow> ('w, 'a option) chain_io" where
  "located_in_triedb db tx_hash f =
     io_bind (io_read (get_latest_block_key db)) (\<lambda>latest.
     and_then (on_triedb (te_transaction_location db latest tx_hash)) (\<lambda>loc.
     io_bind (key_or_not_found db (tl_block_num loc)) (\<lambda>key. f key (tl_tx_index loc))))"

section \<open>Operations\<close>

definition get_latest_block_number :: "('w, 'h, 't, 'l, 'wd) data_provider \<Rightarrow> 'w \<Rightarrow> u64 \<times> 'w" where
  "get_latest_block_number dp w = (let (k, w') = te_latest_proposed (dp_triedb dp) w in (seq_num k, w'))"

definition get_transaction_receipt ::
  "('h, 't, 'l receipt_envelope, 'wd) alloy \<Rightarrow> ('h, 't) rpc_alloy \<Rightarrow> ('w, 'h, 't, 'l, 'wd) data_provider \<Rightarrow>
   b256 \<Rightarrow> ('w, 'l transaction_receipt) chain_io" where
  "get_transaction_receipt A X dp tx_hash =
     or_next (from_buffer dp (\<lambda>b. map_option brc_body (get_receipt_by_tx_hash b tx_hash)))
    (or_next (located_in_triedb (dp_triedb dp) tx_hash (get_receipt_from_triedb A X (dp_triedb dp)))
    (or_next (with_archive dp (\<lambda>ar.
       and_then (on_archive (ac_get_tx_indexed_data ar tx_hash)) (\<lambda>d.
         let h = td_header_subset d in
         io_lift (Inr (Some (parse_tx_receipt A X (hs_block_hash h) (hs_block_number h) (hs_block_timestamp h)
           (hs_base_fee_per_gas h) (hs_tx_index h) (td_tx d) (td_receipt d) (hs_gas_used h)))))))
     not_found))"

text \<open>The transaction of an archived block, with the hash the caller gives it.\<close>

definition tx_of_archived ::
  "('h, 't, 'r, 'wd) alloy \<Rightarrow> ('h, 't) rpc_alloy \<Rightarrow> b256 \<Rightarrow> ('h, 't, 'wd) block \<Rightarrow> u64 \<Rightarrow> 't rpc_transaction option" where
  "tx_of_archived A X block_hash block index =
     map_option (\<lambda>tx. parse_tx_content X block_hash (al_number A (blk_header block)) (al_timestamp A (blk_header block))
       (al_base_fee_per_gas A (blk_header block)) tx index)
     (try_get (unat index) (blk_transactions block))"

definition get_transaction_with_block_and_index ::
  "('h, 't, 'l receipt_envelope, 'wd) alloy \<Rightarrow> ('h, 't) rpc_alloy \<Rightarrow> ('w, 'h, 't, 'l, 'wd) data_provider \<Rightarrow>
   block_tag_or_hash \<Rightarrow> u64 \<Rightarrow> ('w, 't rpc_transaction) chain_io" where
  "get_transaction_with_block_and_index A X dp block index =
     (let db = dp_triedb dp in
      or_next (from_buffer dp (at_height block (\<lambda>b height.
        map_option btx_body (get_transaction_by_location b height index))))
     (case block of
        BlockTags tag \<Rightarrow>
          io_bind (or_next (get_block_key_from_tag db tag) not_found) (\<lambda>key.
            or_next (get_transaction_from_triedb A X db key index)
           (or_next (with_archive dp (\<lambda>ar.
              case key of
                KeyProposed _ _ \<Rightarrow> io_lift (Inr None)
              | KeyFinalized n \<Rightarrow>
                  and_then (on_archive (ac_try_get_block_by_number ar n)) (\<lambda>blk.
                    io_lift (Inr (tx_of_archived A X (al_hash_slow A (blk_header blk)) blk index)))))
            not_found))
      | HashRef h \<Rightarrow>
          or_next (io_bind (io_read (get_latest_block_key db)) (\<lambda>latest.
            and_then (on_triedb (te_block_number_by_hash db latest h)) (\<lambda>n.
            io_bind (key_or_not_found db n) (\<lambda>key. get_transaction_from_triedb A X db key index))))
         (or_next (with_archive dp (\<lambda>ar.
            and_then (on_archive (ac_try_get_block_by_hash ar h)) (\<lambda>blk.
              io_lift (Inr (tx_of_archived A X h blk index)))))
          not_found)))"

definition get_transaction ::
  "('h, 't, 'l receipt_envelope, 'wd) alloy \<Rightarrow> ('h, 't) rpc_alloy \<Rightarrow> ('w, 'h, 't, 'l, 'wd) data_provider \<Rightarrow>
   b256 \<Rightarrow> ('w, 't rpc_transaction) chain_io" where
  "get_transaction A X dp tx_hash =
     or_next (from_buffer dp (\<lambda>b. map_option btx_body (get_transaction_by_hash b tx_hash)))
    (or_next (located_in_triedb (dp_triedb dp) tx_hash (get_transaction_from_triedb A X (dp_triedb dp)))
    (or_next (with_archive dp (\<lambda>ar.
       and_then (on_archive (ac_get_tx ar tx_hash)) (\<lambda>(tx, h).
         io_lift (Inr (Some (parse_tx_content X (hs_block_hash h) (hs_block_number h) (hs_block_timestamp h)
           (hs_base_fee_per_gas h) tx (hs_tx_index h)))))))
     not_found))"

definition get_block_header ::
  "('w, 'h, 't, 'l, 'wd) data_provider \<Rightarrow> block_tag_or_hash \<Rightarrow> ('w, 'h) chain_io" where
  "get_block_header dp block =
     or_next (from_buffer dp (at_height block (\<lambda>b height.
       map_option (\<lambda>blk. rh_inner (bh_body (bb_header blk))) (get_block_by_height b height))))
    (or_next (on_sources (stack_resolve_and_then (dp_historical dp) block
       (\<lambda>source pointer. ds_get_block_header source pointer)))
     not_found)"

definition block_of_buffer :: "bool \<Rightarrow> ('h rpc_header, 't rpc_transaction) buffer_block \<Rightarrow> ('h, 't) rpc_block" where
  "block_of_buffer return_full_txns blk =
     \<lparr>rb_header = bb_header blk,
      rb_transactions = (if return_full_txns then Full (map btx_body (bb_transactions blk))
                         else Hashes (map btx_hash (bb_transactions blk))),
      rb_uncles = [], rb_withdrawals = None\<rparr>"

definition get_block ::
  "('h, 't, 'l receipt_envelope, 'wd) alloy \<Rightarrow> ('h, 't) rpc_alloy \<Rightarrow> ('w, 'h, 't, 'l, 'wd) data_provider \<Rightarrow>
   block_tag_or_hash \<Rightarrow> bool \<Rightarrow> ('w, ('h, 't) rpc_block) chain_io" where
  "get_block A X dp block return_full_txns =
     or_next (from_buffer dp (at_height block (\<lambda>b height.
       map_option (block_of_buffer return_full_txns) (get_block_by_height b height))))
    (io_bind (or_next (on_sources (stack_resolve_and_then (dp_historical dp) block
       (\<lambda>source pointer. ds_get_block source pointer))) not_found)
     (\<lambda>result. io_lift (Inr (parse_block_content A X result return_full_txns))))"

text \<open>\<open>into_primitives_receipt\<close>: the logs of a receipt without their position.\<close>

definition into_primitives_receipt :: "'l rpc_log receipt_envelope \<Rightarrow> 'l receipt_envelope" where
  "into_primitives_receipt r =
     \<lparr>re_type = re_type r, re_status = re_status r, re_cumulative_gas_used = re_cumulative_gas_used r,
      re_logs = map rl_inner (re_logs r), re_logs_bloom = re_logs_bloom r\<rparr>"

definition get_raw_receipts ::
  "('w, 'h, 't, 'l, 'wd) data_provider \<Rightarrow> block_tags \<Rightarrow> ('w, 'l receipt_envelope list) chain_io" where
  "get_raw_receipts dp block =
     or_next (from_buffer dp (\<lambda>b.
       map_option (map (\<lambda>r. into_primitives_receipt (tr_inner (brc_body r))))
         (get_receipts_by_block_height b (resolve_block_height_from_tag b block))))
    (io_bind (or_next (get_block_key_from_tag (dp_triedb dp) block) not_found) (\<lambda>key.
      or_next (and_then_ok (te_receipts (dp_triedb dp) key) (\<lambda>rs. io_lift (Inr (Some (map rcp_receipt rs)))))
     (or_next (with_archive dp (\<lambda>ar.
        case key of
          KeyProposed _ _ \<Rightarrow> io_lift (Inr None)
        | KeyFinalized n \<Rightarrow>
            and_then (on_archive (ac_try_get_block_receipts ar n)) (\<lambda>rs. io_lift (Inr (Some (map rcp_receipt rs))))))
      not_found)))"

text \<open>A mismatch between transactions and receipts is reported as a missing resource.\<close>

definition block_receipts_or_not_found :: "string + 'a \<Rightarrow> ('w, 'a option) chain_io" where
  "block_receipts_or_not_found r = io_lift (map_sum (\<lambda>_. Err ResourceNotFound) Some r)"

text \<open>The archived block that a request names: a tag through the database's key for it.\<close>

definition archived_block_for ::
  "('w, 'h, 't, 'l receipt_envelope, 'wd) archive_client \<Rightarrow> (block_tags \<Rightarrow> ('w, db_block_key option) chain_io) \<Rightarrow>
   block_tag_or_hash \<Rightarrow> ('w, ('h, 't, 'wd) block option) chain_io" where
  "archived_block_for ar key_of_tag block =
     (case block of
        BlockTags tag \<Rightarrow>
          io_bind (key_of_tag tag) (\<lambda>k.
            case k of
              Some (KeyFinalized n) \<Rightarrow> on_archive (ac_try_get_block_by_number ar n)
            | _ \<Rightarrow> io_lift (Inr None))
      | HashRef h \<Rightarrow> on_archive (ac_try_get_block_by_hash ar h))"

definition get_block_receipts ::
  "('h, 't, 'l receipt_envelope, 'wd) alloy \<Rightarrow> ('h, 't) rpc_alloy \<Rightarrow> ('w, 'h, 't, 'l, 'wd) data_provider \<Rightarrow>
   block_tag_or_hash \<Rightarrow> ('w, 'l transaction_receipt list) chain_io" where
  "get_block_receipts A X dp block =
     (let db = dp_triedb dp in
      or_next (from_buffer dp (at_height block (\<lambda>b height.
        map_option (map brc_body) (get_receipts_by_block_height b height))))
     (or_next (and_then (get_block_key_from_tag_or_hash db block) (\<lambda>key.
        and_then (on_triedb (te_block_header db key)) (\<lambda>header.
        and_then_ok (te_transactions db key) (\<lambda>transactions.
        and_then_ok (te_receipts db key) (\<lambda>receipts.
        block_receipts_or_not_found
          (map_block_receipts A X transactions receipts (eh_header header) (eh_hash header)))))))
     (or_next (with_archive dp (\<lambda>ar.
        and_then (archived_block_for ar (\<lambda>tag.
            io_bind (or_next (get_block_key_from_tag db tag) not_found) (\<lambda>k. io_lift (Inr (Some k)))) block) (\<lambda>blk.
        and_then (on_archive (ac_try_get_block_receipts ar (al_number A (blk_header blk)))) (\<lambda>receipts.
        block_receipts_or_not_found
          (map_block_receipts A X (blk_transactions blk) receipts (blk_header blk) (al_hash_slow A (blk_header blk)))))))
      not_found)))"

definition get_block_call_frames ::
  "('h, 't, 'l receipt_envelope, 'wd) alloy \<Rightarrow> ('w, 'h, 't, 'l, 'wd) data_provider \<Rightarrow> block_tag_or_hash \<Rightarrow>
   ('w, db_block_key \<times> b256 list \<times> bytes list) chain_io" where
  "get_block_call_frames A dp block =
     (let db = dp_triedb dp; hashes = map (\<lambda>tx. al_tx_hash A (tx_envelope tx)) in
      or_next (and_then (try_get_block_key_from_tag_or_hash db block) (\<lambda>key.
        and_then_ok (te_transactions db key) (\<lambda>transactions.
        and_then_ok (te_call_frames db key) (\<lambda>frames.
        io_lift (Inr (Some (key, hashes transactions, frames)))))))
     (or_next (with_archive dp (\<lambda>ar.
        and_then (archived_block_for ar (get_block_key_from_tag db) block) (\<lambda>blk.
        and_then (on_archive (ac_try_get_block_traces ar (al_number A (blk_header blk)))) (\<lambda>frames.
        io_lift (Inr (Some (KeyFinalized (al_number A (blk_header blk)), hashes (blk_transactions blk), frames)))))))
      not_found))"

definition get_transaction_call_frame ::
  "('w, 'h, 't, 'l, 'wd) data_provider \<Rightarrow> b256 \<Rightarrow> ('w, (db_block_key \<times> bytes) option) chain_io" where
  "get_transaction_call_frame dp tx_hash =
     (let db = dp_triedb dp in
      io_bind (located_in_triedb db tx_hash (\<lambda>key tx_index.
        and_then (on_triedb (te_call_frame db key tx_index)) (\<lambda>frame. io_lift (Inr (Some (key, frame)))))) (\<lambda>x.
      case x of
        Some kf \<Rightarrow> io_lift (Inr (Some kf))
      | None \<Rightarrow> with_archive dp (\<lambda>ar.
          and_then (on_archive (ac_get_trace ar tx_hash)) (\<lambda>(trace, h).
            io_lift (Inr (Some (KeyFinalized (hs_block_number h), trace)))))))"

section \<open>Receipts of a block and of a transaction\<close>

lemma length_receipts_from [simp]: "length (receipts_from A X header bh i c xs) = length xs"
  by (induction xs arbitrary: i c) (auto simp: Let_def)

lemma nth_receipts_from:
  assumes "k < length xs"
  shows "receipts_from A X header bh i c xs ! k =
    parse_tx_receipt A X bh (al_number A header) (al_timestamp A header) (al_base_fee_per_gas A header)
      (of_nat (i + k)) (fst (xs ! k)) (snd (xs ! k))
      (re_cumulative_gas_used (rcp_receipt (snd (xs ! k))) -
       (if k = 0 then c else re_cumulative_gas_used (rcp_receipt (snd (xs ! (k - 1))))))"
  using assms
proof (induction xs arbitrary: i c k)
  case (Cons x xs)
  obtain tx r where x: "x = (tx, r)" by fastforce
  show ?case
  proof (cases k)
    case 0
    then show ?thesis by (simp add: x Let_def)
  next
    case (Suc j)
    with Cons.prems have "j < length xs" by simp
    from Cons.IH [OF this, of "i + 1" "re_cumulative_gas_used (rcp_receipt r)"] Suc show ?thesis
      by (cases j) (simp_all add: x Let_def)
  qed
qed simp

text \<open>The gas used by the transactions adds up to the cumulative gas of the last receipt.\<close>

lemma receipts_gas_sum:
  "xs \<noteq> [] \<Longrightarrow> c + sum_list (map tr_gas_used (receipts_from A X header bh i c xs)) =
     re_cumulative_gas_used (rcp_receipt (snd (last xs)))"
proof (induction xs arbitrary: i c)
  case (Cons x xs)
  obtain tx r where x: "x = (tx, r)" by fastforce
  show ?case
  proof (cases "xs = []")
    case True
    then show ?thesis by (simp add: x Let_def parse_tx_receipt_def)
  next
    case False
    from Cons.IH [OF this, of "re_cumulative_gas_used (rcp_receipt r)" "i + 1"] False show ?thesis
      by (simp add: x Let_def parse_tx_receipt_def algebra_simps)
  qed
qed simp

text \<open>A call that always answers \<open>a\<close> while \<open>I\<close> holds.\<close>

definition steady :: "('w \<Rightarrow> bool) \<Rightarrow> ('w, 'e, 'a) io \<Rightarrow> 'a \<Rightarrow> bool" where
  "steady I f a \<longleftrightarrow> (\<forall>w. I w \<longrightarrow> (\<exists>w'. f w = (Inr a, w') \<and> I w'))"

lemma steady_lift [simp]: "steady I (io_lift (Inr a)) a"
  by (simp add: steady_def)

lemma steady_bind: "steady I f a \<Longrightarrow> steady I (g a) b \<Longrightarrow> steady I (io_bind f g) b"
  unfolding steady_def by (metis io_bind_eqs(2))

definition settled :: "('w \<Rightarrow> bool) \<Rightarrow> ('w \<Rightarrow> 'a \<times> 'w) \<Rightarrow> 'a \<Rightarrow> bool" where
  "settled I f a \<longleftrightarrow> (\<forall>w. I w \<longrightarrow> (\<exists>w'. f w = (a, w') \<and> I w'))"

lemma steady_read: "settled I f a \<Longrightarrow> steady I (io_read f) a"
  by (auto simp: steady_def settled_def io_read_iff)

lemma steady_map_err: "steady I f a \<Longrightarrow> steady I (io_map_err g f) a"
  by (fastforce simp: steady_def io_map_err_def)

lemma steady_on_triedb: "steady I f a \<Longrightarrow> steady I (on_triedb f) a"
  unfolding on_triedb_def by (rule steady_map_err)

lemma steady_and_then:
  "steady I m None \<Longrightarrow> steady I (and_then m k) None"
  "steady I m (Some a) \<Longrightarrow> steady I (k a) b \<Longrightarrow> steady I (and_then m k) b"
  unfolding and_then_def by (auto elim!: steady_bind)

lemma steady_or_next:
  "steady I m None \<Longrightarrow> steady I rest b \<Longrightarrow> steady I (or_next m rest) b"
  "steady I m (Some a) \<Longrightarrow> steady I (or_next m rest) a"
  unfolding or_next_def by (auto elim!: steady_bind)

lemma steady_and_then_ok: "steady I m a \<Longrightarrow> steady I (k a) b \<Longrightarrow> steady I (and_then_ok m k) b"
  by (fastforce simp: steady_def and_then_ok_def)

lemma steady_from_buffer: "dp_buffer dp = None \<Longrightarrow> steady I (from_buffer dp f) None"
  by (simp add: from_buffer_def)

lemma steady_key_or_not_found: "settled I (te_block_key db n) (Some k) \<Longrightarrow> steady I (key_or_not_found db n) k"
  unfolding key_or_not_found_def by (intro steady_or_next(2) steady_read)

lemma steady_located:
  assumes "settled I (te_latest_proposed db) latest" "steady I (te_transaction_location db latest tx_hash) (Some loc)"
    and "settled I (te_block_key db (tl_block_num loc)) (Some key)" "steady I (f key (tl_tx_index loc)) x"
  shows "steady I (located_in_triedb db tx_hash f) x"
  unfolding located_in_triedb_def get_latest_block_key_def
  by (rule steady_bind [OF steady_read [OF assms(1)]], rule steady_and_then(2) [OF steady_on_triedb [OF assms(2)]],
      rule steady_bind [OF steady_key_or_not_found [OF assms(3)]], rule assms(4))

text \<open>The database holds a block: its header, transactions and receipts, whole and one by one.\<close>

definition db_holds ::
  "('w \<Rightarrow> bool) \<Rightarrow> ('w, 'h, 't, 'r) triedb_env \<Rightarrow> db_block_key \<Rightarrow> 'h env_header \<Rightarrow> 't tx_envelope_with_sender list \<Rightarrow>
   'r block_receipts \<Rightarrow> bool" where
  "db_holds I db key header txs rcs \<longleftrightarrow>
     steady I (te_block_header db key) (Some header) \<and>
     steady I (te_transactions db key) txs \<and>
     steady I (te_receipts db key) rcs \<and>
     (\<forall>i. steady I (te_transaction db key i) (try_get (unat i) txs)) \<and>
     (\<forall>i. steady I (te_receipt db key i) (try_get (unat i) rcs))"

lemma gas_used_of_steady:
  assumes "db_holds I db key header txs rcs" "unat i < length rcs"
  shows "steady I (gas_used_of db key i (rcs ! unat i))
    (re_cumulative_gas_used (rcp_receipt (rcs ! unat i)) -
     (if unat i = 0 then 0 else re_cumulative_gas_used (rcp_receipt (rcs ! (unat i - 1)))))"
proof (cases "i = 0")
  case False
  then have "unat (i - 1) = unat i - 1" "unat i \<noteq> 0" by (simp_all add: unat_sub_one unat_eq_zero)
  moreover from this assms have "steady I (te_receipt db key (i - 1)) (Some (rcs ! (unat i - 1)))"
    by (auto simp: db_holds_def try_get_def dest!: spec [of _ "i - 1"] split: if_splits)
  ultimately show ?thesis
    using False unfolding gas_used_of_def
    by (auto simp: word_neq_0_conv intro!: steady_bind [OF steady_on_triedb])
qed (simp add: gas_used_of_def)

lemma get_receipt_from_triedb_steady:
  assumes db: "db_holds I db key header txs rcs" and len: "length txs = length rcs"
    and number: "al_number A (eh_header header) = seq_num key"
  shows "steady I (get_receipt_from_triedb A X db key i)
    (try_get (unat i) (receipts_from A X (eh_header header) (eh_hash header) 0 0 (zip txs rcs)))"
proof -
  note holds = db [unfolded db_holds_def]
  have hd: "steady I (on_triedb (te_block_header db key)) (Some header)"
    using holds by (auto intro: steady_on_triedb)
  show ?thesis
  proof (cases "unat i < length rcs")
    case False
    with holds len have "steady I (te_transaction db key i) None" by (metis try_get_def)
    with hd False len show ?thesis
      unfolding get_receipt_from_triedb_def
      by (simp add: try_get_def) (intro steady_and_then(2) [OF hd] steady_and_then(1) steady_on_triedb)
  next
    case True
    with holds len have tx: "steady I (te_transaction db key i) (Some (txs ! unat i))"
      and rc: "steady I (te_receipt db key i) (Some (rcs ! unat i))"
      by (auto simp: try_get_def dest!: spec [of _ i])
    have "try_get (unat i) (receipts_from A X (eh_header header) (eh_hash header) 0 0 (zip txs rcs)) =
      Some (parse_tx_receipt A X (eh_hash header) (seq_num key) (al_timestamp A (eh_header header))
        (al_base_fee_per_gas A (eh_header header)) i (txs ! unat i) (rcs ! unat i)
        (re_cumulative_gas_used (rcp_receipt (rcs ! unat i)) -
         (if unat i = 0 then 0 else re_cumulative_gas_used (rcp_receipt (rcs ! (unat i - 1))))))"
      using True len by (simp add: try_get_def nth_receipts_from number)
    then show ?thesis
      unfolding get_receipt_from_triedb_def
      by (auto intro!: steady_and_then(2) [OF hd] steady_and_then(2) [OF steady_on_triedb [OF tx]]
          steady_and_then(2) [OF steady_on_triedb [OF rc]] steady_bind [OF gas_used_of_steady [OF db True]])
  qed
qed

lemma get_block_receipts_steady:
  assumes db: "db_holds I (dp_triedb dp) key header txs rcs" and len: "length txs = length rcs"
    and buffer: "dp_buffer dp = None" and key: "settled I (te_block_key (dp_triedb dp) n) (Some key)"
  shows "steady I (get_block_receipts A X dp (BlockTags (TagNumber n)))
    (receipts_from A X (eh_header header) (eh_hash header) 0 0 (zip txs rcs))"
proof -
  let ?db = "dp_triedb dp"
  note holds = db [unfolded db_holds_def]
  have k: "steady I (get_block_key_from_tag_or_hash ?db (BlockTags (TagNumber n))) (Some key)"
    using key by (fastforce simp: steady_def settled_def get_block_key_from_tag_or_hash_def io_read_def)
  have h: "steady I (on_triedb (te_block_header ?db key)) (Some header)"
    and t: "steady I (te_transactions ?db key) txs" and r: "steady I (te_receipts ?db key) rcs"
    using holds by (auto intro: steady_on_triedb)
  show ?thesis
    unfolding get_block_receipts_def Let_def
    by (rule steady_or_next(1) [OF steady_from_buffer [OF buffer]], rule steady_or_next(2),
        rule steady_and_then(2) [OF k], rule steady_and_then(2) [OF h], rule steady_and_then_ok [OF t],
        rule steady_and_then_ok [OF r])
       (simp add: block_receipts_or_not_found_def map_block_receipts_def len)
qed

text \<open>
  C31: The receipt that a transaction is looked up by its hash with is the one that the receipts of
  its block have at the same place, although the first reads single entries of the database and
  takes the gas from two receipts, and the second maps over the whole block; there is one receipt
  per transaction, and the gas they report adds up to the cumulative gas of the last one.
\<close>

theorem receipt_lookups_agree:
  assumes holds: "db_holds I db key header txs rcs" and len: "length txs = length rcs"
    and number: "al_number A (eh_header header) = seq_num key"
    and key: "settled I (te_block_key db (seq_num key)) (Some key)"
    and latest: "settled I (te_latest_proposed db) tip"
    and location: "steady I (te_transaction_location db tip tx_hash) (Some \<lparr>tl_tx_index = i, tl_block_num = seq_num key\<rparr>)"
    and i: "unat i < length txs" and w: "I w"
  shows "\<exists>rs w1 w2.
    get_block_receipts A X (DataProvider_new None db ar) (BlockTags (TagNumber (seq_num key))) w = (Inr rs, w1) \<and>
    get_transaction_receipt A X (DataProvider_new None db ar) tx_hash w = (Inr (rs ! unat i), w2) \<and>
    length rs = length txs \<and>
    sum_list (map tr_gas_used rs) = re_cumulative_gas_used (rcp_receipt (last rcs))"
proof -
  let ?dp = "DataProvider_new None db ar"
  let ?rs = "receipts_from A X (eh_header header) (eh_hash header) 0 0 (zip txs rcs)"
  have dp [simp]: "dp_buffer ?dp = None" "dp_triedb ?dp = db" by (simp_all add: DataProvider_new_def)
  have "steady I (get_block_receipts A X ?dp (BlockTags (TagNumber (seq_num key)))) ?rs"
    by (rule get_block_receipts_steady [where key = key]) (simp_all add: holds len key)
  moreover have "steady I (get_transaction_receipt A X ?dp tx_hash) (?rs ! unat i)"
  proof -
    have "steady I (get_receipt_from_triedb A X db key i) (Some (?rs ! unat i))"
      using get_receipt_from_triedb_steady [OF holds len number, of X i] i len by (simp add: try_get_def)
    with latest location key
    have "steady I (located_in_triedb db tx_hash (get_receipt_from_triedb A X db)) (Some (?rs ! unat i))"
      by (auto intro: steady_located)
    then show ?thesis
      unfolding get_transaction_receipt_def
      by (intro steady_or_next(1) [OF steady_from_buffer] steady_or_next(2)) simp_all
  qed
  moreover have "sum_list (map tr_gas_used ?rs) = re_cumulative_gas_used (rcp_receipt (last rcs))"
    using receipts_gas_sum [of "zip txs rcs" 0 A X "eh_header header" "eh_hash header" 0] i len
    by (cases "rcs = []"; cases "txs = []") (auto simp: last_zip)
  ultimately show ?thesis
    using w len unfolding steady_def by fastforce
qed

section \<open>Whichever source answers\<close>

lemma yields_or_next:
  "answers I m P \<Longrightarrow> yields I rest P \<Longrightarrow> yields I (or_next m rest) P"
  unfolding or_next_def
  by (rule yields_bind [where P = "\<lambda>x. \<forall>a. x = Some a \<longrightarrow> P a"]) (auto intro: yields_lift split: option.split)

lemma yields_not_found: "yields I not_found P"
  unfolding not_found_def by (rule yields_lift) simp

text \<open>
  What an answer to a request is.  The transactions of a block are listed in their order, each with its sender,
  its place and the hash, number and time of the block.
\<close>

definition full_transactions ::
  "('h, 't, 'r, 'wd) alloy \<Rightarrow> ('h, 't) rpc_alloy \<Rightarrow> 'h \<times> 't tx_envelope_with_sender list \<Rightarrow> 't rpc_transaction list \<Rightarrow> bool" where
  "full_transactions A X = (\<lambda>(header, txs) ts. length ts = length txs \<and>
     (\<forall>i < length txs. ts ! i =
        \<lparr>rt_tx = tx_envelope (txs ! i), rt_sender = tx_sender (txs ! i), rt_block_hash = Some (al_hash_slow A header),
         rt_block_number = Some (al_number A header), rt_block_timestamp = Some (al_timestamp A header),
         rt_effective_gas_price = Some (rx_effective_gas_price X (tx_envelope (txs ! i)) (al_base_fee_per_gas A header)),
         rt_transaction_index = Some (of_nat i)\<rparr>))"

definition transaction_hashes :: "('h, 't, 'r, 'wd) alloy \<Rightarrow> 'h \<times> 't tx_envelope_with_sender list \<Rightarrow> b256 list" where
  "transaction_hashes A b = map (\<lambda>tx. al_tx_hash A (tx_envelope tx)) (snd b)"

definition is_header ::
  "('h, 't, 'r, 'wd) alloy \<Rightarrow> 'h \<times> 't tx_envelope_with_sender list \<Rightarrow> 'h rpc_header buffer_header \<Rightarrow> bool" where
  "is_header A b header \<longleftrightarrow> rh_inner (bh_body header) = fst b \<and> bh_hash header = al_hash_slow A (fst b)"

definition is_block ::
  "('h, 't, 'r, 'wd) alloy \<Rightarrow> ('h, 't) rpc_alloy \<Rightarrow> bool \<Rightarrow> 'h \<times> 't tx_envelope_with_sender list \<Rightarrow> ('h, 't) rpc_block \<Rightarrow> bool" where
  "is_block A X full b blk \<longleftrightarrow> is_header A b (rb_header blk) \<and>
     (case rb_transactions blk of
        Full ts \<Rightarrow> full \<and> full_transactions A X b ts
      | Hashes hs \<Rightarrow> \<not> full \<and> hs = transaction_hashes A b)"

text \<open>
  Which block is asked for.  A number and a hash name the blocks that have them.  A tag names the block at the
  buffer's mark for it when the buffer holds that block, and otherwise the database's latest block of that
  commit state: \<open>latest\<close> is the latest proposed block, \<open>safe\<close> the latest voted one, \<open>finalized\<close> the latest final one.
\<close>

definition at_mark ::
  "block_pointer \<Rightarrow> ('h, 't, 'l) block_buffer option \<Rightarrow> (('h, 't, 'l) block_buffer \<Rightarrow> u64) \<Rightarrow> block_pointer \<Rightarrow> bool" where
  "at_mark tip buf mark p \<longleftrightarrow>
     (case buf of
        None \<Rightarrow> p = tip
      | Some b \<Rightarrow> if bf_by_height b (mark b) = None then p = tip else pointer_number p = mark b)"

fun requested ::
  "('h \<Rightarrow> b256) \<Rightarrow> (block_pointer \<Rightarrow> 'h \<times> 'x) \<Rightarrow> (block_commit_state \<Rightarrow> block_pointer) \<Rightarrow>
   ('a, 'b, 'c) block_buffer option \<Rightarrow> block_tag_or_hash \<Rightarrow> block_pointer \<Rightarrow> bool" where
  "requested hash_of chain tip buf (BlockTags (TagNumber n)) p \<longleftrightarrow> pointer_number p = n"
| "requested hash_of chain tip buf (BlockTags Latest) p \<longleftrightarrow> at_mark (tip AtProposed) buf bf_proposed p"
| "requested hash_of chain tip buf (BlockTags Safe) p \<longleftrightarrow> at_mark (tip AtVoted) buf bf_voted p"
| "requested hash_of chain tip buf (BlockTags TagFinalized) p \<longleftrightarrow> at_mark (tip AtFinalized) buf bf_finalized p"
| "requested hash_of chain tip buf (HashRef h) p \<longleftrightarrow> hash_of (fst (chain p)) = h"

text \<open>The blocks of the buffer are blocks of the chain, under their numbers.\<close>

definition buffer_serves ::
  "('h, 't, 'r, 'wd) alloy \<Rightarrow> ('h, 't) rpc_alloy \<Rightarrow> (block_pointer \<Rightarrow> 'h \<times> 't tx_envelope_with_sender list) \<Rightarrow>
   ('h, 't, 'l) rpc_buffer \<Rightarrow> bool" where
  "buffer_serves A X chain b \<longleftrightarrow> (\<exists>number_of. buffer_ok number_of b) \<and>
     (\<forall>n blk. bf_by_height b n = Some blk \<longrightarrow> (\<exists>p. pointer_number p = n \<and> is_header A (chain p) (bb_header blk) \<and>
        map btx_hash (bb_transactions blk) = transaction_hashes A (chain p) \<and>
        full_transactions A X (chain p) (map btx_body (bb_transactions blk))))"

lemma buffer_block_requested:
  assumes "buffer_serves A X chain b" "resolve_block_height_from_buffer b block = Some n" "bf_by_height b n = Some blk"
  shows "\<exists>p. requested (al_hash_slow A) chain tip (Some b) block p \<and> is_header A (chain p) (bb_header blk) \<and>
    map btx_hash (bb_transactions blk) = transaction_hashes A (chain p) \<and>
    full_transactions A X (chain p) (map btx_body (bb_transactions blk))"
proof -
  from assms(1,3) obtain p where p: "pointer_number p = n" "is_header A (chain p) (bb_header blk)"
    "map btx_hash (bb_transactions blk) = transaction_hashes A (chain p)"
    "full_transactions A X (chain p) (map btx_body (bb_transactions blk))"
    unfolding buffer_serves_def by blast
  from assms(1) obtain number_of where ok: "buffer_ok number_of b" unfolding buffer_serves_def by blast
  have "requested (al_hash_slow A) chain tip (Some b) block p"
  proof (cases block)
    case (BlockTags t)
    with assms(2,3) p(1) show ?thesis by (cases t) (auto simp: at_mark_def)
  next
    case (HashRef h)
    with assms(2) obtain m blk' where m: "bf_height_by_hash b h = Some m" "bf_by_height b m = Some blk'"
      "n = bh_number (bb_header blk')"
      by (auto simp: get_block_by_hash_def bind_eq_Some_conv)
    with buffer_okD(1) [OF ok m(2)] assms(3) have "blk' = blk" by simp
    moreover have "block_at b m h" using buffer_okD(3) [OF ok] m(1) by simp
    ultimately have "bh_hash (bb_header blk) = h" using m(2) by (simp add: block_at_def)
    with HashRef p(2) show ?thesis by (simp add: is_header_def)
  qed
  with p show ?thesis by blast
qed

text \<open>A read by height: from the buffer when it holds the block, else from the rest.\<close>

lemma buffered_read_cases:
  assumes "or_next (from_buffer dp (at_height block (\<lambda>b height. map_option f (get_block_by_height b height)))) rest w = (r, w')"
  obtains (buffered) b n blk where "dp_buffer dp = Some b" "resolve_block_height_from_buffer b block = Some n"
      "bf_by_height b n = Some blk" "r = Inr (f blk)"
  | (rest) "rest w = (r, w')" "\<And>b n. dp_buffer dp = Some b \<Longrightarrow> resolve_block_height_from_buffer b block = Some n \<Longrightarrow>
      bf_by_height b n = None"
proof (cases "Option.bind (dp_buffer dp) (at_height block (\<lambda>b height. map_option f (get_block_by_height b height)))")
  case None
  with assms show ?thesis
    by (intro rest) (auto simp: or_next_def from_buffer_def io_bind_def at_height_def get_block_by_height_def)
next
  case (Some a)
  with assms buffered show ?thesis
    by (auto simp: or_next_def from_buffer_def io_bind_def at_height_def get_block_by_height_def bind_eq_Some_conv)
qed

text \<open>The historical sources of a provider answer for the block a request names, when the buffer does not hold it.\<close>

lemma historical_answers:
  assumes db: "triedb_serving I (al_hash_slow A) chain canon tip db"
    and ar: "\<And>a. ar = Some a \<Longrightarrow> archive_serving I (al_hash_slow A) chain a"
    and f: "\<And>s p. historical_source I (al_hash_slow A) chain s \<Longrightarrow> answers I (f s p) (Q p)"
    and absent: "\<And>b n. buf = Some b \<Longrightarrow> resolve_block_height_from_buffer b block = Some n \<Longrightarrow> bf_by_height b n = None"
  shows "answers I (stack_resolve_and_then (dp_historical (DataProvider_new buf db ar)) block f)
    (\<lambda>a. \<exists>p. requested (al_hash_slow A) chain tip buf block p \<and> Q p a)"
proof -
  let ?ss = "dp_historical (DataProvider_new buf db ar)"
  have each: "historical_source I (al_hash_slow A) chain s" if "s \<in> set ?ss" for s
    using that triedb_serving.triedb_is_source [OF db] archive_serving.archive_is_source [OF ar]
    by (auto simp: DataProvider_new_def split: option.splits)
  then have stack: "historical_stack I (al_hash_slow A) chain ?ss" by (rule historical_stack.intro)
  have ss: "?ss = TriedbDataSource db # map ArchiveDataSource (case ar of None \<Rightarrow> [] | Some a \<Rightarrow> [a])"
    by (simp add: DataProvider_new_def)
  have tagged: "answers I (stack_resolve_and_then ?ss block f) (\<lambda>a. \<exists>p. p = tip c \<and> Q p a)"
    if "try_resolve (TriedbDataSource db) block = triedb_resolve_commit_state db c" for c
    by (rule historical_stack.stack_head_answers [OF stack ss])
       (use that f each in \<open>auto intro: yields_mono [OF triedb_serving.resolve_state [OF db]]\<close>)
  have plain: "answers I (stack_resolve_and_then ?ss block f) (\<lambda>a. \<exists>p. names (al_hash_slow A) chain block p \<and> Q p a)"
    by (rule historical_stack.stack_answers [OF stack]) (use f each in auto)
  show ?thesis
  proof (cases block)
    case (BlockTags t)
    have mark: "at_mark t buf m p \<longleftrightarrow> p = t" if "\<And>b. buf = Some b \<Longrightarrow> bf_by_height b (m b) = None" for t m p
      using that by (cases buf) (auto simp: at_mark_def)
    show ?thesis
    proof (cases t)
      case (TagNumber n)
      with BlockTags plain show ?thesis by simp
    next
      case Latest
      with BlockTags tagged [of AtProposed] absent show ?thesis by (simp add: TriedbDataSource_def mark)
    next
      case Safe
      with BlockTags tagged [of AtVoted] absent show ?thesis by (simp add: TriedbDataSource_def mark)
    next
      case TagFinalized
      with BlockTags tagged [of AtFinalized] absent show ?thesis by (simp add: TriedbDataSource_def mark)
    qed
  qed (use plain in simp)
qed

lemma parse_block_content_is_block:
  assumes "hb_header d = fst b" "hb_transactions d = snd b"
    and "\<And>h. hb_header_hash_precomputed d = Some h \<Longrightarrow> h = al_hash_slow A (fst b)"
  shows "is_block A X full b (parse_block_content A X d full)"
proof -
  have "(case hb_header_hash_precomputed d of Some h \<Rightarrow> h | None \<Rightarrow> al_hash_slow A (fst b)) = al_hash_slow A (fst b)"
    using assms(3) by (simp split: option.split)
  with assms(1,2) show ?thesis
    by (auto simp: is_block_def is_header_def parse_block_content_def Let_def full_transactions_def transaction_hashes_def
        parse_tx_content_def nth_enumerate_eq split: prod.split)
qed

text \<open>
  C30: When the buffer, the execution database and the archive each hold blocks of one chain, every
  header and block that the provider returns is the one of a block that the request names: the
  number or the hash asked for, or for a tag the buffer's proposed, voted or final block, and the
  database's when the buffer does not hold it.  The block carries its own hash, computed or read, and its
  transactions in their order, as hashes or in full with their senders, places and block.
\<close>

theorem provider_answers_chain:
  assumes db: "triedb_serving I (al_hash_slow A) chain canon tip db"
    and ar: "\<And>a. ar = Some a \<Longrightarrow> archive_serving I (al_hash_slow A) chain a"
    and buffer: "\<And>b. buf = Some b \<Longrightarrow> buffer_serves A X chain b" and w: "I w"
    and header: "get_block_header (DataProvider_new buf db ar) block w = (rh, w1)"
    and block: "get_block A X (DataProvider_new buf db ar) block full w = (rb, w2)"
  shows "(\<forall>h. rh = Inr h \<longrightarrow> (\<exists>p. requested (al_hash_slow A) chain tip buf block p \<and> h = fst (chain p))) \<and>
    (\<forall>blk. rb = Inr blk \<longrightarrow> (\<exists>p. requested (al_hash_slow A) chain tip buf block p \<and> is_block A X full (chain p) blk))"
proof
  let ?dp = "DataProvider_new buf db ar"
  let ?n = "requested (al_hash_slow A) chain tip buf block"
  have dp: "dp_buffer ?dp = buf" by (simp add: DataProvider_new_def)
  note historical = historical_answers [OF db ar]
  from header [unfolded get_block_header_def]
  show "\<forall>h. rh = Inr h \<longrightarrow> (\<exists>p. ?n p \<and> h = fst (chain p))"
  proof (cases rule: buffered_read_cases)
    case (buffered b n blk)
    with buffer_block_requested [OF buffer, of b block n blk tip] dp show ?thesis by (auto simp: is_header_def)
  next
    case rest
    have "yields I (or_next (on_sources (stack_resolve_and_then (dp_historical ?dp) block
        (\<lambda>source pointer. ds_get_block_header source pointer))) not_found) (\<lambda>h. \<exists>p. ?n p \<and> h = fst (chain p))"
      unfolding on_sources_def
      by (intro yields_or_next yields_not_found yields_map_err historical historical_source.serves_header)
         (use rest(2) dp in auto)
    from yieldsD(2) [OF this w rest(1)] show ?thesis by blast
  qed
  from block [unfolded get_block_def]
  show "\<forall>blk. rb = Inr blk \<longrightarrow> (\<exists>p. ?n p \<and> is_block A X full (chain p) blk)"
  proof (cases rule: buffered_read_cases)
    case (buffered b n blk)
    with buffer_block_requested [OF buffer, of b block n blk tip] dp show ?thesis
      by (auto simp: is_block_def block_of_buffer_def)
  next
    case rest
    have "yields I (io_bind (or_next (on_sources (stack_resolve_and_then (dp_historical ?dp) block
        (\<lambda>source pointer. ds_get_block source pointer))) not_found)
        (\<lambda>result. io_lift (Inr (parse_block_content A X result full)))) (\<lambda>blk. \<exists>p. ?n p \<and> is_block A X full (chain p) blk)"
      unfolding on_sources_def
      by (rule yields_bind, rule yields_or_next, rule yields_map_err, rule historical, assumption,
          erule historical_source.serves_block, use rest(2) dp in simp, rule yields_not_found)
         (auto intro!: yields_lift parse_block_content_is_block)
    from yieldsD(2) [OF this w rest(1)] show ?thesis by blast
  qed
qed

section \<open>The archive fills the gaps of the database\<close>

text \<open>
  The database does not serve the block: it does not know the number, has no header for the key, or
  has the header without the transactions, as while it is being synchronised.
\<close>

definition db_lacks :: "('w, 'h, 't, 'r) triedb_env \<Rightarrow> u64 \<Rightarrow> 'w \<Rightarrow> 'w \<Rightarrow> bool" where
  "db_lacks db n w w' \<longleftrightarrow>
     te_block_key db n w = (None, w') \<or>
     (\<exists>w1. te_block_key db n w = (Some (KeyFinalized n), w1) \<and>
        (te_block_header db (KeyFinalized n) w1 = (Inr None, w') \<or>
         (\<exists>header e w2. te_block_header db (KeyFinalized n) w1 = (Inr (Some header), w2) \<and>
            te_transactions db (KeyFinalized n) w2 = (Inl e, w'))))"

lemma triedb_source_gap:
  assumes "db_lacks db n w w'"
  shows "(\<exists>w1. try_resolve (TriedbDataSource db) (BlockTags (TagNumber n)) w = (Inr (Some (PtrFinalized n)), w1) \<and>
      ds_get_block (TriedbDataSource db) (PtrFinalized n) w1 = (Inr None, w')) \<or>
    try_resolve (TriedbDataSource db) (BlockTags (TagNumber n)) w = (Inr None, w')"
  using assms
  by (auto simp: db_lacks_def TriedbDataSource_def triedb_resolve_number_def triedb_source_block_def
      triedb_err_def io_bind_def io_read_def io_map_err_def Let_def)

text \<open>
  C32: A block that the database does not serve, because it does not know the number, has dropped the
  header or is still synchronising the transactions, is answered from the archive with the archive's
  header and transactions, in either form.
\<close>

theorem archive_fills_gap:
  assumes gap: "db_lacks db n w w1"
    and archived: "ac_try_get_block_by_number ar n w1 = (Inr (Some blk), w2)"
  shows "get_block A X (DataProvider_new None db (Some ar)) (BlockTags (TagNumber n)) full w =
    (Inr (parse_block_content A X
       \<lparr>hb_header = blk_header blk, hb_header_hash_precomputed = None, hb_transactions = blk_transactions blk\<rparr> full), w2)"
proof -
  let ?t = "TriedbDataSource db" and ?a = "ArchiveDataSource ar" and ?b = "BlockTags (TagNumber n)"
  let ?f = "\<lambda>source pointer. ds_get_block source pointer"
  let ?d = "\<lparr>hb_header = blk_header blk, hb_header_hash_precomputed = None, hb_transactions = blk_transactions blk\<rparr>"
  have ask: "ds_get_block ?a (PtrFinalized n) w1 = (Inr (Some ?d), w2)"
    using archived
    by (simp add: ArchiveDataSource_def archive_source_block_def get_block_from_archive_def archive_err_def
        io_bind_def io_map_err_def)
  have "stack_resolve_and_then [?t, ?a] ?b ?f w = (Inr (Some ?d), w2)"
    using triedb_source_gap [OF gap]
  proof (elim disjE exE conjE)
    fix w0
    assume r: "try_resolve ?t ?b w = (Inr (Some (PtrFinalized n)), w0)"
      and g: "ds_get_block ?t (PtrFinalized n) w0 = (Inr None, w1)"
    have "unresolved [] ?b w w" by simp
    from stack_resolved [OF this r, of "[?a]" ?f] show ?thesis by (simp add: g ask)
  next
    assume r: "try_resolve ?t ?b w = (Inr None, w1)"
    then have "unresolved [?t] ?b w w1" by simp
    moreover have "try_resolve ?a ?b w1 = (Inr (Some (PtrFinalized n)), w1)" by (simp add: ArchiveDataSource_def)
    ultimately have "stack_resolve_and_then ([?t] @ ?a # []) ?b ?f w = execute_on_sources [?a] (\<lambda>s. ?f s (PtrFinalized n)) w1"
      by (rule stack_resolved)
    then show ?thesis by (simp add: ask)
  qed
  then show ?thesis
    by (simp add: get_block_def DataProvider_new_def from_buffer_def or_next_def on_sources_def io_map_err_def io_bind_def)
qed

section \<open>A sample node\<close>

text \<open>
  Headers and transactions are numbers.  The database knows the blocks up to 7 and a proposed block 8 and holds the
  content of these two only; the archive holds every block before 7.
\<close>

definition node_alloy :: "(u64, u64, u64 receipt_envelope, unit) alloy" where
  "node_alloy =
     \<lparr>al_number = (\<lambda>h. h), al_timestamp = (\<lambda>h. h), al_base_fee_per_gas = (\<lambda>h. Some 1),
      al_hash_slow = ucast, al_tx_hash = ucast, al_recover_signer = (\<lambda>t. Inr (ucast t)),
      al_logs_len = (\<lambda>r. length (re_logs r)), al_cumulative_gas_used = re_cumulative_gas_used,
      al_default_withdrawals = (), al_hex = (\<lambda>h. to_decimal (unat h)),
      al_encode_raw = (\<lambda>_. []), al_decode_raw = (\<lambda>_. eyre_err ''decode''),
      al_encode_block = (\<lambda>_. []), al_decode_block = (\<lambda>_. eyre_err ''decode''),
      al_encode_receipts0 = (\<lambda>_. []), al_decode_receipts0 = (\<lambda>_. eyre_err ''decode''),
      al_encode_receipts = (\<lambda>_. []), al_decode_receipts = (\<lambda>_. eyre_err ''decode''),
      al_encode_traces = (\<lambda>_. []), al_decode_traces = (\<lambda>_. eyre_err ''decode'')\<rparr>"

definition node_rpc_alloy :: "(u64, u64) rpc_alloy" where
  "node_rpc_alloy =
     \<lparr>rx_effective_gas_price = (\<lambda>t b. 10), rx_is_create = (\<lambda>t. t = 2), rx_nonce = (\<lambda>t. t), rx_to = (\<lambda>t. None),
      rx_create = (\<lambda>a n. a + ucast n), rx_header_length = (\<lambda>_. 500), rx_tx_length = (\<lambda>_. 100),
      rx_length_of_length = (\<lambda>n. if n < 56 then 1 else 2), rx_difficulty = (\<lambda>_. 0), rx_logs_bloom = (\<lambda>_. [])\<rparr>"

definition node_txs :: "u64 tx_envelope_with_sender list" where
  "node_txs = [\<lparr>tx_sender = 40, tx_envelope = 1\<rparr>, \<lparr>tx_sender = 41, tx_envelope = 2\<rparr>]"

definition node_receipts :: "u64 archived_receipt list" where
  "node_receipts =
     [\<lparr>rcp_receipt = \<lparr>re_type = Legacy, re_status = True, re_cumulative_gas_used = 21000, re_logs = [9],
        re_logs_bloom = []\<rparr>, rcp_starting_log_index = 0\<rparr>,
      \<lparr>rcp_receipt = \<lparr>re_type = Eip1559, re_status = True, re_cumulative_gas_used = 50000, re_logs = [8],
        re_logs_bloom = []\<rparr>, rcp_starting_log_index = 1\<rparr>]"

definition node_env :: "(unit, u64, u64, u64 receipt_envelope) triedb_env" where
  "node_env =
     \<lparr>te_latest_proposed = (\<lambda>w. (KeyProposed 8 80, w)), te_latest_voted = (\<lambda>w. (KeyFinalized 7, w)),
      te_latest_finalized = (\<lambda>w. (7, w)),
      te_block_key = (\<lambda>n w. (if n \<le> 7 then Some (KeyFinalized n) else None, w)),
      te_block_number_by_hash = (\<lambda>_ h w. (Inr (if h = 7 then Some 7 else None), w)),
      te_block_header = (\<lambda>k w. (Inr (if k = KeyFinalized 7 then Some \<lparr>eh_hash = 7, eh_header = 7\<rparr>
         else if k = KeyProposed 8 80 then Some \<lparr>eh_hash = 8, eh_header = 8\<rparr> else None), w)),
      te_transactions = (\<lambda>k w. (if k \<in> {KeyFinalized 7, KeyProposed 8 80} then Inr node_txs else Inl ''missing'', w)),
      te_transaction = (\<lambda>k i w. (Inr (if k = KeyFinalized 7 then try_get (unat i) node_txs else None), w)),
      te_receipts = (\<lambda>k w. (if k = KeyFinalized 7 then Inr node_receipts else Inl ''missing'', w)),
      te_receipt = (\<lambda>k i w. (Inr (if k = KeyFinalized 7 then try_get (unat i) node_receipts else None), w)),
      te_transaction_location = (\<lambda>_ h w. (Inr (if h = 2 then Some \<lparr>tl_tx_index = 1, tl_block_num = 7\<rparr> else None), w)),
      te_call_frames = (\<lambda>k w. (Inl ''missing'', w)), te_call_frame = (\<lambda>k i w. (Inr None, w))\<rparr>"

definition node_chain :: "block_pointer \<Rightarrow> u64 \<times> u64 tx_envelope_with_sender list" where
  "node_chain p = (pointer_number p, node_txs)"

definition node_block :: "u64 \<Rightarrow> (u64, u64, unit) block" where
  "node_block n = \<lparr>blk_header = n, blk_transactions = node_txs, blk_ommers = [], blk_withdrawals = None\<rparr>"

definition node_archive :: "(unit, u64, u64, u64 receipt_envelope, unit) archive_client" where
  "node_archive =
     \<lparr>ac_get_latest = (\<lambda>_ w. (Inr (Some 7), w)),
      ac_try_get_block_number_by_hash = (\<lambda>h w. (Inr (if h < 7 then Some (ucast h) else None), w)),
      ac_try_get_block_by_number = (\<lambda>n w. (Inr (if n < 7 then Some (node_block n) else None), w)),
      ac_try_get_block_by_hash = (\<lambda>h w. (Inr (if h < 7 then Some (node_block (ucast h)) else None), w)),
      ac_try_get_block_receipts = (\<lambda>n w. (Inr None, w)), ac_get_block_receipts = (\<lambda>n w. (eyre_err ''missing'', w)),
      ac_try_get_block_traces = (\<lambda>n w. (Inr None, w)), ac_get_tx_indexed_data = (\<lambda>h w. (Inr None, w)),
      ac_get_tx = (\<lambda>h w. (Inr None, w)), ac_get_trace = (\<lambda>h w. (Inr None, w)),
      ac_get_latest_indexed = (\<lambda>_ w. (Inr (Some 7), w))\<rparr>"

fun node_tip :: "block_commit_state \<Rightarrow> block_pointer" where
  "node_tip AtProposed = PtrNonFinalized 8 80"
| "node_tip _ = PtrFinalized 7"

interpretation node_triedb: triedb_serving "\<lambda>_. True" "al_hash_slow node_alloy" node_chain PtrFinalized node_tip node_env
  by unfold_locales (auto simp: yields_def node_env_def node_chain_def node_alloy_def split: if_splits)

lemma ucast_small_hash: "(h :: b256) < 7 \<Longrightarrow> ucast (ucast h :: u64) = h"
  by (simp add: word_unat_eq_iff word_less_nat_alt unsigned_ucast_eq unsigned_take_bit_eq take_bit_nat_eq_self)

interpretation node_archive: archive_serving "\<lambda>_. True" "al_hash_slow node_alloy" node_chain node_archive
  by unfold_locales
    (auto simp: yields_def node_archive_def node_chain_def node_alloy_def node_block_def ucast_small_hash split: if_splits)

interpretation node_stack: historical_stack "\<lambda>_. True" "al_hash_slow node_alloy" node_chain
  "dp_historical (DataProvider_new None node_env (Some node_archive))"
  by (rule historical_stack.intro)
     (auto simp: DataProvider_new_def node_triedb.triedb_is_source node_archive.archive_is_source)

lemma receipt_lookups_agree_witness:
  "\<exists>rs. get_block_receipts node_alloy node_rpc_alloy (DataProvider_new None node_env (Some node_archive))
      (BlockTags (TagNumber 7)) () = (Inr rs, ()) \<and>
    get_transaction_receipt node_alloy node_rpc_alloy (DataProvider_new None node_env (Some node_archive)) 2 () =
      (Inr (rs ! 1), ()) \<and> length rs = 2 \<and> sum_list (map tr_gas_used rs) = 50000"
proof -
  have holds: "db_holds (\<lambda>_. True) node_env (KeyFinalized 7) \<lparr>eh_hash = 7, eh_header = 7\<rparr> node_txs node_receipts"
    by (simp add: db_holds_def steady_def node_env_def)
  have len: "length node_txs = length node_receipts" by (simp add: node_txs_def node_receipts_def)
  have number: "al_number node_alloy (eh_header \<lparr>eh_hash = 7, eh_header = 7\<rparr>) = seq_num (KeyFinalized 7)"
    by (simp add: node_alloy_def)
  have key: "settled (\<lambda>_. True) (te_block_key node_env (seq_num (KeyFinalized 7))) (Some (KeyFinalized 7))"
    and latest: "settled (\<lambda>_. True) (te_latest_proposed node_env) (KeyProposed 8 80)"
    and loc: "steady (\<lambda>_. True) (te_transaction_location node_env (KeyProposed 8 80) 2)
      (Some \<lparr>tl_tx_index = 1, tl_block_num = seq_num (KeyFinalized 7)\<rparr>)"
    and i: "unat (1 :: u64) < length node_txs"
    by (simp_all add: settled_def steady_def node_env_def node_txs_def)
  have "length node_txs = 2" "re_cumulative_gas_used (rcp_receipt (last node_receipts)) = 50000"
    by (simp_all add: node_txs_def node_receipts_def)
  with receipt_lookups_agree [OF holds len number key latest loc i TrueI, of node_rpc_alloy "Some node_archive"]
  show ?thesis by auto
qed

lemma provider_answers_chain_witness:
  "\<exists>blk. get_block node_alloy node_rpc_alloy (DataProvider_new None node_env (Some node_archive)) (BlockTags Latest) True () =
      (Inr blk, ()) \<and> is_block node_alloy node_rpc_alloy True (node_chain (PtrNonFinalized 8 80)) blk"
proof -
  let ?dp = "DataProvider_new None node_env (Some node_archive)"
  let ?block = "BlockTags Latest"
  obtain rh w where h: "get_block_header ?dp ?block () = (rh, w)" by (metis surj_pair)
  obtain blk where b: "get_block node_alloy node_rpc_alloy ?dp ?block True () = (Inr blk, ())"
    by (simp add: get_block_def DataProvider_new_def from_buffer_def or_next_def on_sources_def io_map_err_def io_bind_def
        stack_resolve_and_then_def TriedbDataSource_def triedb_resolve_commit_state_def io_read_def node_env_def
        triedb_source_block_def triedb_err_def Let_def)
  have "\<forall>x. Inr blk = (Inr x :: chain_state_error fault + _) \<longrightarrow> (\<exists>p. requested (al_hash_slow node_alloy) node_chain node_tip
      (None :: (u64, u64, u64) rpc_buffer option) ?block p \<and> is_block node_alloy node_rpc_alloy True (node_chain p) x)"
    using provider_answers_chain [OF node_triedb.triedb_serving_axioms _ _ _ h b] node_archive.archive_serving_axioms by simp
  with b show ?thesis by (auto simp: at_mark_def)
qed

lemma archive_fills_gap_witness:
  "\<exists>blk. get_block node_alloy node_rpc_alloy (DataProvider_new None node_env (Some node_archive))
      (BlockTags (TagNumber 3)) False () = (Inr blk, ()) \<and> rb_transactions blk = Hashes [1, 2]"
proof -
  have "db_lacks node_env 3 () ()" by (simp add: db_lacks_def node_env_def)
  moreover have "ac_try_get_block_by_number node_archive 3 () = (Inr (Some (node_block 3)), ())"
    by (simp add: node_archive_def)
  ultimately show ?thesis
    using archive_fills_gap [of node_env 3 "()" "()" node_archive "node_block 3" "()" node_alloy node_rpc_alloy False]
    by (simp add: parse_block_content_def Let_def node_block_def node_txs_def node_alloy_def)
qed

end
