(* ===== verification/Gas_Estimate.thy ===== *)
theory Gas_Estimate
  imports Rpc_Json
begin

text \<open>
  Gas estimation and fee rewards in the RPC server (\<open>handlers/eth/gas.rs\<close>, with the call results of
  \<open>handlers/eth/mod.rs\<close>).  Executing a transaction is done by the execution client and building one
  by the code of \<open>CallRequest\<close> and the Alloy crates: both are functions of the environment, as is
  the floating-point test that ends the search early, so that what is proved holds whatever it
  answers.  Arithmetic on \<open>u64\<close> wraps.
\<close>

section \<open>Results of a call\<close>

datatype eth_call_result = CallOk | OutOfGas | ExecutionError | ReserveBalanceError | OtherError

record success_call =
  sc_gas_used :: u64
  sc_gas_refund :: u64
  sc_output_data :: bytes

record failure_call =
  fc_error_code :: eth_call_result
  fc_gas_used :: u64
  fc_gas_refund :: u64
  fc_message :: rust_string
  fc_data :: "rust_string option"

datatype call_result = CallSuccess success_call | CallFailure failure_call | CallRevert bytes

datatype eth_call_error =
    EthFailure failure_call
  | GasLimitTooHigh
  | EthInternalError
  | EthOther rust_string
  | ReserveBalanceViolation u64 u64
  | EthTrace bytes

definition other_failure :: "rust_string \<Rightarrow> failure_call" where
  "other_failure m =
     \<lparr>fc_error_code = OtherError, fc_gas_used = 0, fc_gas_refund = 0, fc_message = m, fc_data = None\<rparr>"

fun eth_call_error_into :: "eth_call_error \<Rightarrow> call_result" where
  "eth_call_error_into (EthFailure f) = CallFailure f"
| "eth_call_error_into GasLimitTooHigh = CallFailure (other_failure (lit ''gas limit too high''))"
| "eth_call_error_into EthInternalError = CallFailure (other_failure (lit ''internal eth_call error''))"
| "eth_call_error_into (EthOther m) = CallFailure (other_failure m)"
| "eth_call_error_into (ReserveBalanceViolation used refund) =
     CallFailure \<lparr>fc_error_code = ReserveBalanceError, fc_gas_used = used, fc_gas_refund = refund,
       fc_message = lit ''reserve balance violation'', fc_data = None\<rparr>"
| "eth_call_error_into (EthTrace trace) = CallRevert trace"

definition into_call_result :: "eth_call_error + success_call \<Rightarrow> call_result" where
  "into_call_result r = (case r of Inr s \<Rightarrow> CallSuccess s | Inl e \<Rightarrow> eth_call_error_into e)"

text \<open>Errors with data: the data is serialized as a JSON string.\<close>

definition with_message_and_data ::
  "(json \<Rightarrow> bytes) \<Rightarrow> error_code \<Rightarrow> rust_string \<Rightarrow> rust_string option \<Rightarrow> json_rpc_error" where
  "with_message_and_data T c m d =
     \<lparr>jre_code = error_code_code c, jre_message = m, jre_data = map_option (\<lambda>s. T (JStr s)) d\<rparr>"

definition failure_error :: "(json \<Rightarrow> bytes) \<Rightarrow> failure_call \<Rightarrow> json_rpc_error" where
  "failure_error T f =
     (case fc_error_code f of
        ExecutionError \<Rightarrow> with_message_and_data T ExecutionReverted (fc_message f) (fc_data f)
      | OutOfGas \<Rightarrow> with_message_and_data T InternalError (fc_message f) (fc_data f)
      | _ \<Rightarrow> with_message_and_data T ServerError (fc_message f) (fc_data f))"

section \<open>The search\<close>

record ('q, 'x) gas_env =
  ge_json :: "json \<Rightarrow> bytes"
  ge_build_tx :: "'q \<Rightarrow> b256 option \<Rightarrow> json_rpc_error + 'x"
  ge_gas_limit :: "'x \<Rightarrow> u64"
  ge_eth_call :: "'x \<Rightarrow> call_result"
  ge_close :: "u64 \<Rightarrow> u64 \<Rightarrow> bool"

definition CALL_STIPEND :: u64 where
  "CALL_STIPEND = 2300"

definition unexpected_result :: json_rpc_error where
  "unexpected_result = internal_error (lit ''Unexpected CallResult type'')"

text \<open>
  The binary search, where \<open>None\<close> is a loop that does not end.  \<open>ge_close\<close> is the comparison of
  \<open>(upper - lower) / upper\<close> with the error ratio.
\<close>

partial_function (option) gas_search ::
  "('q, 'x) gas_env \<Rightarrow> 'q \<Rightarrow> u64 \<Rightarrow> u64 \<Rightarrow> (json_rpc_error + u64) option" where
  [code]: "gas_search G req lower upper =
     (if upper - lower > 1 then
        if ge_close G lower upper then Some (Inr upper)
        else
          let mid = (upper + lower) div 2 in
          case ge_build_tx G req (Some (ucast mid)) of
            Inl e \<Rightarrow> Some (Inl e)
          | Inr txn \<Rightarrow>
              (case ge_eth_call G txn of
                 CallSuccess _ \<Rightarrow> gas_search G req lower mid
               | CallFailure _ \<Rightarrow> gas_search G req mid upper
               | CallRevert _ \<Rightarrow> Some (Inl unexpected_result))
      else Some (Inr upper))"

definition first_failure ::
  "('q, 'x) gas_env \<Rightarrow> b256 \<Rightarrow> u64 \<Rightarrow> u64 \<Rightarrow> failure_call \<Rightarrow> json_rpc_error" where
  "first_failure G original_tx_gas provider_gas_limit protocol_gas_limit f =
     (case fc_error_code f of
        OutOfGas \<Rightarrow>
          if provider_gas_limit < protocol_gas_limit \<and> ucast provider_gas_limit < original_tx_gas then
            with_message_and_data (ge_json G) TransactionRejected
              (lit ''provider-specified eth_estimateGas gas limit exceeded'') (fc_data f)
          else
            with_message_and_data (ge_json G) TransactionRejected
              (lit ''out of gas: gas required exceeds allowance'') (fc_data f)
      | _ \<Rightarrow> failure_error (ge_json G) f)"

text \<open>The bounds the search starts from.\<close>

definition search_bounds ::
  "('q, 'x) gas_env \<Rightarrow> u64 \<Rightarrow> u64 \<Rightarrow> 'x \<Rightarrow> json_rpc_error + u64 \<times> u64" where
  "search_bounds G gas_used upper txn =
     (if ge_gas_limit G txn < upper then
        case ge_eth_call G txn of
          CallSuccess s \<Rightarrow> Inr (sc_gas_used s - 1, ge_gas_limit G txn)
        | CallFailure _ \<Rightarrow> Inr (ge_gas_limit G txn, upper)
        | CallRevert _ \<Rightarrow> Inl unexpected_result
      else Inr (gas_used - 1, upper))"

definition first_gas :: "u64 \<Rightarrow> u64 \<Rightarrow> u64" where
  "first_gas gas_used gas_refund = (gas_used + gas_refund + CALL_STIPEND) * 64 div 63"

definition estimate_gas_with_builder ::
  "('q, 'x) gas_env \<Rightarrow> 'q \<Rightarrow> b256 option \<Rightarrow> b256 \<Rightarrow> u64 \<Rightarrow> u64 \<Rightarrow> (json_rpc_error + u64) option" where
  "estimate_gas_with_builder G req gas original_tx_gas provider_gas_limit protocol_gas_limit =
     (case ge_build_tx G req gas of
        Inl e \<Rightarrow> Some (Inl e)
      | Inr txn \<Rightarrow>
          (case ge_eth_call G txn of
             CallFailure f \<Rightarrow> Some (Inl (first_failure G original_tx_gas provider_gas_limit protocol_gas_limit f))
           | CallRevert _ \<Rightarrow> Some (Inl unexpected_result)
           | CallSuccess s \<Rightarrow>
               let upper = ge_gas_limit G txn in
               (case ge_build_tx G req (Some (ucast (first_gas (sc_gas_used s) (sc_gas_refund s)))) of
                  Inl e \<Rightarrow> Some (Inl e)
                | Inr txn2 \<Rightarrow>
                    (case search_bounds G (sc_gas_used s) upper txn2 of
                       Inl e \<Rightarrow> Some (Inl e)
                     | Inr (lower, upper') \<Rightarrow> gas_search G req lower upper'))))"

section \<open>The search ends, with a limit at which the call succeeds\<close>

text \<open>
  What is known of calls: a transaction built for a gas limit has that limit, and a call that
  succeeds uses some gas, no more than its limit, and limits are far below 2^63.
\<close>

definition gas_laws :: "('q, 'x) gas_env \<Rightarrow> 'q \<Rightarrow> bool" where
  "gas_laws G req \<longleftrightarrow>
     (\<forall>g txn. ge_build_tx G req (Some (ucast (g :: u64))) = Inr txn \<longrightarrow> ge_gas_limit G txn = g) \<and>
     (\<forall>gas txn. ge_build_tx G req gas = Inr txn \<longrightarrow>
        (\<forall>s. ge_eth_call G txn = CallSuccess s \<longrightarrow>
           0 < sc_gas_used s \<and> sc_gas_used s \<le> ge_gas_limit G txn \<and> ge_gas_limit G txn < 2 ^ 62))"

text \<open>A limit at which a transaction built from the request succeeds, and one at which it fails.\<close>

definition succeeds :: "('q, 'x) gas_env \<Rightarrow> 'q \<Rightarrow> u64 \<Rightarrow> bool" where
  "succeeds G req g \<longleftrightarrow>
     (\<exists>gas txn s. ge_build_tx G req gas = Inr txn \<and> ge_gas_limit G txn = g \<and> ge_eth_call G txn = CallSuccess s)"

definition fails :: "('q, 'x) gas_env \<Rightarrow> 'q \<Rightarrow> u64 \<Rightarrow> bool" where
  "fails G req g \<longleftrightarrow>
     (\<exists>gas txn f. ge_build_tx G req gas = Inr txn \<and> ge_gas_limit G txn = g \<and> ge_eth_call G txn = CallFailure f)"

text \<open>The lower bound: a limit that failed, or one less than the gas a successful call used.\<close>

definition insufficient :: "('q, 'x) gas_env \<Rightarrow> 'q \<Rightarrow> u64 \<Rightarrow> bool" where
  "insufficient G req g \<longleftrightarrow>
     fails G req g \<or>
     (\<exists>gas txn s. ge_build_tx G req gas = Inr txn \<and> ge_eth_call G txn = CallSuccess s \<and> g = sc_gas_used s - 1)"

definition good_estimate :: "('q, 'x) gas_env \<Rightarrow> 'q \<Rightarrow> u64 \<Rightarrow> u64 \<Rightarrow> bool" where
  "good_estimate G req limit g \<longleftrightarrow>
     succeeds G req g \<and> g \<le> limit \<and>
     (\<exists>lower. insufficient G req lower \<and> lower < g \<and> (g = lower + 1 \<or> ge_close G lower g))"

lemma gas_lawsD:
  assumes "gas_laws G req"
  shows "ge_build_tx G req (Some (ucast (g :: u64))) = Inr txn \<Longrightarrow> ge_gas_limit G txn = g"
    and "ge_build_tx G req gas = Inr txn \<Longrightarrow> ge_eth_call G txn = CallSuccess s \<Longrightarrow> 0 < sc_gas_used s"
    and "ge_build_tx G req gas = Inr txn \<Longrightarrow> ge_eth_call G txn = CallSuccess s \<Longrightarrow>
      sc_gas_used s \<le> ge_gas_limit G txn"
    and "ge_build_tx G req gas = Inr txn \<Longrightarrow> ge_eth_call G txn = CallSuccess s \<Longrightarrow> ge_gas_limit G txn < 2 ^ 62"
  using assms unfolding gas_laws_def by blast+

lemma mid_between:
  fixes l u :: u64
  assumes "l < u" "u < 2 ^ 62" "u - l > 1"
  shows "l < (u + l) div 2" "(u + l) div 2 < u"
proof -
  have lu: "unat l < unat u" "unat u < 2 ^ 62" using assms(1,2) by (simp_all add: word_less_nat_alt)
  have "unat (u - l) = unat u - unat l" using assms(1) by (simp add: unat_sub word_le_nat_alt less_imp_le word_less_nat_alt)
  then have "unat l + 2 \<le> unat u" using assms(3) lu by (simp add: word_less_nat_alt)
  moreover have "unat ((u + l) div 2) = (unat u + unat l) div 2"
    using lu by (simp add: unat_div unat_add_small)
  ultimately show "l < (u + l) div 2" "(u + l) div 2 < u"
    by (simp_all add: word_less_nat_alt)
qed

lemma adjacent:
  fixes l u :: u64
  assumes "l < u" "\<not> u - l > 1"
  shows "u = l + 1"
proof -
  have "u - l \<noteq> 0" using assms(1) by auto
  moreover have "u - l \<le> 1" using assms(2) by simp
  ultimately have "u - l = 1" by (metis antisym_conv1 linorder_not_less word_less_1)
  then show ?thesis by (metis diff_eq_eq add.commute)
qed

lemma gas_search_good:
  assumes "gas_laws G req"
  shows "insufficient G req lower \<Longrightarrow> succeeds G req upper \<Longrightarrow> lower < upper \<Longrightarrow> upper < 2 ^ 62 \<Longrightarrow>
    upper \<le> limit \<Longrightarrow>
    \<exists>r. gas_search G req lower upper = Some r \<and> (\<forall>g. r = Inr g \<longrightarrow> good_estimate G req limit g)"
proof (induction "unat upper - unat lower" arbitrary: lower upper rule: less_induct)
  case less
  show ?case
  proof (cases "upper - lower > 1 \<and> \<not> ge_close G lower upper")
    case False
    then have "gas_search G req lower upper = Some (Inr upper)"
      by (subst gas_search.simps) auto
    moreover have "upper = lower + 1 \<or> ge_close G lower upper"
      using False adjacent [OF less(4)] by auto
    ultimately show ?thesis using less by (auto simp: good_estimate_def)
  next
    case True
    let ?mid = "(upper + lower) div 2"
    have mid: "lower < ?mid" "?mid < upper" using mid_between [OF less(4,5)] True by auto
    then have measure: "unat ?mid - unat lower < unat upper - unat lower"
      "unat upper - unat ?mid < unat upper - unat lower"
      by (auto simp: word_less_nat_alt)
    have step: "gas_search G req lower upper =
        (case ge_build_tx G req (Some (ucast ?mid)) of
            Inl e \<Rightarrow> Some (Inl e)
          | Inr txn \<Rightarrow>
              (case ge_eth_call G txn of
                 CallSuccess _ \<Rightarrow> gas_search G req lower ?mid
               | CallFailure _ \<Rightarrow> gas_search G req ?mid upper
               | CallRevert _ \<Rightarrow> Some (Inl unexpected_result)))"
      using True by (subst gas_search.simps) (simp add: Let_def)
    show ?thesis
    proof (cases "ge_build_tx G req (Some (ucast ?mid))")
      case (Inr txn)
      note limit = gas_lawsD(1) [OF assms Inr]
      show ?thesis
      proof (cases "ge_eth_call G txn")
        case (CallSuccess s)
        then have "succeeds G req ?mid" using Inr limit by (auto simp: succeeds_def)
        with less.hyps [OF measure(1) less(2) this mid(1)] less(5,6) mid(2) show ?thesis
          by (simp add: step Inr CallSuccess)
      next
        case (CallFailure f)
        then have "insufficient G req ?mid" using Inr limit by (auto simp: insufficient_def fails_def)
        with less.hyps [OF measure(2) this less(3) mid(2) less(5,6)] show ?thesis
          by (simp add: step Inr CallFailure)
      qed (simp add: step Inr)
    qed (simp add: step)
  qed
qed

lemma used_below:
  assumes "gas_laws G req" "ge_build_tx G req gas = Inr txn" "ge_eth_call G txn = CallSuccess s"
  shows "sc_gas_used s - 1 < ge_gas_limit G txn" "insufficient G req (sc_gas_used s - 1)"
    "succeeds G req (ge_gas_limit G txn)" "ge_gas_limit G txn < 2 ^ 62"
proof -
  have "sc_gas_used s - 1 < sc_gas_used s"
    using gas_lawsD(2) [OF assms] by (simp add: word_less_nat_alt unat_minus_one unat_gt_0)
  also have "\<dots> \<le> ge_gas_limit G txn" using assms by (rule gas_lawsD(3))
  finally show "sc_gas_used s - 1 < ge_gas_limit G txn" .
  show "insufficient G req (sc_gas_used s - 1)" using assms by (auto simp: insufficient_def)
  show "succeeds G req (ge_gas_limit G txn)" using assms by (auto simp: succeeds_def)
  show "ge_gas_limit G txn < 2 ^ 62" using assms by (rule gas_lawsD(4))
qed

lemma search_bounds_good:
  assumes "gas_laws G req" "ge_build_tx G req gas = Inr txn" "ge_eth_call G txn = CallSuccess s"
    "ge_build_tx G req gas2 = Inr txn2"
    "search_bounds G (sc_gas_used s) (ge_gas_limit G txn) txn2 = Inr (lower, upper)"
  shows "insufficient G req lower \<and> succeeds G req upper \<and> lower < upper \<and> upper < 2 ^ 62 \<and>
    upper \<le> ge_gas_limit G txn"
proof (cases "ge_gas_limit G txn2 < ge_gas_limit G txn")
  case True
  show ?thesis
  proof (cases "ge_eth_call G txn2")
    case (CallSuccess s2)
    with True assms(5) used_below [OF assms(1,4) CallSuccess] show ?thesis
      by (auto simp: search_bounds_def)
  next
    case (CallFailure f)
    with assms(4) have "insufficient G req (ge_gas_limit G txn2)"
      by (auto simp: insufficient_def fails_def)
    with CallFailure True assms(5) used_below [OF assms(1,2,3)] show ?thesis
      by (auto simp: search_bounds_def)
  qed (use True assms(5) in \<open>simp add: search_bounds_def\<close>)
next
  case False
  with assms(5) used_below [OF assms(1,2,3)] show ?thesis by (auto simp: search_bounds_def)
qed

text \<open>
  C38: Estimating gas always returns.  When it returns a number, a transaction built from the request
  with that gas limit succeeds; the number is at most the limit of the request; and it is one
  more than a limit known to be insufficient, or within the accepted error ratio of one.  This
  holds when a transaction built for a gas limit has that limit, and a call that succeeds uses
  some gas and no more than its limit, which is below 2^62.
\<close>

theorem estimate_gas_correct:
  assumes "gas_laws G req"
  shows "\<exists>r. estimate_gas_with_builder G req gas original provider protocol = Some r \<and>
    (\<forall>g. r = Inr g \<longrightarrow>
      (\<exists>txn. ge_build_tx G req gas = Inr txn \<and> good_estimate G req (ge_gas_limit G txn) g))"
proof (cases "ge_build_tx G req gas")
  case (Inr txn)
  show ?thesis
  proof (cases "ge_eth_call G txn")
    case (CallSuccess s)
    let ?gas2 = "Some (ucast (first_gas (sc_gas_used s) (sc_gas_refund s)))"
    show ?thesis
    proof (cases "ge_build_tx G req ?gas2")
      case txn2: (Inr txn2)
      show ?thesis
      proof (cases "search_bounds G (sc_gas_used s) (ge_gas_limit G txn) txn2")
        case (Inr bounds)
        obtain lower upper where bounds: "bounds = (lower, upper)" by (cases bounds)
        note good = search_bounds_good [OF assms \<open>ge_build_tx G req gas = Inr txn\<close> CallSuccess txn2
          Inr [unfolded bounds]]
        from gas_search_good [OF assms, of lower upper "ge_gas_limit G txn"] good
        show ?thesis
          by (simp add: estimate_gas_with_builder_def \<open>ge_build_tx G req gas = Inr txn\<close> CallSuccess
            txn2 Inr bounds)
      qed (simp add: estimate_gas_with_builder_def Inr CallSuccess txn2)
    qed (simp add: estimate_gas_with_builder_def Inr CallSuccess)
  qed (simp_all add: estimate_gas_with_builder_def Inr)
qed (simp add: estimate_gas_with_builder_def)

text \<open>A request whose transaction is its gas limit and needs 21000 gas.\<close>

definition sample_gas_env :: "(unit, u64) gas_env" where
  "sample_gas_env =
     \<lparr>ge_json = to_string_json,
      ge_build_tx = \<lambda>_ gas. Inr (case gas of None \<Rightarrow> 30000000 | Some g \<Rightarrow> ucast g),
      ge_gas_limit = \<lambda>x. x,
      ge_eth_call = \<lambda>x.
        if 21000 \<le> x \<and> x < 2 ^ 62 then
          CallSuccess \<lparr>sc_gas_used = 21000, sc_gas_refund = 0, sc_output_data = []\<rparr>
        else CallFailure \<lparr>fc_error_code = OutOfGas, fc_gas_used = x, fc_gas_refund = 0, fc_message = [], fc_data = None\<rparr>,
      ge_close = \<lambda>lower upper. 1000 * unat (upper - lower) < 15 * unat upper\<rparr>"

theorem estimate_gas_correct_witness:
  "\<exists>r. estimate_gas_with_builder sample_gas_env () None 0 100000000 30000000 = Some r \<and>
    (\<forall>g. r = Inr g \<longrightarrow> good_estimate sample_gas_env () 30000000 g)"
proof -
  have "ucast (ucast g :: b256) = g" for g :: u64 by (simp add: ucast_up_ucast_id is_up)
  then have laws: "gas_laws sample_gas_env ()"
    by (auto simp: gas_laws_def sample_gas_env_def split: if_splits)
  show ?thesis
    using estimate_gas_correct [OF laws, of None 0 100000000 30000000]
    by (simp add: sample_gas_env_def)
qed

section \<open>Fee history rewards\<close>

text \<open>
  \<open>calculate_fee_history_rewards\<close> after the percentiles have been turned into gas thresholds (the
  floating-point \<open>(block_gas_used * pct / 100).round()\<close>); \<open>None\<close> is the panic of an index out of
  range, which needs fewer receipts than transactions.
\<close>

definition sorted_by_reward :: "(u64 \<times> nat) list \<Rightarrow> (u64 \<times> nat) list" where
  "sorted_by_reward = sort_key snd"

function advance_index :: "(u64 \<times> nat) list \<Rightarrow> nat \<Rightarrow> u64 \<Rightarrow> nat \<Rightarrow> u64 \<Rightarrow> (nat \<times> u64) option" where
  "advance_index rs n threshold idx cumulative =
     (if cumulative < threshold \<and> idx < n then
        if idx < length rs then advance_index rs n threshold (idx + 1) (cumulative + fst (rs ! idx)) else None
      else Some (idx, cumulative))"
  by auto
termination
  by (relation "measure (\<lambda>(rs, n, threshold, idx, cumulative). n - idx)") auto

declare advance_index.simps [simp del]

fun percentile_rewards ::
  "(u64 \<times> nat) list \<Rightarrow> nat \<Rightarrow> nat \<Rightarrow> u64 \<Rightarrow> u64 list \<Rightarrow> nat list option" where
  "percentile_rewards rs n idx cumulative [] = Some []"
| "percentile_rewards rs n idx cumulative (threshold # thresholds) =
     Option.bind (advance_index rs n threshold idx cumulative) (\<lambda>(idx', cumulative').
       let reward_idx = min idx' (n - 1) in
       if reward_idx < length rs then
         map_option (Cons (snd (rs ! reward_idx))) (percentile_rewards rs n idx' cumulative' thresholds)
       else None)"

definition calculate_fee_history_rewards ::
  "nat list \<Rightarrow> u64 list \<Rightarrow> u64 list option \<Rightarrow> nat list option" where
  "calculate_fee_history_rewards tips gas_used thresholds =
     (case thresholds of
        None \<Rightarrow> Some []
      | Some ts \<Rightarrow>
          if tips = [] then Some (replicate (length ts) 0)
          else percentile_rewards (sorted_by_reward (zip gas_used tips)) (length tips) 0 0 ts)"

text \<open>
  With two transactions of the same gas, the threshold of the fiftieth percentile is reached by the
  first, and the reward reported is that of the second.
\<close>

lemma percentile_reward_is_next:
  "calculate_fee_history_rewards [1, 10] [50, 50] (Some [50]) = Some [10]"
  by (simp add: calculate_fee_history_rewards_def sorted_by_reward_def advance_index.simps)

lemma percentile_rewards_total:
  "length rs = n \<Longrightarrow> 0 < n \<Longrightarrow> \<exists>rewards. percentile_rewards rs n idx cumulative ts = Some rewards \<and>
     length rewards = length ts \<and> set rewards \<subseteq> snd ` set rs"
proof (induction ts arbitrary: idx cumulative)
  case (Cons t ts)
  have "\<exists>x. advance_index rs n t i c = Some x" for i c
    using Cons.prems
    by (induction rs n t i c rule: advance_index.induct) (simp add: advance_index.simps)
  then obtain i c where adv: "advance_index rs n t idx cumulative = Some (i, c)" by (metis surj_pair)
  obtain rewards where "percentile_rewards rs n i c ts = Some rewards" "length rewards = length ts"
    "set rewards \<subseteq> snd ` set rs"
    using Cons by blast
  moreover have "min i (n - 1) < length rs" using Cons.prems by simp
  ultimately show ?case using adv by (auto intro!: imageI nth_mem)
qed simp

end
