(* ===== verification/Spec2Isabelle.thy ===== *)
theory Spec2Isabelle
  imports
    Trace_Tree
    Index_Guarantees
    Archive_Guarantees
    Index_Worker
    Archive_Facade
    Logs_Index
    Rpc_Handler
    Call_Tree
    Tx_Pool
    Block_Buffer
    Data_Provider
    Gas_Estimate
begin

text \<open>
  A verification library of the Monad services repository.

  \<^bold>\<open>The program.\<close>  Three groups of Rust crates serve the data of a chain.  The query index
  (\<open>monad-query-types\<close>, \<open>-schema\<close>, \<open>-store\<close>, \<open>-write\<close>, \<open>-cli\<close>) writes finalized blocks into two
  stores, one of rows and one of blobs, so that blocks, transactions, logs and traces can be read
  by id and by filter.  The archive (\<open>monad-archive\<close>) copies blocks, receipts and traces from an
  execution client into a key-value store, indexes their transactions and serves both through a
  reader with a fallback.  The RPC server (\<open>monad-rpc\<close>) answers JSON-RPC requests from the
  execution client, a buffer of recent blocks, the transaction pool and the archive.

  \<^bold>\<open>Conventions.\<close>  A \<open>w\<close>-bit integer is a \<open>w word\<close>; \<open>+\<close> and \<open>-\<close> wrap, as the release profile does not
  check overflow, and \<open>saturating_\<close> and \<open>checked_\<close> operations are those of \<open>Prelude\<close>.  \<open>Result\<close> is a sum
  with the error on the left, \<open>?\<close> is \<open>res_bind\<close>, and code with effects is a function from a world
  to a result and a world (\<open>io\<close>), with \<open>io_bind\<close> for sequencing.  A panic is an error value of its
  own (\<open>Crash\<close>), since the release profile aborts.  Futures that the code joins run in some order;
  where the order can matter it is an argument.  Traits are records of functions and their
  contracts are locales.  Code outside the repository (Alloy, \<open>serde_json\<close>, \<open>hex\<close>, roaring bitmaps, the
  execution client) is a record of functions with a predicate of what is relied on
  (\<open>externals_ok\<close>, \<open>alloy_laws\<close>, \<open>serde_json_laws\<close>, \<open>hex_laws\<close>, \<open>gas_laws\<close>); each predicate has an
  instance, so that no theorem is vacuous.

  \<^bold>\<open>Query index.\<close>
  \<^item> \<open>Prelude\<close>, \<open>Btree_Map\<close>, \<open>Query_Types\<close>: integers, results, byte and decimal codecs; Rust's \<open>Ord\<close>
    and \<open>BTreeMap\<close> with the locale \<open>comparator\<close>; errors and ids of \<open>monad-query-types\<close>.
  \<^item> \<open>Meta_Store\<close>, \<open>Meta_Contract\<close>, \<open>Blob_Store\<close>: the store traits (\<open>store/meta\<close>, \<open>store/blob\<close>) with their
    default methods and typed tables; the locales \<open>meta_schema\<close>, \<open>meta_store\<close>, \<open>meta_table\<close>,
    \<open>blob_store\<close>, \<open>partition_table\<close> and their extensions with stores that do not fail.
  \<^item> \<open>Families\<close>, \<open>Tables\<close>: the four families, filters and bitmap pages (\<open>family\<close>, \<open>bitmap.rs\<close>) and the
    tables (\<open>tables\<close>), each metadata schema an interpretation of \<open>meta_schema\<close>.
  \<^item> \<open>Writer\<close>: \<open>QueryWriter\<close> (\<open>monad-query-write\<close>): open, start, append, id assignment, and a flush as
    the payload, bitmap and metadata stages with the state row written last.
  \<^item> \<open>Chain\<close>, \<open>Query_Index\<close>: the abstract specification, what the stores of a chain's first \<open>n\<close>
    blocks hold (\<open>index_ok\<close>).  \<open>Payload_Groups\<close>, \<open>Writer_Stages\<close>, \<open>Payload_Stage\<close>, \<open>Bitmap_Stage\<close>,
    \<open>Writer_Correct\<close>: each stage refines it.  \<open>Writer_Run\<close>: runs of a process with failures and crashes as
    an inductive relation.  \<open>Index_Reads\<close>: what a reader finds.  \<open>Flush_Live\<close>: progress on stores that
    answer.  \<open>Index_Guarantees\<close> states the results.
  \<^item> \<open>In_Memory\<close>, \<open>Sample_Externals\<close>: the in-memory stores satisfy the store contracts; an instance of the
    external codecs and a sample chain for the witnesses.
  \<^item> \<open>Trace_Tree\<close>: child paths of call frames in the index command (\<open>cli/index/mod.rs\<close>).

  \<^bold>\<open>Archive.\<close>
  \<^item> \<open>Archive_Prelude\<close>, \<open>Alloy_Data\<close>: errors with context, the rule \<open>upholds\<close> for invariants of effectful
    code, blocks and codecs.
  \<^item> \<open>Rlp_Scanner\<close> (\<open>rlp_offset_scanner.rs\<close>): byte offsets of transactions, receipts and traces; the
    offsets are exact on well-formed encodings, and one malformed input makes the scan loop forever.
  \<^item> \<open>Circuit_Breaker\<close> (\<open>failover_circuit_breaker.rs\<close>): breaker and executor, their interleavings as a
    step relation, and a refinement of calls by steps.
  \<^item> \<open>Kv_Store\<close> (\<open>kvstore/mod.rs\<close>, \<open>memory.rs\<close>): the store traits, the locales \<open>kv_contract\<close>, \<open>atomic_kv\<close>,
    \<open>reliable_kv\<close> and the memory store.  \<open>Block_Archive\<close> (\<open>model/block_data_archive.rs\<close>): versioned
    representations, keys, reads and writes, and the contract \<open>chain_source\<close> of a block source.
    \<open>Triedb_Reader\<close>: the execution database as such a source.
  \<^item> \<open>Archive_Worker\<close>, \<open>Archive_Guarantees\<close> (\<open>bin/monad-archiver/block_archive_worker.rs\<close>): the archiver's loop;
    what is stored is only the chain's, the marker never passes a block that is missing, a turn on a
    working source and store reaches its end, and what was archived is read back.
  \<^item> \<open>Tx_Index\<close>, \<open>Index_Worker\<close> (\<open>model/index_repr.rs\<close>, \<open>tx_index_archive.rs\<close>,
    \<open>bin/monad-indexer/index_worker.rs\<close>): the transaction index, its round trips and lookups, and the indexer.
    \<open>Logs_Index\<close> (\<open>model/logs_index.rs\<close>): the documents of the log index and its query.
    \<open>Archive_Facade\<close> (\<open>archive_reader.rs\<close>): the reader with its fallback executors.

  \<^bold>\<open>RPC server.\<close>
  \<^item> \<open>Rpc_Text\<close> (\<open>types/ethhex.rs\<close>): strings with their UTF-8 bytes, hexadecimal encodings; the decoders
    accept exactly what the encoders write, up to case.
  \<^item> \<open>Rpc_Json\<close> (\<open>types/jsonrpc.rs\<close>, \<open>types/eth_json.rs\<close>, \<open>types/json_serialized_len.rs\<close>): messages, their JSON,
    and the trait of predicted lengths as the locale \<open>json_serialized_len\<close>, interpreted for each type.
  \<^item> \<open>Rpc_Handler\<close> (\<open>rpc_handler\<close> in \<open>handlers/mod.rs\<close>): single and batch requests under the limits; the early
    exit of a batch is equivalent to measuring the whole reply.
  \<^item> \<open>Call_Tree\<close> (\<open>handlers/debug.rs\<close>): stored call frames, the loop that rebuilds the call tree, log
    numbering, and the exact length of a trace.
  \<^item> \<open>Tx_Pool\<close> (\<open>txpool/state.rs\<close>): the status maps and the eviction queue, with every interleaving of the
    operations as an inductive relation and an invariant over it.
  \<^item> \<open>Block_Buffer\<close> (\<open>data/buffer\<close>): the ring of recent blocks with its three maps, and the view.
  \<^item> \<open>Data_Sources\<close> (\<open>data/source\<close>): the execution database and the archive behind one trait and the stack
    that asks them in turn; the contract \<open>historical_source\<close>, which \<open>TriedbDataSource\<close>, \<open>ArchiveDataSource\<close>
    and \<open>DataSourceStack\<close> honour as sublocales, and which an \<open>ArchiveReader\<close> honours whatever its breaker does.
  \<^item> \<open>Data_Provider\<close> (\<open>data/mod.rs\<close>): the reads of blocks, transactions, receipts and call frames over the
    buffer, the database and the archive; every answer is the chain's, the archive fills the gaps
    of the database, and the two ways to a receipt agree.
  \<^item> \<open>Gas_Estimate\<close> (\<open>handlers/eth/gas.rs\<close>): the binary search for a gas limit, which ends and returns a limit
    that suffices, and the percentile loop of the fee history.

  \<^bold>\<open>Loops.\<close>  Recursion is structural or has a measure.  Two loops of the program may not end and are
  partial functions into an option, where \<open>None\<close> is the loop that never returns: the list scan of
  \<open>Rlp_Scanner\<close>, which is shown to diverge on one input, and the search of \<open>Gas_Estimate\<close>, which is
  shown to return under \<open>gas_laws\<close>.  Workers that loop by design are modelled by their turns.

  \<^bold>\<open>Not modelled.\<close>  The RPC methods that translate arguments into calls of the execution client (\<open>eth_call\<close>,
  simulation, accounts, transactions), the collection of logs in the chain data provider, websocket subscriptions, middleware and
  the pool's socket task: I/O and glue over crates outside the repository.  The archive checker, the file
  archivers, migrations, and the clients of S3, DynamoDB, MongoDB and the file system: operational
  tools and drivers behind the modelled store interfaces; likewise the SQLite, RocksDB and S3 stores
  of the index and its validation command.  Command lines, metrics and logging.  Floating-point
  arithmetic: the ratio test of the gas search is an argument, the thresholds of the fee history
  are given.
\<close>

end
